(* ===== verification/Prelude.thy ===== *)
theory Prelude
  imports Main "HOL-Library.Word" "HOL-Library.Char_ord" "HOL-Library.List_Lexorder"
begin

text \<open>
  Shared vocabulary of the development: the collections of proof rules, bytes and Rust strings,
  checked and saturating machine arithmetic, the result type of fallible code, and the
  state-and-error operations with their weakest-precondition calculus.
\<close>

unbundle bit_operations_syntax

named_theorems wp \<open>equations that push a postcondition through an operation\<close>
named_theorems res \<open>case analysis of a successful or failed result\<close>

subsection \<open>Bytes, strings\<close>

type_synonym u8 = "8 word"
type_synonym u32 = "32 word"
type_synonym u64 = "64 word"

text \<open>
  A Rust \<open>String\<close> is its sequence of UTF-8 bytes; the model keeps those bytes as the characters
  of an Isabelle string, so that literals and byte offsets read as in the source.
\<close>

definition char_byte :: "char \<Rightarrow> u8" where
  "char_byte c = of_nat (of_char c)"

definition byte_char :: "u8 \<Rightarrow> char" where
  "byte_char b = char_of (unat b)"

definition as_bytes :: "string \<Rightarrow> u8 list" where
  "as_bytes s = map char_byte s"

definition bytes_string :: "u8 list \<Rightarrow> string" where
  "bytes_string bs = map byte_char bs"

lemma unat_byte_less [simp]: "unat (b :: u8) < 256"
  using unsigned_less [where ?'b = 8 and ?'a = nat, of b] by simp

lemma char_byte_char [simp]: "char_byte (byte_char b) = b"
  by (simp add: char_byte_def byte_char_def of_char_of)

lemma byte_char_byte [simp]: "byte_char (char_byte c) = c"
proof -
  have "of_char c mod 256 = (of_char c :: nat)" by (rule of_char_mod_256)
  then show ?thesis
    by (simp add: char_byte_def byte_char_def unsigned_of_nat take_bit_eq_mod)
qed

lemma char_byte_inj [simp]: "char_byte c = char_byte d \<longleftrightarrow> c = d"
  by (metis byte_char_byte)

lemma bytes_string_as_bytes [simp]: "bytes_string (as_bytes s) = s"
  by (simp add: bytes_string_def as_bytes_def comp_def)

lemma as_bytes_bytes_string [simp]: "as_bytes (bytes_string bs) = bs"
  by (simp add: bytes_string_def as_bytes_def comp_def)

lemma as_bytes_inj [simp]: "as_bytes s = as_bytes t \<longleftrightarrow> s = t"
  by (metis bytes_string_as_bytes)

lemma length_as_bytes [simp]: "length (as_bytes s) = length s"
  by (simp add: as_bytes_def)

lemma length_bytes_string [simp]: "length (bytes_string bs) = length bs"
  by (simp add: bytes_string_def)

lemma as_bytes_append [simp]: "as_bytes (s @ t) = as_bytes s @ as_bytes t"
  by (simp add: as_bytes_def)

lemma as_bytes_Nil [simp]: "as_bytes [] = []"
  by (simp add: as_bytes_def)

lemma as_bytes_Cons [simp]: "as_bytes (c # s) = char_byte c # as_bytes s"
  by (simp add: as_bytes_def)

subsection \<open>Machine integers as bounded naturals\<close>

text \<open>
  Lengths, counters and identifiers of type \<open>u32\<close>, \<open>u64\<close> and \<open>usize\<close> (64 bits) are natural
  numbers; the operations below write out the width where the source checks, saturates or wraps.
\<close>

definition u32_max :: nat where "u32_max = 4294967295"
definition u64_max :: nat where "u64_max = 18446744073709551615"

definition checked_add_u32 :: "nat \<Rightarrow> nat \<Rightarrow> nat option" where
  "checked_add_u32 a b = (if a + b \<le> u32_max then Some (a + b) else None)"

definition checked_add_u64 :: "nat \<Rightarrow> nat \<Rightarrow> nat option" where
  "checked_add_u64 a b = (if a + b \<le> u64_max then Some (a + b) else None)"

definition checked_mul_u64 :: "nat \<Rightarrow> nat \<Rightarrow> nat option" where
  "checked_mul_u64 a b = (if a * b \<le> u64_max then Some (a * b) else None)"

definition checked_sub :: "nat \<Rightarrow> nat \<Rightarrow> nat option" where
  "checked_sub a b = (if b \<le> a then Some (a - b) else None)"

definition saturating_add_u32 :: "nat \<Rightarrow> nat \<Rightarrow> nat" where
  "saturating_add_u32 a b = min (a + b) u32_max"

definition saturating_add_u64 :: "nat \<Rightarrow> nat \<Rightarrow> nat" where
  "saturating_add_u64 a b = min (a + b) u64_max"

definition saturating_mul_u64 :: "nat \<Rightarrow> nat \<Rightarrow> nat" where
  "saturating_mul_u64 a b = min (a * b) u64_max"

text \<open>An unchecked \<open>+\<close> or \<open>*\<close> of \<open>usize\<close>, as a release build computes it.\<close>

definition wrap_u64 :: "nat \<Rightarrow> nat" where
  "wrap_u64 n = n mod 2 ^ 64"

lemma wrap_u64_id: "n \<le> u64_max \<Longrightarrow> wrap_u64 n = n"
  by (simp add: wrap_u64_def u64_max_def)

lemma wrap_u64_nested:
  "wrap_u64 (wrap_u64 a * wrap_u64 b) = wrap_u64 (a * b)"
  "wrap_u64 (wrap_u64 a + b) = wrap_u64 (a + b)"
  by (simp_all add: wrap_u64_def mod_simps)

lemmas checked_defs = checked_add_u32_def checked_add_u64_def checked_mul_u64_def checked_sub_def
lemmas saturating_defs = saturating_add_u32_def saturating_add_u64_def saturating_mul_u64_def

text \<open>\<open>u32::is_power_of_two\<close>\<close>

fun power_of_two_upto :: "nat \<Rightarrow> nat \<Rightarrow> bool" where
  "power_of_two_upto 0 n = (n = 1)"
| "power_of_two_upto (Suc k) n = (n = 1 \<or> (even n \<and> n \<noteq> 0 \<and> power_of_two_upto k (n div 2)))"

definition is_power_of_two :: "nat \<Rightarrow> bool" where
  "is_power_of_two n = power_of_two_upto 64 n"

lemma is_power_of_two_pos: "is_power_of_two n \<Longrightarrow> 0 < n"
proof (rule ccontr)
  assume p: "is_power_of_two n" and "\<not> 0 < n"
  then have "power_of_two_upto 64 0" by (simp add: is_power_of_two_def)
  moreover have "\<not> power_of_two_upto k 0" for k by (induction k) auto
  ultimately show False by blast
qed

lemma is_power_of_two_even: "is_power_of_two n \<Longrightarrow> n \<noteq> 1 \<Longrightarrow> even n"
proof -
  have "power_of_two_upto k n \<Longrightarrow> n \<noteq> 1 \<Longrightarrow> even n" for k
    by (cases k) auto
  then show "is_power_of_two n \<Longrightarrow> n \<noteq> 1 \<Longrightarrow> even n" unfolding is_power_of_two_def by blast
qed

end
