(* ===== verification/Philox.thy ===== *)
theory Philox
  imports Prelude
begin

text \<open>
  The counter-based generator of \<open>crates/infer-engine/src/philox.rs\<close> on 32-bit words, and that for
  every key it is a bijection of the counters.
\<close>

definition philox_m0 :: u32 where "philox_m0 = 0xD2511F53"
definition philox_m1 :: u32 where "philox_m1 = 0xCD9E8D57"
definition philox_w0 :: u32 where "philox_w0 = 0x9E3779B9"
definition philox_w1 :: u32 where "philox_w1 = 0xBB67AE85"

type_synonym philox_counter = "u32 \<times> u32 \<times> u32 \<times> u32"
type_synonym philox_key = "u32 \<times> u32"

definition mulhilo :: "u32 \<Rightarrow> u32 \<Rightarrow> u32 \<times> u32" where
  "mulhilo a b =
    (let product = (ucast a :: u64) * ucast b in (ucast (drop_bit 32 product), ucast product))"

definition philox_round :: "philox_counter \<times> philox_key \<Rightarrow> philox_counter \<times> philox_key" where
  "philox_round = (\<lambda>((c0, c1, c2, c3), (k0, k1)).
    (let (hi0, lo0) = mulhilo philox_m0 c0;
         (hi1, lo1) = mulhilo philox_m1 c2
     in (((hi1 XOR c1) XOR k0, lo1, (hi0 XOR c3) XOR k1, lo0), (k0 + philox_w0, k1 + philox_w1))))"

definition philox4x32_10 :: "philox_counter \<Rightarrow> philox_key \<Rightarrow> philox_counter" where
  "philox4x32_10 counter key = fst ((philox_round ^^ 10) (counter, key))"

definition philox_u32 :: "u64 \<Rightarrow> u64 \<Rightarrow> u32 \<Rightarrow> u32" where
  "philox_u32 seed stream step =
    (let key = (ucast seed, ucast (drop_bit 32 seed));
         counter = (step, ucast stream, ucast (drop_bit 32 stream), 0)
     in fst (philox4x32_10 counter key))"

subsection \<open>The bijection\<close>

lemma unat_u32_less: "unat (a :: u32) < 4294967296"
  using unsigned_less [where ?'b = 32 and ?'a = nat, of a] by simp

lemma mulhilo_lo: "snd (mulhilo a b) = a * b"
proof (rule word_unat_eq_iff [THEN iffD2])
  have "unat a < 18446744073709551616" "unat b < 18446744073709551616"
    using unat_u32_less [of a] unat_u32_less [of b] by linarith+
  then have "unat a mod 18446744073709551616 = unat a" "unat b mod 18446744073709551616 = unat b"
    by (simp_all only: mod_less)
  then show "unat (snd (mulhilo a b)) = unat (a * b)"
    by (simp add: mulhilo_def Let_def unat_word_ariths unsigned_ucast_eq take_bit_eq_mod mod_mod_cancel)
qed

lemma philox_m_inverse: "2568649947 * philox_m0 = 1" "1836887655 * philox_m1 = 1"
  by (simp_all add: philox_m0_def philox_m1_def)

lemma mulhilo_inj:
  assumes "i * m = (1 :: u32)" and "snd (mulhilo m a) = snd (mulhilo m b)"
  shows "a = b"
proof -
  have "i * (m * a) = i * (m * b)" using assms(2) by (simp add: mulhilo_lo)
  then show ?thesis using assms(1) by (simp add: mult.assoc [symmetric])
qed

lemma xor_right_inj: "(x XOR a) XOR k = (x XOR b) XOR k \<longleftrightarrow> a = b" for x a b k :: u32
  by (auto simp: bit_eq_iff bit_xor_iff)

lemma philox_round_inj: "inj philox_round"
proof (rule injI)
  fix x y assume eq: "philox_round x = philox_round y"
  obtain a0 a1 a2 a3 k0 k1 where x: "x = ((a0, a1, a2, a3), (k0, k1))" by (cases x) auto
  obtain b0 b1 b2 b3 l0 l1 where y: "y = ((b0, b1, b2, b3), (l0, l1))" by (cases y) auto
  have "snd (mulhilo philox_m0 a0) = snd (mulhilo philox_m0 b0)"
      "snd (mulhilo philox_m1 a2) = snd (mulhilo philox_m1 b2)"
    using eq by (simp_all add: philox_round_def x y Let_def split: prod.splits)
  then have "a0 = b0" "a2 = b2"
    using mulhilo_inj [OF philox_m_inverse(1)] mulhilo_inj [OF philox_m_inverse(2)] by blast+
  moreover have "k0 = l0" "k1 = l1"
    using eq by (simp_all add: philox_round_def x y Let_def split: prod.splits)
  ultimately show "x = y"
    using eq by (auto simp: philox_round_def x y Let_def xor_right_inj split: prod.splits)
qed

lemma philox_round_key: "snd (philox_round x) = (fst (snd x) + philox_w0, snd (snd x) + philox_w1)"
  by (cases x) (auto simp: philox_round_def Let_def split: prod.splits)

lemma philox_rounds_key: "snd x = snd y \<Longrightarrow> snd ((philox_round ^^ n) x) = snd ((philox_round ^^ n) y)"
  by (induction n) (simp_all add: philox_round_key)

lemma inj_philox: "inj (\<lambda>counter. philox4x32_10 counter key)"
proof (rule injI)
  fix c d assume "philox4x32_10 c key = philox4x32_10 d key"
  then have "(philox_round ^^ 10) (c, key) = (philox_round ^^ 10) (d, key)"
    using philox_rounds_key [of "(c, key)" "(d, key)" 10] by (simp add: philox4x32_10_def prod_eq_iff)
  then show "c = d"
    using inj_fn [OF philox_round_inj, of 10] by (auto dest: injD)
qed

lemma bij_philox: "bij (\<lambda>counter. philox4x32_10 counter key)"
  using inj_philox [of key] by (simp add: bij_def finite_UNIV_inj_surj)

text \<open>The known answer of the all-zero counter and key.\<close>

lemma funpow_10: "(f ^^ 10) x = f (f (f (f (f (f (f (f (f (f x)))))))))"
  by (simp add: eval_nat_numeral)

lemma philox_known_answer:
  "philox4x32_10 (0, 0, 0, 0) (0, 0) = (0x6627E8D5, 0xE169C58D, 0xBC57AC4C, 0x9B00DBD8)"
proof -
  note defs = philox_round_def mulhilo_def philox_m0_def philox_m1_def philox_w0_def philox_w1_def
  have r0: "philox_round ((0, 0, 0, 0), (0, 0)) = ((0, 0, 0, 0), (0x9E3779B9, 0xBB67AE85))"
    by (simp add: defs)
  have r1: "philox_round ((0, 0, 0, 0), (0x9E3779B9, 0xBB67AE85)) = ((0x9E3779B9, 0, 0xBB67AE85, 0), (0x3C6EF372, 0x76CF5D0A))"
    by (simp add: defs)
  have r2: "philox_round ((0x9E3779B9, 0, 0xBB67AE85, 0), (0x3C6EF372, 0x76CF5D0A)) = ((0xAAE8EB44, 0x2719033, 0xF734F9C9, 0x4942DDFB), (0xDAA66D2B, 0x32370B8F))"
    by (simp add: defs)
  have r3: "philox_round ((0xAAE8EB44, 0x2719033, 0xF734F9C9, 0x4942DDFB), (0xDAA66D2B, 0x32370B8F)) = ((0x1E597A2C, 0x4FA2984F, 0xF71CEFED, 0xD685830C), (0x78DDE6E4, 0xED9EBA14))"
    by (simp add: defs)
  have r4: "philox_round ((0x1E597A2C, 0x4FA2984F, 0xF71CEFED, 0xD685830C), (0x78DDE6E4, 0xED9EBA14)) = ((0xF10446C0, 0xC841128B, 0x23F43D26, 0x6CB9F044), (0x1715609D, 0xA9066899))"
    by (simp add: defs)
  have r5: "philox_round ((0xF10446C0, 0xC841128B, 0x23F43D26, 0x6CB9F044), (0x1715609D, 0xA9066899)) = ((0xC3B4AB98, 0xE922B5EA, 0x3BE793C, 0x8BB43040), (0xB54CDA56, 0x646E171E))"
    by (simp add: defs)
  have r6: "philox_round ((0xC3B4AB98, 0xE922B5EA, 0x3BE793C, 0x8BB43040), (0xB54CDA56, 0x646E171E)) = ((0x5F6FB709, 0xD893F64, 0x4F121F81, 0x4F730A48), (0x5384540F, 0x1FD5C5A3))"
    by (simp add: defs)
  have r7: "philox_round ((0x5F6FB709, 0xD893F64, 0x4F121F81, 0x4F730A48), (0x5384540F, 0x1FD5C5A3)) = ((0x618F177A, 0x9920C1D7, 0x1EC12DC0, 0xC43B6EEB), (0xF1BBCDC8, 0xDB3D7428))"
    by (simp add: defs)
  have r8: "philox_round ((0x618F177A, 0x9920C1D7, 0x1EC12DC0, 0xC43B6EEB), (0xF1BBCDC8, 0xDB3D7428)) = ((0x7028B1C8, 0xD6594C40, 0x4F2051BB, 0x76D6628E), (0x8FF34781, 0x96A522AD))"
    by (simp add: defs)
  have r9: "philox_round ((0x7028B1C8, 0xD6594C40, 0x4F2051BB, 0x76D6628E), (0x8FF34781, 0x96A522AD)) = ((0x6627E8D5, 0xE169C58D, 0xBC57AC4C, 0x9B00DBD8), (0x2E2AC13A, 0x520CD132))"
    by (simp add: defs)
  have "(philox_round ^^ 10) ((0, 0, 0, 0), (0, 0)) = ((0x6627E8D5, 0xE169C58D, 0xBC57AC4C, 0x9B00DBD8), (0x2E2AC13A, 0x520CD132))"
    by (simp only: funpow_10 r0 r1 r2 r3 r4 r5 r6 r7 r8 r9)
  then show ?thesis by (simp add: philox4x32_10_def)
qed

end
