(* ===== verification/Failure.thy ===== *)
theory Failure
  imports Prelude
begin

text \<open>
  The stable failure codes and the failure value of \<open>crates/infer-contracts/src/error.rs\<close>, and
  the two shapes of fallible code built on them: a result \<open>infer_failure + 'a\<close>
  (\<open>Result<T, InferFailure>\<close>), and an operation on a state that returns a result together with
  the state it leaves behind, on failure too (\<open>fn (&mut self) -> Result<T, InferFailure>\<close>).
\<close>

subsection \<open>Codes\<close>

datatype error_code =
    CanonicalCborInvalid
  | ContractInvalid
  | DigestInvalid
  | ModelImageInvalid
  | ModelImageSignatureInvalid
  | ModelArtifactMissing
  | ModelDigestMismatch
  | TokenizerInvalid
  | TemplateInvalid
  | UnsupportedArchitecture
  | UnsupportedQuantization
  | UnsupportedKernel
  | PlacementUnsatisfiable
  | InsufficientMemory
  | ContextLimitExceeded
  | PromptCompilationFailed
  | ReceiptRequired
  | ReceiptPersistFailed
  | WorkerStartFailed
  | WorkerLost
  | CudaOom
  | CudaFault
  | RequestCancelled
  | RequestTimeout
  | ServiceDraining
  | ServiceUnloaded
  | BackendNotAllowed
  | ReplayEnvironmentMismatch
  | ReplayOutputMismatch

definition error_code_all :: "error_code list" where
  "error_code_all =
    [CanonicalCborInvalid, ContractInvalid, DigestInvalid, ModelImageInvalid,
     ModelImageSignatureInvalid, ModelArtifactMissing, ModelDigestMismatch, TokenizerInvalid,
     TemplateInvalid, UnsupportedArchitecture, UnsupportedQuantization, UnsupportedKernel,
     PlacementUnsatisfiable, InsufficientMemory, ContextLimitExceeded, PromptCompilationFailed,
     ReceiptRequired, ReceiptPersistFailed, WorkerStartFailed, WorkerLost, CudaOom, CudaFault,
     RequestCancelled, RequestTimeout, ServiceDraining, ServiceUnloaded, BackendNotAllowed,
     ReplayEnvironmentMismatch, ReplayOutputMismatch]"

fun code_as_str :: "error_code \<Rightarrow> string" where
  "code_as_str CanonicalCborInvalid = ''CANONICAL_CBOR_INVALID''"
| "code_as_str ContractInvalid = ''CONTRACT_INVALID''"
| "code_as_str DigestInvalid = ''DIGEST_INVALID''"
| "code_as_str ModelImageInvalid = ''MODEL_IMAGE_INVALID''"
| "code_as_str ModelImageSignatureInvalid = ''MODEL_IMAGE_SIGNATURE_INVALID''"
| "code_as_str ModelArtifactMissing = ''MODEL_ARTIFACT_MISSING''"
| "code_as_str ModelDigestMismatch = ''MODEL_DIGEST_MISMATCH''"
| "code_as_str TokenizerInvalid = ''TOKENIZER_INVALID''"
| "code_as_str TemplateInvalid = ''TEMPLATE_INVALID''"
| "code_as_str UnsupportedArchitecture = ''UNSUPPORTED_ARCHITECTURE''"
| "code_as_str UnsupportedQuantization = ''UNSUPPORTED_QUANTIZATION''"
| "code_as_str UnsupportedKernel = ''UNSUPPORTED_KERNEL''"
| "code_as_str PlacementUnsatisfiable = ''PLACEMENT_UNSATISFIABLE''"
| "code_as_str InsufficientMemory = ''INSUFFICIENT_MEMORY''"
| "code_as_str ContextLimitExceeded = ''CONTEXT_LIMIT_EXCEEDED''"
| "code_as_str PromptCompilationFailed = ''PROMPT_COMPILATION_FAILED''"
| "code_as_str ReceiptRequired = ''RECEIPT_REQUIRED''"
| "code_as_str ReceiptPersistFailed = ''RECEIPT_PERSIST_FAILED''"
| "code_as_str WorkerStartFailed = ''WORKER_START_FAILED''"
| "code_as_str WorkerLost = ''WORKER_LOST''"
| "code_as_str CudaOom = ''CUDA_OOM''"
| "code_as_str CudaFault = ''CUDA_FAULT''"
| "code_as_str RequestCancelled = ''REQUEST_CANCELLED''"
| "code_as_str RequestTimeout = ''REQUEST_TIMEOUT''"
| "code_as_str ServiceDraining = ''SERVICE_DRAINING''"
| "code_as_str ServiceUnloaded = ''SERVICE_UNLOADED''"
| "code_as_str BackendNotAllowed = ''BACKEND_NOT_ALLOWED''"
| "code_as_str ReplayEnvironmentMismatch = ''REPLAY_ENVIRONMENT_MISMATCH''"
| "code_as_str ReplayOutputMismatch = ''REPLAY_OUTPUT_MISMATCH''"

definition code_parse :: "string \<Rightarrow> error_code option" where
  "code_parse value = find (\<lambda>c. code_as_str c = value) error_code_all"

definition code_retryable :: "error_code \<Rightarrow> bool" where
  "code_retryable c \<longleftrightarrow> (case c of
      InsufficientMemory \<Rightarrow> True
    | ReceiptPersistFailed \<Rightarrow> True
    | WorkerStartFailed \<Rightarrow> True
    | WorkerLost \<Rightarrow> True
    | CudaOom \<Rightarrow> True
    | RequestTimeout \<Rightarrow> True
    | ServiceDraining \<Rightarrow> True
    | _ \<Rightarrow> False)"

lemma error_code_all_complete: "c \<in> set error_code_all"
  by (cases c) (simp_all add: error_code_all_def)

lemma code_parse_as_str: "code_parse (code_as_str c) = Some c"
  by (cases c) (simp_all add: code_parse_def error_code_all_def)

lemma code_parse_sound: "code_parse s = Some c \<Longrightarrow> s = code_as_str c"
  by (auto simp: code_parse_def find_Some_iff)

lemma code_as_str_inj: "code_as_str c = code_as_str d \<Longrightarrow> c = d"
  by (metis code_parse_as_str option.inject)

subsection \<open>Failures\<close>

record infer_failure =
  code :: error_code
  message :: string
  retryable :: bool
  request_id :: "string option"
  attempt :: "nat option"
  partial_receipt_root :: "string option"

definition fail :: "error_code \<Rightarrow> string \<Rightarrow> infer_failure" where
  "fail c m = \<lparr>code = c, message = m, retryable = code_retryable c, request_id = None,
     attempt = None, partial_receipt_root = None\<rparr>"

lemma code_fail [simp]: "code (fail c m) = c"
  by (simp add: fail_def)

lemma message_fail [simp]: "message (fail c m) = m"
  by (simp add: fail_def)

lemma retryable_fail [simp]: "retryable (fail c m) = code_retryable c"
  by (simp add: fail_def)

lemma fail_eq [simp]: "fail c m = fail c' m' \<longleftrightarrow> c = c' \<and> m = m'"
  by (auto simp: fail_def)

subsection \<open>Results\<close>

type_synonym 'a res = "infer_failure + 'a"

definition rbind :: "'a res \<Rightarrow> ('a \<Rightarrow> 'b res) \<Rightarrow> 'b res" where
  "rbind m f = (case m of Inl e \<Rightarrow> Inl e | Inr a \<Rightarrow> f a)"

definition ensure :: "bool \<Rightarrow> error_code \<Rightarrow> string \<Rightarrow> unit res" where
  "ensure b c m = (if b then Inr () else Inl (fail c m))"

definition ok_or :: "'a option \<Rightarrow> error_code \<Rightarrow> string \<Rightarrow> 'a res" where
  "ok_or x c m = (case x of None \<Rightarrow> Inl (fail c m) | Some a \<Rightarrow> Inr a)"

definition is_ok :: "'a res \<Rightarrow> bool" where
  "is_ok r \<longleftrightarrow> (case r of Inl _ \<Rightarrow> False | Inr _ \<Rightarrow> True)"

lemma rbind_simps [simp]:
  "rbind (Inl e) f = Inl e"
  "rbind (Inr a) f = f a"
  by (simp_all add: rbind_def)

lemma rbind_cong [fundef_cong]:
  "m = m' \<Longrightarrow> (\<And>a. m' = Inr a \<Longrightarrow> f a = f' a) \<Longrightarrow> rbind m f = rbind m' f'"
  by (cases m') simp_all

lemma rbind_Inr [res]: "rbind m f = Inr b \<longleftrightarrow> (\<exists>a. m = Inr a \<and> f a = Inr b)"
  by (cases m) simp_all

lemma rbind_Inl [res]:
  "rbind m f = Inl e \<longleftrightarrow> m = Inl e \<or> (\<exists>a. m = Inr a \<and> f a = Inl e)"
  by (cases m) simp_all

lemma ensure_simps [simp]:
  "ensure True c m = Inr ()"
  "ensure False c m = Inl (fail c m)"
  by (simp_all add: ensure_def)

lemma ensure_Inr [res]: "ensure b c m = Inr u \<longleftrightarrow> b"
  by (cases b) simp_all

lemma ensure_Inl [res]: "ensure b c m = Inl e \<longleftrightarrow> \<not> b \<and> e = fail c m"
  by (cases b) auto

lemma ok_or_simps [simp]:
  "ok_or None c m = Inl (fail c m)"
  "ok_or (Some a) c m = Inr a"
  by (simp_all add: ok_or_def)

lemma ok_or_Inr [res]: "ok_or x c m = Inr a \<longleftrightarrow> x = Some a"
  by (cases x) simp_all

lemma ok_or_Inl [res]: "ok_or x c m = Inl e \<longleftrightarrow> x = None \<and> e = fail c m"
  by (cases x) auto

lemma if_Inl_Inr:
  "(if b then Inl e else r) = Inr a \<longleftrightarrow> \<not> b \<and> r = Inr a"
  "(if b then r else Inl e) = Inr a \<longleftrightarrow> b \<and> r = Inr a"
  by auto

lemma is_ok_simps [simp]: "is_ok (Inr a)" "\<not> is_ok (Inl e)"
  by (simp_all add: is_ok_def)

lemma is_ok_iff: "is_ok r \<longleftrightarrow> (\<exists>a. r = Inr a)"
  by (cases r) auto

text \<open>The error of a result, when it has one.\<close>

definition err_code :: "'a res \<Rightarrow> error_code option" where
  "err_code r = (case r of Inl e \<Rightarrow> Some (code e) | Inr _ \<Rightarrow> None)"

lemma err_code_simps [simp]: "err_code (Inl e) = Some (code e)" "err_code (Inr a) = None"
  by (simp_all add: err_code_def)

text \<open>\<open>iter().map(f).collect::<Result<Vec<_>, _>>()\<close>: the first error, or every value.\<close>

fun rmap :: "('a \<Rightarrow> 'b res) \<Rightarrow> 'a list \<Rightarrow> 'b list res" where
  "rmap f [] = Inr []"
| "rmap f (x # xs) = rbind (f x) (\<lambda>y. rbind (rmap f xs) (\<lambda>ys. Inr (y # ys)))"

lemma rmap_Inr: "rmap f xs = Inr ys \<longleftrightarrow> list_all2 (\<lambda>x y. f x = Inr y) xs ys"
proof (induction xs arbitrary: ys)
  case (Cons x xs)
  then show ?case by (cases ys) (auto simp: res)
qed auto

lemma rmap_map_Inr: "(\<And>x. x \<in> set xs \<Longrightarrow> f (g x) = Inr x) \<Longrightarrow> rmap f (map g xs) = Inr xs"
  by (induction xs) simp_all

subsection \<open>Operations on a state\<close>

type_synonym ('s, 'a) op = "'s \<Rightarrow> 'a res \<times> 's"

definition op_return :: "'a \<Rightarrow> ('s, 'a) op" where
  "op_return a s = (Inr a, s)"

definition op_throw :: "infer_failure \<Rightarrow> ('s, 'a) op" where
  "op_throw e s = (Inl e, s)"

definition op_lift :: "'a res \<Rightarrow> ('s, 'a) op" where
  "op_lift r s = (r, s)"

definition op_bind :: "('s, 'a) op \<Rightarrow> ('a \<Rightarrow> ('s, 'b) op) \<Rightarrow> ('s, 'b) op" where
  "op_bind m f s = (case m s of (Inl e, s') \<Rightarrow> (Inl e, s') | (Inr a, s') \<Rightarrow> f a s')"

definition op_gets :: "('s \<Rightarrow> 'a) \<Rightarrow> ('s, 'a) op" where
  "op_gets f s = (Inr (f s), s)"

definition op_getr :: "('s \<Rightarrow> 'a res) \<Rightarrow> ('s, 'a) op" where
  "op_getr f s = (f s, s)"

definition op_modify :: "('s \<Rightarrow> 's) \<Rightarrow> ('s, unit) op" where
  "op_modify f s = (Inr (), f s)"

definition op_try :: "('s, 'a) op \<Rightarrow> ('s, 'a res) op" where
  "op_try m s = (case m s of (r, s') \<Rightarrow> (Inr r, s'))"

definition op_seq :: "('s, unit) op \<Rightarrow> ('s, 'b) op \<Rightarrow> ('s, 'b) op" where
  "op_seq m n = op_bind m (\<lambda>_. n)"

definition op_when :: "bool \<Rightarrow> ('s, unit) op \<Rightarrow> ('s, unit) op" where
  "op_when b m = (if b then m else op_return ())"

lemma op_bind_cong [fundef_cong]:
  "m s = m' s \<Longrightarrow> (\<And>a s'. m' s = (Inr a, s') \<Longrightarrow> f a s' = f' a s') \<Longrightarrow> s = t \<Longrightarrow>
   op_bind m f s = op_bind m' f' t"
  by (auto simp: op_bind_def split: prod.splits sum.splits)

subsubsection \<open>Weakest preconditions\<close>

text \<open>
  \<open>op_wp m Q E s\<close>: run from \<open>s\<close>, the operation \<open>m\<close> ends in a value and state satisfying \<open>Q\<close>,
  or in a failure and state satisfying \<open>E\<close>. The collection \<open>wp\<close> computes it on any composition.
\<close>

definition op_wp ::
  "('s, 'a) op \<Rightarrow> ('a \<Rightarrow> 's \<Rightarrow> bool) \<Rightarrow> (infer_failure \<Rightarrow> 's \<Rightarrow> bool) \<Rightarrow> 's \<Rightarrow> bool" where
  "op_wp m Q E s \<longleftrightarrow> (case m s of (Inl e, s') \<Rightarrow> E e s' | (Inr a, s') \<Rightarrow> Q a s')"

lemma op_wp_return [wp]: "op_wp (op_return a) Q E s \<longleftrightarrow> Q a s"
  by (simp add: op_wp_def op_return_def)

lemma op_wp_throw [wp]: "op_wp (op_throw e) Q E s \<longleftrightarrow> E e s"
  by (simp add: op_wp_def op_throw_def)

lemma op_wp_lift_Inr [wp]: "op_wp (op_lift (Inr a)) Q E s \<longleftrightarrow> Q a s"
  by (simp add: op_wp_def op_lift_def)

lemma op_wp_lift_Inl [wp]: "op_wp (op_lift (Inl e)) Q E s \<longleftrightarrow> E e s"
  by (simp add: op_wp_def op_lift_def)

lemma op_wp_lift: "op_wp (op_lift r) Q E s \<longleftrightarrow> (case r of Inl e \<Rightarrow> E e s | Inr a \<Rightarrow> Q a s)"
  by (simp add: op_wp_def op_lift_def)

lemma op_wp_bind [wp]: "op_wp (op_bind m f) Q E s \<longleftrightarrow> op_wp m (\<lambda>a. op_wp (f a) Q E) E s"
  by (auto simp: op_wp_def op_bind_def split: prod.splits sum.splits)

lemma op_wp_seq [wp]: "op_wp (op_seq m n) Q E s \<longleftrightarrow> op_wp m (\<lambda>_. op_wp n Q E) E s"
  by (simp add: op_seq_def wp)

lemma op_wp_seq_fun: "op_wp (op_seq m n) Q E = op_wp m (\<lambda>_. op_wp n Q E) E"
  by (simp add: fun_eq_iff wp)

lemma op_wp_gets [wp]: "op_wp (op_gets f) Q E s \<longleftrightarrow> Q (f s) s"
  by (simp add: op_wp_def op_gets_def)

lemma op_wp_getr [wp]:
  "op_wp (op_getr f) Q E s \<longleftrightarrow> (\<forall>e. f s = Inl e \<longrightarrow> E e s) \<and> (\<forall>a. f s = Inr a \<longrightarrow> Q a s)"
  by (auto simp: op_wp_def op_getr_def split: sum.splits)

lemma op_wp_modify [wp]: "op_wp (op_modify f) Q E s \<longleftrightarrow> Q () (f s)"
  by (simp add: op_wp_def op_modify_def)

lemma op_wp_try [wp]: "op_wp (op_try m) Q E s \<longleftrightarrow> op_wp m (\<lambda>a. Q (Inr a)) (\<lambda>e. Q (Inl e)) s"
  by (auto simp: op_wp_def op_try_def split: prod.splits sum.splits)

lemma op_wp_when [wp]: "op_wp (op_when b m) Q E s \<longleftrightarrow> (if b then op_wp m Q E s else Q () s)"
  by (simp add: op_when_def wp)

lemma op_wp_if [wp]: "op_wp (if b then m else n) Q E s \<longleftrightarrow> (if b then op_wp m Q E s else op_wp n Q E s)"
  by simp

lemma op_wp_mono:
  "op_wp m Q E s \<Longrightarrow> (\<And>a t. Q a t \<Longrightarrow> Q' a t) \<Longrightarrow> (\<And>e t. E e t \<Longrightarrow> E' e t) \<Longrightarrow> op_wp m Q' E' s"
  by (auto simp: op_wp_def split: prod.splits sum.splits)

lemma op_wp_conj:
  "op_wp m Q E s \<Longrightarrow> op_wp m Q' E' s \<Longrightarrow>
   op_wp m (\<lambda>a t. Q a t \<and> Q' a t) (\<lambda>e t. E e t \<and> E' e t) s"
  by (auto simp: op_wp_def split: prod.splits sum.splits)

lemma op_wpD_Inr: "op_wp m Q E s \<Longrightarrow> m s = (Inr a, t) \<Longrightarrow> Q a t"
  by (simp add: op_wp_def)

lemma op_wpD_Inl: "op_wp m Q E s \<Longrightarrow> m s = (Inl e, t) \<Longrightarrow> E e t"
  by (simp add: op_wp_def)

lemma op_wpI:
  "(\<And>a t. m s = (Inr a, t) \<Longrightarrow> Q a t) \<Longrightarrow> (\<And>e t. m s = (Inl e, t) \<Longrightarrow> E e t) \<Longrightarrow> op_wp m Q E s"
  by (auto simp: op_wp_def split: prod.splits sum.splits)

end
