(* ===== verification/Utf8.thy ===== *)
theory Utf8
  imports Prelude
begin

text \<open>
  What the source uses of Rust strings beyond their bytes: UTF-8 validity, the Unicode scalar
  values of a string (\<open>chars()\<close>), the ASCII predicates, splitting, and the text forms of numbers.
\<close>

subsection \<open>Validity (\<open>std::str::from_utf8\<close>)\<close>

definition utf8_cont :: "u8 \<Rightarrow> bool" where
  "utf8_cont b \<longleftrightarrow> 0x80 \<le> b \<and> b \<le> 0xBF"

definition utf8_two :: "u8 \<Rightarrow> u8 \<Rightarrow> bool" where
  "utf8_two a b \<longleftrightarrow> 0xC2 \<le> a \<and> a \<le> 0xDF \<and> utf8_cont b"

definition utf8_three :: "u8 \<Rightarrow> u8 \<Rightarrow> u8 \<Rightarrow> bool" where
  "utf8_three a b c \<longleftrightarrow> utf8_cont c \<and>
     (a = 0xE0 \<and> 0xA0 \<le> b \<and> b \<le> 0xBF
      \<or> 0xE1 \<le> a \<and> a \<le> 0xEC \<and> utf8_cont b
      \<or> a = 0xED \<and> 0x80 \<le> b \<and> b \<le> 0x9F
      \<or> 0xEE \<le> a \<and> a \<le> 0xEF \<and> utf8_cont b)"

definition utf8_four :: "u8 \<Rightarrow> u8 \<Rightarrow> u8 \<Rightarrow> u8 \<Rightarrow> bool" where
  "utf8_four a b c d \<longleftrightarrow> utf8_cont c \<and> utf8_cont d \<and>
     (a = 0xF0 \<and> 0x90 \<le> b \<and> b \<le> 0xBF
      \<or> 0xF1 \<le> a \<and> a \<le> 0xF3 \<and> utf8_cont b
      \<or> a = 0xF4 \<and> 0x80 \<le> b \<and> b \<le> 0x8F)"

fun valid_utf8 :: "u8 list \<Rightarrow> bool" where
  "valid_utf8 [] = True"
| "valid_utf8 (a # bs) =
    (if a < 0x80 then valid_utf8 bs
     else case bs of
       [] \<Rightarrow> False
     | b # cs \<Rightarrow>
        if utf8_two a b then valid_utf8 cs
        else (case cs of
          [] \<Rightarrow> False
        | c # ds \<Rightarrow>
           if utf8_three a b c then valid_utf8 ds
           else (case ds of [] \<Rightarrow> False | d # es \<Rightarrow> utf8_four a b c d \<and> valid_utf8 es)))"

definition from_utf8 :: "u8 list \<Rightarrow> string option" where
  "from_utf8 bs = (if valid_utf8 bs then Some (bytes_string bs) else None)"

definition utf8_string :: "string \<Rightarrow> bool" where
  "utf8_string s \<longleftrightarrow> valid_utf8 (as_bytes s)"

lemma from_utf8_Some: "from_utf8 bs = Some s \<longleftrightarrow> bs = as_bytes s \<and> utf8_string s"
  by (auto simp: from_utf8_def utf8_string_def)

lemma from_utf8_as_bytes: "utf8_string s \<Longrightarrow> from_utf8 (as_bytes s) = Some s"
  by (simp add: from_utf8_Some)

lemma utf8_string_Nil [simp]: "utf8_string []"
  by (simp add: utf8_string_def)

lemma valid_utf8_ascii: "\<forall>b \<in> set bs. b < 0x80 \<Longrightarrow> valid_utf8 bs"
  by (induction bs) auto

subsection \<open>Scalar values\<close>

definition utf8_bits :: "u8 \<Rightarrow> nat" where
  "utf8_bits b = unat b mod 64"

fun scalars :: "u8 list \<Rightarrow> nat list" where
  "scalars [] = []"
| "scalars (a # bs) =
    (if a < 0x80 then unat a # scalars bs
     else case bs of
       [] \<Rightarrow> []
     | b # cs \<Rightarrow>
        if utf8_two a b then (unat a mod 32 * 64 + utf8_bits b) # scalars cs
        else (case cs of
          [] \<Rightarrow> []
        | c # ds \<Rightarrow>
           if utf8_three a b c
           then (unat a mod 16 * 4096 + utf8_bits b * 64 + utf8_bits c) # scalars ds
           else (case ds of
             [] \<Rightarrow> []
           | d # es \<Rightarrow>
              (unat a mod 8 * 262144 + utf8_bits b * 4096 + utf8_bits c * 64 + utf8_bits d)
              # scalars es)))"

definition chars :: "string \<Rightarrow> nat list" where
  "chars s = scalars (as_bytes s)"

text \<open>\<open>char::is_control\<close>: the general category Cc.\<close>

definition is_control :: "nat \<Rightarrow> bool" where
  "is_control c \<longleftrightarrow> c < 0x20 \<or> 0x7F \<le> c \<and> c < 0xA0"

subsection \<open>ASCII\<close>

definition is_ascii :: "char \<Rightarrow> bool" where
  "is_ascii c \<longleftrightarrow> (of_char c :: nat) < 128"

definition is_ascii_digit :: "char \<Rightarrow> bool" where
  "is_ascii_digit c \<longleftrightarrow> 48 \<le> (of_char c :: nat) \<and> (of_char c :: nat) \<le> 57"

definition is_ascii_lowercase :: "char \<Rightarrow> bool" where
  "is_ascii_lowercase c \<longleftrightarrow> 97 \<le> (of_char c :: nat) \<and> (of_char c :: nat) \<le> 122"

definition is_ascii_uppercase :: "char \<Rightarrow> bool" where
  "is_ascii_uppercase c \<longleftrightarrow> 65 \<le> (of_char c :: nat) \<and> (of_char c :: nat) \<le> 90"

definition is_ascii_alphabetic :: "char \<Rightarrow> bool" where
  "is_ascii_alphabetic c \<longleftrightarrow> is_ascii_lowercase c \<or> is_ascii_uppercase c"

definition is_ascii_alphanumeric :: "char \<Rightarrow> bool" where
  "is_ascii_alphanumeric c \<longleftrightarrow> is_ascii_alphabetic c \<or> is_ascii_digit c"

definition is_ascii_hexdigit :: "char \<Rightarrow> bool" where
  "is_ascii_hexdigit c \<longleftrightarrow> is_ascii_digit c
     \<or> 97 \<le> (of_char c :: nat) \<and> (of_char c :: nat) \<le> 102
     \<or> 65 \<le> (of_char c :: nat) \<and> (of_char c :: nat) \<le> 70"

lemmas ascii_defs = is_ascii_def is_ascii_digit_def is_ascii_lowercase_def is_ascii_uppercase_def
  is_ascii_alphabetic_def is_ascii_alphanumeric_def is_ascii_hexdigit_def

lemma ascii_classes:
  "is_ascii_digit c \<Longrightarrow> is_ascii c"
  "is_ascii_lowercase c \<Longrightarrow> is_ascii c"
  "is_ascii_alphanumeric c \<Longrightarrow> is_ascii c"
  "is_ascii_hexdigit c \<Longrightarrow> is_ascii c"
  by (auto simp: ascii_defs)

lemma unat_char_byte [simp]: "unat (char_byte c) = of_char c"
proof -
  have "of_char c mod 256 = (of_char c :: nat)" by (rule of_char_mod_256)
  then show ?thesis by (simp add: char_byte_def unsigned_of_nat take_bit_eq_mod)
qed

lemma utf8_string_ascii: "\<forall>c \<in> set s. is_ascii c \<Longrightarrow> utf8_string s"
  unfolding utf8_string_def
  by (rule valid_utf8_ascii) (auto simp: as_bytes_def is_ascii_def word_less_nat_alt)

subsection \<open>Prefixes and segments\<close>

text \<open>\<open>str::strip_prefix\<close>\<close>

fun strip_prefix :: "string \<Rightarrow> string \<Rightarrow> string option" where
  "strip_prefix [] s = Some s"
| "strip_prefix (p # ps) [] = None"
| "strip_prefix (p # ps) (c # cs) = (if p = c then strip_prefix ps cs else None)"

lemma strip_prefix_Some: "strip_prefix p s = Some r \<longleftrightarrow> s = p @ r"
  by (induction p s rule: strip_prefix.induct) auto

text \<open>\<open>str::split(ch)\<close>: at least one segment.\<close>

fun split_on :: "char \<Rightarrow> string \<Rightarrow> string list" where
  "split_on ch [] = [[]]"
| "split_on ch (c # cs) =
    (if c = ch then [] # split_on ch cs
     else case split_on ch cs of [] \<Rightarrow> [[c]] | seg # segs \<Rightarrow> (c # seg) # segs)"

lemma split_on_nonempty [simp]: "split_on ch s \<noteq> []"
  by (induction s) (auto split: list.splits)

subsection \<open>Truncation and numbers\<close>

text \<open>\<open>chars().take(n).collect()\<close> on the bytes: a continuation byte belongs to the character before it.\<close>

fun take_chars :: "nat \<Rightarrow> string \<Rightarrow> string" where
  "take_chars n [] = []"
| "take_chars n (c # cs) =
    (if utf8_cont (char_byte c) then c # take_chars n cs
     else if n = 0 then []
     else c # take_chars (n - 1) cs)"

text \<open>\<open>Display\<close> of an unsigned integer.\<close>

fun dec_str :: "nat \<Rightarrow> string" where
  "dec_str n = (if n < 10 then [char_of (48 + n)] else dec_str (n div 10) @ [char_of (48 + n mod 10)])"

declare dec_str.simps [simp del]

subsection \<open>Order of strings\<close>

text \<open>The order of strings is the order of their bytes, which \<open>BTreeMap<String, _>\<close> uses.\<close>

lemma char_byte_less [simp]: "char_byte c < char_byte d \<longleftrightarrow> c < d"
  by (simp add: word_less_nat_alt less_char_def)

lemma as_bytes_less [simp]: "as_bytes s < as_bytes t \<longleftrightarrow> s < t"
proof (induction s arbitrary: t)
  case Nil
  show ?case by (cases t) simp_all
next
  case (Cons c s)
  then show ?case by (cases t) simp_all
qed

lemma as_bytes_le [simp]: "as_bytes s \<le> as_bytes t \<longleftrightarrow> s \<le> t"
  by (simp add: order.order_iff_strict)

end
