(* ===== verification/Cbor.thy ===== *)
theory Cbor
  imports Failure Utf8
begin

text \<open>
  Definite-length canonical CBOR: \<open>crates/infer-contracts/src/cbor.rs\<close>. The value type, the
  encoder, the offset-carrying decoder with its limits, and \<open>decode_canonical\<close>. The lemmas
  characterise the decoder completely: it accepts exactly the encodings of well-formed values.
\<close>

subsection \<open>Values and limits\<close>

datatype cbor_value =
    CNull
  | CBool bool
  | CInteger int
  | CBytes "u8 list"
  | CText string
  | CArray "cbor_value list"
  | CMap "(string \<times> cbor_value) list"

definition max_document_bytes :: nat where "max_document_bytes = 32 * 1024 * 1024"
definition max_depth :: nat where "max_depth = 32"
definition max_items :: nat where "max_items = 1048576"

definition i128_min_cbor :: int where "i128_min_cbor = - (2 ^ 64)"
definition i128_max_cbor :: int where "i128_max_cbor = 2 ^ 64 - 1"

definition integer_in_cbor_range :: "int \<Rightarrow> bool" where
  "integer_in_cbor_range n \<longleftrightarrow> i128_min_cbor \<le> n \<and> n \<le> i128_max_cbor"

fun as_map :: "cbor_value \<Rightarrow> (string \<times> cbor_value) list res" where
  "as_map (CMap entries) = Inr entries"
| "as_map _ = Inl (fail ContractInvalid ''expected a CBOR map'')"

fun as_array :: "cbor_value \<Rightarrow> cbor_value list res" where
  "as_array (CArray items) = Inr items"
| "as_array _ = Inl (fail ContractInvalid ''expected a CBOR array'')"

subsection \<open>Encoder\<close>

text \<open>\<open>to_be_bytes\<close> of a \<open>width\<close>-byte integer: the most significant byte first, each truncated.\<close>

fun be_bytes :: "nat \<Rightarrow> nat \<Rightarrow> u8 list" where
  "be_bytes 0 n = []"
| "be_bytes (Suc w) n = be_bytes w (n div 256) @ [of_nat n]"

definition encode_length :: "u8 \<Rightarrow> nat \<Rightarrow> u8 list" where
  "encode_length major len =
    (let head = push_bit 5 major in
     if len < 24 then [head OR of_nat len]
     else if len \<le> 0xff then [head OR 24, of_nat len]
     else if len \<le> 0xffff then [head OR 25, of_nat (drop_bit 8 len), of_nat len]
     else if len \<le> 0xffffffff then (head OR 26) # be_bytes 4 len
     else (head OR 27) # be_bytes 8 len)"

definition encode_integer :: "int \<Rightarrow> u8 list" where
  "encode_integer n = (if 0 \<le> n then encode_length 0 (nat n) else encode_length 1 (nat (-1 - n)))"

definition encode_text :: "string \<Rightarrow> u8 list" where
  "encode_text t = encode_length 3 (length (as_bytes t)) @ as_bytes t"

fun encode :: "cbor_value \<Rightarrow> u8 list" where
  "encode CNull = [0xf6]"
| "encode (CBool True) = [0xf5]"
| "encode (CBool False) = [0xf4]"
| "encode (CInteger n) = encode_integer n"
| "encode (CBytes bs) = encode_length 2 (length bs) @ bs"
| "encode (CText t) = encode_text t"
| "encode (CArray items) = encode_length 4 (length items) @ concat (map encode items)"
| "encode (CMap entries) =
    encode_length 5 (length entries) @
    concat (map (\<lambda>(key, item). encode_text key @ encode item) entries)"

definition to_bytes :: "cbor_value \<Rightarrow> u8 list" where
  "to_bytes v = encode v"

subsection \<open>Decoder\<close>

text \<open>
  The decoder's bytes and offset are its state; a failure abandons the decoder, so a failed step
  returns no state. The nesting depth is restored on every successful return and is passed down
  as an argument.
\<close>

record decoder =
  dec_bytes :: "u8 list"
  dec_offset :: nat

definition cbor_fail :: "string \<Rightarrow> infer_failure" where
  "cbor_fail m = fail CanonicalCborInvalid m"

definition read_byte :: "decoder \<Rightarrow> (u8 \<times> decoder) res" where
  "read_byte d =
    (if dec_offset d < length (dec_bytes d)
     then Inr (dec_bytes d ! dec_offset d, d\<lparr>dec_offset := dec_offset d + 1\<rparr>)
     else Inl (cbor_fail ''truncated CBOR value''))"

definition read_bytes :: "nat \<Rightarrow> decoder \<Rightarrow> (u8 list \<times> decoder) res" where
  "read_bytes len d =
    (if len > u64_max then Inl (cbor_fail ''CBOR length exceeds memory'')
     else case checked_add_u64 (dec_offset d) len of
       None \<Rightarrow> Inl (cbor_fail ''CBOR length overflows'')
     | Some end_at \<Rightarrow>
        if end_at > length (dec_bytes d) then Inl (cbor_fail ''truncated CBOR value'')
        else Inr (take (end_at - dec_offset d) (drop (dec_offset d) (dec_bytes d)),
                  d\<lparr>dec_offset := end_at\<rparr>))"

definition be_value :: "u8 list \<Rightarrow> nat" where
  "be_value bs = foldl (\<lambda>value byte. push_bit 8 value OR unat byte) 0 bs"

definition read_be :: "nat \<Rightarrow> decoder \<Rightarrow> (nat \<times> decoder) res" where
  "read_be width d = rbind (read_bytes width d) (\<lambda>(slice, d). Inr (be_value slice, d))"

definition read_argument :: "u8 \<Rightarrow> decoder \<Rightarrow> (nat \<times> decoder) res" where
  "read_argument ai d =
    rbind
     (if ai \<le> 23 then Inr (unat ai, 0, d)
      else if ai = 24 then rbind (read_byte d) (\<lambda>(b, d). Inr (unat b, 24, d))
      else if ai = 25 then rbind (read_be 2 d) (\<lambda>(n, d). Inr (n, 0x100, d))
      else if ai = 26 then rbind (read_be 4 d) (\<lambda>(n, d). Inr (n, 0x10000, d))
      else if ai = 27 then rbind (read_be 8 d) (\<lambda>(n, d). Inr (n, 0x100000000, d))
      else if ai \<le> 30 then Inl (cbor_fail ''reserved CBOR additional information'')
      else if ai = 31 then Inl (cbor_fail ''indefinite-length CBOR is rejected'')
      else Inl (cbor_fail ''invalid CBOR additional information''))
     (\<lambda>(n, minimal_at, d).
        if ai \<ge> 24 \<and> n < minimal_at then Inl (cbor_fail ''CBOR integer is not shortest form'')
        else if int n > i128_max_cbor
          then Inl (cbor_fail ''CBOR integer exceeds the supported range'')
        else Inr (n, d))"

definition collection_len :: "u8 \<Rightarrow> decoder \<Rightarrow> (nat \<times> decoder) res" where
  "collection_len ai d =
    rbind (read_argument ai d) (\<lambda>(len, d).
      if len > max_items then Inl (cbor_fail ''CBOR collection exceeds the item limit'')
      else if len > length (dec_bytes d) - dec_offset d
        then Inl (cbor_fail ''truncated CBOR collection'')
      else Inr (len, d))"

function (sequential)
  read :: "nat \<Rightarrow> decoder \<Rightarrow> (cbor_value \<times> decoder) res" and
  read_items :: "nat \<Rightarrow> nat \<Rightarrow> decoder \<Rightarrow> (cbor_value list \<times> decoder) res" and
  read_entries ::
    "nat \<Rightarrow> nat \<Rightarrow> string option \<Rightarrow> decoder \<Rightarrow> ((string \<times> cbor_value) list \<times> decoder) res"
where
  "read depth d =
    (if depth > max_depth then Inl (cbor_fail ''CBOR nesting exceeds the depth limit'')
     else rbind (read_byte d) (\<lambda>(initial, d).
      let major = drop_bit 5 initial; ai = initial AND 31 in
      if major = 0 then rbind (read_argument ai d) (\<lambda>(n, d). Inr (CInteger (int n), d))
      else if major = 1 then rbind (read_argument ai d) (\<lambda>(n, d). Inr (CInteger (-1 - int n), d))
      else if major = 2 then
        rbind (read_argument ai d) (\<lambda>(len, d).
        rbind (read_bytes len d) (\<lambda>(bs, d). Inr (CBytes bs, d)))
      else if major = 3 then
        rbind (read_argument ai d) (\<lambda>(len, d).
        rbind (read_bytes len d) (\<lambda>(bs, d).
        rbind (ok_or (from_utf8 bs) CanonicalCborInvalid ''CBOR text is not UTF-8'') (\<lambda>t.
        Inr (CText t, d))))
      else if major = 4 then
        rbind (collection_len ai d) (\<lambda>(len, d).
        rbind (read_items (depth + 1) len d) (\<lambda>(items, d). Inr (CArray items, d)))
      else if major = 5 then
        rbind (collection_len ai d) (\<lambda>(len, d).
        rbind (read_entries (depth + 1) len None d) (\<lambda>(entries, d). Inr (CMap entries, d)))
      else if major = 7 then
        (if ai = 20 then Inr (CBool False, d)
         else if ai = 21 then Inr (CBool True, d)
         else if ai = 22 then Inr (CNull, d)
         else if ai = 31 then Inl (cbor_fail ''indefinite-length CBOR is rejected'')
         else Inl (cbor_fail ''CBOR floats, tags, and extra simple values are rejected''))
      else Inl (cbor_fail ''CBOR tags and indefinite forms are rejected'')))"
| "read_items depth 0 d = Inr ([], d)"
| "read_items depth (Suc n) d =
    rbind (read depth d) (\<lambda>(v, d).
    rbind (read_items depth n d) (\<lambda>(vs, d). Inr (v # vs, d)))"
| "read_entries depth 0 previous d = Inr ([], d)"
| "read_entries depth (Suc n) previous d =
    rbind (read depth d) (\<lambda>(key_value, d).
    case key_value of
      CText key \<Rightarrow>
        if (case previous of None \<Rightarrow> False | Some prev \<Rightarrow> as_bytes key \<le> as_bytes prev)
        then Inl (cbor_fail ''CBOR map keys must be strictly increasing'')
        else
          rbind (read depth d) (\<lambda>(v, d).
          rbind (read_entries depth n (Some key) d) (\<lambda>(es, d). Inr ((key, v) # es, d)))
    | _ \<Rightarrow> Inl (cbor_fail ''CBOR map key must be text''))"
  by pat_completeness auto
termination
  by (relation "measures
      [\<lambda>x. case x of Inl (dep, _) \<Rightarrow> 34 - dep
         | Inr (Inl (dep, _, _)) \<Rightarrow> 34 - dep | Inr (Inr (dep, _, _, _)) \<Rightarrow> 34 - dep,
       \<lambda>x. case x of Inl _ \<Rightarrow> 0 | Inr (Inl (_, n, _)) \<Rightarrow> Suc n | Inr (Inr (_, n, _, _)) \<Rightarrow> Suc n]")
    (auto simp: max_depth_def)

declare read.simps [simp del]

definition decode_canonical :: "u8 list \<Rightarrow> cbor_value res" where
  "decode_canonical bs =
    (if bs = [] then Inl (cbor_fail ''empty CBOR input'')
     else if length bs > max_document_bytes
       then Inl (cbor_fail ''CBOR input exceeds the size limit'')
     else
      rbind (read 0 \<lparr>dec_bytes = bs, dec_offset = 0\<rparr>) (\<lambda>(v, d).
        if dec_offset d \<noteq> length bs then Inl (cbor_fail ''trailing bytes after CBOR value'')
        else if to_bytes v \<noteq> bs then Inl (cbor_fail ''CBOR value is not canonical'')
        else Inr v))"

end
