(* ===== verification/Cbor_Proofs.thy ===== *)
theory Cbor_Proofs
  imports Cbor
begin

text \<open>
  The decoder of the theory \<open>Cbor\<close> accepts exactly the encodings of well-formed values: facts on
  heads and arguments, then completeness and soundness of the recursive reader by its own
  induction, then \<open>decode_canonical\<close>.
\<close>

subsection \<open>Big-endian arguments\<close>

lemma length_be_bytes [simp]: "length (be_bytes w n) = w"
  by (induction w arbitrary: n) simp_all

lemma push_or_eq: "b < 256 \<Longrightarrow> push_bit 8 v OR b = v * 256 + b" for v b :: nat
proof -
  assume b: "b < 256"
  have "push_bit 8 v OR b = push_bit 8 v + b"
  proof (rule disjunctive_add [symmetric])
    fix n
    have "take_bit 8 b = b" using b by (simp add: take_bit_nat_eq_self)
    then have "bit b n \<longrightarrow> n < 8" by (metis bit_take_bit_iff)
    then show "\<not> bit (push_bit 8 v) n \<or> \<not> bit b n" by (auto simp: bit_push_bit_iff)
  qed
  then show ?thesis by (simp add: push_bit_eq_mult)
qed

lemma be_value_Nil [simp]: "be_value [] = 0"
  by (simp add: be_value_def)

lemma be_value_snoc [simp]: "be_value (bs @ [b]) = be_value bs * 256 + unat b"
  by (simp add: be_value_def push_or_eq)

lemma unat_byte_of_nat: "unat (of_nat n :: u8) = n mod 256"
  by (simp add: unsigned_of_nat take_bit_eq_mod)

lemma be_value_be_bytes: "be_value (be_bytes w n) = n mod 256 ^ w"
proof (induction w arbitrary: n)
  case (Suc w)
  have "n mod (256 * 256 ^ w) = 256 * (n div 256 mod 256 ^ w) + n mod 256"
    by (rule mod_mult2_eq)
  then show ?case by (simp add: Suc unat_byte_of_nat mult.commute)
qed simp

lemma be_value_bound: "be_value bs < 256 ^ length bs"
proof (induction bs rule: rev_induct)
  case (snoc b bs)
  then have "be_value bs * 256 + 255 < 256 ^ length bs * 256" by simp
  moreover have "unat b \<le> 255" using unat_byte_less [of b] by linarith
  ultimately have "be_value bs * 256 + unat b < 256 ^ length bs * 256" by linarith
  then show ?case by (simp add: mult.commute)
qed simp

lemma be_bytes_be_value: "length bs = w \<Longrightarrow> be_bytes w (be_value bs) = bs"
proof (induction w arbitrary: bs)
  case (Suc w)
  then obtain cs b where bs: "bs = cs @ [b]" by (cases bs rule: rev_exhaust) auto
  have "(be_value cs * 256 + unat b) div 256 = be_value cs" by simp
  moreover have "(of_nat (be_value cs * 256 + unat b) :: u8) = b"
    by (simp only: word_unat_eq_iff unat_byte_of_nat) simp
  ultimately show ?case using Suc by (simp add: bs)
qed simp

subsection \<open>Initial bytes\<close>

lemma bit_less_32: "bit a n \<Longrightarrow> a < 32 \<Longrightarrow> n < 5" for a :: u8
proof -
  assume a: "bit a n" "a < 32"
  then have "take_bit 5 a = a"
    by (simp add: word_unat_eq_iff take_bit_eq_mod word_less_nat_alt unat_mod)
  with a(1) show "n < 5" by (metis bit_take_bit_iff)
qed

lemma bit_less_8: "bit a n \<Longrightarrow> a < 8 \<Longrightarrow> n < 3" for a :: u8
proof -
  assume a: "bit a n" "a < 8"
  then have "take_bit 3 a = a"
    by (simp add: word_unat_eq_iff take_bit_eq_mod word_less_nat_alt unat_mod)
  with a(1) show "n < 3" by (metis bit_take_bit_iff)
qed

lemma head_major: "m < 8 \<Longrightarrow> a < 32 \<Longrightarrow> drop_bit 5 (push_bit 5 m OR a) = m" for m a :: u8
  by (rule bit_word_eqI) (auto simp: bit_simps dest: bit_less_32 bit_less_8)

lemma and_31: "b AND 31 = take_bit 5 b" for b :: u8
  by (simp add: take_bit_eq_mask mask_eq_exp_minus_1)

lemma head_ai: "m < 8 \<Longrightarrow> a < 32 \<Longrightarrow> (push_bit 5 m OR a) AND 31 = a" for m a :: u8
  unfolding and_31 by (rule bit_word_eqI) (auto simp: bit_simps dest: bit_less_32)

lemma head_split: "push_bit 5 (drop_bit 5 b) OR (b AND 31) = b" for b :: u8
  unfolding and_31 by (rule bit_word_eqI) (auto simp: bit_simps)

lemma major_less_8: "drop_bit 5 b < 8" for b :: u8
proof -
  have "unat b div 32 < 8" using unat_byte_less [of b] by linarith
  then show ?thesis by (simp add: word_less_nat_alt drop_bit_eq_div unat_div)
qed

lemma ai_less_32: "b AND 31 < 32" for b :: u8
proof -
  have "b AND 31 \<le> 31" by (rule word_and_le1)
  then show ?thesis by (simp add: word_le_nat_alt word_less_nat_alt)
qed

subsection \<open>Consumption of a prefix\<close>

definition dec_rest :: "decoder \<Rightarrow> u8 list" where
  "dec_rest d = drop (dec_offset d) (dec_bytes d)"

definition wf_dec :: "decoder \<Rightarrow> bool" where
  "wf_dec d \<longleftrightarrow> dec_offset d \<le> length (dec_bytes d) \<and> length (dec_bytes d) < u64_max"

definition consumed :: "decoder \<Rightarrow> u8 list \<Rightarrow> decoder \<Rightarrow> bool" where
  "consumed d bs d' \<longleftrightarrow>
     wf_dec d \<and> take (length bs) (dec_rest d) = bs \<and> length bs \<le> length (dec_rest d) \<and>
     d' = d\<lparr>dec_offset := dec_offset d + length bs\<rparr>"

lemma wf_dec_consumed: "consumed d bs d' \<Longrightarrow> wf_dec d'"
  by (auto simp: consumed_def wf_dec_def dec_rest_def)

lemma consumed_Nil: "wf_dec d \<Longrightarrow> consumed d [] d' \<longleftrightarrow> d' = d"
  by (auto simp: consumed_def)

lemma consumed_length: "consumed d bs d' \<Longrightarrow> length bs \<le> length (dec_bytes d) - dec_offset d"
  by (auto simp: consumed_def dec_rest_def)

lemma consumed_append:
  "consumed d (a @ b) d' \<longleftrightarrow> (\<exists>e. consumed d a e \<and> consumed e b d')" (is "?l \<longleftrightarrow> ?r")
proof
  assume ?l
  then have "take (length a) (dec_rest d) = a" and "take (length b) (drop (length a) (dec_rest d)) = b"
    and "length a + length b \<le> length (dec_rest d)" and "wf_dec d"
    by (auto simp: consumed_def take_add)
  with \<open>?l\<close> show ?r
    by (intro exI [of _ "d\<lparr>dec_offset := dec_offset d + length a\<rparr>"])
      (auto simp: consumed_def dec_rest_def wf_dec_def add_ac)
next
  assume ?r
  then show ?l by (auto simp: consumed_def dec_rest_def wf_dec_def take_add add_ac)
qed

lemma consumed_Cons: "consumed d (x # b) d' \<longleftrightarrow> (\<exists>e. consumed d [x] e \<and> consumed e b d')"
  using consumed_append [of d "[x]" b d'] by simp

lemma read_byte_iff: "wf_dec d \<Longrightarrow> read_byte d = Inr (b, d') \<longleftrightarrow> consumed d [b] d'"
  by (auto simp: read_byte_def consumed_def wf_dec_def dec_rest_def take_Suc hd_drop_conv_nth)

lemma read_bytes_iff:
  "wf_dec d \<Longrightarrow> read_bytes n d = Inr (bs, d') \<longleftrightarrow> length bs = n \<and> consumed d bs d'"
  by (auto simp: read_bytes_def consumed_def wf_dec_def dec_rest_def checked_add_u64_def u64_max_def
      split: if_splits)

lemma read_be_iff:
  "wf_dec d \<Longrightarrow> read_be w d = Inr (n, d') \<longleftrightarrow> n < 256 ^ w \<and> consumed d (be_bytes w n) d'"
  by (auto simp: read_be_def res read_bytes_iff be_value_bound be_bytes_be_value be_value_be_bytes
      intro!: exI [of _ "be_bytes w n"])

subsection \<open>Arguments\<close>

text \<open>The additional information and the argument bytes of the shortest head for a length.\<close>

definition length_arg :: "nat \<Rightarrow> u8 \<times> u8 list" where
  "length_arg n =
    (if n < 24 then (of_nat n, [])
     else if n \<le> 0xff then (24, be_bytes (Suc 0) n)
     else if n \<le> 0xffff then (25, be_bytes 2 n)
     else if n \<le> 0xffffffff then (26, be_bytes 4 n)
     else (27, be_bytes 8 n))"

lemma be_bytes_1: "be_bytes (Suc 0) n = [of_nat n]"
  by simp

lemma be_bytes_2: "be_bytes 2 n = [of_nat (n div 256), of_nat n]"
  by (simp add: numeral_2_eq_2)

lemma encode_length_arg: "encode_length m n = (push_bit 5 m OR fst (length_arg n)) # snd (length_arg n)"
  by (simp add: encode_length_def length_arg_def Let_def be_bytes_1 be_bytes_2 drop_bit_eq_div
      del: be_bytes.simps)

lemma length_arg_ai: "fst (length_arg n) < 32"
proof (cases "n < 24")
  case True
  then have "unat (of_nat n :: u8) < 32" by (simp add: unat_byte_of_nat)
  with True show ?thesis by (simp add: length_arg_def word_less_nat_alt)
qed (auto simp: length_arg_def)

lemma encode_length_Cons:
  "m < 8 \<Longrightarrow> encode_length m n @ r = b # bs \<longleftrightarrow>
     drop_bit 5 b = m \<and> fst (length_arg n) = b AND 31 \<and> snd (length_arg n) @ r = bs"
  using head_major [OF _ length_arg_ai] head_ai [OF _ length_arg_ai] head_split [of b]
  by (auto simp: encode_length_arg)

lemma ai_small: "(ai :: u8) \<le> 23 \<longleftrightarrow> unat ai < 24"
  by (auto simp: word_le_nat_alt)

lemma of_nat_ai: "n < 24 \<Longrightarrow> of_nat n = ai \<longleftrightarrow> n = unat ai" for ai :: u8
  by (auto simp: word_unat_eq_iff unat_byte_of_nat)

lemma length_arg_wide:
  "fst (length_arg n) = 24 \<longleftrightarrow> 24 \<le> n \<and> n \<le> 0xff"
  "fst (length_arg n) = 25 \<longleftrightarrow> 0xff < n \<and> n \<le> 0xffff"
  "fst (length_arg n) = 26 \<longleftrightarrow> 0xffff < n \<and> n \<le> 0xffffffff"
  "fst (length_arg n) = 27 \<longleftrightarrow> 0xffffffff < n"
  by (auto simp: length_arg_def of_nat_ai)

lemma length_arg_small: "unat ai < 24 \<Longrightarrow> fst (length_arg n) = ai \<longleftrightarrow> n = unat ai"
  by (auto simp: length_arg_def of_nat_ai)

lemma length_arg_bytes:
  "n < 24 \<Longrightarrow> snd (length_arg n) = []"
  "24 \<le> n \<Longrightarrow> n \<le> 0xff \<Longrightarrow> snd (length_arg n) = be_bytes (Suc 0) n"
  "0xff < n \<Longrightarrow> n \<le> 0xffff \<Longrightarrow> snd (length_arg n) = be_bytes 2 n"
  "0xffff < n \<Longrightarrow> n \<le> 0xffffffff \<Longrightarrow> snd (length_arg n) = be_bytes 4 n"
  "0xffffffff < n \<Longrightarrow> snd (length_arg n) = be_bytes 8 n"
  by (simp_all add: length_arg_def del: be_bytes.simps)

lemma length_arg_not_wide: "27 < ai \<Longrightarrow> fst (length_arg n) \<noteq> ai" for ai :: u8
  by (auto simp: length_arg_def word_less_nat_alt unat_byte_of_nat)

lemma read_one_byte:
  "wf_dec d \<Longrightarrow>
   rbind (read_byte d) (\<lambda>(b, d). Inr (unat b, k, d)) =
   rbind (read_be (Suc 0) d) (\<lambda>(n, d). Inr (n, k, d))"
  by (auto simp: read_byte_def read_be_def read_bytes_def wf_dec_def checked_add_u64_def u64_max_def
      be_value_def take_Suc hd_drop_conv_nth)

lemma read_argument_iff:
  assumes "wf_dec d" and "ai < 32"
  shows "read_argument ai d = Inr (n, d') \<longleftrightarrow>
    n \<le> u64_max \<and> fst (length_arg n) = ai \<and> consumed d (snd (length_arg n)) d'"
proof -
  note defs = read_argument_def ai_small i128_max_cbor_def u64_max_def
  consider "unat ai < 24" | "ai = 24" | "ai = 25" | "ai = 26" | "ai = 27" | "27 < ai" "ai < 32"
    using assms(2) by (simp add: word_less_nat_alt word_unat_eq_iff) linarith
  then show ?thesis
  proof cases
    case 1
    then have "ai \<noteq> 24" "ai \<noteq> 25" "ai \<noteq> 26" "ai \<noteq> 27" by auto
    with 1 assms(1) show ?thesis
      by (auto simp: defs length_arg_small length_arg_bytes consumed_Nil word_le_nat_alt)
  next
    case 2
    from assms(1) show ?thesis by (auto simp: 2 defs res read_one_byte read_be_iff length_arg_wide length_arg_bytes
        intro!: exI [of _ n])
  next
    case 3
    from assms(1) show ?thesis by (auto simp: 3 defs res read_be_iff length_arg_wide length_arg_bytes
        intro!: exI [of _ n])
  next
    case 4
    from assms(1) show ?thesis by (auto simp: 4 defs res read_be_iff length_arg_wide length_arg_bytes
        intro!: exI [of _ n])
  next
    case 5
    from assms(1) show ?thesis by (auto simp: 5 defs res read_be_iff length_arg_wide length_arg_bytes
        intro!: exI [of _ n])
  next
    case 6
    then have "\<not> unat ai < 24" "ai \<noteq> 24" "ai \<noteq> 25" "ai \<noteq> 26" "ai \<noteq> 27"
      by (auto simp: word_less_nat_alt)
    with 6 show ?thesis by (auto simp: defs length_arg_not_wide)
  qed
qed

lemma collection_len_iff:
  assumes "wf_dec d" and "ai < 32"
  shows "collection_len ai d = Inr (n, d') \<longleftrightarrow>
    n \<le> max_items \<and> fst (length_arg n) = ai \<and> consumed d (snd (length_arg n)) d' \<and>
    n \<le> length (dec_bytes d') - dec_offset d'"
  by (auto simp: collection_len_def res read_argument_iff [OF assms] max_items_def u64_max_def
      intro!: exI [of _ n] exI [of _ d'])

subsection \<open>Well-formed values\<close>

definition key_less :: "string \<Rightarrow> string \<Rightarrow> bool" where
  "key_less k l \<longleftrightarrow> as_bytes k < as_bytes l"

fun cbor_wf :: "nat \<Rightarrow> cbor_value \<Rightarrow> bool" where
  "cbor_wf depth CNull = (depth \<le> max_depth)"
| "cbor_wf depth (CBool b) = (depth \<le> max_depth)"
| "cbor_wf depth (CInteger n) = (depth \<le> max_depth \<and> integer_in_cbor_range n)"
| "cbor_wf depth (CBytes bs) = (depth \<le> max_depth \<and> length bs \<le> u64_max)"
| "cbor_wf depth (CText t) = (depth \<le> max_depth \<and> length t \<le> u64_max \<and> utf8_string t)"
| "cbor_wf depth (CArray items) =
    (depth \<le> max_depth \<and> length items \<le> max_items \<and> (\<forall>v \<in> set items. cbor_wf (depth + 1) v))"
| "cbor_wf depth (CMap entries) =
    (depth \<le> max_depth \<and> length entries \<le> max_items \<and> sorted_wrt key_less (map fst entries) \<and>
     (\<forall>(k, v) \<in> set entries.
        depth + 1 \<le> max_depth \<and> length k \<le> u64_max \<and> utf8_string k \<and> cbor_wf (depth + 1) v))"

lemma encode_length_nonempty [simp]: "encode_length m n \<noteq> []"
  by (simp add: encode_length_arg)

lemma encode_nonempty [simp]: "encode v \<noteq> []"
  by (cases v rule: encode.cases) (auto simp: encode_integer_def encode_text_def)

lemma cbor_wf_depth: "cbor_wf depth v \<Longrightarrow> depth \<le> max_depth"
  by (cases v) simp_all

lemma length_concat_encode: "length xs \<le> length (concat (map encode xs))"
proof (induction xs)
  case (Cons x xs)
  then show ?case using encode_nonempty [of x] by (cases "encode x") simp_all
qed simp

lemma length_concat_entries:
  "length xs \<le> length (concat (map (\<lambda>(k, v). encode_text k @ encode v) xs))"
proof (induction xs)
  case (Cons x xs)
  then show ?case using encode_nonempty [of "snd x"] by (cases x; cases "encode (snd x)") simp_all
qed simp

subsection \<open>The reader accepts exactly the encodings\<close>

text \<open>One byte of a head, split into its major type and additional information.\<close>

lemma encode_Cons:
  "encode CNull = b # bs \<longleftrightarrow> drop_bit 5 b = 7 \<and> b AND 31 = 22 \<and> bs = []"
  "encode (CBool True) = b # bs \<longleftrightarrow> drop_bit 5 b = 7 \<and> b AND 31 = 21 \<and> bs = []"
  "encode (CBool False) = b # bs \<longleftrightarrow> drop_bit 5 b = 7 \<and> b AND 31 = 20 \<and> bs = []"
proof -
  have *: "h = b \<longleftrightarrow> drop_bit 5 b = drop_bit 5 h \<and> b AND 31 = h AND 31" for h
    by (metis head_split)
  show "encode CNull = b # bs \<longleftrightarrow> drop_bit 5 b = 7 \<and> b AND 31 = 22 \<and> bs = []"
    and "encode (CBool True) = b # bs \<longleftrightarrow> drop_bit 5 b = 7 \<and> b AND 31 = 21 \<and> bs = []"
    and "encode (CBool False) = b # bs \<longleftrightarrow> drop_bit 5 b = 7 \<and> b AND 31 = 20 \<and> bs = []"
    by (auto simp: * [of "0xf6"] * [of "0xf5"] * [of "0xf4"] simp flip: drop_bit_eq_div)
qed

lemma read_items_iff_step:
  assumes R: "\<And>d v d'. wf_dec d \<Longrightarrow>
      read depth d = Inr (v, d') \<longleftrightarrow> cbor_wf depth v \<and> consumed d (encode v) d'"
    and "wf_dec d"
  shows "read_items depth n d = Inr (vs, d') \<longleftrightarrow>
    length vs = n \<and> (\<forall>v \<in> set vs. cbor_wf depth v) \<and> consumed d (concat (map encode vs)) d'"
  using assms(2)
proof (induction n arbitrary: d vs)
  case 0
  then show ?case by (auto simp: consumed_Nil)
next
  case (Suc n)
  have "read_items depth (Suc n) d = Inr (vs, d') \<longleftrightarrow>
    (\<exists>v d1 vs'. read depth d = Inr (v, d1) \<and> read_items depth n d1 = Inr (vs', d') \<and> vs = v # vs')"
    by (force simp: res)
  also have "\<dots> \<longleftrightarrow> (\<exists>v d1 vs'. cbor_wf depth v \<and> consumed d (encode v) d1 \<and> length vs' = n \<and>
    (\<forall>v \<in> set vs'. cbor_wf depth v) \<and> consumed d1 (concat (map encode vs')) d' \<and> vs = v # vs')"
    using Suc by (metis (no_types, lifting) R wf_dec_consumed)
  also have "\<dots> \<longleftrightarrow> length vs = Suc n \<and> (\<forall>v \<in> set vs. cbor_wf depth v) \<and>
    consumed d (concat (map encode vs)) d'"
    by (cases vs) (auto simp: consumed_append)
  finally show ?case .
qed

definition keys_from :: "string option \<Rightarrow> (string \<times> cbor_value) list \<Rightarrow> bool" where
  "keys_from previous es \<longleftrightarrow>
     sorted_wrt key_less ((case previous of None \<Rightarrow> [] | Some p \<Rightarrow> [p]) @ map fst es)"

lemma keys_from_Nil [simp]: "keys_from previous []"
  by (cases previous) (simp_all add: keys_from_def)

lemma keys_from_Cons:
  "keys_from previous ((k, v) # es) \<longleftrightarrow>
   (case previous of None \<Rightarrow> True | Some p \<Rightarrow> key_less p k) \<and> keys_from (Some k) es"
  by (cases previous) (auto simp: keys_from_def key_less_def intro: order.strict_trans)

lemma entry_tail:
  "rbind (read depth d) (\<lambda>(v, d). rbind (read_entries depth n (Some k) d) (\<lambda>(es, d). Inr ((k, v) # es, d)))
     = Inr (es, d') \<longleftrightarrow>
   (\<exists>v d2 es'. read depth d = Inr (v, d2) \<and> read_entries depth n (Some k) d2 = Inr (es', d') \<and>
      es = (k, v) # es')"
  by (force simp: res)

lemma read_entries_iff_step:
  assumes R: "\<And>d v d'. wf_dec d \<Longrightarrow>
      read depth d = Inr (v, d') \<longleftrightarrow> cbor_wf depth v \<and> consumed d (encode v) d'"
    and "wf_dec d"
  shows "read_entries depth n previous d = Inr (es, d') \<longleftrightarrow>
    length es = n \<and> keys_from previous es \<and>
    (\<forall>(k, v) \<in> set es. cbor_wf depth (CText k) \<and> cbor_wf depth v) \<and>
    consumed d (concat (map (\<lambda>(k, v). encode_text k @ encode v) es)) d'"
  using assms(2)
proof (induction n arbitrary: d previous es)
  case 0
  then show ?case by (auto simp: consumed_Nil)
next
  case (Suc n)
  have 1: "read depth d = Inr (CText k, d1) \<longleftrightarrow>
      cbor_wf depth (CText k) \<and> consumed d (encode_text k) d1" for k d1
    using R [OF Suc.prems] by simp
  have 2: "consumed c bs d1 \<Longrightarrow>
      read depth d1 = Inr (v, d2) \<longleftrightarrow> cbor_wf depth v \<and> consumed d1 (encode v) d2" for c bs d1 v d2
    by (rule R) (rule wf_dec_consumed)
  note 3 = Suc.IH [OF wf_dec_consumed]
  have "read_entries depth (Suc n) previous d = Inr (es, d') \<longleftrightarrow>
    (\<exists>k d1 v d2 es'. read depth d = Inr (CText k, d1) \<and>
       (case previous of None \<Rightarrow> True | Some p \<Rightarrow> key_less p k) \<and> read depth d1 = Inr (v, d2) \<and>
       read_entries depth n (Some k) d2 = Inr (es', d') \<and> es = (k, v) # es')"
  proof (cases "read depth d")
    case (Inr p)
    moreover obtain kv d1 where "p = (kv, d1)" by (cases p)
    ultimately show ?thesis
      by (cases kv; cases previous)
        (auto simp: entry_tail key_less_def not_le)
  qed simp
  also have "\<dots> \<longleftrightarrow> (\<exists>k d1 v d2 es'. cbor_wf depth (CText k) \<and> consumed d (encode_text k) d1 \<and>
       (case previous of None \<Rightarrow> True | Some p \<Rightarrow> key_less p k) \<and>
       cbor_wf depth v \<and> consumed d1 (encode v) d2 \<and>
       length es' = n \<and> keys_from (Some k) es' \<and>
       (\<forall>(k, v) \<in> set es'. cbor_wf depth (CText k) \<and> cbor_wf depth v) \<and>
       consumed d2 (concat (map (\<lambda>(k, v). encode_text k @ encode v) es')) d' \<and> es = (k, v) # es')"
    by (simp only: 1 2 3 conj_assoc cong: conj_cong)
  also have "\<dots> \<longleftrightarrow> length es = Suc n \<and> keys_from previous es \<and>
    (\<forall>(k, v) \<in> set es. cbor_wf depth (CText k) \<and> cbor_wf depth v) \<and>
    consumed d (concat (map (\<lambda>(k, v). encode_text k @ encode v) es)) d'"
    by (cases es) (auto simp: keys_from_Cons consumed_append, blast+)
  finally show ?case .
qed

text \<open>The two recursive readers at the next depth, as the equations the reader step uses.\<close>

definition items_spec :: "nat \<Rightarrow> bool" where
  "items_spec depth \<longleftrightarrow> (\<forall>d n vs d'. wf_dec d \<longrightarrow>
    (read_items depth n d = Inr (vs, d') \<longleftrightarrow>
     length vs = n \<and> (\<forall>v \<in> set vs. cbor_wf depth v) \<and> consumed d (concat (map encode vs)) d'))"

definition entries_spec :: "nat \<Rightarrow> bool" where
  "entries_spec depth \<longleftrightarrow> (\<forall>d n previous es d'. wf_dec d \<longrightarrow>
    (read_entries depth n previous d = Inr (es, d') \<longleftrightarrow>
     length es = n \<and> keys_from previous es \<and>
     (\<forall>(k, v) \<in> set es. cbor_wf depth (CText k) \<and> cbor_wf depth v) \<and>
     consumed d (concat (map (\<lambda>(k, v). encode_text k @ encode v) es)) d'))"

definition read_spec :: "nat \<Rightarrow> bool" where
  "read_spec depth \<longleftrightarrow> (\<forall>d v d'. wf_dec d \<longrightarrow>
    (read depth d = Inr (v, d') \<longleftrightarrow> cbor_wf depth v \<and> consumed d (encode v) d'))"

lemma items_spec: "read_spec depth \<Longrightarrow> items_spec depth"
  by (simp add: items_spec_def read_spec_def read_items_iff_step)

lemma entries_spec: "read_spec depth \<Longrightarrow> entries_spec depth"
  by (simp add: entries_spec_def read_spec_def read_entries_iff_step)

text \<open>The value read after an initial byte: the major type fixes the constructor.\<close>

definition read_body :: "nat \<Rightarrow> u8 \<Rightarrow> decoder \<Rightarrow> (cbor_value \<times> decoder) res" where
  "read_body depth b d =
    (let major = drop_bit 5 b; ai = b AND 31 in
      if major = 0 then rbind (read_argument ai d) (\<lambda>(n, d). Inr (CInteger (int n), d))
      else if major = 1 then rbind (read_argument ai d) (\<lambda>(n, d). Inr (CInteger (-1 - int n), d))
      else if major = 2 then
        rbind (read_argument ai d) (\<lambda>(len, d).
        rbind (read_bytes len d) (\<lambda>(bs, d). Inr (CBytes bs, d)))
      else if major = 3 then
        rbind (read_argument ai d) (\<lambda>(len, d).
        rbind (read_bytes len d) (\<lambda>(bs, d).
        rbind (ok_or (from_utf8 bs) CanonicalCborInvalid ''CBOR text is not UTF-8'') (\<lambda>t.
        Inr (CText t, d))))
      else if major = 4 then
        rbind (collection_len ai d) (\<lambda>(len, d).
        rbind (read_items (depth + 1) len d) (\<lambda>(items, d). Inr (CArray items, d)))
      else if major = 5 then
        rbind (collection_len ai d) (\<lambda>(len, d).
        rbind (read_entries (depth + 1) len None d) (\<lambda>(entries, d). Inr (CMap entries, d)))
      else if major = 7 then
        (if ai = 20 then Inr (CBool False, d)
         else if ai = 21 then Inr (CBool True, d)
         else if ai = 22 then Inr (CNull, d)
         else if ai = 31 then Inl (cbor_fail ''indefinite-length CBOR is rejected'')
         else Inl (cbor_fail ''CBOR floats, tags, and extra simple values are rejected''))
      else Inl (cbor_fail ''CBOR tags and indefinite forms are rejected''))"

lemma read_unfold:
  "depth \<le> max_depth \<Longrightarrow> read depth d = rbind (read_byte d) (\<lambda>(b, d). read_body depth b d)"
  by (simp add: read.simps [of depth d] read_body_def)

lemma read_too_deep:
  "\<not> depth \<le> max_depth \<Longrightarrow>
   read depth d = Inl (cbor_fail ''CBOR nesting exceeds the depth limit'')"
  by (simp add: read.simps [of depth d])

lemma head_cases:
  fixes b :: u8
  obtains "drop_bit 5 b = 0" | "drop_bit 5 b = 1" | "drop_bit 5 b = 2" | "drop_bit 5 b = 3"
    | "drop_bit 5 b = 4" | "drop_bit 5 b = 5" | "drop_bit 5 b = 6" | "drop_bit 5 b = 7"
proof -
  have "unat (drop_bit 5 b) < 8" using major_less_8 [of b] by (simp add: word_less_nat_alt)
  then have "unat (drop_bit 5 b) \<in> {0, 1, 2, 3, 4, 5, 6, 7}" by auto
  then show ?thesis using that by (auto simp: word_unat_eq_iff)
qed

definition encoded_at :: "cbor_value \<Rightarrow> u8 \<Rightarrow> decoder \<Rightarrow> decoder \<Rightarrow> bool" where
  "encoded_at v b d d' \<longleftrightarrow> (\<exists>bs. encode v = b # bs \<and> consumed d bs d')"

lemma ex_head:
  "m < 8 \<Longrightarrow> (\<exists>bs. encode_length m n @ r = b # bs \<and> consumed d bs d') \<longleftrightarrow>
   drop_bit 5 b = m \<and> fst (length_arg n) = b AND 31 \<and>
   (\<exists>e. consumed d (snd (length_arg n)) e \<and> consumed e r d')"
  by (auto simp: encode_length_Cons consumed_append)

lemma ex_head_Nil:
  "m < 8 \<Longrightarrow> (\<exists>bs. encode_length m n = b # bs \<and> consumed d bs d') \<longleftrightarrow>
   drop_bit 5 b = m \<and> fst (length_arg n) = b AND 31 \<and> consumed d (snd (length_arg n)) d'"
  using ex_head [of m n "[]" b d d'] consumed_append [of d "snd (length_arg n)" "[]" d'] by simp

lemma encoded_at_simps:
  "wf_dec d \<Longrightarrow> encoded_at CNull b d d' \<longleftrightarrow> drop_bit 5 b = 7 \<and> b AND 31 = 22 \<and> d' = d"
  "wf_dec d \<Longrightarrow> encoded_at (CBool c) b d d' \<longleftrightarrow>
     drop_bit 5 b = 7 \<and> b AND 31 = (if c then 21 else 20) \<and> d' = d"
  "encoded_at (CInteger i) b d d' \<longleftrightarrow>
     (let n = if 0 \<le> i then nat i else nat (-1 - i) in
      drop_bit 5 b = (if 0 \<le> i then 0 else 1) \<and> fst (length_arg n) = b AND 31 \<and>
      consumed d (snd (length_arg n)) d')"
  "encoded_at (CBytes xs) b d d' \<longleftrightarrow> drop_bit 5 b = 2 \<and> fst (length_arg (length xs)) = b AND 31 \<and>
     (\<exists>e. consumed d (snd (length_arg (length xs))) e \<and> consumed e xs d')"
  "encoded_at (CText t) b d d' \<longleftrightarrow> drop_bit 5 b = 3 \<and> fst (length_arg (length t)) = b AND 31 \<and>
     (\<exists>e. consumed d (snd (length_arg (length t))) e \<and> consumed e (as_bytes t) d')"
  "encoded_at (CArray vs) b d d' \<longleftrightarrow> drop_bit 5 b = 4 \<and> fst (length_arg (length vs)) = b AND 31 \<and>
     (\<exists>e. consumed d (snd (length_arg (length vs))) e \<and> consumed e (concat (map encode vs)) d')"
  "encoded_at (CMap es) b d d' \<longleftrightarrow> drop_bit 5 b = 5 \<and> fst (length_arg (length es)) = b AND 31 \<and>
     (\<exists>e. consumed d (snd (length_arg (length es))) e \<and>
        consumed e (concat (map (\<lambda>(k, v). encode_text k @ encode v) es)) d')"
  by (cases c)
    (auto simp: encoded_at_def encode_Cons ex_head ex_head_Nil encode_integer_def encode_text_def
      consumed_Nil Let_def simp del: encode.simps(1-3))

lemma read_body_iff:
  assumes "wf_dec d" and "depth \<le> max_depth"
    and items: "items_spec (Suc depth)" and entries: "entries_spec (Suc depth)"
  shows "read_body depth b d = Inr (v, d') \<longleftrightarrow> cbor_wf depth v \<and> encoded_at v b d d'"
proof (cases b rule: head_cases)
  note arg = read_argument_iff [OF assms(1) ai_less_32] and len = collection_len_iff [OF assms(1) ai_less_32]
  have rb: "consumed d xs e \<Longrightarrow> read_bytes n e = Inr (bs, d') \<longleftrightarrow> length bs = n \<and> consumed e bs d'"
    for xs e n bs by (rule read_bytes_iff) (rule wf_dec_consumed)
  have it: "consumed d xs e \<Longrightarrow> read_items (Suc depth) n e = Inr (vs, d') \<longleftrightarrow>
      length vs = n \<and> (\<forall>v \<in> set vs. cbor_wf (Suc depth) v) \<and> consumed e (concat (map encode vs)) d'"
    for xs e n vs using items by (simp add: items_spec_def wf_dec_consumed)
  have en: "consumed d xs e \<Longrightarrow> read_entries (Suc depth) n None e = Inr (es, d') \<longleftrightarrow>
      length es = n \<and> keys_from None es \<and>
      (\<forall>(k, v) \<in> set es. cbor_wf (Suc depth) (CText k) \<and> cbor_wf (Suc depth) v) \<and>
      consumed e (concat (map (\<lambda>(k, v). encode_text k @ encode v) es)) d'"
    for xs e n es using entries by (simp add: entries_spec_def wf_dec_consumed)
  have fits: "consumed e (concat (map encode vs)) d' \<Longrightarrow>
      length vs \<le> length (dec_bytes e) - dec_offset e"
    "consumed e (concat (map (\<lambda>(k, v). encode_text k @ encode v) es)) d' \<Longrightarrow>
      length es \<le> length (dec_bytes e) - dec_offset e" for e vs es
    by (erule order_trans [OF length_concat_encode consumed_length],
        erule order_trans [OF length_concat_entries consumed_length])
  note ranges = integer_in_cbor_range_def i128_max_cbor_def i128_min_cbor_def u64_max_def
  {
    case 1
    with assms(2) show ?thesis
      by (cases v) (auto simp: read_body_def res arg encoded_at_simps assms(1) ranges Let_def
          intro!: exI [of _ "nat (case v of CInteger i \<Rightarrow> i | _ \<Rightarrow> 0)"])
  next
    case 2
    with assms(2) show ?thesis
      by (cases v) (auto simp: read_body_def res arg encoded_at_simps assms(1) ranges Let_def
          intro!: exI [of _ "nat (case v of CInteger i \<Rightarrow> -1 - i | _ \<Rightarrow> 0)"])
  next
    case 3
    have "read_body depth b d = Inr (v, d') \<longleftrightarrow>
      (\<exists>n e bs. read_argument (b AND 31) d = Inr (n, e) \<and> read_bytes n e = Inr (bs, d') \<and> v = CBytes bs)"
      by (force simp: 3 read_body_def res)
    also have "\<dots> \<longleftrightarrow> (\<exists>n e bs. n \<le> u64_max \<and> fst (length_arg n) = b AND 31 \<and>
        consumed d (snd (length_arg n)) e \<and> length bs = n \<and> consumed e bs d' \<and> v = CBytes bs)"
      by (simp only: arg rb conj_assoc cong: conj_cong)
    also have "\<dots> \<longleftrightarrow> cbor_wf depth v \<and> encoded_at v b d d'"
      using assms(2) by (cases v) (auto simp: 3 encoded_at_simps assms(1))
    finally show ?thesis .
  next
    case 4
    have "read_body depth b d = Inr (v, d') \<longleftrightarrow>
      (\<exists>n e bs t. read_argument (b AND 31) d = Inr (n, e) \<and> read_bytes n e = Inr (bs, d') \<and>
         from_utf8 bs = Some t \<and> v = CText t)"
      by (force simp: 4 read_body_def res)
    also have "\<dots> \<longleftrightarrow> (\<exists>n e bs t. n \<le> u64_max \<and> fst (length_arg n) = b AND 31 \<and>
        consumed d (snd (length_arg n)) e \<and> length bs = n \<and> consumed e bs d' \<and>
        from_utf8 bs = Some t \<and> v = CText t)"
      by (simp only: arg rb conj_assoc cong: conj_cong)
    also have "\<dots> \<longleftrightarrow> cbor_wf depth v \<and> encoded_at v b d d'"
      using assms(2) by (cases v) (auto simp: 4 encoded_at_simps assms(1) from_utf8_Some)
    finally show ?thesis .
  next
    case 5
    have "read_body depth b d = Inr (v, d') \<longleftrightarrow>
      (\<exists>n e vs. collection_len (b AND 31) d = Inr (n, e) \<and>
         read_items (Suc depth) n e = Inr (vs, d') \<and> v = CArray vs)"
      by (force simp: 5 read_body_def res)
    also have "\<dots> \<longleftrightarrow> (\<exists>n e vs. n \<le> max_items \<and> fst (length_arg n) = b AND 31 \<and>
        consumed d (snd (length_arg n)) e \<and> length vs = n \<and> (\<forall>v \<in> set vs. cbor_wf (Suc depth) v) \<and>
        consumed e (concat (map encode vs)) d' \<and> v = CArray vs)"
      by (simp only: len it conj_assoc cong: conj_cong) (use fits in blast)
    also have "\<dots> \<longleftrightarrow> cbor_wf depth v \<and> encoded_at v b d d'"
      using assms(2) by (cases v) (auto simp: 5 encoded_at_simps assms(1))
    finally show ?thesis .
  next
    case 6
    have "read_body depth b d = Inr (v, d') \<longleftrightarrow>
      (\<exists>n e es. collection_len (b AND 31) d = Inr (n, e) \<and>
         read_entries (Suc depth) n None e = Inr (es, d') \<and> v = CMap es)"
      by (force simp: 6 read_body_def res)
    also have "\<dots> \<longleftrightarrow> (\<exists>n e es. n \<le> max_items \<and> fst (length_arg n) = b AND 31 \<and>
        consumed d (snd (length_arg n)) e \<and> length es = n \<and> keys_from None es \<and>
        (\<forall>(k, v) \<in> set es. cbor_wf (Suc depth) (CText k) \<and> cbor_wf (Suc depth) v) \<and>
        consumed e (concat (map (\<lambda>(k, v). encode_text k @ encode v) es)) d' \<and> v = CMap es)"
      by (simp only: len en conj_assoc cong: conj_cong) (use fits in blast)
    also have "\<dots> \<longleftrightarrow> cbor_wf depth v \<and> encoded_at v b d d'"
      using assms(2) by (cases v) (auto simp: 6 encoded_at_simps assms(1) keys_from_def)
    finally show ?thesis .
  next
    case 7
    then show ?thesis using assms by (cases v) (auto simp: read_body_def encoded_at_simps)
  next
    case 8
    then show ?thesis using assms by (cases v) (auto simp: read_body_def encoded_at_simps Let_def)
  }
qed

lemma read_spec_step:
  assumes "items_spec (Suc depth)" and "entries_spec (Suc depth)"
  shows "read_spec depth"
  unfolding read_spec_def
proof (intro allI impI)
  fix d v d' assume wf: "wf_dec d"
  show "read depth d = Inr (v, d') \<longleftrightarrow> cbor_wf depth v \<and> consumed d (encode v) d'"
  proof (cases "depth \<le> max_depth")
    case True
    have body: "consumed d [b] e \<Longrightarrow>
        read_body depth b e = Inr (v, d') \<longleftrightarrow> cbor_wf depth v \<and> encoded_at v b e d'" for b e
      using read_body_iff [OF wf_dec_consumed True assms] .
    have "read depth d = Inr (v, d') \<longleftrightarrow>
        (\<exists>b e. consumed d [b] e \<and> read_body depth b e = Inr (v, d'))"
      using wf by (auto simp: read_unfold [OF True] res read_byte_iff)
    also have "\<dots> \<longleftrightarrow> cbor_wf depth v \<and> (\<exists>b e. consumed d [b] e \<and> encoded_at v b e d')"
      using body by blast
    also have "(\<exists>b e. consumed d [b] e \<and> encoded_at v b e d') \<longleftrightarrow> consumed d (encode v) d'"
      unfolding encoded_at_def
      by (metis consumed_Cons encode_nonempty neq_Nil_conv)
    finally show ?thesis .
  next
    case False
    then show ?thesis by (cases v) (simp_all add: read_too_deep)
  qed
qed

lemma read_spec: "read_spec depth"
proof (induction "Suc max_depth - depth" arbitrary: depth rule: less_induct)
  case less
  show ?case
  proof (cases "depth \<le> max_depth")
    case True
    then have "read_spec (Suc depth)" by (intro less) auto
    then show ?thesis by (simp add: read_spec_step items_spec entries_spec)
  next
    case False
    then show ?thesis
      by (auto simp: read_spec_def read_too_deep dest: cbor_wf_depth)
  qed
qed

lemma read_iff:
  "wf_dec d \<Longrightarrow> read depth d = Inr (v, d') \<longleftrightarrow> cbor_wf depth v \<and> consumed d (encode v) d'"
  using read_spec by (simp add: read_spec_def)

lemma decode_canonical_iff:
  "decode_canonical bs = Inr v \<longleftrightarrow>
     bs = encode v \<and> cbor_wf 0 v \<and> length bs \<le> max_document_bytes"
proof -
  define d where "d = \<lparr>dec_bytes = bs, dec_offset = 0\<rparr>"
  have "length bs \<le> max_document_bytes \<Longrightarrow> wf_dec d"
    by (simp add: d_def wf_dec_def max_document_bytes_def u64_max_def)
  then have "length bs \<le> max_document_bytes \<Longrightarrow>
      read 0 d = Inr (v, d') \<longleftrightarrow> cbor_wf 0 v \<and> consumed d (encode v) d'" for v d'
    by (rule read_iff)
  then show ?thesis
    unfolding decode_canonical_def d_def [symmetric]
    by (auto simp: res to_bytes_def consumed_def dec_rest_def d_def wf_dec_def max_document_bytes_def
        u64_max_def encode_nonempty [symmetric] split: if_splits)
qed

subsection \<open>Lengths\<close>

lemma encode_length_le: "length (encode_length m n) \<le> 9"
  by (simp add: encode_length_arg length_arg_def)

lemma encode_text_le: "length (encode_text t) \<le> 9 + length t"
  using encode_length_le [of 3 "length t"] by (simp add: encode_text_def)

lemma encode_atoms_le:
  "length (encode (CText t)) \<le> 9 + length t" "length (encode (CInteger n)) \<le> 9"
  using encode_text_le [of t] by (simp_all add: encode_integer_def encode_length_le)

lemma encode_map_le:
  "length (encode (CMap es)) \<le> 9 + (\<Sum>(k, v) \<leftarrow> es. 9 + length k + length (encode v))"
proof -
  have "length (concat (map (\<lambda>(key, item). encode_text key @ encode item) es)) \<le>
      (\<Sum>(k, v) \<leftarrow> es. 9 + length k + length (encode v))"
  proof (induction es)
    case (Cons e es)
    obtain k v where e: "e = (k, v)" by (cases e)
    show ?case using Cons encode_text_le [of k] by (simp add: e)
  qed simp
  then show ?thesis using encode_length_le [of 5 "length es"] by simp
qed

end
