(* ===== verification/Digest.thy ===== *)
theory Digest
  imports Cbor_Proofs
begin

text \<open>
  Domain-separated digests: \<open>crates/infer-contracts/src/digest.rs\<close>. SHA-256 comes from the
  \<open>sha2\<close> crate and is a parameter; what is modelled is the text form of a digest, the domain list,
  the bytes that are hashed, and the hexadecimal codec. The lemmas show that the hashed bytes
  determine domain and payload, so that equal digests of different payloads are a hash collision.
\<close>

definition digest_prefix :: string where
  "digest_prefix = ''sha256-''"

definition infer_domains :: "string list" where
  "infer_domains =
   [''infer-agent-effect'', ''infer-api'', ''infer-architecture'', ''infer-artifact-missing'',
    ''infer-attention'', ''infer-backend'', ''infer-base'', ''infer-binary'', ''infer-binding'',
    ''infer-cache-channel'', ''infer-cancellation'', ''infer-canonical-cbor'', ''infer-capacity'',
    ''infer-chain'', ''infer-challenge'', ''infer-cofactor'', ''infer-composition'',
    ''infer-concurrent-load'', ''infer-config'', ''infer-conformance'', ''infer-context-limit'',
    ''infer-contract-invalid'', ''infer-conversion'', ''infer-conversion-config'',
    ''infer-curve'', ''infer-digest-invalid'', ''infer-digest-mismatch'', ''infer-disconnect'',
    ''infer-disk'', ''infer-domain'', ''infer-draining'', ''infer-duplicate'',
    ''infer-engine-build'', ''infer-equality'', ''infer-equation'', ''infer-eviction'',
    ''infer-evidence'', ''infer-evidence-output'', ''infer-exact-attention'',
    ''infer-execution-event'', ''infer-execution-plan'', ''infer-execution-trace'',
    ''infer-expert-placement'', ''infer-extreme-cache'', ''infer-fault'', ''infer-finalization'',
    ''infer-fuzz'', ''infer-fuzz-corpus'', ''infer-glm'', ''infer-grammar'',
    ''infer-grammar-refusal'', ''infer-graph'', ''infer-grouped-kernel'', ''infer-hardware'',
    ''infer-host-key'', ''infer-hub'', ''infer-hybrid'', ''infer-image-invalid'',
    ''infer-image-signature'', ''infer-install'', ''infer-kernel'', ''infer-kernel-bundle'',
    ''infer-kv'', ''infer-large-placement'', ''infer-latency'', ''infer-limits'',
    ''infer-linear'', ''infer-llama'', ''infer-load'', ''infer-logits'', ''infer-memory'',
    ''infer-memory-refusal'', ''infer-mhc'', ''infer-mistral'', ''infer-mixed-placement'',
    ''infer-model-artifact'', ''infer-model-image'', ''infer-model-runtime'', ''infer-moe'',
    ''infer-mtp'', ''infer-multi-model'', ''infer-multimodal'', ''infer-notice'', ''infer-oom'',
    ''infer-output-text'', ''infer-output-tokens'', ''infer-overhead'', ''infer-payload'',
    ''infer-peak'', ''infer-perplexity'', ''infer-placement'', ''infer-placement-refusal'',
    ''infer-point'', ''infer-positional'', ''infer-prefix'', ''infer-prompt-compilation'',
    ''infer-prompt-input'', ''infer-prompt-plan'', ''infer-prompt-tokens'', ''infer-public'',
    ''infer-quantization'', ''infer-receipt'', ''infer-receipt-key'', ''infer-receipt-required'',
    ''infer-receipt-sign'', ''infer-receipt-store'', ''infer-receipt-verify'', ''infer-recipe'',
    ''infer-redaction'', ''infer-release'', ''infer-rendered-text'', ''infer-replay-check'',
    ''infer-replay-environment'', ''infer-replay-output'', ''infer-reproducible'',
    ''infer-request-intent'', ''infer-residual'', ''infer-restart'', ''infer-rmsnorm'',
    ''infer-rollback'', ''infer-rope'', ''infer-router'', ''infer-safe-error'', ''infer-sampler'',
    ''infer-sandbox'', ''infer-scalar'', ''infer-secondary'', ''infer-signature'',
    ''infer-signature-check'', ''infer-special-tokens'', ''infer-speculative'',
    ''infer-stop-strings'', ''infer-studio'', ''infer-swap'', ''infer-template'',
    ''infer-template-invalid'', ''infer-throughput'', ''infer-timeout'', ''infer-tokenizer'',
    ''infer-tokenizer-invalid'', ''infer-tool-refusal'', ''infer-tools'', ''infer-truncation'',
    ''infer-unload'', ''infer-verification'', ''infer-vision'', ''infer-vllm'',
    ''infer-worker-lost'', ''infer-worker-start'', ''infer-workstation'']"

datatype digest_hex = DigestHex string

fun digest_as_str :: "digest_hex \<Rightarrow> string" where
  "digest_as_str (DigestHex s) = s"

definition validate_digest :: "string \<Rightarrow> unit res" where
  "validate_digest value =
    (case strip_prefix digest_prefix value of
       None \<Rightarrow> Inl (fail DigestInvalid ''digest must start with sha256-'')
     | Some hex \<Rightarrow>
        if length hex \<noteq> 64 \<or> \<not> list_all (\<lambda>b. is_ascii_hexdigit b \<and> \<not> is_ascii_uppercase b) hex
        then Inl (fail DigestInvalid ''digest must be sha256- plus 64 lowercase hex characters'')
        else Inr ())"

definition digest_parse :: "string \<Rightarrow> digest_hex res" where
  "digest_parse value = rbind (validate_digest value) (\<lambda>_. Inr (DigestHex value))"

definition validate_domain :: "string \<Rightarrow> unit res" where
  "validate_domain domain =
    (if domain \<notin> set infer_domains then Inl (fail DigestInvalid ''unknown digest domain'')
     else Inr ())"

subsection \<open>Hexadecimal\<close>

text \<open>\<open>format!("{byte:02x}")\<close>\<close>

definition nibble_char :: "nat \<Rightarrow> char" where
  "nibble_char n = char_of (if n < 10 then 48 + n else 87 + n)"

definition byte_hex :: "u8 \<Rightarrow> string" where
  "byte_hex b = [nibble_char (unat b div 16), nibble_char (unat b mod 16)]"

definition encode_hex :: "u8 list \<Rightarrow> string" where
  "encode_hex bs = concat (map byte_hex bs)"

definition hex_nibble :: "char \<Rightarrow> u8 res" where
  "hex_nibble c =
    (let b = char_byte c in
     if 48 \<le> b \<and> b \<le> 57 then Inr (b - 48)
     else if 97 \<le> b \<and> b \<le> 102 then Inr (b - 97 + 10)
     else if 65 \<le> b \<and> b \<le> 70 then Inr (b - 65 + 10)
     else Inl (fail ContractInvalid ''invalid hexadecimal''))"

fun decode_pairs :: "string \<Rightarrow> u8 list res" where
  "decode_pairs (h # l # rest) =
    rbind (hex_nibble h) (\<lambda>hi.
    rbind (hex_nibble l) (\<lambda>lo.
    rbind (decode_pairs rest) (\<lambda>bs. Inr ((push_bit 4 hi OR lo) # bs))))"
| "decode_pairs _ = Inr []"

definition decode_hex :: "string \<Rightarrow> u8 list res" where
  "decode_hex value =
    (if length value mod 2 \<noteq> 0 \<or> \<not> list_all is_ascii_hexdigit value
     then Inl (fail ContractInvalid ''invalid hexadecimal'')
     else decode_pairs value)"

subsection \<open>Digests\<close>

definition digest_preimage :: "string \<Rightarrow> u8 list \<Rightarrow> u8 list" where
  "digest_preimage domain payload = as_bytes (''knolo:'' @ domain @ '':v1'' @ [char_of (0::nat)]) @ payload"

definition sha256_prefixed :: "(u8 list \<Rightarrow> u8 list) \<Rightarrow> u8 list \<Rightarrow> digest_hex" where
  "sha256_prefixed sha256 bs = DigestHex (digest_prefix @ concat (map byte_hex (sha256 bs)))"

definition digest_bytes :: "(u8 list \<Rightarrow> u8 list) \<Rightarrow> string \<Rightarrow> u8 list \<Rightarrow> digest_hex res" where
  "digest_bytes sha256 domain payload =
    rbind (validate_domain domain) (\<lambda>_.
      Inr (DigestHex (digest_prefix @
        concat (map byte_hex (sha256 (digest_preimage domain payload))))))"

definition digest_value :: "(u8 list \<Rightarrow> u8 list) \<Rightarrow> string \<Rightarrow> cbor_value \<Rightarrow> digest_hex res" where
  "digest_value sha256 domain v = digest_bytes sha256 domain (to_bytes v)"

subsection \<open>Hexadecimal lemmas\<close>

lemma nibble_char_of: "n < 16 \<Longrightarrow> of_char (nibble_char n) = (if n < 10 then 48 + n else 87 + n)"
  by (simp add: nibble_char_def)

lemma nibble_char_lower: "n < 16 \<Longrightarrow> is_ascii_hexdigit (nibble_char n) \<and> \<not> is_ascii_uppercase (nibble_char n)"
  by (auto simp: ascii_defs nibble_char_of)

lemma hex_nibble_char: "n < 16 \<Longrightarrow> hex_nibble (nibble_char n) = Inr (of_nat n)"
proof -
  assume "n < 16"
  then have "n \<in> {0, 1, 2, 3, 4, 5, 6, 7, 8, 9, 10, 11, 12, 13, 14, 15}"
    by (simp only: insert_iff empty_iff) presburger
  then show ?thesis
    by (elim insertE emptyE) (simp_all add: hex_nibble_def nibble_char_def char_byte_def)
qed

lemma nibbles_join: "push_bit 4 (of_nat (unat b div 16)) OR of_nat (unat b mod 16) = b" for b :: u8
proof -
  have "unat b div 16 < 256" using unat_byte_less [of b] by linarith
  then have "of_nat (unat b div 16) = drop_bit 4 b"
    by (simp add: word_unat_eq_iff drop_bit_eq_div unat_div unat_byte_of_nat)
  moreover have "of_nat (unat b mod 16) = take_bit 4 b"
    by (simp add: word_unat_eq_iff take_bit_eq_mod unat_mod unat_byte_of_nat)
  moreover have "push_bit 4 (drop_bit 4 b) OR take_bit 4 b = b"
    by (rule bit_word_eqI) (auto simp: bit_simps)
  ultimately show ?thesis by simp
qed

lemma decode_pairs_byte_hex:
  "decode_pairs (byte_hex b @ s) = rbind (decode_pairs s) (\<lambda>bs. Inr (b # bs))"
proof -
  have "unat b div 16 < 16" using unat_byte_less [of b] by linarith
  then show ?thesis by (simp add: byte_hex_def hex_nibble_char nibbles_join)
qed

lemma decode_pairs_encode_hex: "decode_pairs (encode_hex bs) = Inr bs"
  by (induction bs) (simp_all add: encode_hex_def decode_pairs_byte_hex)

lemma encode_hex_lower:
  "list_all (\<lambda>c. is_ascii_hexdigit c \<and> \<not> is_ascii_uppercase c) (encode_hex bs)"
proof (induction bs)
  case (Cons b bs)
  have "unat b div 16 < 16" using unat_byte_less [of b] by linarith
  with Cons show ?case by (simp add: encode_hex_def byte_hex_def nibble_char_lower)
qed (simp add: encode_hex_def)

lemma length_encode_hex [simp]: "length (encode_hex bs) = 2 * length bs"
  by (induction bs) (simp_all add: encode_hex_def byte_hex_def)

lemma decode_encode_hex: "decode_hex (encode_hex bs) = Inr bs"
  using encode_hex_lower [of bs] by (auto simp: decode_hex_def decode_pairs_encode_hex list_all_iff)

lemma encode_hex_inj: "encode_hex a = encode_hex b \<Longrightarrow> a = b"
  by (metis decode_encode_hex sum.inject(2))

subsection \<open>Digest lemmas\<close>

lemma infer_domains_no_colon: "d \<in> set infer_domains \<Longrightarrow> CHR '':'' \<notin> set d"
  by (auto simp: infer_domains_def)

lemma split_at_first:
  "x \<notin> set a \<Longrightarrow> x \<notin> set b \<Longrightarrow> a @ x # r = b @ x # t \<Longrightarrow> a = b \<and> r = t"
proof (induction a arbitrary: b)
  case Nil
  then show ?case by (cases b) auto
next
  case (Cons c a)
  then show ?case by (cases b) auto
qed

lemma digest_preimage_inj:
  assumes "d \<in> set infer_domains" and "e \<in> set infer_domains"
    and "digest_preimage d p = digest_preimage e q"
  shows "d = e \<and> p = q"
proof -
  let ?t = "'':v1'' @ [char_of (0::nat)]"
  have eq: "as_bytes (d @ ?t) @ p = as_bytes (e @ ?t) @ q"
    using assms(3) by (simp add: digest_preimage_def)
  then have "bytes_string (as_bytes (d @ ?t) @ p) = bytes_string (as_bytes (e @ ?t) @ q)"
    by (rule arg_cong)
  then have "d @ CHR '':'' # ''v1'' @ char_of (0::nat) # bytes_string p =
      e @ CHR '':'' # ''v1'' @ char_of (0::nat) # bytes_string q"
    by (simp add: bytes_string_def as_bytes_def comp_def)
  then have "d = e \<and> ''v1'' @ char_of (0::nat) # bytes_string p = ''v1'' @ char_of (0::nat) # bytes_string q"
    using infer_domains_no_colon assms(1,2) by (intro split_at_first)
  then show ?thesis by (simp) (metis as_bytes_bytes_string)
qed

lemma digest_bytes_Inr:
  "digest_bytes sha256 d p = Inr h \<longleftrightarrow>
   d \<in> set infer_domains \<and> h = DigestHex (digest_prefix @ encode_hex (sha256 (digest_preimage d p)))"
  by (auto simp: digest_bytes_def validate_domain_def encode_hex_def res)

lemma digest_bytes_collision:
  assumes "digest_bytes sha256 d p = Inr h" and "digest_bytes sha256 e q = Inr h"
  shows "d = e \<and> p = q \<or> digest_preimage d p \<noteq> digest_preimage e q \<and>
    sha256 (digest_preimage d p) = sha256 (digest_preimage e q)"
proof (cases "digest_preimage d p = digest_preimage e q")
  case True
  with assms show ?thesis by (auto simp: digest_bytes_Inr dest: digest_preimage_inj)
next
  case False
  moreover have "sha256 (digest_preimage d p) = sha256 (digest_preimage e q)"
    using assms by (auto simp: digest_bytes_Inr dest: encode_hex_inj)
  ultimately show ?thesis by blast
qed

lemma validate_digest_Inr:
  "validate_digest v = Inr u \<longleftrightarrow>
   (\<exists>hex. v = digest_prefix @ hex \<and> length hex = 64 \<and>
     list_all (\<lambda>b. is_ascii_hexdigit b \<and> \<not> is_ascii_uppercase b) hex)"
  by (auto simp: validate_digest_def strip_prefix_Some split: option.splits)
    (metis strip_prefix_Some option.distinct(1))+

lemma digest_bytes_valid:
  assumes "digest_bytes sha256 d p = Inr h" and "\<And>x. length (sha256 x) = 32"
  shows "digest_parse (digest_as_str h) = Inr h"
proof -
  have "validate_digest (digest_as_str h) = Inr ()"
    using assms encode_hex_lower by (auto simp: digest_bytes_Inr validate_digest_Inr)
  then show ?thesis by (cases h) (simp add: digest_parse_def)
qed

lemma digest_parse_Inr: "digest_parse s = Inr h \<longleftrightarrow> validate_digest s = Inr () \<and> h = DigestHex s"
  by (auto simp: digest_parse_def res)

lemma digest_prefix_ascii: "c \<in> set digest_prefix \<Longrightarrow> is_ascii c"
  by (auto simp: digest_prefix_def is_ascii_def)

lemma length_digest_prefix [simp]: "length digest_prefix = 7"
  by (simp add: digest_prefix_def)

lemma valid_digest_utf8:
  assumes "validate_digest s = Inr u"
  shows "utf8_string s \<and> length s = 71"
proof -
  obtain hex where s: "s = digest_prefix @ hex" "length hex = 64"
      "\<forall>c \<in> set hex. is_ascii_hexdigit c"
    using assms by (auto simp: validate_digest_Inr list_all_iff)
  then have "\<forall>c \<in> set s. is_ascii c"
    using ascii_classes(4) digest_prefix_ascii by auto
  with s show ?thesis by (simp add: utf8_string_ascii)
qed

end
