(* ===== verification/Btree.thy ===== *)
theory Btree
  imports Failure
begin

text \<open>
  \<open>std::collections::BTreeMap\<close> and \<open>BTreeSet\<close> as the strictly sorted lists that their iterators
  produce. A locale states what the components rely on, and its interpretation on the list
  operations discharges it.
\<close>

type_synonym ('k, 'v) btree = "('k \<times> 'v) list"

fun bt_insert :: "'k::linorder \<Rightarrow> 'v \<Rightarrow> ('k, 'v) btree \<Rightarrow> ('k, 'v) btree" where
  "bt_insert k v [] = [(k, v)]"
| "bt_insert k v ((l, w) # m) =
    (if k < l then (k, v) # (l, w) # m
     else if k = l then (k, v) # m
     else (l, w) # bt_insert k v m)"

definition bt_remove :: "'k \<Rightarrow> ('k, 'v) btree \<Rightarrow> ('k, 'v) btree" where
  "bt_remove k m = filter (\<lambda>e. fst e \<noteq> k) m"

text \<open>Mutation through \<open>get_mut\<close>: the entry of a key, rewritten in place.\<close>

definition bt_update :: "'k \<Rightarrow> ('v \<Rightarrow> 'v) \<Rightarrow> ('k, 'v) btree \<Rightarrow> ('k, 'v) btree" where
  "bt_update k f m = map (\<lambda>(l, w). (l, if l = k then f w else w)) m"

abbreviation bt_get :: "('k, 'v) btree \<Rightarrow> 'k \<Rightarrow> 'v option" where
  "bt_get \<equiv> map_of"

definition bt_keys :: "('k, 'v) btree \<Rightarrow> 'k list" where
  "bt_keys m = map fst m"

definition bt_values :: "('k, 'v) btree \<Rightarrow> 'v list" where
  "bt_values m = map snd m"

definition bt_ok :: "('k::linorder, 'v) btree \<Rightarrow> bool" where
  "bt_ok m \<longleftrightarrow> sorted_wrt (<) (map fst m)"

definition bt_sum :: "('v \<Rightarrow> 'a::comm_monoid_add) \<Rightarrow> ('k, 'v) btree \<Rightarrow> 'a" where
  "bt_sum f m = sum_list (map f (bt_values m))"

subsection \<open>Laws\<close>

lemma bt_ok_Nil [simp]: "bt_ok []"
  by (simp add: bt_ok_def)

lemma bt_ok_Cons: "bt_ok ((k, v) # m) \<longleftrightarrow> (\<forall>l \<in> fst ` set m. k < l) \<and> bt_ok m"
  by (auto simp: bt_ok_def)

lemma bt_ok_distinct: "bt_ok m \<Longrightarrow> distinct (map fst m)"
  by (simp add: bt_ok_def strict_sorted_iff)

lemma keys_bt_insert: "fst ` set (bt_insert k v m) = insert k (fst ` set m)"
proof (induction m)
  case (Cons e m)
  then show ?case by (cases e) (simp add: insert_commute)
qed simp

lemma bt_ok_insert [simp]: "bt_ok m \<Longrightarrow> bt_ok (bt_insert k v m)"
proof (induction m)
  case (Cons e m)
  then show ?case by (cases e) (auto simp: bt_ok_Cons keys_bt_insert)
qed (simp add: bt_ok_def)

lemma bt_get_insert [simp]: "bt_ok m \<Longrightarrow> bt_get (bt_insert k v m) = (bt_get m)(k \<mapsto> v)"
proof (induction m)
  case (Cons e m)
  obtain l w where e: "e = (l, w)" by (cases e)
  from Cons show ?case by (auto simp: e bt_ok_Cons fun_eq_iff)
qed simp

lemma bt_get_remove [simp]: "bt_get (bt_remove k m) = (bt_get m)(k := None)"
  by (induction m) (auto simp: bt_remove_def)

lemma keys_bt_remove: "fst ` set (bt_remove k m) = fst ` set m - {k}"
  by (auto simp: bt_remove_def)

lemma bt_ok_remove [simp]: "bt_ok m \<Longrightarrow> bt_ok (bt_remove k m)"
  by (induction m) (auto simp: bt_ok_def bt_remove_def)

lemma keys_bt_update [simp]: "map fst (bt_update k f m) = map fst m"
  by (induction m) (auto simp: bt_update_def)

lemma bt_ok_update [simp]: "bt_ok (bt_update k f m) = bt_ok m"
  by (simp add: bt_ok_def)

lemma bt_get_update [simp]:
  "bt_get (bt_update k f m) = (bt_get m)(k := map_option f (bt_get m k))"
  by (induction m) (auto simp: bt_update_def fun_eq_iff)

lemma bt_get_iff: "bt_ok m \<Longrightarrow> bt_get m k = Some v \<longleftrightarrow> (k, v) \<in> set m"
  by (simp add: bt_ok_distinct)

lemma bt_get_None: "bt_get m k = None \<longleftrightarrow> k \<notin> fst ` set m"
  by (rule map_of_eq_None_iff)

lemma bt_values_iff: "bt_ok m \<Longrightarrow> v \<in> set (bt_values m) \<longleftrightarrow> (\<exists>k. bt_get m k = Some v)"
  by (force simp: bt_values_def bt_get_iff)

lemma bt_keys_iff: "k \<in> set (bt_keys m) \<longleftrightarrow> (\<exists>v. bt_get m k = Some v)"
  by (simp add: bt_keys_def) (metis bt_get_None not_None_eq)

text \<open>Two maps with the same lookups are the same list.\<close>

lemma bt_ext:
  assumes "bt_ok m" and "bt_ok n" and "\<And>k. bt_get m k = bt_get n k"
  shows "m = n"
proof -
  have "bt_get m = bt_get n" using assms(3) by (rule ext)
  then have eq: "set m = set n"
    using map_of_inject_set [OF bt_ok_distinct bt_ok_distinct] assms(1,2) by blast
  then have "set (map fst m) = set (map fst n)" by simp
  then have "map fst m = map fst n"
    using assms(1,2) unfolding bt_ok_def by (simp add: strict_sorted_equal)
  moreover have "inj_on fst (set m \<union> set n)"
    using bt_ok_distinct [OF assms(1)] eq by (simp add: distinct_map)
  ultimately show ?thesis by (rule map_inj_on)
qed

lemma bt_insert_same: "bt_ok m \<Longrightarrow> bt_insert k v (bt_insert k w m) = bt_insert k v m"
  by (rule bt_ext) auto

lemma bt_sum_Nil [simp]: "bt_sum f [] = 0"
  by (simp add: bt_sum_def bt_values_def)

lemma bt_sum_Cons [simp]: "bt_sum f ((k, v) # m) = f v + bt_sum f m"
  by (simp add: bt_sum_def bt_values_def)

lemma bt_sum_insert_fresh:
  "bt_get m k = None \<Longrightarrow> bt_sum f (bt_insert k v m) = f v + bt_sum f m"
  by (induction m) (auto simp: ac_simps split: if_splits)

lemma bt_sum_remove:
  "distinct (map fst m) \<Longrightarrow> bt_get m k = Some v \<Longrightarrow> bt_sum f (bt_remove k m) + f v = bt_sum f m"
proof (induction m)
  case (Cons e m)
  obtain l w where e: "e = (l, w)" by (cases e)
  show ?case
  proof (cases "l = k")
    case True
    with Cons.prems have "bt_remove k m = m"
      by (auto simp: e bt_remove_def filter_id_conv)
    with Cons.prems True show ?thesis by (auto simp: e bt_remove_def add.commute)
  next
    case False
    then have "bt_sum f (bt_remove k (e # m)) + f v = f w + (bt_sum f (bt_remove k m) + f v)"
      by (simp add: e bt_remove_def add.assoc)
    also have "bt_sum f (bt_remove k m) + f v = bt_sum f m"
      using Cons.prems False by (intro Cons.IH) (auto simp: e)
    finally show ?thesis by (simp add: e)
  qed
qed simp

lemma bt_sum_update:
  "distinct (map fst m) \<Longrightarrow> bt_get m k = Some v \<Longrightarrow>
   bt_sum f (bt_update k g m) + f v = bt_sum f m + f (g v)"
proof (induction m)
  case (Cons e m)
  obtain l w where e: "e = (l, w)" by (cases e)
  show ?case
  proof (cases "l = k")
    case True
    with Cons.prems have "bt_update k g m = m"
      by (force simp: e bt_update_def intro!: map_idI)
    with Cons.prems True show ?thesis by (auto simp: e bt_update_def add.commute add.left_commute)
  next
    case False
    then have "bt_sum f (bt_update k g (e # m)) + f v = f w + (bt_sum f (bt_update k g m) + f v)"
      by (simp add: e bt_update_def add.assoc)
    also have "bt_sum f (bt_update k g m) + f v = bt_sum f m + f (g v)"
      using Cons.prems False by (intro Cons.IH) (auto simp: e)
    finally show ?thesis by (simp add: e add.assoc)
  qed
qed simp

lemma bt_sum_ge: "bt_get m k = Some v \<Longrightarrow> (f v :: nat) \<le> bt_sum f m"
  by (induction m) (auto split: if_splits)

lemma bt_sum_update_same:
  "(\<And>v. f (g v) = f v) \<Longrightarrow> bt_sum f (bt_update k g m) = bt_sum f m"
  by (induction m) (auto simp: bt_update_def)

lemma bt_update_absent: "bt_get m k = None \<Longrightarrow> bt_update k f m = m"
  by (induction m) (auto simp: bt_update_def split: if_splits)

subsection \<open>The interface\<close>

locale ordered_map =
  fixes empty :: "'m"
    and insert_at :: "'k::linorder \<Rightarrow> 'v \<Rightarrow> 'm \<Rightarrow> 'm"
    and remove_at :: "'k \<Rightarrow> 'm \<Rightarrow> 'm"
    and lookup :: "'m \<Rightarrow> 'k \<Rightarrow> 'v option"
    and entries :: "'m \<Rightarrow> ('k \<times> 'v) list"
    and ok :: "'m \<Rightarrow> bool"
  assumes ok_empty: "ok empty"
    and lookup_empty: "lookup empty k = None"
    and ok_insert: "ok m \<Longrightarrow> ok (insert_at k v m)"
    and lookup_insert: "ok m \<Longrightarrow> lookup (insert_at k v m) l = (if l = k then Some v else lookup m l)"
    and ok_remove: "ok m \<Longrightarrow> ok (remove_at k m)"
    and lookup_remove: "ok m \<Longrightarrow> lookup (remove_at k m) l = (if l = k then None else lookup m l)"
    and entries_lookup: "ok m \<Longrightarrow> (k, v) \<in> set (entries m) \<longleftrightarrow> lookup m k = Some v"
    and entries_sorted: "ok m \<Longrightarrow> sorted_wrt (<) (map fst (entries m))"
begin

lemma remove_insert:
  assumes "ok m" and "lookup m k = None"
  shows "lookup (remove_at k (insert_at k v m)) l = lookup m l"
  using assms by (simp add: lookup_remove lookup_insert ok_insert)

lemma keys_lookup: "ok m \<Longrightarrow> k \<in> fst ` set (entries m) \<longleftrightarrow> lookup m k \<noteq> None"
  by (simp add: image_iff Bex_def split_paired_Ex entries_lookup)

lemma keys_insert: "ok m \<Longrightarrow> fst ` set (entries (insert_at k v m)) = insert k (fst ` set (entries m))"
  by (auto simp: set_eq_iff keys_lookup ok_insert lookup_insert)

lemma entries_distinct: "ok m \<Longrightarrow> distinct (map fst (entries m))"
  using entries_sorted by (simp add: strict_sorted_iff)

end

interpretation bt: ordered_map "[]" bt_insert bt_remove bt_get "\<lambda>m. m" bt_ok
  by unfold_locales (simp_all add: bt_get_iff, simp_all add: bt_ok_def)

subsection \<open>Ordered sets\<close>

text \<open>\<open>BTreeSet<u32>\<close>: \<open>insert\<close> and \<open>pop_first\<close>.\<close>

definition bs_insert :: "'k::linorder \<Rightarrow> 'k list \<Rightarrow> 'k list" where
  "bs_insert k s = insort_insert k s"

definition bs_pop_first :: "'k list \<Rightarrow> ('k \<times> 'k list) option" where
  "bs_pop_first s = (case s of [] \<Rightarrow> None | k # s' \<Rightarrow> Some (k, s'))"

lemma set_bs_insert [simp]: "set (bs_insert k s) = insert k (set s)"
  by (simp add: bs_insert_def set_insort_insert)

lemma sorted_bs_insert [simp]: "sorted s \<Longrightarrow> sorted (bs_insert k s)"
  by (simp add: bs_insert_def sorted_insort_insert)

lemma distinct_bs_insert [simp]: "distinct s \<Longrightarrow> distinct (bs_insert k s)"
  by (simp add: bs_insert_def distinct_insort_insert)

lemma bs_pop_first_Some: "bs_pop_first s = Some (k, s') \<longleftrightarrow> s = k # s'"
  by (cases s) (auto simp: bs_pop_first_def)

lemma bs_pop_first_None: "bs_pop_first s = None \<longleftrightarrow> s = []"
  by (cases s) (auto simp: bs_pop_first_def)

end
