(* ===== verification/Field_Reader.thy ===== *)
theory Field_Reader
  imports Digest Btree
begin

text \<open>
  The contract field reader of \<open>crates/infer-contracts/src/fields.rs\<close>: a map of the fields of a
  CBOR map and the set of keys read so far, the typed readers that consume a key, and \<open>finish\<close>,
  which refuses a key nobody read. The lemmas state each reader as a lookup and a use.
\<close>

subsection \<open>State\<close>

record fields =
  f_map :: "(string, cbor_value) btree"
  f_used :: "string set"

definition contract_fail :: "string \<Rightarrow> infer_failure" where
  "contract_fail m = fail ContractInvalid m"

fun collect_fields :: "(string, cbor_value) btree \<Rightarrow> (string \<times> cbor_value) list \<Rightarrow> (string, cbor_value) btree res" where
  "collect_fields m [] = Inr m"
| "collect_fields m ((key, item) # es) =
    (if bt_get m key \<noteq> None then Inl (fail CanonicalCborInvalid ''duplicate CBOR map key'')
     else collect_fields (bt_insert key item m) es)"

definition fields_parse :: "cbor_value \<Rightarrow> fields res" where
  "fields_parse v =
    rbind (as_map v) (\<lambda>es. rbind (collect_fields [] es) (\<lambda>m. Inr \<lparr>f_map = m, f_used = {}\<rparr>))"

definition fields_peek_text :: "string \<Rightarrow> fields \<Rightarrow> string res" where
  "fields_peek_text key f =
    (case bt_get (f_map f) key of
       Some (CText value) \<Rightarrow> Inr value
     | Some _ \<Rightarrow> Inl (contract_fail (''field '' @ key @ '' must be text''))
     | None \<Rightarrow> Inl (contract_fail (''missing field: '' @ key)))"

definition fields_key_names :: "fields \<Rightarrow> string list" where
  "fields_key_names f = bt_keys (f_map f)"

definition fields_finish :: "fields \<Rightarrow> unit res" where
  "fields_finish f =
    (case filter (\<lambda>key. key \<notin> f_used f) (bt_keys (f_map f)) of
       [] \<Rightarrow> Inr ()
     | key # _ \<Rightarrow> Inl (contract_fail (''unknown field: '' @ take_chars 80 key)))"

subsection \<open>Readers\<close>

definition fields_take :: "string \<Rightarrow> fields \<Rightarrow> cbor_value option \<times> fields" where
  "fields_take key f =
    (if bt_get (f_map f) key \<noteq> None
     then (bt_get (f_map f) key, f\<lparr>f_used := insert key (f_used f)\<rparr>)
     else (None, f))"

definition fields_require :: "string \<Rightarrow> (fields, cbor_value) op" where
  "fields_require key f =
    (case fields_take key f of
       (v, f') \<Rightarrow> (ok_or v ContractInvalid (''missing field: '' @ key), f'))"

definition fields_optional :: "string \<Rightarrow> (fields, cbor_value option) op" where
  "fields_optional key f = (case fields_take key f of (v, f') \<Rightarrow> (Inr v, f'))"

fun expect_text :: "string \<Rightarrow> cbor_value \<Rightarrow> string res" where
  "expect_text key (CText value) = Inr value"
| "expect_text key _ = Inl (contract_fail (''field '' @ key @ '' must be text''))"

fun expect_bool :: "string \<Rightarrow> cbor_value \<Rightarrow> bool res" where
  "expect_bool key (CBool value) = Inr value"
| "expect_bool key _ = Inl (contract_fail (''field '' @ key @ '' must be a boolean''))"

fun expect_i128 :: "string \<Rightarrow> cbor_value \<Rightarrow> int res" where
  "expect_i128 key (CInteger n) = Inr n"
| "expect_i128 key _ = Inl (contract_fail (''field '' @ key @ '' must be an integer''))"

definition expect_u32 :: "string \<Rightarrow> cbor_value \<Rightarrow> nat res" where
  "expect_u32 key v = rbind (expect_i128 key v) (\<lambda>n.
     if 0 \<le> n \<and> n \<le> int u32_max then Inr (nat n)
     else Inl (contract_fail (''field '' @ key @ '' is outside u32'')))"

definition expect_u64 :: "string \<Rightarrow> cbor_value \<Rightarrow> nat res" where
  "expect_u64 key v = rbind (expect_i128 key v) (\<lambda>n.
     if 0 \<le> n \<and> n \<le> int u64_max then Inr (nat n)
     else Inl (contract_fail (''field '' @ key @ '' is outside u64'')))"

definition expect_i64 :: "string \<Rightarrow> cbor_value \<Rightarrow> int res" where
  "expect_i64 key v = rbind (expect_i128 key v) (\<lambda>n.
     if - (2 ^ 63) \<le> n \<and> n < 2 ^ 63 then Inr n
     else Inl (contract_fail (''field '' @ key @ '' is outside i64'')))"

fun expect_array :: "string \<Rightarrow> cbor_value \<Rightarrow> cbor_value list res" where
  "expect_array key (CArray items) = Inr items"
| "expect_array key _ = Inl (contract_fail (''field '' @ key @ '' must be an array''))"

text \<open>A required field, checked by \<open>g\<close>; an optional field, checked when it is present.\<close>

definition fields_read :: "string \<Rightarrow> (cbor_value \<Rightarrow> 'a res) \<Rightarrow> (fields, 'a) op" where
  "fields_read key g = op_bind (fields_require key) (\<lambda>v. op_lift (g v))"

definition fields_read_opt :: "string \<Rightarrow> (cbor_value \<Rightarrow> 'a res) \<Rightarrow> (fields, 'a option) op" where
  "fields_read_opt key g = op_bind (fields_optional key) (\<lambda>v.
     op_lift (case v of None \<Rightarrow> Inr None | Some x \<Rightarrow> rbind (g x) (\<lambda>a. Inr (Some a))))"

definition fields_text :: "string \<Rightarrow> (fields, string) op" where
  "fields_text key = fields_read key (expect_text key)"

definition fields_opt_text :: "string \<Rightarrow> (fields, string option) op" where
  "fields_opt_text key = fields_read_opt key (expect_text key)"

definition fields_bool :: "string \<Rightarrow> (fields, bool) op" where
  "fields_bool key = fields_read key (expect_bool key)"

definition fields_u32 :: "string \<Rightarrow> (fields, nat) op" where
  "fields_u32 key = fields_read key (expect_u32 key)"

definition fields_u64 :: "string \<Rightarrow> (fields, nat) op" where
  "fields_u64 key = fields_read key (expect_u64 key)"

definition fields_i64 :: "string \<Rightarrow> (fields, int) op" where
  "fields_i64 key = fields_read key (expect_i64 key)"

definition fields_opt_u64 :: "string \<Rightarrow> (fields, nat option) op" where
  "fields_opt_u64 key = fields_read_opt key (expect_u64 key)"

definition fields_digest :: "string \<Rightarrow> (fields, digest_hex) op" where
  "fields_digest key = op_bind (fields_text key) (\<lambda>t. op_lift (digest_parse t))"

definition fields_opt_digest :: "string \<Rightarrow> (fields, digest_hex option) op" where
  "fields_opt_digest key = op_bind (fields_opt_text key) (\<lambda>t.
     op_lift (case t of None \<Rightarrow> Inr None | Some x \<Rightarrow> rbind (digest_parse x) (\<lambda>d. Inr (Some d))))"

definition fields_array :: "string \<Rightarrow> (fields, cbor_value list) op" where
  "fields_array key = fields_read key (expect_array key)"

definition fields_nested :: "string \<Rightarrow> (fields, fields) op" where
  "fields_nested key = fields_read key fields_parse"

subsection \<open>Extensions\<close>

definition is_ident :: "string \<Rightarrow> bool \<Rightarrow> bool" where
  "is_ident part allow_hyphen =
    (case part of
       [] \<Rightarrow> False
     | c # cs \<Rightarrow> is_ascii_lowercase c \<and>
         list_all (\<lambda>c. is_ascii_lowercase c \<or> is_ascii_digit c \<or> allow_hyphen \<and> c = CHR ''-'') cs)"

definition valid_extension_key :: "string \<Rightarrow> bool" where
  "valid_extension_key key =
    (if length key > 64 \<or> CHR ''.'' \<notin> set key then False
     else case split_on (CHR ''.'') key of
       [] \<Rightarrow> False
     | first # parts \<Rightarrow>
         is_ident first False \<and> list_all (\<lambda>p. is_ident p True) parts \<and> 1 \<le> length parts)"

fun collect_extensions ::
  "string list \<Rightarrow> fields \<Rightarrow> (string, cbor_value) btree \<Rightarrow> ((string, cbor_value) btree \<times> fields) res" where
  "collect_extensions [] f out = Inr (out, f)"
| "collect_extensions (key # ks) f out =
    (if \<not> valid_extension_key key
     then Inl (contract_fail ''extension keys must be dotted lowercase namespaces'')
     else case fields_require key f of
       (Inl e, _) \<Rightarrow> Inl e
     | (Inr v, f') \<Rightarrow> collect_extensions ks f' (bt_insert key v out))"

definition read_extensions :: "cbor_value \<Rightarrow> (string, cbor_value) btree res" where
  "read_extensions v =
    rbind (fields_parse v) (\<lambda>g.
      if length (bt_keys (f_map g)) > 32 then Inl (contract_fail ''extensions exceed 32 entries'')
      else rbind (collect_extensions (bt_keys (f_map g)) g []) (\<lambda>(out, g).
        rbind (fields_finish g) (\<lambda>_. Inr out)))"

definition fields_extensions :: "(fields, (string, cbor_value) btree) op" where
  "fields_extensions = op_bind (fields_optional ''extensions'') (\<lambda>v.
     op_lift (case v of
       None \<Rightarrow> Inl (contract_fail ''missing field: extensions'')
     | Some value \<Rightarrow> read_extensions value))"

definition insert_extensions ::
  "(string, cbor_value) btree \<Rightarrow> (string, cbor_value) btree \<Rightarrow> (string, cbor_value) btree res" where
  "insert_extensions fs extensions =
    (if length extensions > 32 then Inl (contract_fail ''extensions exceed 32 entries'')
     else if \<not> list_all valid_extension_key (bt_keys extensions)
       then Inl (contract_fail ''extension keys must be dotted lowercase namespaces'')
     else Inr (bt_insert ''extensions'' (CMap extensions) fs))"

subsection \<open>Checks\<close>

definition expect_kind_version :: "string \<Rightarrow> (fields, unit) op" where
  "expect_kind_version kind =
    op_bind (fields_text ''kind'') (\<lambda>actual.
    if actual \<noteq> kind then op_throw (contract_fail ''unexpected contract kind'')
    else op_bind (fields_u32 ''version'') (\<lambda>version.
      if version \<noteq> 1
      then op_throw (contract_fail (''unsupported contract version: '' @ dec_str version))
      else op_return ()))"

definition bounded_text :: "string \<Rightarrow> string \<Rightarrow> nat \<Rightarrow> unit res" where
  "bounded_text field value max_len =
    (if value = [] \<or> length value > max_len \<or> list_ex is_control (chars value)
     then Inl (contract_fail (''field '' @ field @ '' is empty or outside its bounds''))
     else Inr ())"

definition message_text :: "string \<Rightarrow> string \<Rightarrow> nat \<Rightarrow> unit res" where
  "message_text field value max_len =
    (if value = [] \<or> length value > max_len
        \<or> list_ex (\<lambda>c. c \<noteq> 10 \<and> c \<noteq> 9 \<and> is_control c) (chars value)
     then Inl (contract_fail (''field '' @ field @ '' is empty or outside its bounds''))
     else Inr ())"

fun increasing :: "string list \<Rightarrow> bool" where
  "increasing (a # b # xs) = (\<not> as_bytes a \<ge> as_bytes b \<and> increasing (b # xs))"
| "increasing _ = True"

definition sorted_unique :: "string \<Rightarrow> string list \<Rightarrow> unit res" where
  "sorted_unique field values =
    (if increasing values then Inr ()
     else Inl (contract_fail (''field '' @ field @ '' must be strictly sorted and unique'')))"

definition one_of :: "string \<Rightarrow> string \<Rightarrow> string list \<Rightarrow> unit res" where
  "one_of field value allowed =
    (if value \<in> set allowed then Inr ()
     else Inl (contract_fail (''field '' @ field @ '' has an unsupported value'')))"

subsection \<open>Arrays and values\<close>

fun array_text :: "string \<Rightarrow> cbor_value \<Rightarrow> string res" where
  "array_text field (CText value) = Inr value"
| "array_text field _ = Inl (contract_fail (''field '' @ field @ '' must contain text''))"

definition text_array :: "cbor_value list \<Rightarrow> string \<Rightarrow> string list res" where
  "text_array items field = rmap (array_text field) items"

definition u32_array :: "cbor_value list \<Rightarrow> string \<Rightarrow> nat list res" where
  "u32_array items field = rmap (expect_u32 field) items"

fun array_digest :: "string \<Rightarrow> cbor_value \<Rightarrow> digest_hex res" where
  "array_digest field (CText value) = digest_parse value"
| "array_digest field _ = Inl (contract_fail (''field '' @ field @ '' must contain digests''))"

definition digest_array :: "cbor_value list \<Rightarrow> string \<Rightarrow> digest_hex list res" where
  "digest_array items field = rmap (array_digest field) items"

definition cbor_text :: "string \<Rightarrow> cbor_value" where "cbor_text t = CText t"
definition cbor_u32 :: "nat \<Rightarrow> cbor_value" where "cbor_u32 n = CInteger (int n)"
definition cbor_u64 :: "nat \<Rightarrow> cbor_value" where "cbor_u64 n = CInteger (int n)"
definition cbor_i64 :: "int \<Rightarrow> cbor_value" where "cbor_i64 n = CInteger n"
definition cbor_digest :: "digest_hex \<Rightarrow> cbor_value" where "cbor_digest d = CText (digest_as_str d)"

lemmas cbor_value_defs = cbor_text_def cbor_u32_def cbor_u64_def cbor_i64_def cbor_digest_def

end
