(* ===== verification/Field_Laws.thy ===== *)
theory Field_Laws
  imports Field_Reader
begin

text \<open>
  The readers of \<open>Field_Reader\<close> as equations: a reader succeeds with a value exactly when the map
  holds the encoding of that value under the key, and then the key counts as used. A contract's
  \<open>from_cbor\<close> rewrites with them to a conjunction of lookups, its \<open>to_cbor\<close> to the same lookups.
\<close>

subsection \<open>Sequencing\<close>

lemma op_bind_ok [res]:
  "op_bind m g s = (Inr b, t) \<longleftrightarrow> (\<exists>a s'. m s = (Inr a, s') \<and> g a s' = (Inr b, t))"
  by (auto simp: op_bind_def split: prod.splits sum.splits)

lemma op_lift_ok [res]: "op_lift r s = (Inr a, t) \<longleftrightarrow> r = Inr a \<and> t = s"
  by (auto simp: op_lift_def)

lemma op_return_ok [res]: "op_return b s = (Inr a, t) \<longleftrightarrow> a = b \<and> t = s"
  by (auto simp: op_return_def)

lemma op_throw_ok [res]: "op_throw e s = (Inr a, t) \<longleftrightarrow> False"
  by (simp add: op_throw_def)

lemma op_if_throw_ok [res]:
  "(if b then op_throw e else m) s = (Inr a, t) \<longleftrightarrow> \<not> b \<and> m s = (Inr a, t)"
  by (simp add: op_throw_def)

lemma op_getr_ok [res]: "op_getr r s = (Inr a, t) \<longleftrightarrow> r s = Inr a \<and> t = s"
  by (auto simp: op_getr_def)

subsection \<open>The fields still unread\<close>

definition fields_use :: "string \<Rightarrow> fields \<Rightarrow> fields" where
  "fields_use key f = snd (fields_take key f)"

definition fields_left :: "fields \<Rightarrow> string set" where
  "fields_left f = fst ` set (f_map f) - f_used f"

lemma f_map_use [simp]: "f_map (fields_use key f) = f_map f"
  by (simp add: fields_use_def fields_take_def)

lemma fields_left_use [simp]: "fields_left (fields_use key f) = fields_left f - {key}"
  by (auto simp: fields_use_def fields_take_def fields_left_def bt_get_None
      simp flip: not_None_eq)

lemma fields_finish_left: "fields_finish f = Inr u \<longleftrightarrow> fields_left f = {}"
proof -
  have "fields_finish f = Inr () \<longleftrightarrow> filter (\<lambda>k. k \<notin> f_used f) (bt_keys (f_map f)) = []"
    by (simp add: fields_finish_def split: list.split)
  also have "\<dots> \<longleftrightarrow> fields_left f = {}"
    by (auto simp: filter_empty_conv fields_left_def bt_keys_def)
  finally show ?thesis by simp
qed

definition fields_within :: "fields \<Rightarrow> string set \<Rightarrow> bool" where
  "fields_within f K \<longleftrightarrow> fields_left f \<subseteq> K"

definition keys_within :: "(string, cbor_value) btree \<Rightarrow> string set \<Rightarrow> bool" where
  "keys_within es K \<longleftrightarrow> fst ` set es \<subseteq> K"

lemma fields_finish_ok [res]: "fields_finish f = Inr u \<longleftrightarrow> fields_within f {}"
  by (simp add: fields_finish_left fields_within_def)

lemma fields_within_use [simp]: "fields_within (fields_use key f) K = fields_within f (insert key K)"
  by (auto simp: fields_within_def)

lemma fields_within_start [simp]: "fields_within \<lparr>f_map = es, f_used = {}\<rparr> K = keys_within es K"
  by (simp add: fields_within_def fields_left_def keys_within_def)

lemma fields_require_ok [res]:
  "fields_require key f = (Inr v, g) \<longleftrightarrow> bt_get (f_map f) key = Some v \<and> g = fields_use key f"
  by (auto simp: fields_require_def fields_use_def fields_take_def)

lemma fields_optional_ok [res]:
  "fields_optional key f = (Inr v, g) \<longleftrightarrow> bt_get (f_map f) key = v \<and> g = fields_use key f"
  by (auto simp: fields_optional_def fields_use_def fields_take_def)

lemma fields_read_ok:
  "fields_read key r f = (Inr a, g) \<longleftrightarrow>
   (\<exists>v. bt_get (f_map f) key = Some v \<and> r v = Inr a) \<and> g = fields_use key f"
  by (auto simp: fields_read_def res)

lemma fields_read_opt_ok:
  "fields_read_opt key r f = (Inr a, g) \<longleftrightarrow>
   (case bt_get (f_map f) key of None \<Rightarrow> a = None | Some v \<Rightarrow> \<exists>b. r v = Inr b \<and> a = Some b) \<and>
   g = fields_use key f"
  by (auto simp: fields_read_opt_def res split: option.splits)

subsection \<open>Values\<close>

lemma expect_text_ok [res]: "expect_text key v = Inr t \<longleftrightarrow> v = CText t"
  by (cases v) auto

lemma expect_bool_ok [res]: "expect_bool key v = Inr b \<longleftrightarrow> v = CBool b"
  by (cases v) auto

lemma expect_i128_ok [res]: "expect_i128 key v = Inr n \<longleftrightarrow> v = CInteger n"
  by (cases v) auto

lemma expect_array_ok [res]: "expect_array key v = Inr xs \<longleftrightarrow> v = CArray xs"
  by (cases v) auto

lemma expect_u32_ok [res]: "expect_u32 key v = Inr n \<longleftrightarrow> v = cbor_u32 n \<and> n \<le> u32_max"
  by (auto simp: expect_u32_def cbor_u32_def res u32_max_def)

lemma expect_u64_ok [res]: "expect_u64 key v = Inr n \<longleftrightarrow> v = cbor_u64 n \<and> n \<le> u64_max"
  by (auto simp: expect_u64_def cbor_u64_def res u64_max_def)

lemma expect_i64_ok [res]:
  "expect_i64 key v = Inr n \<longleftrightarrow> v = cbor_i64 n \<and> - (2 ^ 63) \<le> n \<and> n < 2 ^ 63"
  by (auto simp: expect_i64_def cbor_i64_def res)

subsection \<open>Typed readers\<close>

definition digest_ok :: "digest_hex \<Rightarrow> bool" where
  "digest_ok h \<longleftrightarrow> validate_digest (digest_as_str h) = Inr ()"

lemma digest_parse_ok [res]: "digest_parse s = Inr h \<longleftrightarrow> s = digest_as_str h \<and> digest_ok h"
  by (cases h) (auto simp: digest_parse_Inr digest_ok_def)

lemma digest_as_str_inj [simp]: "digest_as_str d = digest_as_str e \<longleftrightarrow> d = e"
  by (cases d; cases e) simp

lemma fields_text_ok [res]:
  "fields_text key f = (Inr t, g) \<longleftrightarrow> bt_get (f_map f) key = Some (cbor_text t) \<and> g = fields_use key f"
  by (auto simp: fields_text_def fields_read_ok res cbor_text_def)

lemma fields_bool_ok [res]:
  "fields_bool key f = (Inr b, g) \<longleftrightarrow> bt_get (f_map f) key = Some (CBool b) \<and> g = fields_use key f"
  by (auto simp: fields_bool_def fields_read_ok res)

lemma fields_u32_ok [res]:
  "fields_u32 key f = (Inr n, g) \<longleftrightarrow>
   bt_get (f_map f) key = Some (cbor_u32 n) \<and> n \<le> u32_max \<and> g = fields_use key f"
  by (auto simp: fields_u32_def fields_read_ok res)

lemma fields_u64_ok [res]:
  "fields_u64 key f = (Inr n, g) \<longleftrightarrow>
   bt_get (f_map f) key = Some (cbor_u64 n) \<and> n \<le> u64_max \<and> g = fields_use key f"
  by (auto simp: fields_u64_def fields_read_ok res)

lemma fields_i64_ok [res]:
  "fields_i64 key f = (Inr n, g) \<longleftrightarrow>
   bt_get (f_map f) key = Some (cbor_i64 n) \<and> - (2 ^ 63) \<le> n \<and> n < 2 ^ 63 \<and> g = fields_use key f"
  by (auto simp: fields_i64_def fields_read_ok res)

lemma fields_array_ok [res]:
  "fields_array key f = (Inr xs, g) \<longleftrightarrow> bt_get (f_map f) key = Some (CArray xs) \<and> g = fields_use key f"
  by (auto simp: fields_array_def fields_read_ok res)

lemma fields_digest_ok [res]:
  "fields_digest key f = (Inr d, g) \<longleftrightarrow>
   bt_get (f_map f) key = Some (cbor_digest d) \<and> digest_ok d \<and> g = fields_use key f"
  by (auto simp: fields_digest_def res cbor_text_def cbor_digest_def)

lemma fields_opt_text_ok [res]:
  "fields_opt_text key f = (Inr t, g) \<longleftrightarrow>
   bt_get (f_map f) key = map_option cbor_text t \<and> g = fields_use key f"
  by (cases t) (auto simp: fields_opt_text_def fields_read_opt_ok res cbor_text_def split: option.splits)

lemma fields_opt_u64_ok [res]:
  "fields_opt_u64 key f = (Inr n, g) \<longleftrightarrow>
   bt_get (f_map f) key = map_option cbor_u64 n \<and> pred_option (\<lambda>n. n \<le> u64_max) n \<and> g = fields_use key f"
  by (cases n) (auto simp: fields_opt_u64_def fields_read_opt_ok res split: option.splits)

lemma fields_opt_digest_ok [res]:
  "fields_opt_digest key f = (Inr d, g) \<longleftrightarrow>
   bt_get (f_map f) key = map_option cbor_digest d \<and> pred_option digest_ok d \<and> g = fields_use key f"
  by (cases d) (auto simp: fields_opt_digest_def res cbor_text_def cbor_digest_def split: option.splits)

lemma cbor_inj [simp]:
  "cbor_text s = cbor_text t \<longleftrightarrow> s = t"
  "cbor_u32 m = cbor_u32 n \<longleftrightarrow> m = n"
  "cbor_u64 m = cbor_u64 n \<longleftrightarrow> m = n"
  "cbor_digest d = cbor_digest e \<longleftrightarrow> d = e"
  by (simp_all add: cbor_value_defs)

subsection \<open>Arrays\<close>

lemma rmap_iff:
  assumes "\<And>x y. f x = Inr y \<longleftrightarrow> x = e y \<and> P y"
  shows "rmap f xs = Inr ys \<longleftrightarrow> xs = map e ys \<and> list_all P ys"
proof (induction xs arbitrary: ys)
  case (Cons x xs)
  then show ?case by (cases ys) (auto simp: res assms)
qed (auto)

lemma text_array_ok [res]: "text_array items field = Inr ts \<longleftrightarrow> items = map cbor_text ts"
proof -
  have "array_text field v = Inr t \<longleftrightarrow> v = cbor_text t \<and> True" for v t
    by (cases v) (auto simp: cbor_text_def)
  then show ?thesis unfolding text_array_def by (subst rmap_iff) (auto simp: list_all_iff)
qed

lemma u32_array_ok [res]:
  "u32_array items field = Inr ns \<longleftrightarrow> items = map cbor_u32 ns \<and> list_all (\<lambda>n. n \<le> u32_max) ns"
  unfolding u32_array_def by (rule rmap_iff) (rule expect_u32_ok)

lemma digest_array_ok [res]:
  "digest_array items field = Inr ds \<longleftrightarrow> items = map cbor_digest ds \<and> list_all digest_ok ds"
proof -
  have "array_digest field v = Inr d \<longleftrightarrow> v = cbor_digest d \<and> digest_ok d" for v d
    by (cases v) (auto simp: cbor_digest_def res)
  then show ?thesis unfolding digest_array_def by (rule rmap_iff)
qed

subsection \<open>Maps in canonical order\<close>

text \<open>Every map inside a value has strictly increasing keys; decoded values have this.\<close>

fun cbor_sorted :: "cbor_value \<Rightarrow> bool" where
  "cbor_sorted (CArray items) = (\<forall>v \<in> set items. cbor_sorted v)"
| "cbor_sorted (CMap es) = (bt_ok es \<and> (\<forall>(k, v) \<in> set es. cbor_sorted v))"
| "cbor_sorted _ = True"

lemma key_less_less: "key_less = (<)"
  by (simp add: key_less_def fun_eq_iff)

lemma cbor_wf_sorted: "cbor_wf depth v \<Longrightarrow> cbor_sorted v"
proof (induction v arbitrary: depth)
  case (CMap es)
  have "cbor_sorted v" if "(k, v) \<in> set es" for k v
    using CMap.IH [OF that] CMap.prems that by (auto simp: snds.simps)
  with CMap.prems show ?case by (auto simp: key_less_less bt_ok_def)
qed auto

lemma collect_fields_sorted:
  "bt_ok (m @ es) \<Longrightarrow> collect_fields m es = Inr (m @ es)"
proof (induction es arbitrary: m)
  case (Cons e es)
  obtain k v where e: "e = (k, v)" by (cases e)
  have fresh: "bt_get m k = None"
    using Cons.prems by (auto simp: e bt_get_None bt_ok_def sorted_wrt_append)
  have ins: "bt_insert k v n = n @ [(k, v)]" if "bt_ok (n @ e # es)" for n
    using that by (induction n) (auto simp: e bt_ok_Cons)
  from Cons show ?case by (simp add: e fresh ins [unfolded e])
qed simp

lemma fields_parse_sorted:
  assumes "cbor_sorted v"
  shows "fields_parse v = Inr f \<longleftrightarrow> v = CMap (f_map f) \<and> f_used f = {}"
proof (cases v)
  case (CMap es)
  with assms have "collect_fields [] es = Inr es"
    using collect_fields_sorted [of "[]" es] by simp
  with CMap show ?thesis by (cases f) (auto simp: fields_parse_def)
qed (auto simp: fields_parse_def)

subsection \<open>Fields of a canonical document\<close>

definition fields_sorted :: "fields \<Rightarrow> bool" where
  "fields_sorted f \<longleftrightarrow> cbor_sorted (CMap (f_map f))"

lemma fields_sorted_use [simp]: "fields_sorted (fields_use key f) = fields_sorted f"
  by (simp add: fields_sorted_def)

lemma fields_sorted_get:
  "fields_sorted f \<Longrightarrow> bt_get (f_map f) k = Some v \<Longrightarrow> cbor_sorted v"
  by (auto simp: fields_sorted_def dest: map_of_SomeD)

lemma bt_ok_all_get:
  "bt_ok m \<Longrightarrow> (\<forall>(k, v) \<in> set m. P v) \<longleftrightarrow> (\<forall>k v. bt_get m k = Some v \<longrightarrow> P v)"
  by (auto simp: bt_get_iff)

lemma cbor_sorted_insert [simp]:
  "cbor_sorted (CMap m) \<Longrightarrow> cbor_sorted v \<Longrightarrow> cbor_sorted (CMap (bt_insert k v m))"
  by (auto simp: bt_ok_all_get)

definition extensions_ok :: "(string, cbor_value) btree \<Rightarrow> bool" where
  "extensions_ok ext \<longleftrightarrow> length ext \<le> 32 \<and> list_all valid_extension_key (bt_keys ext)"

lemma insert_extensions_ok [res]:
  "insert_extensions fs ext = Inr m \<longleftrightarrow>
   extensions_ok ext \<and> m = bt_insert ''extensions'' (CMap ext) fs"
  by (auto simp: insert_extensions_def extensions_ok_def)

lemma collect_extensions_ok:
  "collect_extensions ks f out = Inr (res, g) \<longleftrightarrow>
   list_all valid_extension_key ks \<and> set ks \<subseteq> fst ` set (f_map f) \<and>
   res = foldl (\<lambda>o' k. bt_insert k (the (bt_get (f_map f) k)) o') out ks \<and>
   g = foldl (\<lambda>g k. fields_use k g) f ks"
proof (induction ks arbitrary: f out)
  case (Cons k ks)
  show ?case
  proof (cases "bt_get (f_map f) k")
    case None
    then have "k \<notin> fst ` set (f_map f)" by (simp only: bt_get_None not_False_eq_True)
    moreover have "fields_require k f = (Inl (fail ContractInvalid (''missing field: '' @ k)), f)"
      by (simp add: fields_require_def fields_take_def None)
    ultimately show ?thesis
      by (auto split: prod.splits)
  next
    case (Some v)
    have req: "fields_require k f = (Inr v, fields_use k f)"
      using Some by (simp add: res)
    have "k \<in> fst ` set (f_map f)" using Some by (metis bt_get_None option.simps(3))
    then show ?thesis by (auto simp: req Cons.IH Some)
  qed
qed auto

lemma f_map_use_all [simp]: "f_map (foldl (\<lambda>g k. fields_use k g) f ks) = f_map f"
  by (induction ks arbitrary: f) auto

lemma fields_left_use_all [simp]:
  "fields_left (foldl (\<lambda>g k. fields_use k g) f ks) = fields_left f - set ks"
  by (induction ks arbitrary: f) auto

lemma bt_rebuild:
  assumes "bt_ok (out @ m)"
  shows "foldl (\<lambda>o' k. bt_insert k (the (bt_get (out @ m) k)) o') out (bt_keys m) = out @ m"
  using assms
proof (induction m arbitrary: out)
  case (Cons e m)
  obtain k v where e: "e = (k, v)" by (cases e)
  have get: "bt_get (out @ e # m) k = Some v"
    using bt_get_iff [OF Cons.prems, of k v] by (simp add: e)
  have ins: "bt_insert k v n = n @ [(k, v)]" if "bt_ok (n @ e # m)" for n
    using that by (induction n) (auto simp: e bt_ok_Cons)
  from Cons.IH [of "out @ [e]"] Cons.prems show ?case
    using get by (simp add: bt_keys_def e ins [unfolded e])
qed (simp add: bt_keys_def)

lemma read_extensions_ok [res]:
  assumes "cbor_sorted v"
  shows "read_extensions v = Inr ext \<longleftrightarrow> v = CMap ext \<and> extensions_ok ext"
proof (cases v)
  case (CMap es)
  let ?f = "\<lparr>f_map = es, f_used = {}\<rparr>"
  have parse: "fields_parse v = Inr ?f"
    using assms CMap by (simp add: fields_parse_sorted)
  have build: "foldl (\<lambda>o' k. bt_insert k (the (bt_get es k)) o') [] (bt_keys es) = es"
    using bt_rebuild [of "[]" es] assms CMap by simp
  have keys: "set (bt_keys es) = fst ` set es" by (simp add: bt_keys_def)
  have left: "fields_left ?f = fst ` set es" by (simp add: fields_left_def)
  have "read_extensions v = Inr ext \<longleftrightarrow> length es \<le> 32 \<and> list_all valid_extension_key (bt_keys es) \<and> ext = es"
    using keys unfolding read_extensions_def parse
    by (auto simp: res fields_within_def collect_extensions_ok build left) (simp_all add: bt_keys_def)
  then show ?thesis by (auto simp: CMap extensions_ok_def)
qed (auto simp: read_extensions_def fields_parse_def)

lemma fields_extensions_ok [res]:
  assumes "fields_sorted f"
  shows "fields_extensions f = (Inr ext, g) \<longleftrightarrow>
    bt_get (f_map f) ''extensions'' = Some (CMap ext) \<and> extensions_ok ext \<and>
    g = fields_use ''extensions'' f"
proof (cases "bt_get (f_map f) ''extensions''")
  case (Some v)
  then have "cbor_sorted v" using assms by (rule fields_sorted_get [rotated])
  with Some show ?thesis by (auto simp: fields_extensions_def res)
qed (simp add: fields_extensions_def res)

lemma expect_kind_version_ok [res]:
  "expect_kind_version kind f = (Inr u, g) \<longleftrightarrow>
   bt_get (f_map f) ''kind'' = Some (cbor_text kind) \<and>
   bt_get (f_map f) ''version'' = Some (cbor_u32 1) \<and>
   g = fields_use ''version'' (fields_use ''kind'' f)"
  by (auto simp: expect_kind_version_def res u32_max_def split: if_splits)

subsection \<open>Reading a whole document\<close>

text \<open>\<open>Fields::parse\<close>, the readers, \<open>finish\<close> and \<open>validate\<close>, as every \<open>from_cbor\<close> composes them.\<close>

lemma contract_eq:
  assumes "bt_ok es" and "bt_ok m" and "fst ` set m \<subseteq> K"
  shows "es = m \<longleftrightarrow> fst ` set es \<subseteq> K \<and> (\<forall>k \<in> K. bt_get es k = bt_get m k)"
proof
  assume r: "fst ` set es \<subseteq> K \<and> (\<forall>k \<in> K. bt_get es k = bt_get m k)"
  show "es = m"
  proof (rule bt_ext [OF assms(1,2)])
    fix k
    show "bt_get es k = bt_get m k"
    proof (cases "k \<in> K")
      case False
      with r assms(3) have "k \<notin> fst ` set es" "k \<notin> fst ` set m" by auto
      then show ?thesis by (simp only: bt_get_None [symmetric])
    qed (use r in simp)
  qed
qed (use assms(3) in simp)

end
