(* ===== verification/Contract_Common.thy ===== *)
theory Contract_Common
  imports Field_Laws
begin

text \<open>
  The parts every contract is assembled from: \<open>crates/infer-contracts/src/contracts/common.rs\<close>.
  The map builder, signatures, embedded artifacts, artifact file lists and their relative paths,
  special tokens, the fixed-point sampler settings and the small field checks. Each contract has
  one lemma \<open>..._iff\<close>: among canonical values, reading and writing are inverse to each other.
\<close>

subsection \<open>Builder\<close>

record builder =
  b_fields :: "(string, cbor_value) btree"

definition put :: "string \<Rightarrow> cbor_value \<Rightarrow> builder \<Rightarrow> builder" where
  "put key v b = b\<lparr>b_fields := bt_insert key v (b_fields b)\<rparr>"

definition put_opt :: "string \<Rightarrow> cbor_value option \<Rightarrow> builder \<Rightarrow> builder" where
  "put_opt key v b = (case v of None \<Rightarrow> b | Some value \<Rightarrow> put key value b)"

definition builder_bare :: builder where
  "builder_bare = \<lparr>b_fields = []\<rparr>"

definition builder_typed :: "string \<Rightarrow> builder" where
  "builder_typed kind = \<lparr>b_fields = bt_insert ''version'' (cbor_u32 1) (bt_insert ''kind'' (cbor_text kind) [])\<rparr>"

definition builder_finish :: "builder \<Rightarrow> cbor_value" where
  "builder_finish b = CMap (b_fields b)"

definition put_extensions :: "(string, cbor_value) btree \<Rightarrow> builder \<Rightarrow> builder res" where
  "put_extensions extensions b =
    rbind (insert_extensions [] extensions) (\<lambda>m.
      case bt_get m ''extensions'' of
        None \<Rightarrow> Inr b
      | Some value \<Rightarrow> Inr (put ''extensions'' value b))"

text \<open>\<open>Fields::parse\<close>, the readers, \<open>finish\<close>, then \<open>validate\<close>: the frame of every \<open>from_cbor\<close>.\<close>

definition read_document :: "(fields, 'a) op \<Rightarrow> ('a \<Rightarrow> unit res) \<Rightarrow> cbor_value \<Rightarrow> 'a res" where
  "read_document readers validate v =
    rbind (fields_parse v) (\<lambda>f.
      fst (op_bind readers (\<lambda>out.
        op_bind (op_getr fields_finish) (\<lambda>_.
        op_bind (op_lift (validate out)) (\<lambda>_. op_return out))) f))"

subsection \<open>Laws of the builder\<close>

definition builder_ok :: "builder \<Rightarrow> bool" where
  "builder_ok b \<longleftrightarrow> bt_ok (b_fields b)"

lemma builder_ok_simps [simp]:
  "builder_ok builder_bare" "builder_ok (builder_typed kind)"
  "builder_ok b \<Longrightarrow> builder_ok (put key v b)" "builder_ok b \<Longrightarrow> builder_ok (put_opt key w b)"
  by (simp_all add: builder_ok_def builder_bare_def builder_typed_def put_def put_opt_def
      del: bt_insert.simps split: option.split)

lemma b_get_put [simp]:
  "builder_ok b \<Longrightarrow> bt_get (b_fields (put key v b)) l = (if l = key then Some v else bt_get (b_fields b) l)"
  by (simp add: builder_ok_def put_def)

definition opt_or :: "'a option \<Rightarrow> 'a option \<Rightarrow> 'a option" where
  "opt_or v w = (case v of None \<Rightarrow> w | Some _ \<Rightarrow> v)"

lemma opt_or_None [simp]: "opt_or v None = v"
  by (cases v) (auto simp: opt_or_def)

lemma b_get_put_opt [simp]:
  "builder_ok b \<Longrightarrow> bt_get (b_fields (put_opt key v b)) l =
    (if l = key then opt_or v (bt_get (b_fields b) l) else bt_get (b_fields b) l)"
  by (simp add: put_opt_def opt_or_def split: option.split)

lemma b_get_start [simp]:
  "bt_get (b_fields builder_bare) l = None"
  "bt_get (b_fields (builder_typed kind)) l =
    (if l = ''version'' then Some (cbor_u32 1) else if l = ''kind'' then Some (cbor_text kind) else None)"
  by (simp_all add: builder_bare_def builder_typed_def)

definition b_keys :: "builder \<Rightarrow> string set" where
  "b_keys b = fst ` set (b_fields b)"

lemma b_keys_put [simp]: "b_keys (put key v b) = insert key (b_keys b)"
  by (simp add: b_keys_def put_def keys_bt_insert)

lemma b_keys_put_opt: "b_keys (put_opt key v b) \<subseteq> insert key (b_keys b)"
  by (auto simp: put_opt_def split: option.split)

lemma b_keys_put_opt_le [simp]: "b_keys b \<subseteq> K \<Longrightarrow> key \<in> K \<Longrightarrow> b_keys (put_opt key v b) \<subseteq> K"
  using b_keys_put_opt by blast

lemma b_keys_start [simp]:
  "b_keys builder_bare = {}" "b_keys (builder_typed kind) = {''kind'', ''version''}"
  by (auto simp: b_keys_def builder_bare_def builder_typed_def keys_bt_insert)

lemma put_extensions_ok [res]:
  "put_extensions ext b = Inr c \<longleftrightarrow> extensions_ok ext \<and> c = put ''extensions'' (CMap ext) b"
  by (auto simp: put_extensions_def res)

lemma rmap_all: "rmap f xs = Inr ys \<Longrightarrow> x \<in> set xs \<Longrightarrow> \<exists>y. f x = Inr y"
  by (induction xs arbitrary: ys) (auto simp: res)

lemma builder_finish_eq:
  assumes "bt_ok es" and "builder_ok b" and "b_keys b \<subseteq> K"
  shows "builder_finish b = CMap es \<longleftrightarrow>
    keys_within es K \<and> (\<forall>k \<in> K. bt_get es k = bt_get (b_fields b) k)"
  using contract_eq [of es "b_fields b" K] assms
  by (auto simp: builder_finish_def builder_ok_def b_keys_def keys_within_def)

lemma read_document_ok:
  assumes "cbor_sorted (CMap es)"
  shows "read_document readers validate (CMap es) = Inr x \<longleftrightarrow>
    (\<exists>f. readers \<lparr>f_map = es, f_used = {}\<rparr> = (Inr x, f) \<and> fields_within f {} \<and> validate x = Inr ())"
proof -
  have "fields_parse (CMap es) = Inr \<lparr>f_map = es, f_used = {}\<rparr>"
    using assms by (simp add: fields_parse_sorted)
  then have "read_document readers validate (CMap es) = Inr x \<longleftrightarrow>
    (\<exists>g. op_bind readers (\<lambda>out. op_bind (op_getr fields_finish) (\<lambda>_.
        op_bind (op_lift (validate out)) (\<lambda>_. op_return out))) \<lparr>f_map = es, f_used = {}\<rparr> = (Inr x, g))"
    by (auto simp: read_document_def prod_eq_iff)
  also have "\<dots> \<longleftrightarrow>
    (\<exists>f. readers \<lparr>f_map = es, f_used = {}\<rparr> = (Inr x, f) \<and> fields_within f {} \<and> validate x = Inr ())"
    by (auto simp: res)
  finally show ?thesis .
qed

lemma read_document_not_map: "(\<And>es. v \<noteq> CMap es) \<Longrightarrow> read_document readers validate v \<noteq> Inr x"
  by (cases v) (auto simp: read_document_def fields_parse_def)

lemma fields_start [simp]:
  "fields_sorted \<lparr>f_map = es, f_used = {}\<rparr> = cbor_sorted (CMap es)"
  by (simp add: fields_sorted_def)

text \<open>The last step of each \<open>..._iff\<close>: both sides are the same conjunction of lookups.\<close>

lemmas contract_ac = conj_ac insert_commute

subsection \<open>Fixed-point sampler settings\<close>

record fixed_point_sampler =
  temperature_micros :: nat
  top_p_millionths :: nat
  min_p_millionths :: nat
  repetition_penalty_micros :: nat
  presence_penalty_micros :: nat
  frequency_penalty_micros :: nat
  top_k :: nat
  max_output_tokens :: nat

definition fixed_point_sampler_validate :: "fixed_point_sampler \<Rightarrow> unit res" where
  "fixed_point_sampler_validate s =
    (if temperature_micros s > 10000000 \<or> top_p_millionths s > 1000000
        \<or> min_p_millionths s > 1000000 \<or> repetition_penalty_micros s > 10000000
        \<or> presence_penalty_micros s > 10000000 \<or> frequency_penalty_micros s > 10000000
        \<or> top_k s > 1048576 \<or> max_output_tokens s = 0 \<or> max_output_tokens s > 1048576
     then Inl (contract_fail ''sampler fixed-point field is outside its bounds'')
     else Inr ())"

definition fixed_point_sampler_to_cbor :: "fixed_point_sampler \<Rightarrow> cbor_value res" where
  "fixed_point_sampler_to_cbor s =
    rbind (fixed_point_sampler_validate s) (\<lambda>_.
      let b = builder_bare;
          b = put ''frequencyPenaltyMicros'' (cbor_u32 (frequency_penalty_micros s)) b;
          b = put ''maxOutputTokens'' (cbor_u32 (max_output_tokens s)) b;
          b = put ''minPMillionths'' (cbor_u32 (min_p_millionths s)) b;
          b = put ''presencePenaltyMicros'' (cbor_u32 (presence_penalty_micros s)) b;
          b = put ''repetitionPenaltyMicros'' (cbor_u32 (repetition_penalty_micros s)) b;
          b = put ''temperatureMicros'' (cbor_u32 (temperature_micros s)) b;
          b = put ''topK'' (cbor_u32 (top_k s)) b;
          b = put ''topPMillionths'' (cbor_u32 (top_p_millionths s)) b
      in Inr (builder_finish b))"

definition fixed_point_sampler_fields :: "(fields, fixed_point_sampler) op" where
  "fixed_point_sampler_fields =
    op_bind (fields_u32 ''frequencyPenaltyMicros'') (\<lambda>frequency.
    op_bind (fields_u32 ''maxOutputTokens'') (\<lambda>max_tokens.
    op_bind (fields_u32 ''minPMillionths'') (\<lambda>min_p.
    op_bind (fields_u32 ''presencePenaltyMicros'') (\<lambda>presence.
    op_bind (fields_u32 ''repetitionPenaltyMicros'') (\<lambda>repetition.
    op_bind (fields_u32 ''temperatureMicros'') (\<lambda>temperature.
    op_bind (fields_u32 ''topK'') (\<lambda>k.
    op_bind (fields_u32 ''topPMillionths'') (\<lambda>p.
    op_return
      \<lparr>temperature_micros = temperature, top_p_millionths = p, min_p_millionths = min_p,
       repetition_penalty_micros = repetition, presence_penalty_micros = presence,
       frequency_penalty_micros = frequency, top_k = k, max_output_tokens = max_tokens\<rparr>))))))))"

definition fixed_point_sampler_from_cbor :: "cbor_value \<Rightarrow> fixed_point_sampler res" where
  "fixed_point_sampler_from_cbor = read_document fixed_point_sampler_fields fixed_point_sampler_validate"

lemma fixed_point_sampler_iff:
  assumes "cbor_sorted v"
  shows "fixed_point_sampler_from_cbor v = Inr x \<longleftrightarrow> fixed_point_sampler_to_cbor x = Inr v"
proof (cases v)
  case (CMap es)
  let ?K = "{''frequencyPenaltyMicros'', ''maxOutputTokens'', ''minPMillionths'',
    ''presencePenaltyMicros'', ''repetitionPenaltyMicros'', ''temperatureMicros'', ''topK'',
    ''topPMillionths''}"
  show ?thesis
    using assms unfolding CMap fixed_point_sampler_from_cbor_def fixed_point_sampler_to_cbor_def
    by (cases x) (simp add: read_document_ok res Let_def fixed_point_sampler_fields_def
        builder_finish_eq [where K = ?K] fixed_point_sampler_validate_def u32_max_def,
        auto simp: contract_ac)
qed (auto simp: fixed_point_sampler_from_cbor_def read_document_not_map fixed_point_sampler_to_cbor_def
   builder_finish_def res Let_def)

subsection \<open>Signatures\<close>

record signature =
  sig_algorithm :: string
  sig_key_id :: string
  sig_bytes :: "u8 list"

definition signature_validate :: "signature \<Rightarrow> unit res" where
  "signature_validate s =
    rbind (one_of ''algorithm'' (sig_algorithm s) [''ed25519'']) (\<lambda>_.
    rbind (bounded_text ''keyId'' (sig_key_id s) 128) (\<lambda>_.
    if length (sig_bytes s) \<noteq> 64 then Inl (contract_fail ''ed25519 signatures are 64 bytes'')
    else Inr ()))"

definition signature_to_cbor :: "signature \<Rightarrow> cbor_value res" where
  "signature_to_cbor s =
    rbind (signature_validate s) (\<lambda>_.
      let b = builder_bare;
          b = put ''algorithm'' (cbor_text (sig_algorithm s)) b;
          b = put ''keyId'' (cbor_text (sig_key_id s)) b;
          b = put ''signature'' (CBytes (sig_bytes s)) b
      in Inr (builder_finish b))"

fun expect_bytes :: "string \<Rightarrow> cbor_value \<Rightarrow> u8 list res" where
  "expect_bytes m (CBytes bs) = Inr bs"
| "expect_bytes m _ = Inl (contract_fail m)"

definition signature_fields :: "(fields, signature) op" where
  "signature_fields =
    op_bind (fields_read ''signature'' (expect_bytes ''signature must be bytes'')) (\<lambda>sig.
    op_bind (fields_text ''algorithm'') (\<lambda>algorithm.
    op_bind (fields_text ''keyId'') (\<lambda>key_id.
    op_return \<lparr>sig_algorithm = algorithm, sig_key_id = key_id, sig_bytes = sig\<rparr>)))"

definition signature_from_cbor :: "cbor_value \<Rightarrow> signature res" where
  "signature_from_cbor = read_document signature_fields signature_validate"

definition signatures_to_cbor :: "signature list \<Rightarrow> cbor_value res" where
  "signatures_to_cbor items =
    (if length items > 8 then Inl (contract_fail ''too many signatures'')
     else rbind (rmap signature_to_cbor items) (\<lambda>out. Inr (CArray out)))"

definition signatures_from_cbor :: "cbor_value list \<Rightarrow> signature list res" where
  "signatures_from_cbor items =
    (if length items > 8 then Inl (contract_fail ''too many signatures'')
     else rmap signature_from_cbor items)"

subsection \<open>Embedded artifacts\<close>

definition max_embedded_bytes :: nat where
  "max_embedded_bytes = 24 * 1024 * 1024"

record embedded_artifact =
  emb_bytes :: "u8 list"
  emb_root :: digest_hex

definition embedded_artifact_new :: "(u8 list \<Rightarrow> u8 list) \<Rightarrow> string \<Rightarrow> u8 list \<Rightarrow> embedded_artifact res" where
  "embedded_artifact_new sha256 domain bs =
    (if bs = [] \<or> length bs > max_embedded_bytes
     then Inl (contract_fail ''embedded artifact is empty or too large'')
     else rbind (digest_value sha256 domain (CBytes bs)) (\<lambda>root.
       Inr \<lparr>emb_bytes = bs, emb_root = root\<rparr>))"

definition embedded_artifact_validate ::
  "(u8 list \<Rightarrow> u8 list) \<Rightarrow> string \<Rightarrow> error_code \<Rightarrow> embedded_artifact \<Rightarrow> unit res" where
  "embedded_artifact_validate sha256 domain mismatch a =
    (if emb_bytes a = [] \<or> length (emb_bytes a) > max_embedded_bytes
     then Inl (fail mismatch ''embedded artifact is empty or too large'')
     else rbind (digest_value sha256 domain (CBytes (emb_bytes a))) (\<lambda>root.
       if root \<noteq> emb_root a
       then Inl (fail mismatch ''embedded artifact root does not match bytes'')
       else Inr ()))"

definition embedded_artifact_to_cbor :: "embedded_artifact \<Rightarrow> cbor_value" where
  "embedded_artifact_to_cbor a =
    (let b = builder_bare;
         b = put ''bytes'' (CBytes (emb_bytes a)) b;
         b = put ''root'' (cbor_digest (emb_root a)) b
     in builder_finish b)"

definition embedded_artifact_fields :: "(fields, embedded_artifact) op" where
  "embedded_artifact_fields =
    op_bind (fields_read ''bytes'' (expect_bytes ''embedded bytes required'')) (\<lambda>bs.
    op_bind (fields_digest ''root'') (\<lambda>root.
    op_return \<lparr>emb_bytes = bs, emb_root = root\<rparr>))"

definition embedded_artifact_from_cbor :: "cbor_value \<Rightarrow> embedded_artifact res" where
  "embedded_artifact_from_cbor = read_document embedded_artifact_fields (\<lambda>_. Inr ())"

subsection \<open>Artifact files\<close>

fun contains_str :: "string \<Rightarrow> string \<Rightarrow> bool" where
  "contains_str p [] = (p = [])"
| "contains_str p (c # s) = (take (length p) (c # s) = p \<or> contains_str p s)"

definition path_segment_ok :: "string \<Rightarrow> bool" where
  "path_segment_ok segment \<longleftrightarrow>
    segment \<noteq> [] \<and> segment \<noteq> ''.'' \<and> segment \<noteq> ''..'' \<and>
    list_all (\<lambda>c. is_ascii_alphanumeric c \<or> c = CHR ''.'' \<or> c = CHR ''_'' \<or> c = CHR ''-'') segment"

definition validate_relative_path :: "string \<Rightarrow> unit res" where
  "validate_relative_path path =
    (if path = [] \<or> length path > 512 \<or> hd path = CHR ''/'' \<or> last path = CHR ''/''
        \<or> CHR 0x5C \<in> set path \<or> contains_str ''//'' path
     then Inl (contract_fail ''artifact path is not relative POSIX'')
     else if \<not> list_all path_segment_ok (split_on (CHR ''/'') path)
       then Inl (contract_fail ''artifact path is not relative POSIX'')
     else Inr ())"

record artifact_file =
  af_path :: string
  af_size_bytes :: nat
  af_sha256 :: digest_hex

definition artifact_file_validate :: "artifact_file \<Rightarrow> unit res" where
  "artifact_file_validate a =
    rbind (validate_relative_path (af_path a)) (\<lambda>_.
    if af_size_bytes a = 0 then Inl (contract_fail ''artifact file size must be non-zero'')
    else Inr ())"

definition artifact_file_to_cbor :: "artifact_file \<Rightarrow> cbor_value res" where
  "artifact_file_to_cbor a =
    rbind (artifact_file_validate a) (\<lambda>_.
      let b = builder_bare;
          b = put ''path'' (cbor_text (af_path a)) b;
          b = put ''sha256'' (cbor_digest (af_sha256 a)) b;
          b = put ''sizeBytes'' (cbor_u64 (af_size_bytes a)) b
      in Inr (builder_finish b))"

definition artifact_file_fields :: "(fields, artifact_file) op" where
  "artifact_file_fields =
    op_bind (fields_text ''path'') (\<lambda>path.
    op_bind (fields_digest ''sha256'') (\<lambda>digest.
    op_bind (fields_u64 ''sizeBytes'') (\<lambda>size_bytes.
    op_return \<lparr>af_path = path, af_size_bytes = size_bytes, af_sha256 = digest\<rparr>)))"

definition artifact_file_from_cbor :: "cbor_value \<Rightarrow> artifact_file res" where
  "artifact_file_from_cbor = read_document artifact_file_fields artifact_file_validate"

definition validate_files :: "artifact_file list \<Rightarrow> unit res" where
  "validate_files files =
    (if files = [] \<or> length files > 1024
     then Inl (contract_fail ''artifact file list is empty or too large'')
     else rbind (sorted_unique ''files'' (map af_path files)) (\<lambda>_.
       rbind (rmap artifact_file_validate files) (\<lambda>_. Inr ())))"

definition artifact_files_cbor :: "artifact_file list \<Rightarrow> cbor_value res" where
  "artifact_files_cbor files =
    rbind (validate_files files) (\<lambda>_.
    rbind (rmap artifact_file_to_cbor files) (\<lambda>out. Inr (CArray out)))"

definition artifact_root :: "(u8 list \<Rightarrow> u8 list) \<Rightarrow> artifact_file list \<Rightarrow> digest_hex res" where
  "artifact_root sha256 files =
    rbind (artifact_files_cbor files) (\<lambda>v.
      digest_value sha256 ''infer-model-artifact'' (builder_finish (put ''files'' v builder_bare)))"

subsection \<open>Special tokens\<close>

record special_tokens =
  st_bos :: "nat option"
  st_eos :: "nat option"
  st_pad :: "nat option"
  st_unk :: "nat option"
  st_additional :: "(string, nat) btree"

definition special_tokens_validate :: "special_tokens \<Rightarrow> unit res" where
  "special_tokens_validate s =
    (if length (st_additional s) > 256 then Inl (contract_fail ''too many special tokens'')
     else rbind (rmap (\<lambda>name. bounded_text ''specialTokens'' name 64) (bt_keys (st_additional s)))
       (\<lambda>_. Inr ()))"

definition special_tokens_to_cbor :: "special_tokens \<Rightarrow> cbor_value res" where
  "special_tokens_to_cbor s =
    rbind (special_tokens_validate s) (\<lambda>_.
      let extra = foldl (\<lambda>m (name, n). bt_insert name (cbor_u32 n) m) [] (st_additional s);
          b = builder_bare;
          b = put ''additional'' (CMap extra) b;
          b = put_opt ''bos'' (map_option cbor_u32 (st_bos s)) b;
          b = put_opt ''eos'' (map_option cbor_u32 (st_eos s)) b;
          b = put_opt ''pad'' (map_option cbor_u32 (st_pad s)) b;
          b = put_opt ''unk'' (map_option cbor_u32 (st_unk s)) b
      in Inr (builder_finish b))"

definition optional_u32 :: "string \<Rightarrow> (fields, nat option) op" where
  "optional_u32 key = fields_read_opt key (expect_u32 key)"

fun collect_special_tokens ::
  "string list \<Rightarrow> fields \<Rightarrow> (string, nat) btree \<Rightarrow> ((string, nat) btree \<times> fields) res" where
  "collect_special_tokens [] f out = Inr (out, f)"
| "collect_special_tokens (name # names) f out =
    rbind (bounded_text ''specialTokens'' name 64) (\<lambda>_.
      case fields_require name f of
        (Inl e, _) \<Rightarrow> Inl e
      | (Inr v, f') \<Rightarrow>
          rbind (expect_u32 ''specialTokens'' v) (\<lambda>n.
            collect_special_tokens names f' (bt_insert name n out)))"

definition read_special_tokens :: "cbor_value \<Rightarrow> (string, nat) btree res" where
  "read_special_tokens v =
    rbind (fields_parse v) (\<lambda>g.
    rbind (collect_special_tokens (fields_key_names g) g []) (\<lambda>(out, g).
    rbind (fields_finish g) (\<lambda>_. Inr out)))"

definition special_tokens_fields :: "(fields, special_tokens) op" where
  "special_tokens_fields =
    op_bind (fields_read ''additional'' read_special_tokens) (\<lambda>additional.
    op_bind (optional_u32 ''bos'') (\<lambda>bos.
    op_bind (optional_u32 ''eos'') (\<lambda>eos.
    op_bind (optional_u32 ''pad'') (\<lambda>pad.
    op_bind (optional_u32 ''unk'') (\<lambda>unk.
    op_return \<lparr>st_bos = bos, st_eos = eos, st_pad = pad, st_unk = unk, st_additional = additional\<rparr>)))))"

definition special_tokens_from_cbor :: "cbor_value \<Rightarrow> special_tokens res" where
  "special_tokens_from_cbor = read_document special_tokens_fields special_tokens_validate"

subsection \<open>Field checks\<close>

definition precisions :: "string list" where
  "precisions = [''bf16'', ''f16'', ''f32'', ''i32'', ''q4_k_m'', ''q5_k_m'', ''q6_k'', ''q8_0'', ''u8'']"

definition kv_precisions :: "string list" where
  "kv_precisions = [''bf16'', ''f16'', ''f32'']"

definition require_sorted_precisions :: "string list \<Rightarrow> string list \<Rightarrow> unit res" where
  "require_sorted_precisions values allowed =
    rbind (sorted_unique ''precisions'' values) (\<lambda>_.
    rbind (rmap (\<lambda>value. one_of ''precisions'' value allowed) values) (\<lambda>_. Inr ()))"

definition device_id :: "string \<Rightarrow> unit res" where
  "device_id value =
    (if value = ''cpu'' then Inr ()
     else case strip_prefix ''slot-'' value of
       None \<Rightarrow> Inl (contract_fail ''device id must be cpu or slot-N'')
     | Some rest \<Rightarrow>
         if rest = [] \<or> length rest > 3 \<or> \<not> list_all is_ascii_digit rest
            \<or> hd rest = CHR ''0'' \<and> length rest > 1
         then Inl (contract_fail ''device id must be cpu or slot-N'')
         else Inr ())"

fun u64_array_sum_from :: "nat \<Rightarrow> nat list \<Rightarrow> nat res" where
  "u64_array_sum_from acc [] = Inr acc"
| "u64_array_sum_from acc (value # vs) =
    rbind (ok_or (checked_add_u64 acc value) ContractInvalid ''byte total overflows u64'')
      (\<lambda>acc. u64_array_sum_from acc vs)"

definition u64_array_sum :: "nat list \<Rightarrow> nat res" where
  "u64_array_sum values = u64_array_sum_from 0 values"

definition digest_field_array :: "digest_hex list \<Rightarrow> cbor_value" where
  "digest_field_array items = CArray (map cbor_digest items)"

definition string_field_array :: "string list \<Rightarrow> cbor_value" where
  "string_field_array items = CArray (map CText items)"

subsection \<open>Reading and writing agree\<close>

lemma expect_bytes_ok [res]: "expect_bytes m v = Inr bs \<longleftrightarrow> v = CBytes bs"
  by (cases v) auto

lemma fields_read_bytes_ok [res]:
  "fields_read key (expect_bytes m) f = (Inr bs, g) \<longleftrightarrow>
   bt_get (f_map f) key = Some (CBytes bs) \<and> g = fields_use key f"
  by (auto simp: fields_read_ok res)

lemma optional_u32_ok [res]:
  "optional_u32 key f = (Inr n, g) \<longleftrightarrow>
   bt_get (f_map f) key = map_option cbor_u32 n \<and> pred_option (\<lambda>n. n \<le> u32_max) n \<and> g = fields_use key f"
  by (cases n) (auto simp: optional_u32_def fields_read_opt_ok res split: option.splits)

lemma finish_not_map: "(\<And>es. v \<noteq> CMap es) \<Longrightarrow> builder_finish b \<noteq> v"
  by (auto simp: builder_finish_def)

lemma signature_iff:
  assumes "cbor_sorted v"
  shows "signature_from_cbor v = Inr x \<longleftrightarrow> signature_to_cbor x = Inr v"
proof (cases v)
  case (CMap es)
  let ?K = "{''algorithm'', ''keyId'', ''signature''}"
  show ?thesis
    using assms unfolding CMap signature_from_cbor_def signature_to_cbor_def
    by (cases x) (simp add: read_document_ok res Let_def signature_fields_def builder_finish_eq [where K = ?K], auto simp: contract_ac)
qed (auto simp: signature_from_cbor_def read_document_not_map signature_to_cbor_def
   builder_finish_def res Let_def)

lemma embedded_artifact_iff:
  assumes "cbor_sorted v"
  shows "embedded_artifact_from_cbor v = Inr x \<longleftrightarrow>
    digest_ok (emb_root x) \<and> embedded_artifact_to_cbor x = v"
proof (cases v)
  case (CMap es)
  let ?K = "{''bytes'', ''root''}"
  show ?thesis
    using assms unfolding CMap embedded_artifact_from_cbor_def embedded_artifact_to_cbor_def
    by (cases x) (simp add: read_document_ok res Let_def embedded_artifact_fields_def
        builder_finish_eq [where K = ?K], auto simp: contract_ac)
qed (auto simp: embedded_artifact_from_cbor_def read_document_not_map embedded_artifact_to_cbor_def
   builder_finish_def res Let_def)

definition artifact_file_typed :: "artifact_file \<Rightarrow> bool" where
  "artifact_file_typed a \<longleftrightarrow> af_size_bytes a \<le> u64_max \<and> digest_ok (af_sha256 a)"

lemma artifact_file_iff:
  assumes "cbor_sorted v"
  shows "artifact_file_from_cbor v = Inr x \<longleftrightarrow> artifact_file_typed x \<and> artifact_file_to_cbor x = Inr v"
proof (cases v)
  case (CMap es)
  let ?K = "{''path'', ''sha256'', ''sizeBytes''}"
  show ?thesis
    using assms unfolding CMap artifact_file_from_cbor_def artifact_file_to_cbor_def
    by (cases x) (simp add: read_document_ok res Let_def artifact_file_fields_def artifact_file_typed_def
        builder_finish_eq [where K = ?K], auto simp: contract_ac)
qed (auto simp: artifact_file_from_cbor_def read_document_not_map artifact_file_to_cbor_def
   builder_finish_def res Let_def)

subsubsection \<open>Special tokens\<close>

definition special_token_entry :: "string \<times> nat \<Rightarrow> string \<times> cbor_value" where
  "special_token_entry e = (fst e, cbor_u32 (snd e))"

definition special_tokens_ok :: "(string, nat) btree \<Rightarrow> bool" where
  "special_tokens_ok m \<longleftrightarrow>
    (\<forall>(name, n) \<in> set m. bounded_text ''specialTokens'' name 64 = Inr () \<and> n \<le> u32_max)"

lemma keys_special_token_entry [simp]: "map fst (map special_token_entry m) = map fst m"
  by (simp add: special_token_entry_def comp_def)

lemma bt_insert_last: "bt_ok (m @ [(k, v)]) \<Longrightarrow> bt_insert k v m = m @ [(k, v)]"
  by (induction m) (auto simp: bt_ok_Cons)

lemma bt_insert_all:
  "bt_ok (m @ es) \<Longrightarrow> foldl (\<lambda>m (k, v). bt_insert k v m) m es = m @ es"
proof (induction es arbitrary: m)
  case (Cons e es)
  obtain k v where e: "e = (k, v)" by (cases e)
  have "bt_ok (m @ [(k, v)])"
    using Cons.prems by (auto simp: e bt_ok_def sorted_wrt_append)
  with Cons.IH [of "m @ [e]"] Cons.prems show ?case by (simp add: e bt_insert_last)
qed simp

lemma collect_special_tokens_ok:
  assumes "bt_ok (f_map f)" and "f_map f = map special_token_entry out @ es"
  shows "collect_special_tokens (bt_keys es) f out = Inr (r, g) \<longleftrightarrow>
    (\<exists>m. r = out @ m \<and> es = map special_token_entry m \<and> special_tokens_ok m) \<and>
    g = foldl (\<lambda>g k. fields_use k g) f (bt_keys es)"
  using assms
proof (induction es arbitrary: f out)
  case Nil
  then show ?case by (auto simp: bt_keys_def special_tokens_ok_def)
next
  case (Cons e es)
  obtain k v where e: "e = (k, v)" by (cases e)
  have req: "fields_require k f = (Inr v, fields_use k f)"
    using Cons.prems bt_get_iff [OF Cons.prems(1), of k v] by (simp add: res e)
  have ins: "bt_insert k n out = out @ [(k, n)]" for n
  proof (rule bt_insert_last)
    have "bt_ok (map special_token_entry out @ (k, v) # es)" using Cons.prems by (simp add: e)
    then show "bt_ok (out @ [(k, n)])"
      by (auto simp: bt_ok_def sorted_wrt_append special_token_entry_def comp_def)
  qed
  have IH: "v = cbor_u32 n \<Longrightarrow>
      collect_special_tokens (bt_keys es) (fields_use k f) (out @ [(k, n)]) = Inr (r, g) \<longleftrightarrow>
      (\<exists>m. r = (out @ [(k, n)]) @ m \<and> es = map special_token_entry m \<and> special_tokens_ok m) \<and>
      g = foldl (\<lambda>g k. fields_use k g) (fields_use k f) (bt_keys es)" for n
    using Cons.prems by (intro Cons.IH) (simp_all add: e special_token_entry_def)
  have "collect_special_tokens (bt_keys (e # es)) f out = Inr (r, g) \<longleftrightarrow>
    bounded_text ''specialTokens'' k 64 = Inr () \<and>
    (\<exists>n. (v = cbor_u32 n \<and> n \<le> u32_max) \<and>
      collect_special_tokens (bt_keys es) (fields_use k f) (out @ [(k, n)]) = Inr (r, g))"
    by (simp add: bt_keys_def e req res ins)
  also have "\<dots> \<longleftrightarrow> bounded_text ''specialTokens'' k 64 = Inr () \<and>
    (\<exists>n. (v = cbor_u32 n \<and> n \<le> u32_max) \<and>
      (\<exists>m. r = (out @ [(k, n)]) @ m \<and> es = map special_token_entry m \<and> special_tokens_ok m)) \<and>
      g = foldl (\<lambda>g k. fields_use k g) (fields_use k f) (bt_keys es)"
    using IH by blast
  also have "\<dots> \<longleftrightarrow>
    (\<exists>m. r = out @ m \<and> e # es = map special_token_entry m \<and> special_tokens_ok m) \<and>
    g = foldl (\<lambda>g k. fields_use k g) f (bt_keys (e # es))"
    by (fastforce simp: e bt_keys_def special_tokens_ok_def special_token_entry_def
        Cons_eq_map_conv)
  finally show ?case .
qed

lemma read_special_tokens_ok [res]:
  assumes "cbor_sorted v"
  shows "read_special_tokens v = Inr m \<longleftrightarrow>
    v = CMap (map special_token_entry m) \<and> special_tokens_ok m"
proof (cases v)
  case (CMap es)
  let ?f = "\<lparr>f_map = es, f_used = {}\<rparr>"
  have parse: "fields_parse (CMap es) = Inr ?f"
    using assms CMap by (simp add: fields_parse_sorted)
  have "fields_left ?f \<subseteq> set (bt_keys es)" by (auto simp: fields_left_def bt_keys_def)
  then show ?thesis
    using collect_special_tokens_ok [of ?f "[]" es] assms CMap
    by (auto simp: read_special_tokens_def parse fields_key_names_def res fields_within_def)
qed (auto simp: read_special_tokens_def fields_parse_def)

definition special_tokens_typed :: "special_tokens \<Rightarrow> bool" where
  "special_tokens_typed s \<longleftrightarrow> bt_ok (st_additional s) \<and> (\<forall>(name, n) \<in> set (st_additional s). n \<le> u32_max) \<and>
    pred_option (\<lambda>n. n \<le> u32_max) (st_bos s) \<and> pred_option (\<lambda>n. n \<le> u32_max) (st_eos s) \<and>
    pred_option (\<lambda>n. n \<le> u32_max) (st_pad s) \<and> pred_option (\<lambda>n. n \<le> u32_max) (st_unk s)"

lemma special_tokens_extra:
  assumes "bt_ok m"
  shows "foldl (\<lambda>m (name, n). bt_insert name (cbor_u32 n) m) [] m = map special_token_entry m"
proof -
  have "bt_ok (map special_token_entry m)"
    using assms by (simp add: bt_ok_def del: map_map)
  then have "foldl (\<lambda>m (k, v). bt_insert k v m) [] (map special_token_entry m) = map special_token_entry m"
    using bt_insert_all [of "[]"] by simp
  then show ?thesis
    by (simp add: foldl_map special_token_entry_def split_def)
qed

lemma fields_read_special_tokens [res]:
  assumes "fields_sorted f"
  shows "fields_read ''additional'' read_special_tokens f = (Inr m, g) \<longleftrightarrow>
    bt_get (f_map f) ''additional'' = Some (CMap (map special_token_entry m)) \<and> special_tokens_ok m \<and>
    g = fields_use ''additional'' f"
  using assms fields_sorted_get [OF assms]
  by (cases "bt_get (f_map f) ''additional''") (auto simp: fields_read_ok res)

lemma bt_ok_special_tokens: "bt_ok (map special_token_entry m) = bt_ok m"
  by (simp add: bt_ok_def del: map_map)

lemma special_tokens_ok_valid:
  "special_tokens_validate s = Inr () \<Longrightarrow>
   special_tokens_ok (st_additional s) \<longleftrightarrow> (\<forall>(name, n) \<in> set (st_additional s). n \<le> u32_max)"
  by (fastforce simp: special_tokens_validate_def special_tokens_ok_def res bt_keys_def
      dest: rmap_all split: if_splits)

lemma special_tokens_iff:
  assumes "cbor_sorted v"
  shows "special_tokens_from_cbor v = Inr x \<longleftrightarrow> special_tokens_typed x \<and> special_tokens_to_cbor x = Inr v"
proof (cases v)
  case (CMap es)
  let ?K = "{''additional'', ''bos'', ''eos'', ''pad'', ''unk''}"
  have ok: "bt_ok (st_additional x)"
    if "bt_get es ''additional'' = Some (CMap (map special_token_entry (st_additional x)))"
    using that assms bt_ok_special_tokens by (fastforce simp: CMap bt_get_iff)
  show ?thesis
  proof (cases "bt_ok (st_additional x) \<and> special_tokens_validate x = Inr ()")
    case True
    then show ?thesis
      using assms special_tokens_ok_valid [of x]
      unfolding CMap special_tokens_from_cbor_def special_tokens_to_cbor_def
      by (cases x) (simp add: read_document_ok res Let_def special_tokens_fields_def
          special_tokens_typed_def special_tokens_extra
          builder_finish_eq [where K = ?K], auto simp: contract_ac)
  next
    case False
    then show ?thesis
      using assms ok unfolding CMap special_tokens_from_cbor_def special_tokens_to_cbor_def
      by (cases x) (auto simp: read_document_ok res special_tokens_fields_def special_tokens_typed_def)
  qed
qed (auto simp: special_tokens_from_cbor_def read_document_not_map special_tokens_to_cbor_def
   builder_finish_def res Let_def)

end
