(* ===== verification/Document.thy ===== *)
theory Document
  imports Contract_Common
begin

text \<open>
  What every contract document promises, as a locale: a writer \<open>to_cbor\<close>, a reader \<open>from_cbor\<close> and
  the range of the values the Rust type can hold. The laws say that the reader accepts a sorted
  CBOR value exactly when it is what the writer makes of the result. From them: the reader of the
  bytes accepts one byte string per value, writing and reading back is the identity, and two
  values with the same domain-separated root are equal unless SHA-256 collides on the preimages of
  their two encodings. Each contract type
  interprets the locale in the theory that models it.
\<close>

lemma map_cbor_inj [simp]:
  "map cbor_text xs = map cbor_text ys \<longleftrightarrow> xs = ys"
  "map cbor_u32 ms = map cbor_u32 ns \<longleftrightarrow> ms = ns"
  "map cbor_u64 ms = map cbor_u64 ns \<longleftrightarrow> ms = ns"
  "map cbor_digest ds = map cbor_digest es \<longleftrightarrow> ds = es"
  by (simp_all add: inj_map_eq_map inj_def)

definition document_bytes :: "('a \<Rightarrow> cbor_value res) \<Rightarrow> u8 list \<Rightarrow> 'a \<Rightarrow> bool" where
  "document_bytes to_cbor bs x \<longleftrightarrow>
    (\<exists>v. to_cbor x = Inr v \<and> bs = encode v \<and> cbor_wf 0 v \<and> length bs \<le> max_document_bytes)"

definition read_bytes_as :: "(cbor_value \<Rightarrow> 'a res) \<Rightarrow> u8 list \<Rightarrow> 'a res" where
  "read_bytes_as from_cbor bs = rbind (decode_canonical bs) from_cbor"

lemma document_bytes_unique:
  "document_bytes to_cbor bs x \<Longrightarrow> document_bytes to_cbor bs' x \<Longrightarrow> bs = bs'"
  by (auto simp: document_bytes_def)

lemma encode_inj:
  "cbor_wf 0 v \<Longrightarrow> encode v = encode w \<Longrightarrow> length (encode v) \<le> max_document_bytes \<Longrightarrow> cbor_wf 0 w \<Longrightarrow> v = w"
  using decode_canonical_iff [of "encode v" v] decode_canonical_iff [of "encode v" w] by simp

locale document =
  fixes typed :: "'a \<Rightarrow> bool"
    and to_cbor :: "'a \<Rightarrow> cbor_value res"
    and from_cbor :: "cbor_value \<Rightarrow> 'a res"
  assumes reader: "cbor_sorted v \<Longrightarrow> from_cbor v = Inr x \<longleftrightarrow> typed x \<and> to_cbor x = Inr v"
begin

lemma read_bytes: "read_bytes_as from_cbor bs = Inr x \<longleftrightarrow> typed x \<and> document_bytes to_cbor bs x"
proof
  assume "read_bytes_as from_cbor bs = Inr x"
  then obtain v where v: "decode_canonical bs = Inr v" "from_cbor v = Inr x"
    by (auto simp: read_bytes_as_def res)
  from v(1) have wf: "bs = encode v" "cbor_wf 0 v" "length bs \<le> max_document_bytes"
    unfolding decode_canonical_iff by blast+
  from reader [OF cbor_wf_sorted [OF wf(2)], of x] v(2) have "typed x" "to_cbor x = Inr v" by simp_all
  with wf show "typed x \<and> document_bytes to_cbor bs x" unfolding document_bytes_def by blast
next
  assume r: "typed x \<and> document_bytes to_cbor bs x"
  then obtain v where v: "to_cbor x = Inr v" "bs = encode v" "cbor_wf 0 v" "length bs \<le> max_document_bytes"
    by (auto simp: document_bytes_def)
  then have "decode_canonical bs = Inr v" by (simp add: decode_canonical_iff)
  moreover have "from_cbor v = Inr x" using reader [OF cbor_wf_sorted [OF v(3)], of x] r v(1) by blast
  ultimately show "read_bytes_as from_cbor bs = Inr x" by (simp add: read_bytes_as_def res)
qed

text \<open>One byte string per value, one value per byte string.\<close>

lemma read_bytes_inj:
  "read_bytes_as from_cbor bs = Inr x \<Longrightarrow> read_bytes_as from_cbor bs' = Inr x \<Longrightarrow> bs = bs'"
  by (auto simp: read_bytes intro: document_bytes_unique)

lemma to_cbor_inj:
  "to_cbor x = Inr v \<Longrightarrow> to_cbor y = Inr v \<Longrightarrow> typed x \<Longrightarrow> typed y \<Longrightarrow> cbor_sorted v \<Longrightarrow> x = y"
  using reader [of v x] reader [of v y] by simp

end

locale rooted_document = document typed to_cbor from_cbor
  for typed :: "'a \<Rightarrow> bool" and to_cbor :: "'a \<Rightarrow> cbor_value res" and from_cbor :: "cbor_value \<Rightarrow> 'a res" +
  fixes root :: "(u8 list \<Rightarrow> u8 list) \<Rightarrow> 'a \<Rightarrow> digest_hex res"
    and domain :: string
  assumes root: "root sha256 x = rbind (to_cbor x) (digest_value sha256 domain)"
    and domain: "domain \<in> set infer_domains"
begin

lemma root_some: "document_bytes to_cbor bs x \<Longrightarrow> root sha256 x = digest_bytes sha256 domain bs"
  by (auto simp: document_bytes_def root digest_value_def to_bytes_def res)

lemma root_collision:
  assumes "document_bytes to_cbor bs x" and "document_bytes to_cbor bs' y"
    and "typed x" and "typed y" and "root sha256 x = root sha256 y"
  shows "x = y \<or> digest_preimage domain bs \<noteq> digest_preimage domain bs' \<and>
    sha256 (digest_preimage domain bs) = sha256 (digest_preimage domain bs')"
proof -
  obtain h where "digest_bytes sha256 domain bs = Inr h"
    using domain by (simp add: digest_bytes_def validate_domain_def res)
  then have "bs = bs' \<or> digest_preimage domain bs \<noteq> digest_preimage domain bs' \<and>
      sha256 (digest_preimage domain bs) = sha256 (digest_preimage domain bs')"
    using digest_bytes_collision [of sha256 domain bs h domain bs'] root_some [OF assms(1)]
      root_some [OF assms(2)] assms(5) by simp
  moreover have "read_bytes_as from_cbor bs = Inr x" "read_bytes_as from_cbor bs' = Inr y"
    using assms by (simp_all add: read_bytes)
  ultimately show ?thesis by auto
qed

end

interpretation sampler_settings: document "\<lambda>_. True" fixed_point_sampler_to_cbor fixed_point_sampler_from_cbor
  by unfold_locales (simp add: fixed_point_sampler_iff)

interpretation signature: document "\<lambda>_. True" signature_to_cbor signature_from_cbor
  by unfold_locales (simp add: signature_iff)

interpretation embedded: document "\<lambda>x. digest_ok (emb_root x)" "\<lambda>x. Inr (embedded_artifact_to_cbor x)"
  embedded_artifact_from_cbor
  by unfold_locales (simp add: embedded_artifact_iff)

interpretation artifact_file: document artifact_file_typed artifact_file_to_cbor artifact_file_from_cbor
  by unfold_locales (simp add: artifact_file_iff)

interpretation special_tokens: document special_tokens_typed special_tokens_to_cbor special_tokens_from_cbor
  by unfold_locales (simp add: special_tokens_iff)

end
