(* ===== verification/Execution_Contracts.thy ===== *)
theory Execution_Contracts
  imports Document
begin

text \<open>
  The execution contracts of \<open>crates/infer-contracts/src/contracts/execution.rs\<close>: sampler plan,
  grammar plan, limits, inference intent, execution plan and inference event, each with its
  \<open>validate\<close>, \<open>to_cbor\<close>, \<open>from_cbor\<close>, \<open>root\<close> and \<open>to_bytes\<close>. The \<open>..._iff\<close> lemmas state that among
  canonical values reading and writing a contract are inverse to each other.
\<close>

definition sampler_plan_kind :: string where "sampler_plan_kind = ''knolo.infer.sampler-plan''"
definition grammar_plan_kind :: string where "grammar_plan_kind = ''knolo.infer.grammar-plan''"
definition inference_intent_kind :: string where "inference_intent_kind = ''knolo.infer.inference-intent''"
definition execution_plan_kind :: string where "execution_plan_kind = ''knolo.infer.execution-plan''"
definition inference_event_kind :: string where "inference_event_kind = ''knolo.infer.inference-event''"

lemmas kind_defs = sampler_plan_kind_def grammar_plan_kind_def inference_intent_kind_def
  execution_plan_kind_def inference_event_kind_def

definition sampler_order_v1 :: "string list" where
  "sampler_order_v1 =
    [''logits'', ''banned-token-mask'', ''grammar-mask'', ''repetition-penalty'',
     ''presence-penalty'', ''frequency-penalty'', ''temperature'', ''top-k'', ''top-p'', ''min-p'',
     ''sample'', ''stop'']"

subsection \<open>Sampler plan\<close>

record sampler_plan =
  sp_settings :: fixed_point_sampler
  sp_rng :: string
  sp_seed :: "nat option"
  sp_stream :: "nat option"
  sp_tie_break :: string
  sp_eos_token_ids :: "nat list"
  sp_stop_string_roots :: "digest_hex list"
  sp_extensions :: "(string, cbor_value) btree"

fun strictly_increasing :: "nat list \<Rightarrow> bool" where
  "strictly_increasing (a # b # xs) = (\<not> a \<ge> b \<and> strictly_increasing (b # xs))"
| "strictly_increasing _ = True"

definition sampler_plan_validate :: "sampler_plan \<Rightarrow> unit res" where
  "sampler_plan_validate s =
    rbind (fixed_point_sampler_validate (sp_settings s)) (\<lambda>_.
    rbind (one_of ''tieBreak'' (sp_tie_break s) [''lowest-token-id'']) (\<lambda>_.
    rbind (one_of ''rng'' (sp_rng s) [''none'', ''philox-4x32-v1'']) (\<lambda>_.
    rbind
     (if temperature_micros (sp_settings s) = 0
      then if sp_rng s \<noteq> ''none'' \<or> sp_seed s \<noteq> None \<or> sp_stream s \<noteq> None
        then Inl (contract_fail ''greedy sampler cannot carry an RNG seed'')
        else Inr ()
      else if sp_rng s \<noteq> ''philox-4x32-v1'' \<or> sp_seed s = None \<or> sp_stream s = None
        then Inl (contract_fail ''sampled generation requires philox seed and stream'')
        else Inr ()) (\<lambda>_.
    if length (sp_eos_token_ids s) > 64 \<or> length (sp_stop_string_roots s) > 64
    then Inl (contract_fail ''stop list is too large'')
    else if \<not> strictly_increasing (sp_eos_token_ids s)
    then Inl (contract_fail ''eos token ids must be strictly increasing'')
    else sorted_unique ''stopStringRoots'' (map digest_as_str (sp_stop_string_roots s))))))"

definition sampler_plan_to_cbor :: "sampler_plan \<Rightarrow> cbor_value res" where
  "sampler_plan_to_cbor s =
    rbind (sampler_plan_validate s) (\<lambda>_.
    let order = CArray (map cbor_text sampler_order_v1);
        b = builder_typed sampler_plan_kind;
        b = put ''eosTokenIds'' (CArray (map cbor_u32 (sp_eos_token_ids s))) b
    in rbind (put_extensions (sp_extensions s) b) (\<lambda>b.
    let st = sp_settings s;
        b = put ''frequencyPenaltyMicros'' (cbor_u32 (frequency_penalty_micros st)) b;
        b = put ''maxOutputTokens'' (cbor_u32 (max_output_tokens st)) b;
        b = put ''minPMillionths'' (cbor_u32 (min_p_millionths st)) b;
        b = put ''presencePenaltyMicros'' (cbor_u32 (presence_penalty_micros st)) b;
        b = put ''processingOrder'' order b;
        b = put ''repetitionPenaltyMicros'' (cbor_u32 (repetition_penalty_micros st)) b;
        b = put ''rng'' (cbor_text (sp_rng s)) b;
        b = put_opt ''seed'' (map_option cbor_u64 (sp_seed s)) b;
        b = put ''stopStringRoots'' (CArray (map cbor_digest (sp_stop_string_roots s))) b;
        b = put_opt ''stream'' (map_option cbor_u64 (sp_stream s)) b;
        b = put ''temperatureMicros'' (cbor_u32 (temperature_micros st)) b;
        b = put ''tieBreak'' (cbor_text (sp_tie_break s)) b;
        b = put ''topK'' (cbor_u32 (top_k st)) b;
        b = put ''topPMillionths'' (cbor_u32 (top_p_millionths st)) b
    in Inr (builder_finish b)))"

definition sampler_plan_fields :: "(fields, sampler_plan) op" where
  "sampler_plan_fields =
    op_bind (expect_kind_version sampler_plan_kind) (\<lambda>_.
    op_bind (fields_array ''processingOrder'') (\<lambda>order.
    op_bind (op_lift (text_array order ''processingOrder'')) (\<lambda>order.
    if order \<noteq> sampler_order_v1
    then op_throw (contract_fail ''sampler processing order is not version 1'')
    else
    op_bind fixed_point_sampler_fields (\<lambda>settings.
    op_bind (fields_array ''eosTokenIds'') (\<lambda>eos.
    op_bind (op_lift (u32_array eos ''eosTokenIds'')) (\<lambda>eos.
    op_bind fields_extensions (\<lambda>extensions.
    op_bind (fields_text ''rng'') (\<lambda>rng.
    op_bind (fields_opt_u64 ''seed'') (\<lambda>seed.
    op_bind (fields_array ''stopStringRoots'') (\<lambda>stops.
    op_bind (op_lift (digest_array stops ''stopStringRoots'')) (\<lambda>stops.
    op_bind (fields_opt_u64 ''stream'') (\<lambda>stream.
    op_bind (fields_text ''tieBreak'') (\<lambda>tie_break.
    op_return
      \<lparr>sp_settings = settings, sp_rng = rng, sp_seed = seed, sp_stream = stream,
       sp_tie_break = tie_break, sp_eos_token_ids = eos, sp_stop_string_roots = stops,
       sp_extensions = extensions\<rparr>)))))))))))))"

definition sampler_plan_from_cbor :: "cbor_value \<Rightarrow> sampler_plan res" where
  "sampler_plan_from_cbor = read_document sampler_plan_fields sampler_plan_validate"

definition sampler_plan_root :: "(u8 list \<Rightarrow> u8 list) \<Rightarrow> sampler_plan \<Rightarrow> digest_hex res" where
  "sampler_plan_root sha256 s =
    rbind (sampler_plan_to_cbor s) (digest_value sha256 ''infer-sampler'')"

definition sampler_plan_to_bytes :: "sampler_plan \<Rightarrow> u8 list res" where
  "sampler_plan_to_bytes s = rbind (sampler_plan_to_cbor s) (\<lambda>v. Inr (to_bytes v))"

text \<open>What the Rust types of the fields guarantee: the ranges of the integers, valid digests.\<close>

definition sampler_plan_typed :: "sampler_plan \<Rightarrow> bool" where
  "sampler_plan_typed s \<longleftrightarrow>
    pred_option (\<lambda>n. n \<le> u64_max) (sp_seed s) \<and> pred_option (\<lambda>n. n \<le> u64_max) (sp_stream s) \<and>
    list_all (\<lambda>n. n \<le> u32_max) (sp_eos_token_ids s) \<and> list_all digest_ok (sp_stop_string_roots s)"

lemma fixed_point_sampler_bounds:
  "fixed_point_sampler_validate s = Inr () \<Longrightarrow>
   temperature_micros s \<le> u32_max \<and> top_p_millionths s \<le> u32_max \<and> min_p_millionths s \<le> u32_max \<and>
   repetition_penalty_micros s \<le> u32_max \<and> presence_penalty_micros s \<le> u32_max \<and>
   frequency_penalty_micros s \<le> u32_max \<and> top_k s \<le> u32_max \<and> max_output_tokens s \<le> u32_max"
  by (auto simp: fixed_point_sampler_validate_def u32_max_def split: if_splits)

lemma sampler_plan_bounds:
  "sampler_plan_validate s = Inr () \<Longrightarrow> fixed_point_sampler_validate (sp_settings s) = Inr ()"
  by (auto simp: sampler_plan_validate_def res)

lemma fixed_point_sampler_fields_ok [res]:
  "fixed_point_sampler_fields f = (Inr s, g) \<longleftrightarrow>
   bt_get (f_map f) ''frequencyPenaltyMicros'' = Some (cbor_u32 (frequency_penalty_micros s)) \<and>
   bt_get (f_map f) ''maxOutputTokens'' = Some (cbor_u32 (max_output_tokens s)) \<and>
   bt_get (f_map f) ''minPMillionths'' = Some (cbor_u32 (min_p_millionths s)) \<and>
   bt_get (f_map f) ''presencePenaltyMicros'' = Some (cbor_u32 (presence_penalty_micros s)) \<and>
   bt_get (f_map f) ''repetitionPenaltyMicros'' = Some (cbor_u32 (repetition_penalty_micros s)) \<and>
   bt_get (f_map f) ''temperatureMicros'' = Some (cbor_u32 (temperature_micros s)) \<and>
   bt_get (f_map f) ''topK'' = Some (cbor_u32 (top_k s)) \<and>
   bt_get (f_map f) ''topPMillionths'' = Some (cbor_u32 (top_p_millionths s)) \<and>
   (frequency_penalty_micros s \<le> u32_max \<and> max_output_tokens s \<le> u32_max \<and>
    min_p_millionths s \<le> u32_max \<and> presence_penalty_micros s \<le> u32_max \<and>
    repetition_penalty_micros s \<le> u32_max \<and> temperature_micros s \<le> u32_max \<and>
    top_k s \<le> u32_max \<and> top_p_millionths s \<le> u32_max) \<and>
   g = fields_use ''topPMillionths'' (fields_use ''topK'' (fields_use ''temperatureMicros''
        (fields_use ''repetitionPenaltyMicros'' (fields_use ''presencePenaltyMicros''
        (fields_use ''minPMillionths'' (fields_use ''maxOutputTokens''
        (fields_use ''frequencyPenaltyMicros'' f)))))))"
  by (cases s) (simp add: fixed_point_sampler_fields_def res, auto simp: conj_ac)

lemma sampler_plan_iff:
  assumes "cbor_sorted v"
  shows "sampler_plan_from_cbor v = Inr x \<longleftrightarrow> sampler_plan_typed x \<and> sampler_plan_to_cbor x = Inr v"
proof (cases v)
  case (CMap es)
  let ?K = "{''kind'', ''version'', ''eosTokenIds'', ''extensions'', ''frequencyPenaltyMicros'',
    ''maxOutputTokens'', ''minPMillionths'', ''presencePenaltyMicros'', ''processingOrder'',
    ''repetitionPenaltyMicros'', ''rng'', ''seed'', ''stopStringRoots'', ''stream'',
    ''temperatureMicros'', ''tieBreak'', ''topK'', ''topPMillionths''}"
  show ?thesis
  proof (cases "sampler_plan_validate x = Inr ()")
    case True
    then show ?thesis
      using assms fixed_point_sampler_bounds [OF sampler_plan_bounds [OF True]]
      unfolding CMap sampler_plan_from_cbor_def sampler_plan_to_cbor_def
      by (cases x) (simp add: read_document_ok res Let_def sampler_plan_fields_def
          sampler_plan_typed_def builder_finish_eq [where K = ?K], auto simp: contract_ac)
  next
    case False
    then show ?thesis
      using assms unfolding CMap sampler_plan_from_cbor_def sampler_plan_to_cbor_def
      by (auto simp: read_document_ok res)
  qed
qed (auto simp: sampler_plan_from_cbor_def read_document_not_map sampler_plan_to_cbor_def
   builder_finish_def res Let_def)

subsection \<open>Grammar plan\<close>

record grammar_plan =
  gp_format :: string
  gp_source_root :: digest_hex
  gp_enabled :: bool
  gp_extensions :: "(string, cbor_value) btree"

definition grammar_plan_validate :: "grammar_plan \<Rightarrow> unit res" where
  "grammar_plan_validate s =
    rbind (one_of ''format'' (gp_format s) [''grammar'', ''json-schema'', ''none'', ''regex'']) (\<lambda>_.
    if gp_format s = ''none'' \<and> gp_enabled s
    then Inl (contract_fail ''grammar format none cannot be enabled'')
    else if gp_format s \<noteq> ''none'' \<and> \<not> gp_enabled s
    then Inl (contract_fail ''a named grammar format must be enabled'')
    else Inr ())"

definition grammar_plan_to_cbor :: "grammar_plan \<Rightarrow> cbor_value res" where
  "grammar_plan_to_cbor s =
    rbind (grammar_plan_validate s) (\<lambda>_.
    let b = builder_typed grammar_plan_kind;
        b = put ''enabled'' (CBool (gp_enabled s)) b
    in rbind (put_extensions (gp_extensions s) b) (\<lambda>b.
    let b = put ''format'' (cbor_text (gp_format s)) b;
        b = put ''sourceRoot'' (cbor_digest (gp_source_root s)) b
    in Inr (builder_finish b)))"

definition grammar_plan_fields :: "(fields, grammar_plan) op" where
  "grammar_plan_fields =
    op_bind (expect_kind_version grammar_plan_kind) (\<lambda>_.
    op_bind (fields_bool ''enabled'') (\<lambda>enabled.
    op_bind fields_extensions (\<lambda>extensions.
    op_bind (fields_text ''format'') (\<lambda>format.
    op_bind (fields_digest ''sourceRoot'') (\<lambda>source_root.
    op_return
      \<lparr>gp_format = format, gp_source_root = source_root, gp_enabled = enabled,
       gp_extensions = extensions\<rparr>)))))"

definition grammar_plan_from_cbor :: "cbor_value \<Rightarrow> grammar_plan res" where
  "grammar_plan_from_cbor = read_document grammar_plan_fields grammar_plan_validate"

definition grammar_plan_root :: "(u8 list \<Rightarrow> u8 list) \<Rightarrow> grammar_plan \<Rightarrow> digest_hex res" where
  "grammar_plan_root sha256 s =
    rbind (grammar_plan_to_cbor s) (digest_value sha256 ''infer-grammar'')"

definition grammar_plan_to_bytes :: "grammar_plan \<Rightarrow> u8 list res" where
  "grammar_plan_to_bytes s = rbind (grammar_plan_to_cbor s) (\<lambda>v. Inr (to_bytes v))"

lemma grammar_plan_iff:
  assumes "cbor_sorted v"
  shows "grammar_plan_from_cbor v = Inr x \<longleftrightarrow>
    digest_ok (gp_source_root x) \<and> grammar_plan_to_cbor x = Inr v"
proof (cases v)
  case (CMap es)
  let ?K = "{''kind'', ''version'', ''enabled'', ''extensions'', ''format'', ''sourceRoot''}"
  show ?thesis
    using assms unfolding CMap grammar_plan_from_cbor_def grammar_plan_to_cbor_def
    by (cases x) (simp add: read_document_ok res Let_def grammar_plan_fields_def
        builder_finish_eq [where K = ?K], auto simp: contract_ac)
qed (auto simp: grammar_plan_from_cbor_def read_document_not_map grammar_plan_to_cbor_def
   builder_finish_def res Let_def)

subsection \<open>Limits\<close>

record limits =
  lim_max_output_tokens :: nat
  lim_max_prompt_tokens :: nat
  lim_deadline_unix_micros :: "nat option"

definition limits_validate :: "limits \<Rightarrow> unit res" where
  "limits_validate s =
    (if lim_max_output_tokens s = 0 \<or> lim_max_prompt_tokens s = 0
        \<or> lim_max_output_tokens s > 1048576 \<or> lim_max_prompt_tokens s > 1048576
     then Inl (contract_fail ''limits are outside their bounds'')
     else Inr ())"

definition limits_to_cbor :: "limits \<Rightarrow> cbor_value res" where
  "limits_to_cbor s =
    rbind (limits_validate s) (\<lambda>_.
    let b = builder_bare;
        b = put_opt ''deadlineUnixMicros'' (map_option cbor_u64 (lim_deadline_unix_micros s)) b;
        b = put ''maxOutputTokens'' (cbor_u32 (lim_max_output_tokens s)) b;
        b = put ''maxPromptTokens'' (cbor_u32 (lim_max_prompt_tokens s)) b
    in Inr (builder_finish b))"

definition limits_fields :: "(fields, limits) op" where
  "limits_fields =
    op_bind (fields_opt_u64 ''deadlineUnixMicros'') (\<lambda>deadline.
    op_bind (fields_u32 ''maxOutputTokens'') (\<lambda>max_output.
    op_bind (fields_u32 ''maxPromptTokens'') (\<lambda>max_prompt.
    op_return
      \<lparr>lim_max_output_tokens = max_output, lim_max_prompt_tokens = max_prompt,
       lim_deadline_unix_micros = deadline\<rparr>)))"

definition limits_from_cbor :: "cbor_value \<Rightarrow> limits res" where
  "limits_from_cbor = read_document limits_fields limits_validate"

definition limits_root :: "(u8 list \<Rightarrow> u8 list) \<Rightarrow> limits \<Rightarrow> digest_hex res" where
  "limits_root sha256 s = rbind (limits_to_cbor s) (digest_value sha256 ''infer-limits'')"

lemma limits_iff:
  assumes "cbor_sorted v"
  shows "limits_from_cbor v = Inr x \<longleftrightarrow>
    pred_option (\<lambda>n. n \<le> u64_max) (lim_deadline_unix_micros x) \<and> limits_to_cbor x = Inr v"
proof (cases v)
  case (CMap es)
  let ?K = "{''deadlineUnixMicros'', ''maxOutputTokens'', ''maxPromptTokens''}"
  have bounds: "limits_validate x = Inr () \<Longrightarrow>
      lim_max_output_tokens x \<le> u32_max \<and> lim_max_prompt_tokens x \<le> u32_max"
    by (auto simp: limits_validate_def u32_max_def split: if_splits)
  show ?thesis
    using assms bounds unfolding CMap limits_from_cbor_def limits_to_cbor_def
    by (cases x) (simp add: read_document_ok res Let_def limits_fields_def
        builder_finish_eq [where K = ?K], auto simp: contract_ac)
qed (auto simp: limits_from_cbor_def read_document_not_map limits_to_cbor_def
   builder_finish_def res Let_def)

subsection \<open>Inference intent\<close>

record inference_intent =
  int_model_runtime_root :: digest_hex
  int_prompt_plan_root :: digest_hex
  int_sampler_plan_root :: digest_hex
  int_grammar_plan_root :: "digest_hex option"
  int_evidence_binding_root :: "digest_hex option"
  int_requested_mode :: string
  int_limits_root :: digest_hex
  int_extensions :: "(string, cbor_value) btree"

definition inference_intent_validate :: "inference_intent \<Rightarrow> unit res" where
  "inference_intent_validate s =
    rbind (one_of ''requestedMode'' (int_requested_mode s)
      [''isolated-replay'', ''pinned'', ''throughput'']) (\<lambda>_. Inr ())"

definition inference_intent_to_cbor :: "inference_intent \<Rightarrow> cbor_value res" where
  "inference_intent_to_cbor s =
    rbind (inference_intent_validate s) (\<lambda>_.
    let b = builder_typed inference_intent_kind;
        b = put_opt ''evidenceBindingRoot'' (map_option cbor_digest (int_evidence_binding_root s)) b
    in rbind (put_extensions (int_extensions s) b) (\<lambda>b.
    let b = put_opt ''grammarPlanRoot'' (map_option cbor_digest (int_grammar_plan_root s)) b;
        b = put ''limitsRoot'' (cbor_digest (int_limits_root s)) b;
        b = put ''modelRuntimeRoot'' (cbor_digest (int_model_runtime_root s)) b;
        b = put ''promptPlanRoot'' (cbor_digest (int_prompt_plan_root s)) b;
        b = put ''requestedMode'' (cbor_text (int_requested_mode s)) b;
        b = put ''samplerPlanRoot'' (cbor_digest (int_sampler_plan_root s)) b
    in Inr (builder_finish b)))"

definition inference_intent_fields :: "(fields, inference_intent) op" where
  "inference_intent_fields =
    op_bind (expect_kind_version inference_intent_kind) (\<lambda>_.
    op_bind (fields_opt_digest ''evidenceBindingRoot'') (\<lambda>evidence.
    op_bind fields_extensions (\<lambda>extensions.
    op_bind (fields_opt_digest ''grammarPlanRoot'') (\<lambda>grammar.
    op_bind (fields_digest ''limitsRoot'') (\<lambda>limits_at.
    op_bind (fields_digest ''modelRuntimeRoot'') (\<lambda>model.
    op_bind (fields_digest ''promptPlanRoot'') (\<lambda>prompt.
    op_bind (fields_text ''requestedMode'') (\<lambda>mode.
    op_bind (fields_digest ''samplerPlanRoot'') (\<lambda>sampler.
    op_return
      \<lparr>int_model_runtime_root = model, int_prompt_plan_root = prompt,
       int_sampler_plan_root = sampler, int_grammar_plan_root = grammar,
       int_evidence_binding_root = evidence, int_requested_mode = mode,
       int_limits_root = limits_at, int_extensions = extensions\<rparr>)))))))))"

definition inference_intent_from_cbor :: "cbor_value \<Rightarrow> inference_intent res" where
  "inference_intent_from_cbor = read_document inference_intent_fields inference_intent_validate"

definition inference_intent_root :: "(u8 list \<Rightarrow> u8 list) \<Rightarrow> inference_intent \<Rightarrow> digest_hex res" where
  "inference_intent_root sha256 s =
    rbind (inference_intent_to_cbor s) (digest_value sha256 ''infer-request-intent'')"

definition inference_intent_to_bytes :: "inference_intent \<Rightarrow> u8 list res" where
  "inference_intent_to_bytes s = rbind (inference_intent_to_cbor s) (\<lambda>v. Inr (to_bytes v))"

definition inference_intent_typed :: "inference_intent \<Rightarrow> bool" where
  "inference_intent_typed s \<longleftrightarrow>
    digest_ok (int_model_runtime_root s) \<and> digest_ok (int_prompt_plan_root s) \<and>
    digest_ok (int_sampler_plan_root s) \<and> digest_ok (int_limits_root s) \<and>
    pred_option digest_ok (int_grammar_plan_root s) \<and>
    pred_option digest_ok (int_evidence_binding_root s)"

lemma inference_intent_iff:
  assumes "cbor_sorted v"
  shows "inference_intent_from_cbor v = Inr x \<longleftrightarrow>
    inference_intent_typed x \<and> inference_intent_to_cbor x = Inr v"
proof (cases v)
  case (CMap es)
  let ?K = "{''kind'', ''version'', ''evidenceBindingRoot'', ''extensions'', ''grammarPlanRoot'',
    ''limitsRoot'', ''modelRuntimeRoot'', ''promptPlanRoot'', ''requestedMode'', ''samplerPlanRoot''}"
  show ?thesis
    using assms unfolding CMap inference_intent_from_cbor_def inference_intent_to_cbor_def
    by (cases x) (simp add: read_document_ok res Let_def inference_intent_fields_def
        inference_intent_typed_def builder_finish_eq [where K = ?K], auto simp: contract_ac)
qed (auto simp: inference_intent_from_cbor_def read_document_not_map inference_intent_to_cbor_def
   builder_finish_def res Let_def)

subsection \<open>Inference event\<close>

record inference_event =
  ev_request_id :: string
  ev_attempt :: nat
  ev_name :: string
  ev_previous_event_root :: "digest_hex option"
  ev_payload_root :: digest_hex
  ev_extensions :: "(string, cbor_value) btree"

definition inference_event_validate :: "inference_event \<Rightarrow> unit res" where
  "inference_event_validate s =
    (if length (ev_request_id s) > 64 \<or> ev_request_id s = []
        \<or> \<not> list_all (\<lambda>c. is_ascii_alphanumeric c \<or> c = CHR ''_'' \<or> c = CHR ''-'') (ev_request_id s)
     then Inl (contract_fail ''request id is invalid'')
     else rbind (one_of ''name'' (ev_name s)
       [''accepted'', ''cancelled'', ''completed'', ''failed'', ''prefill'', ''token'']) (\<lambda>_.
     if ev_attempt s > 16 then Inl (contract_fail ''attempt is outside its bounds'')
     else Inr ()))"

definition inference_event_to_cbor :: "inference_event \<Rightarrow> cbor_value res" where
  "inference_event_to_cbor s =
    rbind (inference_event_validate s) (\<lambda>_.
    let b = builder_typed inference_event_kind;
        b = put ''attempt'' (cbor_u32 (ev_attempt s)) b
    in rbind (put_extensions (ev_extensions s) b) (\<lambda>b.
    let b = put ''name'' (cbor_text (ev_name s)) b;
        b = put ''payloadRoot'' (cbor_digest (ev_payload_root s)) b;
        b = put_opt ''previousEventRoot'' (map_option cbor_digest (ev_previous_event_root s)) b;
        b = put ''requestId'' (cbor_text (ev_request_id s)) b
    in Inr (builder_finish b)))"

definition inference_event_fields :: "(fields, inference_event) op" where
  "inference_event_fields =
    op_bind (expect_kind_version inference_event_kind) (\<lambda>_.
    op_bind (fields_u32 ''attempt'') (\<lambda>attempt_no.
    op_bind fields_extensions (\<lambda>extensions.
    op_bind (fields_text ''name'') (\<lambda>name.
    op_bind (fields_digest ''payloadRoot'') (\<lambda>payload.
    op_bind (fields_opt_digest ''previousEventRoot'') (\<lambda>previous.
    op_bind (fields_text ''requestId'') (\<lambda>request.
    op_return
      \<lparr>ev_request_id = request, ev_attempt = attempt_no, ev_name = name,
       ev_previous_event_root = previous, ev_payload_root = payload,
       ev_extensions = extensions\<rparr>)))))))"

definition inference_event_from_cbor :: "cbor_value \<Rightarrow> inference_event res" where
  "inference_event_from_cbor = read_document inference_event_fields inference_event_validate"

definition inference_event_root :: "(u8 list \<Rightarrow> u8 list) \<Rightarrow> inference_event \<Rightarrow> digest_hex res" where
  "inference_event_root sha256 s =
    rbind (inference_event_to_cbor s) (\<lambda>event.
    let b = put ''event'' event builder_bare;
        b = put ''previousEventRoot''
          (case ev_previous_event_root s of Some root \<Rightarrow> cbor_digest root | None \<Rightarrow> CNull) b
    in digest_value sha256 ''infer-execution-event'' (builder_finish b))"

definition inference_event_to_bytes :: "inference_event \<Rightarrow> u8 list res" where
  "inference_event_to_bytes s = rbind (inference_event_to_cbor s) (\<lambda>v. Inr (to_bytes v))"

definition inference_event_typed :: "inference_event \<Rightarrow> bool" where
  "inference_event_typed s \<longleftrightarrow>
    digest_ok (ev_payload_root s) \<and> pred_option digest_ok (ev_previous_event_root s)"

lemma inference_event_iff:
  assumes "cbor_sorted v"
  shows "inference_event_from_cbor v = Inr x \<longleftrightarrow>
    inference_event_typed x \<and> inference_event_to_cbor x = Inr v"
proof (cases v)
  case (CMap es)
  let ?K = "{''kind'', ''version'', ''attempt'', ''extensions'', ''name'', ''payloadRoot'',
    ''previousEventRoot'', ''requestId''}"
  have bounds: "inference_event_validate x = Inr () \<Longrightarrow> ev_attempt x \<le> u32_max"
    by (auto simp: inference_event_validate_def u32_max_def res split: if_splits)
  show ?thesis
    using assms bounds unfolding CMap inference_event_from_cbor_def inference_event_to_cbor_def
    by (cases x) (simp add: read_document_ok res Let_def inference_event_fields_def
        inference_event_typed_def builder_finish_eq [where K = ?K], auto simp: contract_ac)
qed (auto simp: inference_event_from_cbor_def read_document_not_map inference_event_to_cbor_def
   builder_finish_def res Let_def)

subsection \<open>Execution plan\<close>

record execution_plan =
  xp_intent_root :: digest_hex
  xp_placement_root :: digest_hex
  xp_kernel_plan_root :: digest_hex
  xp_scheduling_mode :: string
  xp_prefill_chunk_tokens :: nat
  xp_kv_block_size :: nat
  xp_prefix_cache_enabled :: bool
  xp_prefix_cache_namespace :: string
  xp_speculative_plan_root :: "digest_hex option"
  xp_receipt_policy :: string
  xp_mode :: string
  xp_extensions :: "(string, cbor_value) btree"

definition execution_plan_validate :: "execution_plan \<Rightarrow> unit res" where
  "execution_plan_validate s =
    rbind (one_of ''schedulingMode'' (xp_scheduling_mode s) [''continuous'', ''isolated'']) (\<lambda>_.
    rbind (one_of ''receiptPolicy'' (xp_receipt_policy s)
      [''atomic-verified'', ''compatibility'', ''durable-stream'']) (\<lambda>_.
    rbind (one_of ''mode'' (xp_mode s) [''isolated-replay'', ''pinned'', ''throughput'']) (\<lambda>_.
    if xp_prefix_cache_enabled s
    then Inl (contract_fail ''prefix cache is disabled in contract version 1'')
    else rbind (bounded_text ''prefixCacheNamespace'' (xp_prefix_cache_namespace s) 64) (\<lambda>_.
    if xp_prefill_chunk_tokens s = 0 \<or> xp_prefill_chunk_tokens s > 1048576
    then Inl (contract_fail ''prefill chunk size is invalid'')
    else if \<not> (16 \<le> xp_kv_block_size s \<and> xp_kv_block_size s \<le> 65536)
         \<or> \<not> is_power_of_two (xp_kv_block_size s)
    then Inl (contract_fail ''KV block size must be a power of two from 16 to 65536'')
    else if xp_speculative_plan_root s \<noteq> None
    then Inl (contract_fail ''speculative decoding is not part of contract version 1'')
    else Inr ()))))"

definition execution_plan_to_cbor :: "execution_plan \<Rightarrow> cbor_value res" where
  "execution_plan_to_cbor s =
    rbind (execution_plan_validate s) (\<lambda>_.
    let prefix = builder_bare;
        prefix = put ''enabled'' (CBool (xp_prefix_cache_enabled s)) prefix;
        prefix = put ''namespace'' (cbor_text (xp_prefix_cache_namespace s)) prefix;
        b = builder_typed execution_plan_kind
    in rbind (put_extensions (xp_extensions s) b) (\<lambda>b.
    let b = put ''intentRoot'' (cbor_digest (xp_intent_root s)) b;
        b = put ''kernelPlanRoot'' (cbor_digest (xp_kernel_plan_root s)) b;
        b = put ''kvBlockSize'' (cbor_u32 (xp_kv_block_size s)) b;
        b = put ''mode'' (cbor_text (xp_mode s)) b;
        b = put ''placementRoot'' (cbor_digest (xp_placement_root s)) b;
        b = put ''prefillChunkTokens'' (cbor_u32 (xp_prefill_chunk_tokens s)) b;
        b = put ''prefixCache'' (builder_finish prefix) b;
        b = put ''receiptPolicy'' (cbor_text (xp_receipt_policy s)) b;
        b = put ''schedulingMode'' (cbor_text (xp_scheduling_mode s)) b
    in Inr (builder_finish b)))"

definition prefix_cache_fields :: "(fields, bool \<times> string) op" where
  "prefix_cache_fields =
    op_bind (fields_bool ''enabled'') (\<lambda>enabled.
    op_bind (fields_text ''namespace'') (\<lambda>namespace.
    op_bind (op_getr fields_finish) (\<lambda>_. op_return (enabled, namespace))))"

definition execution_plan_fields :: "(fields, execution_plan) op" where
  "execution_plan_fields =
    op_bind (expect_kind_version execution_plan_kind) (\<lambda>_.
    op_bind (fields_nested ''prefixCache'') (\<lambda>prefix.
    op_bind (op_lift (fst (prefix_cache_fields prefix))) (\<lambda>(enabled, namespace).
    op_bind fields_extensions (\<lambda>extensions.
    op_bind (fields_digest ''intentRoot'') (\<lambda>intent.
    op_bind (fields_digest ''kernelPlanRoot'') (\<lambda>kernel.
    op_bind (fields_u32 ''kvBlockSize'') (\<lambda>block_size.
    op_bind (fields_text ''mode'') (\<lambda>mode.
    op_bind (fields_digest ''placementRoot'') (\<lambda>placement.
    op_bind (fields_u32 ''prefillChunkTokens'') (\<lambda>chunk.
    op_bind (fields_text ''receiptPolicy'') (\<lambda>policy.
    op_bind (fields_text ''schedulingMode'') (\<lambda>scheduling.
    op_bind (fields_optional ''speculativePlanRoot'') (\<lambda>speculative.
    if speculative \<noteq> None
    then op_throw (contract_fail ''speculative decoding is not part of contract version 1'')
    else op_return
      \<lparr>xp_intent_root = intent, xp_placement_root = placement, xp_kernel_plan_root = kernel,
       xp_scheduling_mode = scheduling, xp_prefill_chunk_tokens = chunk,
       xp_kv_block_size = block_size, xp_prefix_cache_enabled = enabled,
       xp_prefix_cache_namespace = namespace, xp_speculative_plan_root = None,
       xp_receipt_policy = policy, xp_mode = mode, xp_extensions = extensions\<rparr>)))))))))))))"

definition execution_plan_from_cbor :: "cbor_value \<Rightarrow> execution_plan res" where
  "execution_plan_from_cbor = read_document execution_plan_fields execution_plan_validate"

definition execution_plan_root :: "(u8 list \<Rightarrow> u8 list) \<Rightarrow> execution_plan \<Rightarrow> digest_hex res" where
  "execution_plan_root sha256 s =
    rbind (execution_plan_to_cbor s) (digest_value sha256 ''infer-execution-plan'')"

definition execution_plan_to_bytes :: "execution_plan \<Rightarrow> u8 list res" where
  "execution_plan_to_bytes s = rbind (execution_plan_to_cbor s) (\<lambda>v. Inr (to_bytes v))"

definition execution_plan_typed :: "execution_plan \<Rightarrow> bool" where
  "execution_plan_typed s \<longleftrightarrow>
    digest_ok (xp_intent_root s) \<and> digest_ok (xp_placement_root s) \<and> digest_ok (xp_kernel_plan_root s)"

text \<open>The nested map is read exactly when it is the one the writer builds.\<close>

lemma prefix_cache_ok:
  assumes "fields_sorted f"
  shows "op_bind (fields_nested ''prefixCache'') (\<lambda>prefix. op_lift (fst (prefix_cache_fields prefix))) f
      = (Inr (enabled, namespace), g) \<longleftrightarrow>
    bt_get (f_map f) ''prefixCache'' =
      Some (builder_finish (put ''namespace'' (cbor_text namespace) (put ''enabled'' (CBool enabled) builder_bare))) \<and>
    g = fields_use ''prefixCache'' f"
proof (cases "bt_get (f_map f) ''prefixCache''")
  case (Some v)
  have sorted: "cbor_sorted v" using assms Some by (rule fields_sorted_get)
  let ?b = "put ''namespace'' (cbor_text namespace) (put ''enabled'' (CBool enabled) builder_bare)"
  have "(\<exists>prefix. fields_parse v = Inr prefix \<and> fst (prefix_cache_fields prefix) = Inr (enabled, namespace)) \<longleftrightarrow>
      v = builder_finish ?b"
  proof (cases v)
    case (CMap es)
    have parse: "fields_parse v = Inr \<lparr>f_map = es, f_used = {}\<rparr>"
      using sorted CMap by (simp add: fields_parse_sorted)
    have fst: "fst (prefix_cache_fields p) = Inr (enabled, namespace) \<longleftrightarrow>
        (\<exists>q. prefix_cache_fields p = (Inr (enabled, namespace), q))" for p
      by (simp add: prod_eq_iff)
    have "v = builder_finish ?b \<longleftrightarrow> builder_finish ?b = CMap es" using CMap by auto
    also have "\<dots> \<longleftrightarrow> fst (prefix_cache_fields \<lparr>f_map = es, f_used = {}\<rparr>) = Inr (enabled, namespace)"
      using sorted CMap unfolding fst
      by (simp add: prefix_cache_fields_def res
          builder_finish_eq [where K = "{''enabled'', ''namespace''}"], auto simp: contract_ac)
    finally show ?thesis by (simp add: parse)
  qed (auto simp: fields_parse_def builder_finish_def)
  with Some show ?thesis
    by (auto simp: res fields_nested_def fields_read_ok)
qed (auto simp: res fields_nested_def fields_read_ok)

lemma op_bind_assoc: "op_bind m (\<lambda>a. op_bind (g a) h) = op_bind (op_bind m g) h"
  by (simp add: op_bind_def fun_eq_iff split: prod.split sum.split)

lemma execution_plan_iff:
  assumes "cbor_sorted v"
  shows "execution_plan_from_cbor v = Inr x \<longleftrightarrow>
    execution_plan_typed x \<and> execution_plan_to_cbor x = Inr v"
proof (cases v)
  case (CMap es)
  let ?K = "{''kind'', ''version'', ''extensions'', ''intentRoot'', ''kernelPlanRoot'', ''kvBlockSize'',
    ''mode'', ''placementRoot'', ''prefillChunkTokens'', ''prefixCache'', ''receiptPolicy'',
    ''schedulingMode'', ''speculativePlanRoot''}"
  have bounds: "execution_plan_validate x = Inr () \<Longrightarrow> xp_kv_block_size x \<le> u32_max \<and>
      xp_prefill_chunk_tokens x \<le> u32_max \<and> xp_speculative_plan_root x = None"
    by (auto simp: execution_plan_validate_def u32_max_def res split: if_splits)
  have read: "op_bind (fields_nested ''prefixCache'') (\<lambda>prefix.
        op_bind (op_lift (fst (prefix_cache_fields prefix))) h) f = (Inr b, t) \<longleftrightarrow>
      (\<exists>e n. bt_get (f_map f) ''prefixCache'' =
          Some (builder_finish (put ''namespace'' (cbor_text n) (put ''enabled'' (CBool e) builder_bare))) \<and>
        h (e, n) (fields_use ''prefixCache'' f) = (Inr b, t))" if "fields_sorted f" for h f b t
    unfolding op_bind_assoc [of "fields_nested _"]
    by (simp add: op_bind_ok [of "op_bind _ _"] prefix_cache_ok [OF that] split_paired_Ex)
  show ?thesis
    using assms bounds unfolding CMap execution_plan_from_cbor_def execution_plan_to_cbor_def
    by (cases x) (simp add: read_document_ok execution_plan_fields_def
        op_bind_ok [of "expect_kind_version _"] expect_kind_version_ok read,
        simp add: res Let_def execution_plan_typed_def builder_finish_eq [where K = ?K],
        auto simp: contract_ac)
qed (auto simp: execution_plan_from_cbor_def read_document_not_map execution_plan_to_cbor_def
   builder_finish_def res Let_def)

subsection \<open>The document contract\<close>

interpretation sampler_plan: rooted_document sampler_plan_typed sampler_plan_to_cbor
  sampler_plan_from_cbor sampler_plan_root "''infer-sampler''"
  by unfold_locales (simp_all add: sampler_plan_iff sampler_plan_root_def infer_domains_def)

interpretation grammar_plan: rooted_document "\<lambda>x. digest_ok (gp_source_root x)" grammar_plan_to_cbor
  grammar_plan_from_cbor grammar_plan_root "''infer-grammar''"
  by unfold_locales (simp_all add: grammar_plan_iff grammar_plan_root_def infer_domains_def)

interpretation limits: rooted_document "\<lambda>x. pred_option (\<lambda>n. n \<le> u64_max) (lim_deadline_unix_micros x)"
  limits_to_cbor limits_from_cbor limits_root "''infer-limits''"
  by unfold_locales (simp_all add: limits_iff limits_root_def infer_domains_def)

interpretation inference_intent: rooted_document inference_intent_typed inference_intent_to_cbor
  inference_intent_from_cbor inference_intent_root "''infer-request-intent''"
  by unfold_locales (simp_all add: inference_intent_iff inference_intent_root_def infer_domains_def)

interpretation execution_plan: rooted_document execution_plan_typed execution_plan_to_cbor
  execution_plan_from_cbor execution_plan_root "''infer-execution-plan''"
  by unfold_locales (simp_all add: execution_plan_iff execution_plan_root_def infer_domains_def)

interpretation inference_event: document inference_event_typed inference_event_to_cbor
  inference_event_from_cbor
  by unfold_locales (simp add: inference_event_iff)

end
