(* ===== verification/Sampler.thy ===== *)
theory Sampler
  imports Philox Execution_Contracts "HOL-Library.Product_Lexorder"
begin

text \<open>
  Sampler version 1: \<open>crates/infer-engine/src/sample.rs\<close>. Floats are IEEE bit patterns; comparisons,
  finiteness and the total order are computed on the bits, the rounding arithmetic is a record of
  operations about which nothing is assumed.
\<close>

subsection \<open>Floats\<close>

type_synonym f32_bits = "32 word"
type_synonym f64_bits = "64 word"

definition f_mag :: "'a::len word \<Rightarrow> nat" where
  "f_mag b = unat (take_bit (LENGTH('a) - 1) b)"

definition f_neg :: "'a::len word \<Rightarrow> bool" where
  "f_neg b \<longleftrightarrow> bit b (LENGTH('a) - 1)"

definition f32_neg_infinity :: f32_bits where "f32_neg_infinity = 0xFF800000"

definition f32_is_finite :: "f32_bits \<Rightarrow> bool" where
  "f32_is_finite b \<longleftrightarrow> f_mag b < 0x7F800000"

definition f32_is_nan :: "f32_bits \<Rightarrow> bool" where
  "f32_is_nan b \<longleftrightarrow> f_mag b > 0x7F800000"

definition f64_is_finite :: "f64_bits \<Rightarrow> bool" where
  "f64_is_finite b \<longleftrightarrow> f_mag b < 0x7FF0000000000000"

definition f64_is_nan :: "f64_bits \<Rightarrow> bool" where
  "f64_is_nan b \<longleftrightarrow> f_mag b > 0x7FF0000000000000"

text \<open>The value order, where the two zeros are equal, and the order of \<open>total_cmp\<close>, where they are not.\<close>

definition f_order :: "'a::len word \<Rightarrow> int" where
  "f_order b = (if f_neg b then - int (f_mag b) else int (f_mag b))"

definition f_total :: "'a::len word \<Rightarrow> int" where
  "f_total b = (if f_neg b then - int (f_mag b) - 1 else int (f_mag b))"

definition f32_gt :: "f32_bits \<Rightarrow> f32_bits \<Rightarrow> bool" where
  "f32_gt a b \<longleftrightarrow> \<not> f32_is_nan a \<and> \<not> f32_is_nan b \<and> f_order a > f_order b"

definition f32_eq :: "f32_bits \<Rightarrow> f32_bits \<Rightarrow> bool" where
  "f32_eq a b \<longleftrightarrow> \<not> f32_is_nan a \<and> \<not> f32_is_nan b \<and> f_order a = f_order b"

definition f64_gt :: "f64_bits \<Rightarrow> f64_bits \<Rightarrow> bool" where
  "f64_gt a b \<longleftrightarrow> \<not> f64_is_nan a \<and> \<not> f64_is_nan b \<and> f_order a > f_order b"

definition f64_ge :: "f64_bits \<Rightarrow> f64_bits \<Rightarrow> bool" where
  "f64_ge a b \<longleftrightarrow> \<not> f64_is_nan a \<and> \<not> f64_is_nan b \<and> f_order a \<ge> f_order b"

definition f64_eq :: "f64_bits \<Rightarrow> f64_bits \<Rightarrow> bool" where
  "f64_eq a b \<longleftrightarrow> \<not> f64_is_nan a \<and> \<not> f64_is_nan b \<and> f_order a = f_order b"

definition f64_max :: "f64_bits \<Rightarrow> f64_bits \<Rightarrow> f64_bits" where
  "f64_max a b = (if f64_is_nan a then b else if f64_is_nan b then a else if f64_gt b a then b else a)"

text \<open>The rounding operations: conversions, arithmetic, the exponential and the sum of an iterator.\<close>

record float_ops =
  fo32_of_u32 :: "nat \<Rightarrow> f32_bits"
  fo32_mul :: "f32_bits \<Rightarrow> f32_bits \<Rightarrow> f32_bits"
  fo32_div :: "f32_bits \<Rightarrow> f32_bits \<Rightarrow> f32_bits"
  fo32_sub :: "f32_bits \<Rightarrow> f32_bits \<Rightarrow> f32_bits"
  fo64_of_u32 :: "nat \<Rightarrow> f64_bits"
  fo64_of_f32 :: "f32_bits \<Rightarrow> f64_bits"
  fo64_exp :: "f64_bits \<Rightarrow> f64_bits"
  fo64_add :: "f64_bits \<Rightarrow> f64_bits \<Rightarrow> f64_bits"
  fo64_mul :: "f64_bits \<Rightarrow> f64_bits \<Rightarrow> f64_bits"
  fo64_div :: "f64_bits \<Rightarrow> f64_bits \<Rightarrow> f64_bits"
  fo64_sum :: "f64_bits list \<Rightarrow> f64_bits"

definition f32_million :: f32_bits where "f32_million = 0x49742400"
definition f64_million :: f64_bits where "f64_million = 0x412E848000000000"
definition f64_two_32 :: f64_bits where "f64_two_32 = 0x41F0000000000000"

definition philox_unit :: "float_ops \<Rightarrow> nat \<Rightarrow> nat \<Rightarrow> nat \<Rightarrow> f64_bits" where
  "philox_unit fo seed stream step =
    fo64_div fo (fo64_of_u32 fo (unat (philox_u32 (of_nat seed) (of_nat stream) (of_nat step)))) f64_two_32"

subsection \<open>Penalties\<close>

definition penalize :: "float_ops \<Rightarrow> fixed_point_sampler \<Rightarrow> nat \<Rightarrow> f32_bits \<Rightarrow> f32_bits" where
  "penalize fo st count l =
    (let repetition = fo32_div fo (fo32_of_u32 fo (repetition_penalty_micros st)) f32_million;
         presence = fo32_div fo (fo32_of_u32 fo (presence_penalty_micros st)) f32_million;
         frequency = fo32_div fo (fo32_of_u32 fo (frequency_penalty_micros st)) f32_million;
         l = (if repetition_penalty_micros st \<noteq> 1000000
              then if f32_eq repetition 0 then 0
                   else if f32_gt l 0 then fo32_div fo l repetition else fo32_mul fo l repetition
              else l);
         l = (if \<not> f32_eq presence 0 then fo32_sub fo l presence else l);
         l = (if \<not> f32_eq frequency 0
              then fo32_sub fo l (fo32_mul fo frequency (fo32_of_u32 fo count)) else l)
     in l)"

text \<open>The tokens of the history are penalized one by one, in the order the hash map yields them.\<close>

definition apply_penalties ::
  "float_ops \<Rightarrow> sampler_plan \<Rightarrow> nat list \<Rightarrow> f32_bits list \<Rightarrow> f32_bits list res" where
  "apply_penalties fo plan history logits =
    (let out = map (\<lambda>(i, l). if i \<in> set history then penalize fo (sp_settings plan) (count_list history i) l else l)
           (enumerate 0 logits)
     in if list_all (\<lambda>i. i < length logits \<longrightarrow> f32_is_finite (out ! i)) history then Inr out
        else Inl (fail ContractInvalid ''penalty produced a non-finite logit''))"

subsection \<open>Filters\<close>

definition top_order :: "'a::len word list \<Rightarrow> nat list" where
  "top_order xs = sort_key (\<lambda>i. (- f_total (xs ! i), i)) [0..<length xs]"

definition apply_top_k :: "nat \<Rightarrow> f32_bits list \<Rightarrow> f32_bits list" where
  "apply_top_k k logits =
    (if k = 0 \<or> k \<ge> length logits then logits
     else let keep = take k (top_order logits)
       in map (\<lambda>(i, l). if i \<in> set keep then l else f32_neg_infinity) (enumerate 0 logits))"

definition softmax_max :: "f32_bits list \<Rightarrow> f32_bits" where
  "softmax_max logits =
    fold (\<lambda>v m. if f32_is_finite v \<and> f32_gt v m then v else m) logits f32_neg_infinity"

definition softmax :: "float_ops \<Rightarrow> f32_bits list \<Rightarrow> f64_bits list res" where
  "softmax fo logits =
    (if \<not> list_ex (\<lambda>v. f32_is_finite v) logits
     then Inl (fail ContractInvalid ''every logit was masked'')
     else
      let m = softmax_max logits;
          probs = map (\<lambda>v. if f32_is_finite v then fo64_exp fo (fo64_of_f32 fo (fo32_sub fo v m)) else 0) logits;
          sum = fold (\<lambda>p s. fo64_add fo s p) probs 0
      in if \<not> f64_is_finite sum \<or> f64_eq sum 0
         then Inl (fail ContractInvalid ''softmax mass is empty'')
         else Inr (map (\<lambda>p. fo64_div fo p sum) probs))"

fun nucleus :: "float_ops \<Rightarrow> f64_bits \<Rightarrow> f64_bits list \<Rightarrow> nat list \<Rightarrow> f64_bits \<Rightarrow> nat list \<Rightarrow> nat list" where
  "nucleus fo limit probs [] cumulative keep = keep"
| "nucleus fo limit probs (i # order) cumulative keep =
    (if f64_ge cumulative limit \<and> keep \<noteq> [] then keep
     else nucleus fo limit probs order (fo64_add fo cumulative (probs ! i)) (keep @ [i]))"

definition apply_top_p :: "float_ops \<Rightarrow> nat \<Rightarrow> f64_bits list \<Rightarrow> f64_bits list" where
  "apply_top_p fo millionths probs =
    (if millionths \<ge> 1000000 then probs
     else let limit = fo64_div fo (fo64_of_u32 fo millionths) f64_million;
              keep = nucleus fo limit probs (top_order probs) 0 []
       in map (\<lambda>(i, p). if i \<in> set keep then p else 0) (enumerate 0 probs))"

definition apply_min_p :: "float_ops \<Rightarrow> nat \<Rightarrow> f64_bits list \<Rightarrow> f64_bits list" where
  "apply_min_p fo millionths probs =
    (if millionths = 0 then probs
     else let floor = fo64_div fo (fo64_of_u32 fo millionths) f64_million;
              threshold = fo64_mul fo floor (fold (\<lambda>p m. f64_max m p) probs 0)
       in map (\<lambda>p. if f64_gt threshold p then 0 else p) probs)"

definition renormalize :: "float_ops \<Rightarrow> f64_bits list \<Rightarrow> f64_bits list res" where
  "renormalize fo probs =
    (let sum = fo64_sum fo probs
     in if \<not> f64_is_finite sum \<or> f64_eq sum 0
        then Inl (fail ContractInvalid ''sampling distribution is empty'')
        else Inr (map (\<lambda>p. fo64_div fo p sum) probs))"

subsection \<open>Choice\<close>

fun pick_from :: "float_ops \<Rightarrow> f64_bits \<Rightarrow> nat \<Rightarrow> f64_bits list \<Rightarrow> f64_bits \<Rightarrow> nat \<Rightarrow> nat" where
  "pick_from fo draw index [] cumulative chosen = chosen"
| "pick_from fo draw index (p # probs) cumulative chosen =
    (if f64_ge 0 p then pick_from fo draw (index + 1) probs cumulative chosen
     else let chosen = index mod 4294967296; cumulative = fo64_add fo cumulative p
       in if f64_gt cumulative draw then chosen
          else pick_from fo draw (index + 1) probs cumulative chosen)"

definition pick :: "float_ops \<Rightarrow> f64_bits list \<Rightarrow> f64_bits \<Rightarrow> nat" where
  "pick fo probs draw = pick_from fo draw 0 probs 0 0"

fun argmax_from :: "nat \<Rightarrow> f32_bits list \<Rightarrow> (nat \<times> f32_bits) option \<Rightarrow> (nat \<times> f32_bits) option" where
  "argmax_from index [] best = best"
| "argmax_from index (v # vs) best =
    argmax_from (index + 1) vs
      (if \<not> f32_is_finite v then best
       else case best of
         None \<Rightarrow> Some (index, v)
       | Some (_, b) \<Rightarrow> if f32_gt v b then Some (index, v) else best)"

definition lowest_finite_argmax :: "f32_bits list \<Rightarrow> nat res" where
  "lowest_finite_argmax logits =
    (case argmax_from 0 logits None of
       None \<Rightarrow> Inl (fail ContractInvalid ''every logit was masked'')
     | Some (index, _) \<Rightarrow> ok_or (if index \<le> u32_max then Some index else None) ContractInvalid
         ''logit index overflows'')"

definition sample_token :: "float_ops \<Rightarrow> f32_bits list \<Rightarrow> sampler_plan \<Rightarrow> nat list \<Rightarrow> nat \<Rightarrow> nat res" where
  "sample_token fo logits plan history step =
    rbind (sampler_plan_validate plan) (\<lambda>_.
    if logits = [] then Inl (fail ContractInvalid ''logit vector is empty'')
    else if \<not> list_all f32_is_finite logits then Inl (fail ContractInvalid ''logits are non-finite'')
    else rbind (apply_penalties fo plan history logits) (\<lambda>adjusted.
    let adjusted = apply_top_k (top_k (sp_settings plan)) adjusted in
    if temperature_micros (sp_settings plan) = 0 then lowest_finite_argmax adjusted
    else
    let temperature = fo32_div fo (fo32_of_u32 fo (temperature_micros (sp_settings plan))) f32_million;
        adjusted = map (\<lambda>l. if f32_is_finite l then fo32_div fo l temperature else l) adjusted in
    rbind (softmax fo adjusted) (\<lambda>probs.
    let probs = apply_min_p fo (min_p_millionths (sp_settings plan))
          (apply_top_p fo (top_p_millionths (sp_settings plan)) probs) in
    rbind (renormalize fo probs) (\<lambda>probs.
    rbind (ok_or (sp_seed plan) ContractInvalid ''sampled generation requires a seed'') (\<lambda>seed.
    rbind (ok_or (sp_stream plan) ContractInvalid ''sampled generation requires a stream'') (\<lambda>stream.
    Inr (pick fo probs (philox_unit fo seed stream step))))))))"

subsection \<open>The greedy choice\<close>

lemma f32_gt_finite: "f32_is_finite a \<Longrightarrow> f32_is_finite b \<Longrightarrow> f32_gt a b \<longleftrightarrow> f_order a > f_order b"
  by (auto simp: f32_gt_def f32_is_finite_def f32_is_nan_def)

lemma argmax_from_snoc:
  "argmax_from k (xs @ [v]) best =
    (let best = argmax_from k xs best in
     if \<not> f32_is_finite v then best
     else case best of
       None \<Rightarrow> Some (k + length xs, v)
     | Some (_, b) \<Rightarrow> if f32_gt v b then Some (k + length xs, v) else best)"
  by (induction xs arbitrary: k best) (simp_all add: Let_def split: option.split)

text \<open>\<open>i\<close> is the lowest index of a greatest finite element.\<close>

definition greedy_index :: "f32_bits list \<Rightarrow> nat \<Rightarrow> bool" where
  "greedy_index xs i \<longleftrightarrow> i < length xs \<and> f32_is_finite (xs ! i) \<and>
    (\<forall>j < length xs. f32_is_finite (xs ! j) \<longrightarrow>
      f_order (xs ! j) \<le> f_order (xs ! i) \<and> (j < i \<longrightarrow> f_order (xs ! j) < f_order (xs ! i)))"

lemma greedy_index_unique: "greedy_index xs i \<Longrightarrow> greedy_index xs j \<Longrightarrow> i = j"
  unfolding greedy_index_def by (metis linorder_neqE_nat not_le)

lemma argmax_from_spec:
  "case argmax_from 0 xs None of
     None \<Rightarrow> \<forall>x \<in> set xs. \<not> f32_is_finite x
   | Some (i, v) \<Rightarrow> v = xs ! i \<and> greedy_index xs i"
proof (induction xs rule: rev_induct)
  case (snoc v xs)
  show ?case
  proof (cases "f32_is_finite v")
    case False
    then show ?thesis using snoc
      by (auto simp: argmax_from_snoc greedy_index_def nth_append less_Suc_eq split: option.splits)
  next
    case True
    show ?thesis
    proof (cases "argmax_from 0 xs None")
      case None
      then show ?thesis using snoc True
        by (auto simp: argmax_from_snoc greedy_index_def nth_append less_Suc_eq)
    next
      case (Some b)
      obtain i w where b: "b = (i, w)" by (cases b)
      have g: "w = xs ! i" "greedy_index xs i" using snoc by (simp_all add: Some b)
      then have fin: "f32_is_finite w" by (simp add: greedy_index_def)
      show ?thesis
      proof (cases "f_order v > f_order w")
        case True
        then have "greedy_index (xs @ [v]) (length xs)"
          using g \<open>f32_is_finite v\<close> by (fastforce simp: greedy_index_def nth_append less_Suc_eq)
        then show ?thesis using Some b \<open>f32_is_finite v\<close> True fin
          by (simp add: argmax_from_snoc f32_gt_finite)
      next
        case False
        then have "greedy_index (xs @ [v]) i"
          using g by (auto simp: greedy_index_def nth_append less_Suc_eq)
        then show ?thesis using Some b \<open>f32_is_finite v\<close> False fin g
          by (simp add: argmax_from_snoc f32_gt_finite nth_append greedy_index_def)
      qed
    qed
  qed
qed simp

lemma lowest_finite_argmax_ok:
  "lowest_finite_argmax xs = Inr i \<longleftrightarrow> greedy_index xs i \<and> i \<le> u32_max"
proof (cases "argmax_from 0 xs None")
  case None
  then show ?thesis using argmax_from_spec [of xs]
    by (auto simp: lowest_finite_argmax_def greedy_index_def)
next
  case (Some b)
  obtain j v where b: "b = (j, v)" by (cases b)
  have "greedy_index xs j" using argmax_from_spec [of xs] by (simp add: Some b)
  then have "greedy_index xs i \<longleftrightarrow> i = j" using greedy_index_unique by blast
  then show ?thesis by (auto simp: lowest_finite_argmax_def Some b res)
qed

subsection \<open>The top-k filter\<close>

lemma top_order_props:
  "set (top_order xs) = {..<length xs}" "length (top_order xs) = length xs" "distinct (top_order xs)"
  "sorted (map (\<lambda>i. (- f_total (xs ! i), i)) (top_order xs))"
  by (auto simp: top_order_def)

definition top_k_kept :: "nat \<Rightarrow> f32_bits list \<Rightarrow> nat set" where
  "top_k_kept k xs = (if k = 0 \<or> k \<ge> length xs then {..<length xs} else set (take k (top_order xs)))"

lemma top_k_kept_bound: "top_k_kept k xs \<subseteq> {..<length xs}"
  using top_order_props(1) [of xs] by (auto simp: top_k_kept_def dest: in_set_takeD)

lemma top_k_kept_card: "0 < k \<Longrightarrow> k \<le> length xs \<Longrightarrow> card (top_k_kept k xs) = k"
  using distinct_card [OF distinct_take [OF top_order_props(3) [of xs], of k]] top_order_props(2) [of xs]
  by (auto simp: top_k_kept_def)

lemma nth_apply_top_k:
  "i < length xs \<Longrightarrow> apply_top_k k xs ! i = (if i \<in> top_k_kept k xs then xs ! i else f32_neg_infinity)"
  by (simp add: apply_top_k_def top_k_kept_def Let_def nth_enumerate_eq)

lemma length_apply_top_k [simp]: "length (apply_top_k k xs) = length xs"
  by (simp add: apply_top_k_def Let_def)

text \<open>A kept logit is before every dropped one: greater in the total order, or equal and earlier.\<close>

lemma top_k_kept_greatest:
  assumes "i \<in> top_k_kept k xs" and "j < length xs" and "j \<notin> top_k_kept k xs"
  shows "f_total (xs ! j) < f_total (xs ! i) \<or> f_total (xs ! j) = f_total (xs ! i) \<and> i < j"
proof -
  let ?key = "\<lambda>i. (- f_total (xs ! i), i)"
  have k: "\<not> (k = 0 \<or> k \<ge> length xs)" using assms by (auto simp: top_k_kept_def split: if_splits)
  then have i: "i \<in> set (take k (top_order xs))" and j: "j \<notin> set (take k (top_order xs))"
    using assms by (simp_all add: top_k_kept_def)
  have "j \<in> set (take k (top_order xs) @ drop k (top_order xs))"
    using assms(2) top_order_props(1) [of xs] by (simp only: append_take_drop_id) simp
  then have jd: "j \<in> set (drop k (top_order xs))" using j unfolding set_append by blast
  have "sorted (map ?key (take k (top_order xs) @ drop k (top_order xs)))"
    using top_order_props(4) by (simp only: append_take_drop_id)
  then have "\<forall>x \<in> ?key ` set (take k (top_order xs)). \<forall>y \<in> ?key ` set (drop k (top_order xs)). x \<le> y"
    unfolding map_append sorted_append set_map by blast
  then have "?key i \<le> ?key j" using i jd by blast
  moreover have "i \<noteq> j" using i j by blast
  ultimately show ?thesis by auto
qed

subsection \<open>Sampling\<close>

lemma f32_neg_infinity_simps [simp]:
  "\<not> f32_is_finite f32_neg_infinity" "f_total f32_neg_infinity = - 2139095041"
  by (simp_all add: f32_is_finite_def f32_neg_infinity_def f_mag_def f_total_def f_neg_def)

lemma length_apply_penalties: "apply_penalties fo plan history ls = Inr out \<Longrightarrow> length out = length ls"
  by (auto simp: apply_penalties_def Let_def split: if_splits)

lemma length_filters [simp]:
  "length (apply_top_p fo n ps) = length ps" "length (apply_min_p fo n ps) = length ps"
  by (simp_all add: apply_top_p_def apply_min_p_def Let_def)

lemma length_softmax: "softmax fo ls = Inr ps \<Longrightarrow> length ps = length ls"
  by (auto simp: softmax_def Let_def split: if_splits)

lemma length_renormalize: "renormalize fo ps = Inr qs \<Longrightarrow> length qs = length ps"
  by (auto simp: renormalize_def Let_def split: if_splits)

text \<open>The choice is a token of positive probability, or stays at the start value when there is none.\<close>

lemma pick_from_positive:
  "pick_from fo draw k ps c t = t \<and> (\<forall>p \<in> set ps. f64_ge 0 p) \<or>
   (\<exists>i < length ps. \<not> f64_ge 0 (ps ! i) \<and> pick_from fo draw k ps c t = (k + i) mod 4294967296)"
proof (induction ps arbitrary: k c t)
  case (Cons p ps)
  show ?case
  proof (cases "f64_ge 0 p")
    case True
    from Cons.IH [of "k + 1" c t] show ?thesis
    proof
      assume "\<exists>i < length ps. \<not> f64_ge 0 (ps ! i) \<and> pick_from fo draw (k + 1) ps c t = (k + 1 + i) mod 4294967296"
      then obtain i where "i < length ps" "\<not> f64_ge 0 (ps ! i)"
          "pick_from fo draw (k + 1) ps c t = (k + 1 + i) mod 4294967296" by blast
      then have "Suc i < length (p # ps) \<and> \<not> f64_ge 0 ((p # ps) ! Suc i) \<and>
          pick_from fo draw k (p # ps) c t = (k + Suc i) mod 4294967296" using True by simp
      then show ?thesis by blast
    qed (use True in simp)
  next
    case False
    let ?c = "fo64_add fo c p" and ?t = "k mod 4294967296"
    show ?thesis
    proof (cases "f64_gt ?c draw")
      case True
      then have "0 < length (p # ps) \<and> \<not> f64_ge 0 ((p # ps) ! 0) \<and>
          pick_from fo draw k (p # ps) c t = (k + 0) mod 4294967296" using False by simp
      then show ?thesis by blast
    next
      case gt: False
      from Cons.IH [of "k + 1" ?c ?t] show ?thesis
      proof
        assume "pick_from fo draw (k + 1) ps ?c ?t = ?t \<and> (\<forall>p \<in> set ps. f64_ge 0 p)"
        then have "0 < length (p # ps) \<and> \<not> f64_ge 0 ((p # ps) ! 0) \<and>
            pick_from fo draw k (p # ps) c t = (k + 0) mod 4294967296" using False gt by simp
        then show ?thesis by blast
      next
        assume "\<exists>i < length ps. \<not> f64_ge 0 (ps ! i) \<and> pick_from fo draw (k + 1) ps ?c ?t = (k + 1 + i) mod 4294967296"
        then obtain i where "i < length ps" "\<not> f64_ge 0 (ps ! i)"
            "pick_from fo draw (k + 1) ps ?c ?t = (k + 1 + i) mod 4294967296" by blast
        then have "Suc i < length (p # ps) \<and> \<not> f64_ge 0 ((p # ps) ! Suc i) \<and>
            pick_from fo draw k (p # ps) c t = (k + Suc i) mod 4294967296" using False gt by simp
        then show ?thesis by blast
      qed
    qed
  qed
qed simp

lemma pick_bound: "ps \<noteq> [] \<Longrightarrow> length ps \<le> 4294967296 \<Longrightarrow> pick fo ps draw < length ps"
  using pick_from_positive [of fo draw 0 ps 0 0] unfolding pick_def by fastforce

text \<open>Whatever the rounding does, the token is an index of the logits.\<close>

lemma sample_token_bound:
  assumes "sample_token fo ls plan history step = Inr t" and "length ls \<le> 4294967296"
  shows "t < length ls"
proof -
  obtain adjusted where ne: "ls \<noteq> []" and adj: "apply_penalties fo plan history ls = Inr adjusted"
    using assms(1) by (auto simp: sample_token_def res Let_def split: if_splits)
  note len = length_apply_penalties [OF adj]
  show ?thesis
  proof (cases "temperature_micros (sp_settings plan) = 0")
    case True
    then have "lowest_finite_argmax (apply_top_k (top_k (sp_settings plan)) adjusted) = Inr t"
      using assms(1) adj by (auto simp: sample_token_def res Let_def split: if_splits)
    then show ?thesis using len by (simp add: lowest_finite_argmax_ok greedy_index_def)
  next
    case False
    then obtain ps qs draw where "softmax fo (map (\<lambda>l. if f32_is_finite l then fo32_div fo l
          (fo32_div fo (fo32_of_u32 fo (temperature_micros (sp_settings plan))) f32_million) else l)
          (apply_top_k (top_k (sp_settings plan)) adjusted)) = Inr ps"
        "renormalize fo (apply_min_p fo (min_p_millionths (sp_settings plan))
          (apply_top_p fo (top_p_millionths (sp_settings plan)) ps)) = Inr qs" "t = pick fo qs draw"
      using assms(1) adj by (auto simp: sample_token_def res Let_def split: if_splits)
    then have "length qs = length ls" using len by (auto dest!: length_softmax length_renormalize)
    then show ?thesis
      using pick_bound [of qs fo draw] ne assms(2) \<open>t = pick fo qs draw\<close> by force
  qed
qed

subsection \<open>Masked tokens are not sampled\<close>

text \<open>IEEE division of a zero by a finite non-zero number is a zero.\<close>

definition divides_zero :: "float_ops \<Rightarrow> bool" where
  "divides_zero fo \<longleftrightarrow>
    (\<forall>z x. f_mag z = 0 \<longrightarrow> f64_is_finite x \<longrightarrow> f_mag x \<noteq> 0 \<longrightarrow> f_mag (fo64_div fo z x) = 0)"

lemma f64_zero_ge: "f_mag p = 0 \<Longrightarrow> f64_ge 0 (p :: f64_bits)"
  by (simp add: f64_ge_def f64_is_nan_def f_order_def f_mag_def)

lemma f64_not_zero: "f64_is_finite s \<Longrightarrow> \<not> f64_eq s 0 \<Longrightarrow> f_mag s \<noteq> 0"
proof
  assume "f64_is_finite s" "\<not> f64_eq s 0" "f_mag s = 0"
  moreover have "f_order s = 0" if "f_mag s = 0" using that by (simp add: f_order_def)
  moreover have "f_order (0 :: f64_bits) = 0" "f_mag (0 :: f64_bits) = 0" by (simp_all add: f_order_def f_mag_def)
  ultimately show False by (simp add: f64_eq_def f64_is_nan_def)
qed

lemma softmax_masked:
  assumes "divides_zero fo" and "softmax fo ls = Inr ps" and "i < length ls" and "\<not> f32_is_finite (ls ! i)"
  shows "f_mag (ps ! i) = 0"
  using assms f64_not_zero
  by (auto simp: softmax_def Let_def divides_zero_def f_mag_def [of "0 :: f64_bits"] split: if_splits)

lemma filters_masked:
  assumes "i < length ps" and "f_mag (ps ! i) = 0"
  shows "f_mag (apply_top_p fo n ps ! i) = 0" and "f_mag (apply_min_p fo n ps ! i) = 0"
  using assms by (auto simp: apply_top_p_def apply_min_p_def Let_def nth_enumerate_eq f_mag_def)

lemma renormalize_masked:
  assumes "divides_zero fo" and "renormalize fo ps = Inr qs" and "i < length ps" and "f_mag (ps ! i) = 0"
  shows "f_mag (qs ! i) = 0"
  using assms f64_not_zero by (auto simp: renormalize_def Let_def divides_zero_def split: if_splits)

text \<open>The distribution that a sampled choice is made from.\<close>

definition sampling_probs :: "float_ops \<Rightarrow> fixed_point_sampler \<Rightarrow> f32_bits list \<Rightarrow> f64_bits list res" where
  "sampling_probs fo st adjusted =
    (let temperature = fo32_div fo (fo32_of_u32 fo (temperature_micros st)) f32_million
     in rbind (softmax fo (map (\<lambda>l. if f32_is_finite l then fo32_div fo l temperature else l)
         (apply_top_k (top_k st) adjusted))) (\<lambda>ps.
       renormalize fo (apply_min_p fo (min_p_millionths st) (apply_top_p fo (top_p_millionths st) ps))))"

lemma sample_token_picks:
  assumes "sample_token fo ls plan history step = Inr t" and "temperature_micros (sp_settings plan) \<noteq> 0"
    and "apply_penalties fo plan history ls = Inr adjusted"
  obtains qs draw where "sampling_probs fo (sp_settings plan) adjusted = Inr qs" and "t = pick fo qs draw"
  using assms by (auto simp: sample_token_def sampling_probs_def res Let_def split: if_splits)

lemma length_sampling_probs: "sampling_probs fo st adjusted = Inr qs \<Longrightarrow> length qs = length adjusted"
  by (auto simp: sampling_probs_def Let_def res dest!: length_softmax length_renormalize)

lemma sampling_probs_masked:
  assumes fo: "divides_zero fo" and s: "sampling_probs fo st adjusted = Inr qs"
    and i: "i < length adjusted" "i \<notin> top_k_kept (top_k st) adjusted"
  shows "f64_ge 0 (qs ! i)"
proof -
  let ?temp = "map (\<lambda>l. if f32_is_finite l then fo32_div fo l
      (fo32_div fo (fo32_of_u32 fo (temperature_micros st)) f32_million) else l) (apply_top_k (top_k st) adjusted)"
  obtain ps where ps: "softmax fo ?temp = Inr ps"
      and qs: "renormalize fo (apply_min_p fo (min_p_millionths st) (apply_top_p fo (top_p_millionths st) ps)) = Inr qs"
    using s by (auto simp: sampling_probs_def Let_def res)
  have len: "length ps = length adjusted" using length_softmax [OF ps] by simp
  have "?temp ! i = f32_neg_infinity" using i by (simp add: nth_apply_top_k)
  then have "f_mag (ps ! i) = 0" using softmax_masked [OF fo ps, of i] i by simp
  then have "f_mag (apply_min_p fo (min_p_millionths st) (apply_top_p fo (top_p_millionths st) ps) ! i) = 0"
    using filters_masked [of i] i len by simp
  then show ?thesis using renormalize_masked [OF fo qs, of i] i len f64_zero_ge by simp
qed

text \<open>
  \<open>top_k_before xs t\<close>: the indices that the order of the filter puts before \<open>t\<close>, the greater logits
  and the equal ones of a lower index. A kept index has fewer than \<open>k\<close> of them.
\<close>

definition top_k_before :: "f32_bits list \<Rightarrow> nat \<Rightarrow> nat set" where
  "top_k_before xs t = {j. j < length xs \<and>
    (f_total (xs ! t) < f_total (xs ! j) \<or> f_total (xs ! t) = f_total (xs ! j) \<and> j < t)}"

lemma top_k_kept_before:
  assumes t: "t \<in> top_k_kept k xs" and k: "k \<noteq> 0"
  shows "card (top_k_before xs t) < k"
proof -
  have "j \<in> top_k_kept k xs" if "j \<in> top_k_before xs t" for j
    using top_k_kept_greatest [OF t, of j] that by (force simp: top_k_before_def)
  then have sub: "top_k_before xs t \<subseteq> top_k_kept k xs - {t}" by (auto simp: top_k_before_def)
  have fin: "finite (top_k_kept k xs)" by (simp add: top_k_kept_def)
  have "card (top_k_kept k xs) \<le> k"
    using top_k_kept_card [of k xs] k by (cases "k \<le> length xs") (simp_all add: top_k_kept_def)
  moreover have "card (top_k_before xs t) < card (top_k_kept k xs)"
    using card_mono [OF _ sub] card_Diff1_less [OF fin t] fin by fastforce
  ultimately show ?thesis by simp
qed

text \<open>
  A sampled token is one of the top-k of the penalized logits, unless rounding left no positive
  probability at all, when it is token 0.
\<close>

lemma sample_token_top_k:
  assumes fo: "divides_zero fo" and s: "sample_token fo ls plan history step = Inr t"
    and adj: "apply_penalties fo plan history ls = Inr adjusted" and len: "length ls \<le> 4294967296"
  shows "t \<in> top_k_kept (top_k (sp_settings plan)) adjusted \<or>
    t = 0 \<and> temperature_micros (sp_settings plan) \<noteq> 0 \<and>
    (\<exists>qs. sampling_probs fo (sp_settings plan) adjusted = Inr qs \<and> list_all (f64_ge 0) qs)"
proof (cases "temperature_micros (sp_settings plan) = 0")
  case True
  let ?top = "apply_top_k (top_k (sp_settings plan)) adjusted"
  have "lowest_finite_argmax ?top = Inr t"
    using s adj True by (auto simp: sample_token_def res Let_def split: if_splits)
  then have "t < length adjusted" "f32_is_finite (?top ! t)"
    by (simp_all add: lowest_finite_argmax_ok greedy_index_def)
  then show ?thesis by (auto simp: nth_apply_top_k split: if_splits)
next
  case False
  obtain qs draw where qs: "sampling_probs fo (sp_settings plan) adjusted = Inr qs" and t: "t = pick fo qs draw"
    using sample_token_picks [OF s False adj] .
  have n: "length qs \<le> 4294967296"
    using length_sampling_probs [OF qs] length_apply_penalties [OF adj] len by simp
  show ?thesis
  proof (cases "\<forall>p \<in> set qs. f64_ge 0 p")
    case True
    then have "t = 0" using pick_from_positive [of fo draw 0 qs 0 0] t by (auto simp: pick_def)
    then show ?thesis using False qs True by (simp add: list_all_iff)
  next
    case pos: False
    then obtain i where i: "i < length qs" "\<not> f64_ge 0 (qs ! i)" "t = i mod 4294967296"
      using pick_from_positive [of fo draw 0 qs 0 0] t by (auto simp: pick_def)
    then have "t = i" using n by simp
    then show ?thesis
      using sampling_probs_masked [OF fo qs, of i] i length_sampling_probs [OF qs] by auto
  qed
qed

text \<open>
  Greedy choice and top-k: the filter does not change the chosen token, unless the greatest value
  is a zero of both signs.
\<close>

lemma f_total_less: "f_order a < f_order b \<Longrightarrow> f_total a < f_total b"
  by (auto simp: f_order_def f_total_def split: if_splits)

lemma negative_zero: "f_neg w \<Longrightarrow> f_mag w = 0 \<Longrightarrow> w = (0x80000000 :: f32_bits)"
proof -
  assume n: "f_neg w" and m: "f_mag w = 0"
  have t: "take_bit 31 w = 0" using m by (simp add: f_mag_def unat_eq_0)
  have "bit w i \<longleftrightarrow> bit (push_bit 31 1 :: f32_bits) i" if "i < 32" for i
  proof (cases "i = 31")
    case True
    then show ?thesis using n by (simp add: f_neg_def bit_simps)
  next
    case False
    then have "i < 31" using that by simp
    then have "\<not> bit w i" using t by (metis bit_0_eq bit_take_bit_iff bot_apply bot_bool_def)
    moreover have "\<not> bit (push_bit 31 1 :: f32_bits) i" using \<open>i < 31\<close> unfolding bit_simps by simp
    ultimately show ?thesis by blast
  qed
  then have "w = push_bit 31 1" by (intro bit_word_eqI) simp
  then show ?thesis by simp
qed

lemma f_total_eq:
  assumes "f_order a = f_order b" and "a \<noteq> (0x80000000 :: f32_bits)" and "b \<noteq> (0x80000000 :: f32_bits)"
  shows "f_total a = f_total b"
  using assms negative_zero [of a] negative_zero [of b]
  by (auto simp: f_order_def f_total_def split: if_splits)

lemma finite_total: "f32_is_finite a \<Longrightarrow> f_total f32_neg_infinity < f_total a"
  by (auto simp: f32_is_finite_def f_total_def [of a])

lemma greedy_top_k:
  assumes z: "(0x80000000 :: f32_bits) \<notin> set xs" and fin: "list_all f32_is_finite xs"
    and g: "greedy_index xs i"
  shows "greedy_index (apply_top_k k xs) i"
proof -
  let ?kept = "top_k_kept k xs"
  have i: "i < length xs" "f32_is_finite (xs ! i)" using g by (simp_all add: greedy_index_def)
  have zero: "xs ! j \<noteq> 0x80000000" if "j < length xs" for j using z that by (metis nth_mem)
  have "?kept \<noteq> {}" using i by (auto simp: top_k_kept_def take_eq_Nil simp flip: length_greater_0_conv
      simp: top_order_props(2))
  then obtain m where m: "m \<in> ?kept" by blast
  have mb: "m < length xs" using m top_k_kept_bound by blast
  have ik: "i \<in> ?kept"
  proof (rule ccontr)
    assume "i \<notin> ?kept"
    then have before: "f_total (xs ! i) < f_total (xs ! m) \<or> f_total (xs ! i) = f_total (xs ! m) \<and> m < i"
      using top_k_kept_greatest [OF m i(1)] by auto
    have "f_order (xs ! m) \<le> f_order (xs ! i)" "m < i \<Longrightarrow> f_order (xs ! m) < f_order (xs ! i)"
      using g mb fin by (auto simp: greedy_index_def list_all_length)
    then have "f_total (xs ! m) \<le> f_total (xs ! i)" "m < i \<Longrightarrow> f_total (xs ! m) < f_total (xs ! i)"
      using f_total_less [of "xs ! m" "xs ! i"] f_total_eq [of "xs ! m" "xs ! i"] zero [OF mb] zero [OF i(1)]
      by fastforce+
    with before show False by auto
  qed
  have nth: "apply_top_k k xs ! j = (if j \<in> ?kept then xs ! j else f32_neg_infinity)" if "j < length xs" for j
    using that by (rule nth_apply_top_k)
  show ?thesis
    using g ik by (auto simp: greedy_index_def nth)
qed

text \<open>With zeros of both signs on top, the filter keeps the positive zero and the choice moves.\<close>

lemma greedy_signed_zeros:
  "lowest_finite_argmax [0x80000000, 0] = Inr 0"
  "lowest_finite_argmax (apply_top_k 1 [0x80000000, 0]) = Inr 1"
proof -
  have z: "f_mag (0x80000000 :: f32_bits) = 0" "f_neg (0x80000000 :: f32_bits)"
      "f_mag (0 :: f32_bits) = 0" "\<not> f_neg (0 :: f32_bits)"
    by (simp_all add: f_mag_def f_neg_def)
  have order: "top_order [0x80000000, 0 :: f32_bits] = [1, 0]"
    by (simp add: top_order_def z f_total_def upt_rec)
  show "lowest_finite_argmax [0x80000000, 0] = Inr 0"
    by (simp add: lowest_finite_argmax_def f32_is_finite_def z f32_gt_def f_order_def ok_or_def)
  have "apply_top_k 1 [0x80000000, 0] = [f32_neg_infinity, 0]"
    by (simp add: apply_top_k_def order)
  then show "lowest_finite_argmax (apply_top_k 1 [0x80000000, 0]) = Inr 1"
    by (simp add: lowest_finite_argmax_def f32_is_finite_def [of 0] z ok_or_def u32_max_def)
qed

lemma argmax_from_greedy: "greedy_index xs i \<Longrightarrow> \<exists>v. argmax_from 0 xs None = Some (i, v)"
proof (cases "argmax_from 0 xs None")
  case None
  moreover assume "greedy_index xs i"
  ultimately show ?thesis using argmax_from_spec [of xs] by (auto simp: greedy_index_def)
next
  case (Some b)
  moreover assume "greedy_index xs i"
  ultimately show ?thesis using argmax_from_spec [of xs] greedy_index_unique [of xs i "fst b"] by (cases b) auto
qed

lemma greedy_index_argmax: "greedy_index xs i \<Longrightarrow> greedy_index ys i \<Longrightarrow> lowest_finite_argmax xs = lowest_finite_argmax ys"
  by (auto simp: lowest_finite_argmax_def dest!: argmax_from_greedy)

lemma argmax_top_k:
  assumes "(0x80000000 :: f32_bits) \<notin> set xs" and "list_all f32_is_finite xs"
  shows "lowest_finite_argmax (apply_top_k k xs) = lowest_finite_argmax xs"
proof (cases "argmax_from 0 xs None")
  case None
  then have "xs = []" using argmax_from_spec [of xs] assms(2) by (cases xs) auto
  then show ?thesis by (simp add: apply_top_k_def)
next
  case (Some b)
  obtain i v where "b = (i, v)" by (cases b)
  then have "greedy_index xs i" using argmax_from_spec [of xs] Some by simp
  then show ?thesis using greedy_top_k [OF assms] greedy_index_argmax by blast
qed

lemma penalties_finite:
  assumes "apply_penalties fo plan history ls = Inr out" and "list_all f32_is_finite ls"
  shows "list_all f32_is_finite out"
proof -
  have "f32_is_finite (out ! i)" if "i < length ls" for i
    using assms that
    by (cases "i \<in> set history")
      (auto simp: apply_penalties_def Let_def list_all_iff nth_enumerate_eq split: if_splits)
  then show ?thesis using length_apply_penalties [OF assms(1)] by (auto simp: list_all_length)
qed

lemma sample_token_temperature_0:
  assumes "temperature_micros (sp_settings plan) = 0" and "sampler_plan_validate plan = Inr ()"
    and "list_all f32_is_finite ls" and "ls \<noteq> []" and "apply_penalties fo plan history ls = Inr adjusted"
    and "0x80000000 \<notin> set adjusted"
  shows "sample_token fo ls plan history step = lowest_finite_argmax adjusted"
  using assms argmax_top_k [OF assms(6) penalties_finite [OF assms(5,3)]]
  by (simp add: sample_token_def Let_def)

end
