(* ===== verification/Kv_Store.thy ===== *)
theory Kv_Store
  imports Btree
begin

text \<open>
  The KV cache contract: the layout and the \<open>KvStore\<close> trait of \<open>crates/infer-engine/src/traits.rs\<close>
  and the pool sizing of \<open>crates/infer-engine/src/memory.rs\<close>. The trait is a locale whose laws say
  what a client may rely on: a written vector is read back, other live vectors keep their values,
  and committing a token changes no vector. The locale's lemmas are proved once for every store.
\<close>

declare if_Inl_Inr [res]

text \<open>An \<open>f32\<close> is its bit pattern; \<open>0.0\<close> is \<open>0\<close>. The stores only copy values.\<close>

type_synonym f32 = "32 word"

record kv_layout =
  lay_layers :: nat
  lay_kv_heads :: nat
  lay_head_dim :: nat
  lay_block_size :: nat
  lay_dtype :: string

record kv_snapshot =
  snap_len :: nat
  snap_block_table :: "nat list"
  snap_k :: "f32 list"
  snap_v :: "f32 list"

definition layout_width :: "kv_layout \<Rightarrow> nat" where
  "layout_width l = lay_kv_heads l * lay_head_dim l"

text \<open>\<open>slab[offset..offset + values.len()].copy_from_slice(values)\<close>\<close>

definition splice :: "nat \<Rightarrow> 'a list \<Rightarrow> 'a list \<Rightarrow> 'a list" where
  "splice off values slab = take off slab @ values @ drop (off + length values) slab"

definition slice :: "nat \<Rightarrow> nat \<Rightarrow> 'a list \<Rightarrow> 'a list" where
  "slice off n slab = take n (drop off slab)"

lemma length_splice [simp]: "off + length vs \<le> length slab \<Longrightarrow> length (splice off vs slab) = length slab"
  by (simp add: splice_def)

lemma slice_splice_same [simp]:
  "off + length vs \<le> length slab \<Longrightarrow> n = length vs \<Longrightarrow> slice off n (splice off vs slab) = vs"
  by (simp add: splice_def slice_def)

lemma nth_splice:
  "off + length vs \<le> length slab \<Longrightarrow> i < length slab \<Longrightarrow>
   splice off vs slab ! i = (if off \<le> i \<and> i < off + length vs then vs ! (i - off) else slab ! i)"
  by (auto simp: splice_def nth_append not_less)

lemma nth_slice: "i < n \<Longrightarrow> off + n \<le> length slab \<Longrightarrow> slice off n slab ! i = slab ! (off + i)"
  by (simp add: slice_def)

lemma length_slice [simp]: "off + n \<le> length slab \<Longrightarrow> length (slice off n slab) = n"
  by (simp add: slice_def)

lemma slice_splice_disjoint:
  assumes "off + length vs \<le> length slab" and "a + n \<le> length slab"
    and "a + n \<le> off \<or> off + length vs \<le> a"
  shows "slice a n (splice off vs slab) = slice a n slab"
  using assms by (intro nth_equalityI) (auto simp: nth_slice nth_splice)

text \<open>Two cells of a row-major table are equal or apart.\<close>

lemma cells_apart:
  assumes "(i :: nat) \<noteq> j"
  shows "i * w + w \<le> j * w \<or> j * w + w \<le> i * w"
proof -
  have "Suc i * w \<le> j * w \<or> Suc j * w \<le> i * w"
    using assms by (metis Suc_leI mult_le_mono1 nat_neq_iff)
  then show ?thesis by (simp add: add.commute)
qed

lemma cell_bound: "(i :: nat) < n \<Longrightarrow> i * w + w \<le> n * w"
  by (metis Suc_leI add.commute mult_Suc mult_le_mono1)

lemma row_inj:
  assumes "l * b + t = l' * b + (t' :: nat)" and "t < b" and "t' < b"
  shows "l = l' \<and> t = t'"
proof -
  have "(l * b + t) div b = l" "(l' * b + t') div b = l'" using assms(2,3) by auto
  with assms(1) show ?thesis by auto
qed

lemma row_bound: "l < n \<Longrightarrow> (t :: nat) < b \<Longrightarrow> l * b + t < n * b"
proof -
  assume "l < n" "t < b"
  then have "l * b + t < Suc l * b" by simp
  also have "\<dots> \<le> n * b" using \<open>l < n\<close> by (intro mult_le_mono1) simp
  finally show ?thesis .
qed

subsection \<open>Sizing\<close>

definition max_pool_bytes :: nat where
  "max_pool_bytes = 64 * 1024 * 1024"

record kv_pool_plan =
  pool_slots :: nat
  pool_total_bytes :: nat

definition planned_kv_pool_within :: "kv_layout \<Rightarrow> nat \<Rightarrow> nat \<Rightarrow> kv_pool_plan res" where
  "planned_kv_pool_within l page_count max_bytes =
    (if lay_dtype l \<noteq> ''f32'' \<or> lay_layers l = 0 \<or> lay_kv_heads l = 0 \<or> lay_head_dim l = 0
        \<or> page_count = 0 \<or> \<not> (16 \<le> lay_block_size l \<and> lay_block_size l \<le> 65536)
        \<or> \<not> is_power_of_two (lay_block_size l)
     then Inl (fail ContractInvalid ''kv layout is not a paged f32 pool'')
     else
      rbind (ok_or (checked_mul_u64 (lay_kv_heads l) (lay_head_dim l)) ContractInvalid
        ''kv width overflows'') (\<lambda>width.
      rbind (ok_or (case checked_mul_u64 (lay_layers l) (lay_block_size l) of
          None \<Rightarrow> None | Some n \<Rightarrow> checked_mul_u64 n width)
        ContractInvalid ''kv page size overflows'') (\<lambda>slots.
      rbind (ok_or (checked_mul_u64 slots 8) ContractInvalid ''kv page size overflows'') (\<lambda>page_bytes.
      rbind (ok_or (checked_mul_u64 page_bytes page_count) InsufficientMemory
        ''kv page pool size overflows'') (\<lambda>total_bytes.
      if total_bytes > max_bytes
      then if max_bytes \<le> max_pool_bytes
        then Inl (fail InsufficientMemory ''kv page pool exceeds 64 MiB'')
        else Inl (fail InsufficientMemory ''kv page pool exceeds the run reservation'')
      else Inr \<lparr>pool_slots = slots, pool_total_bytes = total_bytes\<rparr>)))))"

definition planned_kv_pool :: "kv_layout \<Rightarrow> nat \<Rightarrow> kv_pool_plan res" where
  "planned_kv_pool l page_count = planned_kv_pool_within l page_count max_pool_bytes"

definition planned_kv_bytes :: "kv_layout \<Rightarrow> nat \<Rightarrow> nat res" where
  "planned_kv_bytes l page_count = rbind (planned_kv_pool l page_count) (\<lambda>p. Inr (pool_total_bytes p))"

definition planned_kv_bytes_within :: "kv_layout \<Rightarrow> nat \<Rightarrow> nat \<Rightarrow> nat res" where
  "planned_kv_bytes_within l page_count max_bytes =
    rbind (planned_kv_pool_within l page_count max_bytes) (\<lambda>p. Inr (pool_total_bytes p))"

definition layout_ok :: "kv_layout \<Rightarrow> bool" where
  "layout_ok l \<longleftrightarrow> 0 < lay_layers l \<and> 0 < lay_kv_heads l \<and> 0 < lay_head_dim l \<and>
    0 < lay_block_size l \<and> lay_dtype l = ''f32''"

definition layout_slots :: "kv_layout \<Rightarrow> nat" where
  "layout_slots l = lay_layers l * lay_block_size l * layout_width l"

text \<open>A plan is the exact size of the pool, within the limit and within 64 bits.\<close>

lemma planned_kv_pool_within_Inr:
  "planned_kv_pool_within l n max_bytes = Inr p \<longleftrightarrow>
    layout_ok l \<and> 16 \<le> lay_block_size l \<and> lay_block_size l \<le> 65536 \<and>
    is_power_of_two (lay_block_size l) \<and> 0 < n \<and>
    p = \<lparr>pool_slots = layout_slots l, pool_total_bytes = layout_slots l * 8 * n\<rparr> \<and>
    layout_slots l * 8 * n \<le> max_bytes \<and> layout_slots l * 8 * n \<le> u64_max" (is "?l \<longleftrightarrow> ?r")
proof
  show "?l \<Longrightarrow> ?r"
    by (auto simp: planned_kv_pool_within_def res checked_mul_u64_def layout_ok_def layout_slots_def
        layout_width_def split: if_splits option.splits)
next
  assume r: ?r
  let ?lb = "lay_layers l * lay_block_size l" and ?w = "lay_kv_heads l * lay_head_dim l"
  have pos: "0 < ?lb" "0 < ?w" using r by (auto simp: layout_ok_def)
  have all: "?lb * ?w * 8 * n \<le> u64_max" using r by (simp add: layout_slots_def layout_width_def)
  have "?lb * ?w * 8 \<le> ?lb * ?w * 8 * n" using r by simp
  with all have b8: "?lb * ?w * 8 \<le> u64_max" by linarith
  then have lbw: "?lb * ?w \<le> u64_max" by linarith
  have "a \<le> a * b \<and> a \<le> b * a" if "0 < b" for a b :: nat
    using that by (cases b) auto
  then have "?lb \<le> ?lb * ?w" "?w \<le> ?lb * ?w" using pos by blast+
  then have "?lb \<le> u64_max" "?w \<le> u64_max" using lbw by (meson le_trans)+
  with lbw have "checked_mul_u64 (lay_kv_heads l) (lay_head_dim l) = Some ?w"
      "checked_mul_u64 (lay_layers l) (lay_block_size l) = Some ?lb"
      "checked_mul_u64 ?lb ?w = Some (?lb * ?w)"
    by (simp_all add: checked_mul_u64_def)
  moreover have "checked_mul_u64 (?lb * ?w) 8 = Some (?lb * ?w * 8)"
      "checked_mul_u64 (?lb * ?w * 8) n = Some (?lb * ?w * 8 * n)"
    using b8 all by (simp_all add: checked_mul_u64_def)
  moreover have "\<not> ?lb * ?w * 8 * n > max_bytes"
    using r by (simp add: layout_slots_def layout_width_def)
  ultimately show ?l
    using r by (simp add: planned_kv_pool_within_def layout_ok_def layout_slots_def layout_width_def)
qed

subsection \<open>The contract of a store\<close>

text \<open>
  \<open>kv_keeps live token_len read_kv r s t\<close>: a live sequence \<open>r\<close> of \<open>s\<close> is live in \<open>t\<close>, is not
  shorter there, and every committed vector that can be read in \<open>s\<close> reads the same in \<open>t\<close>.
\<close>

definition kv_keeps ::
  "('s \<Rightarrow> nat \<Rightarrow> bool) \<Rightarrow> (nat \<Rightarrow> 's \<Rightarrow> nat res) \<Rightarrow>
   (nat \<Rightarrow> nat \<Rightarrow> nat \<Rightarrow> nat \<Rightarrow> bool \<Rightarrow> 's \<Rightarrow> f32 list res) \<Rightarrow> nat \<Rightarrow> 's \<Rightarrow> 's \<Rightarrow> bool" where
  "kv_keeps live token_len read_kv r s t \<longleftrightarrow>
    (live s r \<longrightarrow> live t r \<and>
      (\<forall>n. token_len r s = Inr n \<longrightarrow>
        (\<exists>m \<ge> n. token_len r t = Inr m) \<and>
        (\<forall>l tk w key v. tk < n \<longrightarrow> read_kv r l tk w key s = Inr v \<longrightarrow> read_kv r l tk w key t = Inr v)))"

text \<open>The mutating calls of the trait.\<close>

datatype kv_call =
    CallBegin nat
  | CallRelease nat
  | CallCommit nat
  | CallAbort nat
  | CallWrite nat nat nat "f32 list" bool

locale kv_store =
  fixes begin_sequence :: "nat \<Rightarrow> ('s, unit) op"
    and release_sequence :: "nat \<Rightarrow> ('s, unit) op"
    and commit_token :: "nat \<Rightarrow> ('s, nat) op"
    and abort_pending :: "nat \<Rightarrow> ('s, unit) op"
    and write_kv :: "nat \<Rightarrow> nat \<Rightarrow> nat \<Rightarrow> f32 list \<Rightarrow> bool \<Rightarrow> ('s, unit) op"
    and read_kv :: "nat \<Rightarrow> nat \<Rightarrow> nat \<Rightarrow> nat \<Rightarrow> bool \<Rightarrow> 's \<Rightarrow> f32 list res"
    and token_len :: "nat \<Rightarrow> 's \<Rightarrow> nat res"
    and live :: "'s \<Rightarrow> nat \<Rightarrow> bool"
    and inv :: "'s \<Rightarrow> bool"
  assumes inv_begin: "inv s \<Longrightarrow> inv (snd (begin_sequence q s))"
    and inv_release: "inv s \<Longrightarrow> inv (snd (release_sequence q s))"
    and inv_commit: "inv s \<Longrightarrow> inv (snd (commit_token q s))"
    and inv_abort: "inv s \<Longrightarrow> inv (snd (abort_pending q s))"
    and inv_write: "inv s \<Longrightarrow> inv (snd (write_kv q l tk vs key s))"
    and begin_live: "inv s \<Longrightarrow> begin_sequence q s = (Inr u, t) \<Longrightarrow> live t q \<and> token_len q t = Inr 0"
    and release_gone: "inv s \<Longrightarrow> release_sequence q s = (Inr u, t) \<Longrightarrow> \<not> live t q \<and> \<not> is_ok (token_len q t)"
    and live_len: "inv s \<Longrightarrow> live s q \<Longrightarrow> is_ok (token_len q s)"
    and keeps_begin: "inv s \<Longrightarrow> kv_keeps live token_len read_kv r s (snd (begin_sequence q s))"
    and keeps_release: "inv s \<Longrightarrow> r \<noteq> q \<Longrightarrow> kv_keeps live token_len read_kv r s (snd (release_sequence q s))"
    and keeps_commit: "inv s \<Longrightarrow> kv_keeps live token_len read_kv r s (snd (commit_token q s))"
    and keeps_abort: "inv s \<Longrightarrow> kv_keeps live token_len read_kv r s (snd (abort_pending q s))"
    and keeps_write: "inv s \<Longrightarrow> kv_keeps live token_len read_kv r s (snd (write_kv q l tk vs key s))"
    and write_open: "inv s \<Longrightarrow> write_kv q l tk vs key s = (Inr u, t) \<Longrightarrow>
        token_len q s = Inr tk \<and> token_len q t = Inr tk"
    and read_written: "inv s \<Longrightarrow> write_kv q l tk vs key s = (Inr u, t) \<Longrightarrow>
        read_kv q l tk (length vs) key t = Inr vs"
    and read_unwritten: "inv s \<Longrightarrow> write_kv q l tk vs key s = (Inr u, t) \<Longrightarrow> (l', key') \<noteq> (l, key) \<Longrightarrow>
        read_kv q l' tk w key' s = Inr v \<Longrightarrow> read_kv q l' tk w key' t = Inr v"
    and commit_len: "inv s \<Longrightarrow> commit_token q s = (Inr n, t) \<Longrightarrow>
        token_len q t = Inr n \<and> (\<exists>m. token_len q s = Inr m \<and> n = m + 1)"
    and commit_read: "inv s \<Longrightarrow> commit_token q s = (Inr n, t) \<Longrightarrow>
        read_kv q l tk w key s = Inr v \<Longrightarrow> read_kv q l tk w key t = Inr v"
begin

fun run_call :: "kv_call \<Rightarrow> 's \<Rightarrow> 's" where
  "run_call (CallBegin q) s = snd (begin_sequence q s)"
| "run_call (CallRelease q) s = snd (release_sequence q s)"
| "run_call (CallCommit q) s = snd (commit_token q s)"
| "run_call (CallAbort q) s = snd (abort_pending q s)"
| "run_call (CallWrite q l tk vs key) s = snd (write_kv q l tk vs key s)"

definition run_calls :: "kv_call list \<Rightarrow> 's \<Rightarrow> 's" where
  "run_calls cs s = fold run_call cs s"

lemma inv_call: "inv s \<Longrightarrow> inv (run_call c s)"
  by (cases c) (simp_all add: inv_begin inv_release inv_commit inv_abort inv_write)

lemma inv_calls: "inv s \<Longrightarrow> inv (run_calls cs s)"
  by (induction cs arbitrary: s) (simp_all add: run_calls_def inv_call)

lemma keeps_call: "inv s \<Longrightarrow> c \<noteq> CallRelease r \<Longrightarrow> kv_keeps live token_len read_kv r s (run_call c s)"
  by (cases c) (simp_all add: keeps_begin keeps_release keeps_commit keeps_abort keeps_write)

lemma keeps_trans:
  "kv_keeps live token_len read_kv r s t \<Longrightarrow> kv_keeps live token_len read_kv r t u \<Longrightarrow>
   kv_keeps live token_len read_kv r s u"
  unfolding kv_keeps_def by (meson order.strict_trans2 order.trans)

text \<open>Whatever other calls come, accepted or refused: only a release loses committed vectors.\<close>

lemma keeps_calls:
  "inv s \<Longrightarrow> CallRelease r \<notin> set cs \<Longrightarrow> kv_keeps live token_len read_kv r s (run_calls cs s)"
proof (induction cs arbitrary: s)
  case Nil
  show ?case by (simp add: run_calls_def kv_keeps_def)
next
  case (Cons c cs)
  then have "kv_keeps live token_len read_kv r s (run_call c s)" by (auto intro: keeps_call)
  moreover have "kv_keeps live token_len read_kv r (run_call c s) (run_calls cs (run_call c s))"
    using Cons by (intro Cons.IH) (simp_all add: inv_call)
  ultimately show ?case by (simp add: run_calls_def) (rule keeps_trans)
qed

fun write_cells :: "nat \<Rightarrow> nat \<Rightarrow> (nat \<times> bool \<times> f32 list) list \<Rightarrow> ('s, unit) op" where
  "write_cells q tk [] = op_return ()"
| "write_cells q tk ((l, key, vs) # cells) = op_seq (write_kv q l tk vs key) (write_cells q tk cells)"

lemma write_cells_Cons:
  "write_cells q tk ((l, key, vs) # cells) s = (Inr u, t) \<longleftrightarrow>
   (\<exists>s1. write_kv q l tk vs key s = (Inr (), s1) \<and> write_cells q tk cells s1 = (Inr u, t))"
  by (auto simp: op_seq_def op_bind_def split: prod.splits sum.splits)

lemma write_cells_open:
  "inv s \<Longrightarrow> write_cells q tk cells s = (Inr u, t) \<Longrightarrow>
   inv t \<and> (cells \<noteq> [] \<longrightarrow> token_len q t = Inr tk)"
proof (induction cells arbitrary: s)
  case (Cons c cells)
  obtain l key vs where c: "c = (l, key, vs)" by (cases c) auto
  obtain s1 where w: "write_kv q l tk vs key s = (Inr (), s1)" "write_cells q tk cells s1 = (Inr u, t)"
    using Cons.prems(2) unfolding c write_cells_Cons by blast
  have "inv s1" using inv_write [OF Cons.prems(1), of q l tk vs key] w(1) by simp
  then show ?case
    using Cons.IH [OF _ w(2)] write_open [OF Cons.prems(1) w(1)] w(2)
    by (cases cells) (auto simp: op_return_def)
qed (simp add: op_return_def)

declare write_cells.simps(2) [simp del]

lemma read_cells_unwritten:
  assumes "inv s" and "write_cells q tk cells s = (Inr u, t)" and "(l, key) \<notin> (\<lambda>(l, key, _). (l, key)) ` set cells"
    and "read_kv q l tk w key s = Inr v"
  shows "read_kv q l tk w key t = Inr v"
  using assms
proof (induction cells arbitrary: s)
  case (Cons c cells)
  obtain l' key' vs where c: "c = (l', key', vs)" by (cases c) auto
  obtain s1 where w: "write_kv q l' tk vs key' s = (Inr (), s1)"
      "write_cells q tk cells s1 = (Inr u, t)"
    using Cons.prems(2) unfolding c write_cells_Cons by blast
  have "inv s1" using inv_write [OF Cons.prems(1), of q l' tk vs key'] w(1) by simp
  moreover have "read_kv q l tk w key s1 = Inr v"
    using read_unwritten [OF Cons.prems(1) w(1)] Cons.prems(3,4) by (auto simp: c)
  ultimately show ?case using Cons.IH w(2) Cons.prems(3) by simp
qed (simp add: op_return_def)

lemma read_cells:
  assumes "inv s" and "write_cells q tk cells s = (Inr u, t)"
    and "distinct (map (\<lambda>(l, key, _). (l, key)) cells)" and "(l, key, vs) \<in> set cells"
  shows "read_kv q l tk (length vs) key t = Inr vs"
  using assms
proof (induction cells arbitrary: s)
  case (Cons c cells)
  obtain l' key' vs' where c: "c = (l', key', vs')" by (cases c) auto
  obtain s1 where w: "write_kv q l' tk vs' key' s = (Inr (), s1)"
      "write_cells q tk cells s1 = (Inr u, t)"
    using Cons.prems(2) unfolding c write_cells_Cons by blast
  have inv: "inv s1" using inv_write [OF Cons.prems(1), of q l' tk vs' key'] w(1) by simp
  show ?case
  proof (cases "(l, key, vs) \<in> set cells")
    case True
    then show ?thesis using Cons.IH [OF inv w(2)] Cons.prems(3) by simp
  next
    case False
    then have "c = (l, key, vs)" using Cons.prems(4) by simp
    then show ?thesis
      using read_cells_unwritten [OF inv w(2)] read_written [OF Cons.prems(1) w(1)] Cons.prems(3)
      by (auto simp: c)
  qed
qed simp

text \<open>
  The client's use: fill the open token, commit it, and go on. Every vector of the committed token
  reads back as written in every later state that keeps the sequence.
\<close>

lemma committed_token_kept:
  assumes "inv s" and "write_cells q tk cells s = (Inr u, s1)"
    and "distinct (map (\<lambda>(l, key, _). (l, key)) cells)" and "(l, key, vs) \<in> set cells"
    and "commit_token q s1 = (Inr n, s2)" and "live s2 q"
    and "inv s2 \<Longrightarrow> kv_keeps live token_len read_kv q s2 t"
  shows "read_kv q l tk (length vs) key t = Inr vs"
proof -
  have open1: "inv s1" "token_len q s1 = Inr tk"
    using write_cells_open [OF assms(1,2)] assms(4) by auto
  have inv2: "inv s2" using inv_commit [OF open1(1), of q] assms(5) by simp
  have len2: "token_len q s2 = Inr n" "tk < n"
    using commit_len [OF open1(1) assms(5)] open1(2) by auto
  have "read_kv q l tk (length vs) key s2 = Inr vs"
    using commit_read [OF open1(1) assms(5)] read_cells [OF assms(1,2,3,4)] by blast
  with assms(7) [OF inv2] assms(6) len2 show ?thesis
    unfolding kv_keeps_def by blast
qed

lemma committed_token_stable:
  assumes "inv s" and "write_cells q tk cells s = (Inr u, s1)"
    and "distinct (map (\<lambda>(l, key, _). (l, key)) cells)" and "(l, key, vs) \<in> set cells"
    and "commit_token q s1 = (Inr n, s2)" and "live s2 q" and "CallRelease q \<notin> set cs"
  shows "read_kv q l tk (length vs) key (run_calls cs s2) = Inr vs"
  using assms(1-6) by (rule committed_token_kept) (rule keeps_calls [OF _ assms(7)])

end

subsection \<open>A pool that may take sequences back\<close>

text \<open>
  A pool has two mutating calls more than the trait: one gives a sequence up for eviction, one
  drops every sequence. Only the owner's own release or deactivation and a drop of the whole pool
  can lose committed vectors.
\<close>

datatype pool_call =
    TraitCall kv_call
  | CallDeactivate nat
  | CallInvalidate

locale kv_pool = kv_store begin_sequence release_sequence commit_token abort_pending write_kv
    read_kv token_len live inv
  for begin_sequence :: "nat \<Rightarrow> ('s, unit) op"
    and release_sequence :: "nat \<Rightarrow> ('s, unit) op"
    and commit_token :: "nat \<Rightarrow> ('s, nat) op"
    and abort_pending :: "nat \<Rightarrow> ('s, unit) op"
    and write_kv :: "nat \<Rightarrow> nat \<Rightarrow> nat \<Rightarrow> f32 list \<Rightarrow> bool \<Rightarrow> ('s, unit) op"
    and read_kv :: "nat \<Rightarrow> nat \<Rightarrow> nat \<Rightarrow> nat \<Rightarrow> bool \<Rightarrow> 's \<Rightarrow> f32 list res"
    and token_len :: "nat \<Rightarrow> 's \<Rightarrow> nat res"
    and live :: "'s \<Rightarrow> nat \<Rightarrow> bool"
    and inv :: "'s \<Rightarrow> bool" +
  fixes deactivate :: "nat \<Rightarrow> ('s, unit) op"
    and invalidate :: "'s \<Rightarrow> 's"
  assumes inv_deactivate: "inv s \<Longrightarrow> inv (snd (deactivate q s))"
    and inv_invalidate: "inv s \<Longrightarrow> inv (invalidate s)"
    and keeps_deactivate: "inv s \<Longrightarrow> r \<noteq> q \<Longrightarrow> kv_keeps live token_len read_kv r s (snd (deactivate q s))"
begin

fun run_pool_call :: "pool_call \<Rightarrow> 's \<Rightarrow> 's" where
  "run_pool_call (TraitCall c) s = run_call c s"
| "run_pool_call (CallDeactivate q) s = snd (deactivate q s)"
| "run_pool_call CallInvalidate s = invalidate s"

definition run_pool :: "pool_call list \<Rightarrow> 's \<Rightarrow> 's" where
  "run_pool cs s = fold run_pool_call cs s"

lemma inv_pool_call: "inv s \<Longrightarrow> inv (run_pool_call c s)"
  by (cases c) (simp_all add: inv_call inv_deactivate inv_invalidate)

lemma inv_pool: "inv s \<Longrightarrow> inv (run_pool cs s)"
  by (induction cs arbitrary: s) (simp_all add: run_pool_def inv_pool_call)

lemma keeps_pool:
  "inv s \<Longrightarrow> set cs \<inter> {TraitCall (CallRelease r), CallDeactivate r, CallInvalidate} = {} \<Longrightarrow>
   kv_keeps live token_len read_kv r s (run_pool cs s)"
proof (induction cs arbitrary: s)
  case Nil
  show ?case by (simp add: run_pool_def kv_keeps_def)
next
  case (Cons c cs)
  then have "kv_keeps live token_len read_kv r s (run_pool_call c s)"
    by (cases c) (auto intro: keeps_call keeps_deactivate)
  moreover have "kv_keeps live token_len read_kv r (run_pool_call c s) (run_pool cs (run_pool_call c s))"
    using Cons by (intro Cons.IH) (simp_all add: inv_pool_call)
  ultimately show ?case by (simp add: run_pool_def) (rule keeps_trans)
qed

lemma pool_token_stable:
  assumes "inv s" and "write_cells q tk cells s = (Inr u, s1)"
    and "distinct (map (\<lambda>(l, key, _). (l, key)) cells)" and "(l, key, vs) \<in> set cells"
    and "commit_token q s1 = (Inr n, s2)" and "live s2 q"
    and "set cs \<inter> {TraitCall (CallRelease q), CallDeactivate q, CallInvalidate} = {}"
  shows "read_kv q l tk (length vs) key (run_pool cs s2) = Inr vs"
  using assms(1-6) by (rule committed_token_kept) (rule keeps_pool [OF _ assms(7)])

end

end
