(* ===== verification/Scheduler.thy ===== *)
theory Scheduler
  imports Sampler Kv_Store
begin

text \<open>
  The continuous scheduler: \<open>crates/infer-engine/src/schedule.rs\<close>. The scheduler is a record; one
  iteration runs on a world of scheduler, model and KV store. Model and store are reached through
  a record of operations, as the source reaches them through trait objects; the token sampler and
  the measured durations are arguments of the same record.
\<close>

definition class_scale :: nat where "class_scale = 8"
definition max_iters :: nat where "max_iters = 1048576"

subsection \<open>State\<close>

datatype service_class = Interactive | Standard | Batch | Background

record scheduler_config =
  cfg_runtime_root :: string
  cfg_max_context_tokens :: nat
  cfg_block_size :: nat
  cfg_page_capacity :: nat
  cfg_prefill_chunk_tokens :: nat

definition scheduler_config_new :: "string \<Rightarrow> nat \<Rightarrow> nat \<Rightarrow> nat \<Rightarrow> nat \<Rightarrow> scheduler_config res" where
  "scheduler_config_new runtime_root max_context_tokens block_size page_capacity prefill_chunk_tokens =
    (if runtime_root = [] \<or> length runtime_root > 80
     then Inl (fail ContractInvalid ''scheduler runtime root is invalid'')
     else if max_context_tokens = 0 \<or> max_context_tokens > max_iters
     then Inl (fail ContractInvalid ''scheduler context limit is invalid'')
     else if \<not> (16 \<le> block_size \<and> block_size \<le> 65536) \<or> \<not> is_power_of_two block_size
     then Inl (fail ContractInvalid ''KV block size must be a power of two from 16 to 65536'')
     else if page_capacity = 0 \<or> page_capacity > max_iters
     then Inl (fail ContractInvalid ''kv page pool is invalid'')
     else if prefill_chunk_tokens = 0 \<or> prefill_chunk_tokens > max_iters
     then Inl (fail ContractInvalid ''prefill chunk size is invalid'')
     else Inr \<lparr>cfg_runtime_root = runtime_root, cfg_max_context_tokens = max_context_tokens,
       cfg_block_size = block_size, cfg_page_capacity = page_capacity,
       cfg_prefill_chunk_tokens = prefill_chunk_tokens\<rparr>)"

record schedule_request =
  rq_request_id :: string
  rq_runtime_root :: string
  rq_prompt :: "nat list"
  rq_sampler :: sampler_plan
  rq_class :: service_class

datatype schedule_op =
    OpPrefill nat nat
  | OpDecode nat nat
  | OpCancel nat
  | OpFail nat

record schedule_step =
  step_batch :: "nat list"
  step_ops :: "schedule_op list"

record schedule_result =
  sr_sequence_id :: nat
  sr_request_id :: string
  sr_tokens :: "nat list"
  sr_finish_reason :: string
  sr_prefill_logits :: "f32 list"
  sr_error_code :: "error_code option"

datatype phase = Queued | Prefilling | Decoding | Done

record slot =
  sl_request_id :: string
  sl_sequence_id :: nat
  sl_prompt :: "nat list"
  sl_prompt_cursor :: nat
  sl_sampler :: sampler_plan
  sl_class :: service_class
  sl_vtime :: nat
  sl_pages :: nat
  sl_holding_pages :: bool
  sl_phase :: phase
  sl_cancel :: bool
  sl_kv_open :: bool
  sl_needs_forward :: bool
  sl_logits :: "f32 list"
  sl_prefill_logits :: "f32 list"
  sl_tokens :: "nat list"
  sl_finish_reason :: string
  sl_error_code :: "error_code option"

definition iteration_bound_nanos :: "nat list" where
  "iteration_bound_nanos =
    [100000, 500000, 1000000, 5000000, 10000000, 50000000, 100000000, 500000000, 1000000000,
     5000000000, u64_max]"

definition iteration_buckets :: nat where "iteration_buckets = 11"

record scheduler_counters =
  ct_queue_interactive :: nat
  ct_queue_standard :: nat
  ct_queue_batch :: nat
  ct_queue_background :: nat
  ct_active_sequences :: nat
  ct_rejected_contract :: nat
  ct_rejected_context :: nat
  ct_rejected_memory :: nat
  ct_rejected_prompt :: nat
  ct_rejected_other :: nat
  ct_cancellations :: nat
  ct_oom :: nat
  ct_prefill_tokens :: nat
  ct_prefill_nanos :: nat
  ct_decode_tokens :: nat
  ct_decode_nanos :: nat
  ct_iterations :: nat
  ct_iteration_nanos :: nat
  ct_iteration_buckets :: "nat list"
  ct_prefix_lookups :: nat
  ct_prefix_hits :: nat
  ct_prefix_reused_tokens :: nat

definition counters_default :: scheduler_counters where
  "counters_default =
    \<lparr>ct_queue_interactive = 0, ct_queue_standard = 0, ct_queue_batch = 0, ct_queue_background = 0,
     ct_active_sequences = 0, ct_rejected_contract = 0, ct_rejected_context = 0,
     ct_rejected_memory = 0, ct_rejected_prompt = 0, ct_rejected_other = 0, ct_cancellations = 0,
     ct_oom = 0, ct_prefill_tokens = 0, ct_prefill_nanos = 0, ct_decode_tokens = 0,
     ct_decode_nanos = 0, ct_iterations = 0, ct_iteration_nanos = 0,
     ct_iteration_buckets = replicate iteration_buckets 0, ct_prefix_lookups = 0,
     ct_prefix_hits = 0, ct_prefix_reused_tokens = 0\<rparr>"

record scheduler =
  sc_config :: scheduler_config
  sc_slots :: "(nat, slot) btree"
  sc_ids :: "(string, nat) btree"
  sc_next_sequence :: nat
  sc_reserved_pages :: nat
  sc_counters :: scheduler_counters

definition scheduler_new :: "scheduler_config \<Rightarrow> scheduler" where
  "scheduler_new config =
    \<lparr>sc_config = config, sc_slots = [], sc_ids = [], sc_next_sequence = 0, sc_reserved_pages = 0,
     sc_counters = counters_default\<rparr>"

definition is_runnable :: "slot \<Rightarrow> bool" where
  "is_runnable sl \<longleftrightarrow> sl_phase sl \<noteq> Done \<and> \<not> sl_cancel sl"

definition awaits_prefill :: "slot \<Rightarrow> bool" where
  "awaits_prefill sl \<longleftrightarrow> \<not> sl_cancel sl \<and> (sl_phase sl = Queued \<or> sl_phase sl = Prefilling)"

fun class_weight :: "service_class \<Rightarrow> nat" where
  "class_weight Interactive = 8"
| "class_weight Standard = 4"
| "class_weight Batch = 2"
| "class_weight Background = 1"

definition page_count :: "nat \<Rightarrow> nat \<Rightarrow> nat res" where
  "page_count tokens block =
    (let pages = (tokens + (block - 1)) div block
     in ok_or (if pages \<le> u32_max then Some pages else None) InsufficientMemory
       ''kv page count overflows'')"

definition valid_request_id :: "string \<Rightarrow> bool" where
  "valid_request_id r \<longleftrightarrow> r \<noteq> [] \<and> length r \<le> 64 \<and>
    list_all (\<lambda>c. is_ascii_alphanumeric c \<or> c = CHR ''_'' \<or> c = CHR ''-'') r"

definition fail_step :: "nat \<Rightarrow> schedule_step" where
  "fail_step q = \<lparr>step_batch = [q], step_ops = [OpFail q]\<rparr>"

definition duration_nanos :: "nat \<Rightarrow> nat" where
  "duration_nanos elapsed = (if elapsed \<le> u64_max then elapsed else u64_max)"

subsection \<open>Counters\<close>

definition note_rejection :: "error_code \<Rightarrow> scheduler_counters \<Rightarrow> scheduler_counters" where
  "note_rejection c ct =
    (let ct = (case c of
         ContractInvalid \<Rightarrow> ct\<lparr>ct_rejected_contract := saturating_add_u64 (ct_rejected_contract ct) 1\<rparr>
       | ContextLimitExceeded \<Rightarrow> ct\<lparr>ct_rejected_context := saturating_add_u64 (ct_rejected_context ct) 1\<rparr>
       | InsufficientMemory \<Rightarrow> ct\<lparr>ct_rejected_memory := saturating_add_u64 (ct_rejected_memory ct) 1\<rparr>
       | PromptCompilationFailed \<Rightarrow> ct\<lparr>ct_rejected_prompt := saturating_add_u64 (ct_rejected_prompt ct) 1\<rparr>
       | _ \<Rightarrow> ct\<lparr>ct_rejected_other := saturating_add_u64 (ct_rejected_other ct) 1\<rparr>)
     in if c = InsufficientMemory then ct\<lparr>ct_oom := saturating_add_u64 (ct_oom ct) 1\<rparr> else ct)"

definition note_prefill :: "nat \<Rightarrow> nat \<Rightarrow> scheduler_counters \<Rightarrow> scheduler_counters" where
  "note_prefill elapsed tokens ct =
    ct\<lparr>ct_prefill_tokens := saturating_add_u64 (ct_prefill_tokens ct) tokens,
       ct_prefill_nanos := saturating_add_u64 (ct_prefill_nanos ct) (duration_nanos elapsed)\<rparr>"

definition note_decode :: "nat \<Rightarrow> nat \<Rightarrow> scheduler_counters \<Rightarrow> scheduler_counters" where
  "note_decode elapsed tokens ct =
    ct\<lparr>ct_decode_tokens := saturating_add_u64 (ct_decode_tokens ct) tokens,
       ct_decode_nanos := saturating_add_u64 (ct_decode_nanos ct) (duration_nanos elapsed)\<rparr>"

fun position :: "('a \<Rightarrow> bool) \<Rightarrow> 'a list \<Rightarrow> nat option" where
  "position P [] = None"
| "position P (x # xs) = (if P x then Some 0 else map_option Suc (position P xs))"

definition note_iteration :: "nat \<Rightarrow> scheduler_counters \<Rightarrow> scheduler_counters" where
  "note_iteration elapsed ct =
    (let nanos = duration_nanos elapsed;
         index = (case position (\<lambda>bound. nanos \<le> bound) iteration_bound_nanos of
             Some i \<Rightarrow> i | None \<Rightarrow> iteration_buckets - 1)
     in ct\<lparr>ct_iterations := saturating_add_u64 (ct_iterations ct) 1,
           ct_iteration_nanos := saturating_add_u64 (ct_iteration_nanos ct) nanos,
           ct_iteration_buckets := (ct_iteration_buckets ct)
             [index := saturating_add_u64 (ct_iteration_buckets ct ! index) 1]\<rparr>)"

definition count_slot :: "scheduler_counters \<Rightarrow> slot \<Rightarrow> scheduler_counters" where
  "count_slot ct sl =
    (if sl_phase sl = Done then ct
     else
      (let ct = ct\<lparr>ct_active_sequences := saturating_add_u32 (ct_active_sequences ct) 1\<rparr>
       in if sl_phase sl \<noteq> Queued then ct
          else case sl_class sl of
            Interactive \<Rightarrow> ct\<lparr>ct_queue_interactive := saturating_add_u32 (ct_queue_interactive ct) 1\<rparr>
          | Standard \<Rightarrow> ct\<lparr>ct_queue_standard := saturating_add_u32 (ct_queue_standard ct) 1\<rparr>
          | Batch \<Rightarrow> ct\<lparr>ct_queue_batch := saturating_add_u32 (ct_queue_batch ct) 1\<rparr>
          | Background \<Rightarrow> ct\<lparr>ct_queue_background := saturating_add_u32 (ct_queue_background ct) 1\<rparr>))"

definition scheduler_counters_of :: "scheduler \<Rightarrow> scheduler_counters" where
  "scheduler_counters_of s =
    foldl count_slot
      ((sc_counters s)\<lparr>ct_queue_interactive := 0, ct_queue_standard := 0, ct_queue_batch := 0,
         ct_queue_background := 0, ct_active_sequences := 0\<rparr>)
      (bt_values (sc_slots s))"

subsection \<open>Admission\<close>

fun list_min :: "nat list \<Rightarrow> nat option" where
  "list_min [] = None"
| "list_min (x # xs) = (case list_min xs of None \<Rightarrow> Some x | Some y \<Rightarrow> Some (min x y))"

definition runnable_vtime :: "scheduler \<Rightarrow> nat" where
  "runnable_vtime s =
    (case list_min (map sl_vtime (filter is_runnable (bt_values (sc_slots s)))) of
       None \<Rightarrow> 0 | Some v \<Rightarrow> v)"

definition new_slot :: "schedule_request \<Rightarrow> nat \<Rightarrow> nat \<Rightarrow> nat \<Rightarrow> slot" where
  "new_slot rq q vtime pages =
    \<lparr>sl_request_id = rq_request_id rq, sl_sequence_id = q, sl_prompt = rq_prompt rq,
     sl_prompt_cursor = 0, sl_sampler = rq_sampler rq, sl_class = rq_class rq, sl_vtime = vtime,
     sl_pages = pages, sl_holding_pages = True, sl_phase = Queued, sl_cancel = False,
     sl_kv_open = False, sl_needs_forward = False, sl_logits = [], sl_prefill_logits = [],
     sl_tokens = [], sl_finish_reason = [], sl_error_code = None\<rparr>"

text \<open>The checks of \<open>admit\<close>: the sequence id, the pages and the new reservation of the request.\<close>

definition admit_check :: "schedule_request \<Rightarrow> scheduler \<Rightarrow> (nat \<times> nat \<times> nat) res" where
  "admit_check rq s =
    rbind (sampler_plan_validate (rq_sampler rq)) (\<lambda>_.
    if \<not> valid_request_id (rq_request_id rq)
    then Inl (fail ContractInvalid ''request id is invalid'')
    else if bt_get (sc_ids s) (rq_request_id rq) \<noteq> None
    then Inl (fail ContractInvalid ''request id is already admitted'')
    else if rq_runtime_root rq \<noteq> cfg_runtime_root (sc_config s)
    then Inl (fail ContractInvalid ''request runtime does not match the scheduler'')
    else if rq_prompt rq = []
    then Inl (fail PromptCompilationFailed ''prompt has no tokens'')
    else rbind (ok_or (if length (rq_prompt rq) \<le> u32_max then Some (length (rq_prompt rq)) else None)
      ContextLimitExceeded ''prompt does not fit in the reserved context'') (\<lambda>prompt_len.
    rbind (ok_or (checked_add_u32 prompt_len (max_output_tokens (sp_settings (rq_sampler rq))))
      ContextLimitExceeded ''prompt plus reserved generation tokens overflow'') (\<lambda>tokens.
    if tokens > cfg_max_context_tokens (sc_config s)
    then Inl (fail ContextLimitExceeded ''prompt plus reserved generation tokens exceed the context'')
    else rbind (page_count tokens (cfg_block_size (sc_config s))) (\<lambda>pages.
    rbind (ok_or (checked_add_u32 (sc_reserved_pages s) pages) InsufficientMemory
      ''kv page pool cannot admit the request'') (\<lambda>reserved.
    if pages > cfg_page_capacity (sc_config s) \<or> reserved > cfg_page_capacity (sc_config s)
    then Inl (fail InsufficientMemory ''kv page pool cannot admit the request'')
    else rbind (ok_or (checked_add_u64 (sc_next_sequence s) 1) ContractInvalid
      ''scheduler sequence id overflows'') (\<lambda>q.
    Inr (q, pages, reserved)))))))"

definition admit :: "schedule_request \<Rightarrow> (scheduler, nat) op" where
  "admit rq s =
    (case admit_check rq s of
       Inl e \<Rightarrow> (Inl e, s)
     | Inr (q, pages, reserved) \<Rightarrow>
        (Inr q, s\<lparr>sc_next_sequence := q, sc_reserved_pages := reserved,
           sc_ids := bt_insert (rq_request_id rq) q (sc_ids s),
           sc_slots := bt_insert q (new_slot rq q (runnable_vtime s) pages) (sc_slots s)\<rparr>))"

definition submit :: "schedule_request \<Rightarrow> (scheduler, nat) op" where
  "submit rq s =
    (case admit rq s of
       (Inr q, s) \<Rightarrow> (Inr q, s)
     | (Inl e, s) \<Rightarrow> (Inl e, s\<lparr>sc_counters := note_rejection (code e) (sc_counters s)\<rparr>))"

definition slot_of :: "nat \<Rightarrow> scheduler \<Rightarrow> slot res" where
  "slot_of q s = ok_or (bt_get (sc_slots s) q) ContractInvalid ''scheduler lost the sequence''"

definition cancel :: "string \<Rightarrow> (scheduler, unit) op" where
  "cancel r s =
    (case bt_get (sc_ids s) r of
       None \<Rightarrow> (Inl (fail ContractInvalid ''request is not admitted''), s)
     | Some q \<Rightarrow> (case slot_of q s of
         Inl e \<Rightarrow> (Inl e, s)
       | Inr sl \<Rightarrow>
          if sl_phase sl = Done then (Inl (fail ContractInvalid ''request is already finished''), s)
          else if sl_cancel sl then (Inl (fail ContractInvalid ''request is already cancelled''), s)
          else (Inr (), s\<lparr>sc_slots := bt_update q (\<lambda>sl. sl\<lparr>sl_cancel := True\<rparr>) (sc_slots s)\<rparr>)))"

definition results :: "scheduler \<Rightarrow> schedule_result list" where
  "results s =
    map (\<lambda>sl. \<lparr>sr_sequence_id = sl_sequence_id sl, sr_request_id = sl_request_id sl,
        sr_tokens = sl_tokens sl, sr_finish_reason = sl_finish_reason sl,
        sr_prefill_logits = sl_prefill_logits sl, sr_error_code = sl_error_code sl\<rparr>)
      (filter (\<lambda>sl. sl_phase sl = Done) (bt_values (sc_slots s)))"

definition retained :: "scheduler \<Rightarrow> nat" where
  "retained s = length (sc_slots s)"

definition reap :: "string \<Rightarrow> (scheduler, unit) op" where
  "reap r s =
    (case bt_get (sc_ids s) r of
       None \<Rightarrow> (Inl (fail ContractInvalid ''request is not admitted''), s)
     | Some q \<Rightarrow> (case slot_of q s of
         Inl e \<Rightarrow> (Inl e, s)
       | Inr sl \<Rightarrow>
          if sl_phase sl \<noteq> Done then (Inl (fail ContractInvalid ''request is still admitted''), s)
          else if sl_holding_pages sl \<or> sl_kv_open sl
          then (Inl (fail ContractInvalid ''finished request still holds kv''), s)
          else (Inr (), s\<lparr>sc_slots := bt_remove q (sc_slots s), sc_ids := bt_remove r (sc_ids s)\<rparr>)))"

definition request_id_of :: "nat \<Rightarrow> scheduler \<Rightarrow> string res" where
  "request_id_of q s = rbind (slot_of q s) (\<lambda>sl. Inr (sl_request_id sl))"

definition last_output :: "nat \<Rightarrow> scheduler \<Rightarrow> (string \<times> nat \<times> nat) res" where
  "last_output q s =
    rbind (slot_of q s) (\<lambda>sl.
      if length (sl_tokens sl) = 0
      then Inl (fail ContractInvalid ''scheduler decode reported no token'')
      else rbind (ok_or (if length (sl_tokens sl) - 1 \<le> u32_max
          then Some (length (sl_tokens sl) - 1) else None)
        ContractInvalid ''scheduler token index overflows'') (\<lambda>index.
      Inr (sl_request_id sl, index, sl_tokens sl ! (length (sl_tokens sl) - 1))))"

end
