(* ===== verification/Scheduler_Step.thy ===== *)
theory Scheduler_Step
  imports Scheduler
begin

text \<open>
  One iteration of the scheduler, and the run until it is idle: \<open>step\<close> and everything it calls in
  \<open>crates/infer-engine/src/schedule.rs\<close>, on the world of scheduler, model and KV store.
\<close>

subsection \<open>The world\<close>

text \<open>
  The trait objects \<open>ExecutableModel\<close> and \<open>KvStore\<close> as the operations the scheduler calls, with
  the rounding arithmetic and the durations the clock measures (the \<open>n\<close>-th measurement of the run).
\<close>

record ('m, 'k) engine =
  eng_runtime_root :: "'m \<Rightarrow> string"
  eng_max_context_tokens :: "'m \<Rightarrow> nat"
  eng_model_layout :: "'m \<Rightarrow> kv_layout"
  eng_prefill :: "nat \<Rightarrow> nat list \<Rightarrow> ('m \<times> 'k, f32 list) op"
  eng_decode :: "nat \<Rightarrow> nat list \<Rightarrow> nat list \<Rightarrow> ('m \<times> 'k, f32 list) op"
  eng_kv_layout :: "'k \<Rightarrow> kv_layout"
  eng_kv_begin :: "nat \<Rightarrow> ('k, unit) op"
  eng_kv_release :: "nat \<Rightarrow> ('k, unit) op"
  eng_kv_abort :: "nat \<Rightarrow> ('k, unit) op"
  eng_kv_token_len :: "nat \<Rightarrow> 'k \<Rightarrow> nat res"
  eng_float :: float_ops
  eng_elapsed :: "nat \<Rightarrow> nat"

record ('m, 'k) world =
  w_sched :: scheduler
  w_model :: 'm
  w_kv :: 'k
  w_clock :: nat

definition on_sched :: "(scheduler \<Rightarrow> scheduler) \<Rightarrow> (('m, 'k) world, unit) op" where
  "on_sched f = op_modify (\<lambda>w. w\<lparr>w_sched := f (w_sched w)\<rparr>)"

definition on_counters :: "(scheduler_counters \<Rightarrow> scheduler_counters) \<Rightarrow> (('m, 'k) world, unit) op" where
  "on_counters f = on_sched (\<lambda>s. s\<lparr>sc_counters := f (sc_counters s)\<rparr>)"

definition on_kv :: "('k, 'a) op \<Rightarrow> (('m, 'k) world, 'a) op" where
  "on_kv m w = (case m (w_kv w) of (r, k) \<Rightarrow> (r, w\<lparr>w_kv := k\<rparr>))"

definition on_model :: "('m \<times> 'k, 'a) op \<Rightarrow> (('m, 'k) world, 'a) op" where
  "on_model m w = (case m (w_model w, w_kv w) of (r, (mo, k)) \<Rightarrow> (r, w\<lparr>w_model := mo, w_kv := k\<rparr>))"

text \<open>\<open>started.elapsed()\<close>\<close>

definition elapsed :: "('m, 'k) engine \<Rightarrow> (('m, 'k) world, nat) op" where
  "elapsed eng w = (Inr (eng_elapsed eng (w_clock w)), w\<lparr>w_clock := w_clock w + 1\<rparr>)"

definition get_slot :: "nat \<Rightarrow> (('m, 'k) world, slot) op" where
  "get_slot q = op_getr (\<lambda>w. slot_of q (w_sched w))"

text \<open>\<open>self.slot_mut(q)?\<close> followed by assignments.\<close>

definition set_slot :: "nat \<Rightarrow> (slot \<Rightarrow> slot) \<Rightarrow> (('m, 'k) world, unit) op" where
  "set_slot q f =
    op_bind (get_slot q) (\<lambda>_. on_sched (\<lambda>s. s\<lparr>sc_slots := bt_update q f (sc_slots s)\<rparr>))"

subsection \<open>Choosing\<close>

definition check_bound :: "('m, 'k) engine \<Rightarrow> ('m, 'k) world \<Rightarrow> unit res" where
  "check_bound eng w =
    (let cfg = sc_config (w_sched w) in
     if eng_runtime_root eng (w_model w) \<noteq> cfg_runtime_root cfg
     then Inl (fail ContractInvalid ''model runtime does not match the scheduler'')
     else if eng_max_context_tokens eng (w_model w) \<noteq> cfg_max_context_tokens cfg
          \<or> lay_block_size (eng_model_layout eng (w_model w)) \<noteq> cfg_block_size cfg
     then Inl (fail ContractInvalid ''model layout does not match the scheduler'')
     else if lay_block_size (eng_kv_layout eng (w_kv w)) \<noteq> cfg_block_size cfg
          \<or> lay_dtype (eng_kv_layout eng (w_kv w)) \<noteq> ''f32''
     then Inl (fail ContractInvalid ''kv layout does not match the scheduler'')
     else Inr ())"

definition pick_cancel :: "scheduler \<Rightarrow> nat option" where
  "pick_cancel s =
    map_option sl_sequence_id
      (find (\<lambda>sl. sl_cancel sl \<and> sl_phase sl \<noteq> Done) (bt_values (sc_slots s)))"

text \<open>\<open>Iterator::min_by_key\<close>: the first of the least elements.\<close>

fun min_by_key :: "('a \<Rightarrow> 'b::linorder) \<Rightarrow> 'a list \<Rightarrow> 'a option" where
  "min_by_key f [] = None"
| "min_by_key f (x # xs) =
    (case min_by_key f xs of None \<Rightarrow> Some x | Some y \<Rightarrow> Some (if f y < f x then y else x))"

definition pick_runnable :: "scheduler \<Rightarrow> nat option" where
  "pick_runnable s =
    map_option sl_sequence_id
      (min_by_key (\<lambda>sl. (sl_vtime sl, sl_sequence_id sl)) (filter is_runnable (bt_values (sc_slots s))))"

definition decode_batch :: "scheduler \<Rightarrow> nat list" where
  "decode_batch s =
    (let min_prefill = list_min (map sl_vtime (filter awaits_prefill (bt_values (sc_slots s))));
         rows = map (\<lambda>sl. (sl_vtime sl, sl_sequence_id sl))
           (filter (\<lambda>sl. \<not> (sl_cancel sl \<or> sl_phase sl \<noteq> Decoding) \<and>
               (case min_prefill of Some bound \<Rightarrow> \<not> sl_vtime sl > bound | None \<Rightarrow> True))
             (bt_values (sc_slots s)))
     in map snd (sort rows))"

subsection \<open>Retiring\<close>

definition release_kv :: "('m, 'k) engine \<Rightarrow> nat \<Rightarrow> (('m, 'k) world, unit) op" where
  "release_kv eng q =
    op_bind (get_slot q) (\<lambda>sl.
    if \<not> sl_kv_open sl then op_return ()
    else op_seq (on_kv (eng_kv_abort eng q))
      (op_seq (on_kv (eng_kv_release eng q))
        (set_slot q (\<lambda>sl. sl\<lparr>sl_kv_open := False\<rparr>))))"

definition release_pages :: "nat \<Rightarrow> (('m, 'k) world, unit) op" where
  "release_pages q =
    op_bind (get_slot q) (\<lambda>sl.
    if \<not> sl_holding_pages sl then op_return ()
    else op_bind (op_getr (\<lambda>w. ok_or (checked_sub (sc_reserved_pages (w_sched w)) (sl_pages sl))
        ContractInvalid ''scheduler page reservation underflows'')) (\<lambda>reserved.
      op_seq (on_sched (\<lambda>s. s\<lparr>sc_reserved_pages := reserved\<rparr>))
        (set_slot q (\<lambda>sl. sl\<lparr>sl_holding_pages := False\<rparr>))))"

definition retire :: "('m, 'k) engine \<Rightarrow> nat \<Rightarrow> string \<Rightarrow> error_code option \<Rightarrow> (('m, 'k) world, unit) op" where
  "retire eng q finish error =
    op_seq (release_kv eng q)
    (op_seq (release_pages q)
    (op_seq (set_slot q (\<lambda>sl. sl\<lparr>sl_phase := Done, sl_finish_reason := finish,
        sl_error_code := error, sl_cancel := False\<rparr>))
    (op_when (error = Some InsufficientMemory)
      (on_counters (\<lambda>ct. ct\<lparr>ct_oom := saturating_add_u64 (ct_oom ct) 1\<rparr>)))))"

definition add_service :: "nat \<Rightarrow> nat \<Rightarrow> (('m, 'k) world, unit) op" where
  "add_service q tokens =
    op_bind (get_slot q) (\<lambda>sl.
    op_bind (op_lift (ok_or (checked_mul_u64 tokens (class_scale div class_weight (sl_class sl)))
      ContractInvalid ''scheduler virtual time overflows'')) (\<lambda>cost.
    op_bind (op_lift (ok_or (checked_add_u64 (sl_vtime sl) cost)
      ContractInvalid ''scheduler virtual time overflows'')) (\<lambda>vtime.
    set_slot q (\<lambda>sl. sl\<lparr>sl_vtime := vtime\<rparr>))))"

subsection \<open>Serving\<close>

definition serve_cancel :: "('m, 'k) engine \<Rightarrow> nat \<Rightarrow> (('m, 'k) world, schedule_step) op" where
  "serve_cancel eng q =
    op_seq (retire eng q ''cancelled'' None)
    (op_seq (on_counters (\<lambda>ct. ct\<lparr>ct_cancellations := saturating_add_u64 (ct_cancellations ct) 1\<rparr>))
    (op_return \<lparr>step_batch = [q], step_ops = [OpCancel q]\<rparr>))"

definition fail_slot :: "('m, 'k) engine \<Rightarrow> nat \<Rightarrow> error_code \<Rightarrow> (('m, 'k) world, schedule_step) op" where
  "fail_slot eng q c = op_seq (retire eng q ''error'' (Some c)) (op_return (fail_step q))"

definition run_prefill ::
  "('m, 'k) engine \<Rightarrow> nat \<Rightarrow> nat \<Rightarrow> nat \<Rightarrow> nat \<Rightarrow> nat list \<Rightarrow> (('m, 'k) world, schedule_step) op" where
  "run_prefill eng q cursor prompt_len chunk token_ids =
    op_bind (op_try (on_model (eng_prefill eng q token_ids))) (\<lambda>r.
    case r of
      Inr logits \<Rightarrow>
        op_bind (elapsed eng) (\<lambda>d.
        op_seq (on_counters (note_prefill d chunk))
        (op_seq (set_slot q (\<lambda>sl.
          (let sl = sl\<lparr>sl_prompt_cursor := cursor + chunk, sl_prefill_logits := logits,
                 sl_phase := Prefilling\<rparr>
           in if sl_prompt_cursor sl = prompt_len
              then sl\<lparr>sl_logits := logits, sl_needs_forward := False, sl_phase := Decoding\<rparr>
              else sl)))
        (op_seq (add_service q chunk)
        (op_return \<lparr>step_batch = [q], step_ops = [OpPrefill q chunk]\<rparr>))))
    | Inl e \<Rightarrow>
        op_bind (elapsed eng) (\<lambda>d.
        op_seq (on_counters (note_prefill d 0)) (fail_slot eng q (code e))))"

definition serve_prefill :: "('m, 'k) engine \<Rightarrow> nat \<Rightarrow> (('m, 'k) world, schedule_step) op" where
  "serve_prefill eng q =
    op_bind (get_slot q) (\<lambda>sl.
    let cursor = sl_prompt_cursor sl in
    op_bind (op_lift (ok_or (if length (sl_prompt sl) \<le> u32_max then Some (length (sl_prompt sl)) else None)
      ContextLimitExceeded ''prompt does not fit in the reserved context'')) (\<lambda>prompt_len.
    op_bind (op_lift (ok_or (checked_sub prompt_len cursor)
      ContractInvalid ''scheduler prefill cursor is past the prompt'')) (\<lambda>remaining.
    op_bind (op_gets (\<lambda>w. min (cfg_prefill_chunk_tokens (sc_config (w_sched w))) remaining)) (\<lambda>chunk.
    if chunk = 0 then op_throw (fail ContractInvalid ''scheduler prefill chunk is empty'')
    else
      let token_ids = take chunk (drop cursor (sl_prompt sl)) in
      if sl_kv_open sl then run_prefill eng q cursor prompt_len chunk token_ids
      else op_bind (op_try (on_kv (eng_kv_begin eng q))) (\<lambda>r.
        case r of
          Inl e \<Rightarrow> fail_slot eng q (code e)
        | Inr _ \<Rightarrow> op_seq (set_slot q (\<lambda>sl. sl\<lparr>sl_kv_open := True\<rparr>))
            (run_prefill eng q cursor prompt_len chunk token_ids))))))"

definition fail_decode :: "('m, 'k) engine \<Rightarrow> nat \<Rightarrow> error_code \<Rightarrow> (('m, 'k) world, schedule_op) op" where
  "fail_decode eng q c =
    op_bind (elapsed eng) (\<lambda>d.
    op_seq (on_counters (note_decode d 0))
    (op_seq (retire eng q ''error'' (Some c)) (op_return (OpFail q))))"

text \<open>The second half of \<open>serve_decode_one\<close>: sample from the slot's logits and account for it.\<close>

definition decode_sample :: "('m, 'k) engine \<Rightarrow> nat \<Rightarrow> (('m, 'k) world, schedule_op) op" where
  "decode_sample eng q =
    op_bind (get_slot q) (\<lambda>sl.
    if sl_logits sl = [] then op_throw (fail ContractInvalid ''scheduler decode has no logits'')
    else
    op_bind (op_lift (ok_or (if length (sl_tokens sl) \<le> u32_max then Some (length (sl_tokens sl)) else None)
      ContractInvalid ''scheduler token step overflows'')) (\<lambda>n.
    case sample_token (eng_float eng) (sl_logits sl) (sl_sampler sl) (sl_prompt sl @ sl_tokens sl) n of
      Inl e \<Rightarrow> fail_decode eng q (code e)
    | Inr sampled \<Rightarrow>
        op_seq (set_slot q (\<lambda>sl. sl\<lparr>sl_tokens := sl_tokens sl @ [sampled]\<rparr>))
        (op_bind (get_slot q) (\<lambda>sl.
        let stop = sampled \<in> set (sp_eos_token_ids (sl_sampler sl));
            len = (length (sl_tokens sl) mod 4294967296 = max_output_tokens (sp_settings (sl_sampler sl)))
        in op_seq (add_service q 1)
          (op_seq (if stop \<or> len
              then retire eng q (if stop then ''stop'' else ''length'') None
              else set_slot q (\<lambda>sl. sl\<lparr>sl_needs_forward := True\<rparr>))
          (op_bind (elapsed eng) (\<lambda>d.
          op_seq (on_counters (note_decode d 1)) (op_return (OpDecode q sampled)))))))))"

definition serve_decode_one :: "('m, 'k) engine \<Rightarrow> nat \<Rightarrow> (('m, 'k) world, schedule_op) op" where
  "serve_decode_one eng q =
    op_bind (get_slot q) (\<lambda>sl.
    if \<not> sl_needs_forward sl then decode_sample eng q
    else
    op_bind (op_lift (ok_or (if sl_tokens sl = [] then None else Some (last (sl_tokens sl)))
      ContractInvalid ''scheduler decode has no token'')) (\<lambda>token.
    op_bind (op_getr (\<lambda>w. eng_kv_token_len eng q (w_kv w))) (\<lambda>at.
    op_bind (op_try (on_model (eng_decode eng q [token] [at]))) (\<lambda>r.
    case r of
      Inr logits \<Rightarrow>
        op_seq (set_slot q (\<lambda>sl. sl\<lparr>sl_logits := logits, sl_needs_forward := False\<rparr>))
          (decode_sample eng q)
    | Inl e \<Rightarrow> fail_decode eng q (code e)))))"

fun serve_decodes :: "('m, 'k) engine \<Rightarrow> nat list \<Rightarrow> schedule_op list \<Rightarrow> (('m, 'k) world, schedule_op list) op" where
  "serve_decodes eng [] ops = op_return ops"
| "serve_decodes eng (q # qs) ops =
    op_bind (serve_decode_one eng q) (\<lambda>op1.
    case op1 of
      OpFail _ \<Rightarrow> op_return (ops @ [op1])
    | _ \<Rightarrow> serve_decodes eng qs (ops @ [op1]))"

definition serve_decode_batch :: "('m, 'k) engine \<Rightarrow> (('m, 'k) world, schedule_step) op" where
  "serve_decode_batch eng =
    op_bind (op_gets (\<lambda>w. decode_batch (w_sched w))) (\<lambda>batch.
    if batch = [] then op_throw (fail ContractInvalid ''scheduler decode batch is empty'')
    else op_bind (serve_decodes eng batch []) (\<lambda>ops.
      op_return \<lparr>step_batch = batch, step_ops = ops\<rparr>))"

subsection \<open>Iterations\<close>

definition step_once :: "('m, 'k) engine \<Rightarrow> (('m, 'k) world, schedule_step option) op" where
  "step_once eng =
    op_bind (op_getr (check_bound eng)) (\<lambda>_.
    op_bind (op_gets (\<lambda>w. pick_cancel (w_sched w))) (\<lambda>c.
    case c of
      Some q \<Rightarrow> op_bind (serve_cancel eng q) (\<lambda>st. op_return (Some st))
    | None \<Rightarrow>
        op_bind (op_gets (\<lambda>w. pick_runnable (w_sched w))) (\<lambda>r.
        case r of
          None \<Rightarrow> op_return None
        | Some q \<Rightarrow>
            op_bind (get_slot q) (\<lambda>sl.
            if sl_phase sl = Decoding
            then op_bind (serve_decode_batch eng) (\<lambda>st. op_return (Some st))
            else op_bind (serve_prefill eng q) (\<lambda>st. op_return (Some st))))))"

definition sched_step :: "('m, 'k) engine \<Rightarrow> (('m, 'k) world, schedule_step option) op" where
  "sched_step eng =
    op_bind (op_try (step_once eng)) (\<lambda>r.
    op_bind (elapsed eng) (\<lambda>d.
    op_seq (on_counters (note_iteration d)) (op_lift r)))"

fun run_iterations :: "('m, 'k) engine \<Rightarrow> nat \<Rightarrow> (('m, 'k) world, schedule_result list) op" where
  "run_iterations eng 0 = op_throw (fail ContractInvalid ''scheduler iteration did not finish'')"
| "run_iterations eng (Suc n) =
    op_bind (sched_step eng) (\<lambda>st.
    case st of
      None \<Rightarrow> op_gets (\<lambda>w. results (w_sched w))
    | Some _ \<Rightarrow> run_iterations eng n)"

definition run_until_idle :: "('m, 'k) engine \<Rightarrow> (('m, 'k) world, schedule_result list) op" where
  "run_until_idle eng = run_iterations eng max_iters"

end
