(* ===== verification/Scheduler_Proofs.thy ===== *)
theory Scheduler_Proofs
  imports Scheduler_Step
begin

text \<open>
  The scheduler's invariant: slots and request ids correspond, the reserved pages are the pages of
  the unfinished requests and fit the pool, a finished request holds nothing, and a cursor never
  leaves its prompt. Every operation and every iteration keeps it, whatever model, store and
  sampler do, on failure too.
\<close>

subsection \<open>Invariant\<close>

definition config_ok :: "scheduler_config \<Rightarrow> bool" where
  "config_ok c \<longleftrightarrow> 0 < cfg_block_size c \<and> 0 < cfg_prefill_chunk_tokens c \<and>
    cfg_page_capacity c \<le> max_iters \<and> cfg_max_context_tokens c \<le> max_iters"

definition max_tokens :: "slot \<Rightarrow> nat" where
  "max_tokens sl = max_output_tokens (sp_settings (sl_sampler sl))"

definition slot_ok :: "scheduler_config \<Rightarrow> nat \<Rightarrow> slot \<Rightarrow> bool" where
  "slot_ok c q sl \<longleftrightarrow> sl_sequence_id sl = q \<and> sl_prompt sl \<noteq> [] \<and>
    length (sl_prompt sl) + max_tokens sl \<le> cfg_max_context_tokens c \<and>
    page_count (length (sl_prompt sl) + max_tokens sl) (cfg_block_size c) = Inr (sl_pages sl) \<and>
    0 < max_tokens sl \<and> sl_prompt_cursor sl \<le> length (sl_prompt sl) \<and>
    (sl_phase sl = Queued \<or> sl_phase sl = Prefilling \<longrightarrow>
      sl_prompt_cursor sl < length (sl_prompt sl) \<and> sl_tokens sl = [] \<and> \<not> sl_needs_forward sl) \<and>
    (sl_phase sl = Decoding \<longrightarrow> sl_prompt_cursor sl = length (sl_prompt sl)) \<and>
    (sl_phase sl = Prefilling \<or> sl_phase sl = Decoding \<longrightarrow> sl_kv_open sl) \<and>
    (sl_needs_forward sl \<longrightarrow> sl_tokens sl \<noteq> []) \<and>
    (sl_holding_pages sl \<longleftrightarrow> sl_phase sl \<noteq> Done) \<and>
    (sl_phase sl = Done \<longrightarrow> \<not> sl_kv_open sl \<and> \<not> sl_cancel sl)"

definition held_pages :: "slot \<Rightarrow> nat" where
  "held_pages sl = (if sl_holding_pages sl then sl_pages sl else 0)"

definition sched_inv :: "scheduler \<Rightarrow> bool" where
  "sched_inv s \<longleftrightarrow> config_ok (sc_config s) \<and> bt_ok (sc_slots s) \<and> bt_ok (sc_ids s) \<and>
    (\<forall>q sl. bt_get (sc_slots s) q = Some sl \<longrightarrow>
      slot_ok (sc_config s) q sl \<and> q \<le> sc_next_sequence s \<and>
      bt_get (sc_ids s) (sl_request_id sl) = Some q) \<and>
    (\<forall>r q. bt_get (sc_ids s) r = Some q \<longrightarrow>
      (\<exists>sl. bt_get (sc_slots s) q = Some sl \<and> sl_request_id sl = r)) \<and>
    sc_reserved_pages s = bt_sum held_pages (sc_slots s) \<and>
    sc_reserved_pages s \<le> cfg_page_capacity (sc_config s)"

lemma config_new_ok: "scheduler_config_new r m b p c = Inr cfg \<Longrightarrow> config_ok cfg"
  by (auto simp: scheduler_config_new_def config_ok_def split: if_splits)

lemma sched_inv_new: "config_ok cfg \<Longrightarrow> sched_inv (scheduler_new cfg)"
  by (simp add: sched_inv_def scheduler_new_def)

lemma sched_inv_counters [simp]: "sched_inv (s\<lparr>sc_counters := ct\<rparr>) = sched_inv s"
  by (simp add: sched_inv_def)

lemma sched_inv_slot:
  "sched_inv s \<Longrightarrow> bt_get (sc_slots s) q = Some sl \<Longrightarrow>
   slot_ok (sc_config s) q sl \<and> q \<le> sc_next_sequence s \<and> bt_get (sc_ids s) (sl_request_id sl) = Some q"
  by (simp add: sched_inv_def)

lemma sched_inv_id:
  "sched_inv s \<Longrightarrow> bt_get (sc_ids s) r = Some q \<Longrightarrow>
   \<exists>sl. bt_get (sc_slots s) q = Some sl \<and> sl_request_id sl = r"
  by (simp add: sched_inv_def)

lemma sched_inv_bt: "sched_inv s \<Longrightarrow> bt_ok (sc_slots s)"
  by (simp add: sched_inv_def)

lemma held_le_reserved:
  "sched_inv s \<Longrightarrow> bt_get (sc_slots s) q = Some sl \<Longrightarrow> held_pages sl \<le> sc_reserved_pages s"
  by (simp add: sched_inv_def bt_sum_ge)

text \<open>One slot is rewritten, and the reservation by the difference of what it holds.\<close>

definition put_slot :: "nat \<Rightarrow> slot \<Rightarrow> scheduler \<Rightarrow> scheduler" where
  "put_slot q sl s = s\<lparr>sc_slots := bt_update q (\<lambda>_. sl) (sc_slots s)\<rparr>"

lemma sched_inv_put:
  assumes inv: "sched_inv s" and sl: "bt_get (sc_slots s) q = Some sl"
    and ok: "slot_ok (sc_config s) q sl'" and id: "sl_request_id sl' = sl_request_id sl"
    and res: "n + held_pages sl = sc_reserved_pages s + held_pages sl'" and le: "n \<le> sc_reserved_pages s"
  shows "sched_inv ((put_slot q sl' s)\<lparr>sc_reserved_pages := n\<rparr>)"
proof -
  have "bt_sum held_pages (bt_update q (\<lambda>_. sl') (sc_slots s)) + held_pages sl =
      bt_sum held_pages (sc_slots s) + held_pages sl'"
    using bt_sum_update [OF bt_ok_distinct [OF sched_inv_bt [OF inv]] sl, of held_pages "\<lambda>_. sl'"] by simp
  then have "n = bt_sum held_pages (bt_update q (\<lambda>_. sl') (sc_slots s))"
    using res inv by (simp add: sched_inv_def)
  moreover have "\<exists>sl''. bt_get (bt_update q (\<lambda>_. sl') (sc_slots s)) q' = Some sl'' \<and> sl_request_id sl'' = r"
    if "bt_get (sc_ids s) r = Some q'" for r q'
    using sched_inv_id [OF inv that] sl id by (cases "q' = q") auto
  ultimately show ?thesis
    using inv sl ok id le unfolding sched_inv_def put_slot_def
    by (simp del: bt_get_update) (auto split: if_splits)
qed

lemma sched_inv_put_same:
  assumes "sched_inv s" and "bt_get (sc_slots s) q = Some sl" and "slot_ok (sc_config s) q sl'"
    and "sl_request_id sl' = sl_request_id sl" and "held_pages sl' = held_pages sl"
  shows "sched_inv (put_slot q sl' s)"
  using sched_inv_put [OF assms(1-4), of "sc_reserved_pages s"] assms(5)
  by (simp add: put_slot_def)

lemma put_slot_simps [simp]:
  "sc_config (put_slot q sl s) = sc_config s"
  "sc_counters (put_slot q sl s) = sc_counters s"
  "sc_reserved_pages (put_slot q sl s) = sc_reserved_pages s"
  "bt_get (sc_slots s) q \<noteq> None \<Longrightarrow> bt_get (sc_slots (put_slot q sl s)) q = Some sl"
  "r \<noteq> q \<Longrightarrow> bt_get (sc_slots (put_slot q sl s)) r = bt_get (sc_slots s) r"
  by (auto simp: put_slot_def)

subsection \<open>Admission, cancellation, reaping\<close>

lemma admit_check_Inr:
  assumes "admit_check rq s = Inr (q, pages, reserved)"
  shows "sampler_plan_validate (rq_sampler rq) = Inr () \<and> valid_request_id (rq_request_id rq) \<and>
    bt_get (sc_ids s) (rq_request_id rq) = None \<and> rq_runtime_root rq = cfg_runtime_root (sc_config s) \<and>
    rq_prompt rq \<noteq> [] \<and>
    length (rq_prompt rq) + max_output_tokens (sp_settings (rq_sampler rq)) \<le> cfg_max_context_tokens (sc_config s) \<and>
    page_count (length (rq_prompt rq) + max_output_tokens (sp_settings (rq_sampler rq)))
      (cfg_block_size (sc_config s)) = Inr pages \<and>
    reserved = sc_reserved_pages s + pages \<and> reserved \<le> cfg_page_capacity (sc_config s) \<and>
    q = sc_next_sequence s + 1 \<and> q \<le> u64_max"
  using assms unfolding admit_check_def
  by (auto simp: res if_Inl_Inr checked_defs split: if_splits)

lemma sampler_max_tokens_pos: "sampler_plan_validate p = Inr () \<Longrightarrow> 0 < max_output_tokens (sp_settings p)"
  by (auto dest!: sampler_plan_bounds simp: fixed_point_sampler_validate_def split: if_splits)

lemma sched_inv_admit:
  assumes inv: "sched_inv s" and a: "admit rq s = (r, t)"
  shows "sched_inv t"
proof (cases "admit_check rq s")
  case (Inl e)
  with a inv show ?thesis by (simp add: admit_def)
next
  case (Inr x)
  obtain q pages reserved where x: "x = (q, pages, reserved)" by (cases x)
  note ok = admit_check_Inr [OF Inr [unfolded x]]
  let ?sl = "new_slot rq q (runnable_vtime s) pages"
  have fresh: "bt_get (sc_slots s) q = None"
    using sched_inv_slot [OF inv, of q] ok by (cases "bt_get (sc_slots s) q") auto
  have t: "t = s\<lparr>sc_next_sequence := q, sc_reserved_pages := reserved,
      sc_ids := bt_insert (rq_request_id rq) q (sc_ids s), sc_slots := bt_insert q ?sl (sc_slots s)\<rparr>"
    using a Inr x by (simp add: admit_def)
  have sl: "slot_ok (sc_config s) q ?sl" "held_pages ?sl = pages" "sl_request_id ?sl = rq_request_id rq"
    using ok sampler_max_tokens_pos [of "rq_sampler rq"]
    by (simp_all add: slot_ok_def new_slot_def max_tokens_def held_pages_def)
  have fresh_id: "sl_request_id sl' \<noteq> rq_request_id rq" if "bt_get (sc_slots s) q' = Some sl'" for q' sl'
    using sched_inv_slot [OF inv that] ok by auto
  have bt: "bt_ok (sc_slots s)" "bt_ok (sc_ids s)" using inv by (simp_all add: sched_inv_def)
  show ?thesis
    unfolding sched_inv_def
  proof (intro conjI allI impI)
    fix q' sl' assume g: "bt_get (sc_slots t) q' = Some sl'"
    have "q' = q \<and> sl' = ?sl \<or> bt_get (sc_slots s) q' = Some sl'"
      using g bt by (auto simp: t split: if_splits)
    then have *: "slot_ok (sc_config s) q' sl' \<and> q' \<le> q \<and> (q' = q \<and> sl_request_id sl' = rq_request_id rq \<or>
        sl_request_id sl' \<noteq> rq_request_id rq \<and> bt_get (sc_ids s) (sl_request_id sl') = Some q')"
      using sl ok fresh_id sched_inv_slot [OF inv, of q' sl'] by auto
    then show "slot_ok (sc_config t) q' sl'" "q' \<le> sc_next_sequence t"
        "bt_get (sc_ids t) (sl_request_id sl') = Some q'"
      using bt by (auto simp: t)
  next
    fix r q' assume "bt_get (sc_ids t) r = Some q'"
    then have "r = rq_request_id rq \<and> q' = q \<or> bt_get (sc_ids s) r = Some q'"
      using bt by (auto simp: t split: if_splits)
    then show "\<exists>sl. bt_get (sc_slots t) q' = Some sl \<and> sl_request_id sl = r"
      using sched_inv_id [OF inv, of r q'] bt sl fresh by (auto simp: t)
  next
    show "sc_reserved_pages t = bt_sum held_pages (sc_slots t)"
      using inv ok sl bt_sum_insert_fresh [OF fresh, of held_pages ?sl] by (simp add: t sched_inv_def)
  qed (use inv ok in \<open>simp_all add: t sched_inv_def\<close>)
qed

lemma sched_inv_submit: "sched_inv s \<Longrightarrow> sched_inv (snd (submit rq s))"
  using sched_inv_admit [of s rq] by (auto simp: submit_def split: prod.splits sum.splits)

lemma slot_of_Inr [res]: "slot_of q s = Inr sl \<longleftrightarrow> bt_get (sc_slots s) q = Some sl"
  by (simp add: slot_of_def res)

lemma bt_update_const:
  "bt_ok m \<Longrightarrow> bt_get m q = Some v \<Longrightarrow> bt_update q f m = bt_update q (\<lambda>_. f v) m"
  by (rule bt_ext) auto

lemma bt_update_twice [simp]: "bt_update q f (bt_update q g m) = bt_update q (f \<circ> g) m"
  by (induction m) (auto simp: bt_update_def)

lemma sched_inv_cancel:
  assumes inv: "sched_inv s"
  shows "sched_inv (snd (cancel r s))"
proof (cases "\<exists>q sl. bt_get (sc_ids s) r = Some q \<and> bt_get (sc_slots s) q = Some sl \<and>
    sl_phase sl \<noteq> Done \<and> \<not> sl_cancel sl")
  case True
  then obtain q sl where q: "bt_get (sc_ids s) r = Some q" "bt_get (sc_slots s) q = Some sl"
      "sl_phase sl \<noteq> Done" "\<not> sl_cancel sl" by blast
  then have "snd (cancel r s) = put_slot q (sl\<lparr>sl_cancel := True\<rparr>) s"
    using bt_update_const [OF sched_inv_bt [OF inv] q(2)]
    by (simp add: cancel_def slot_of_def put_slot_def)
  moreover have "sched_inv (put_slot q (sl\<lparr>sl_cancel := True\<rparr>) s)"
    using q inv sched_inv_slot [OF inv q(2)]
    by (intro sched_inv_put_same [OF inv q(2)]) (auto simp: slot_ok_def max_tokens_def held_pages_def)
  ultimately show ?thesis by simp
next
  case False
  then have "snd (cancel r s) = s"
    by (auto simp: cancel_def res split: option.split sum.split)
  with inv show ?thesis by simp
qed

lemma sched_inv_reap:
  assumes inv: "sched_inv s"
  shows "sched_inv (snd (reap r s))"
proof (cases "\<exists>q sl. bt_get (sc_ids s) r = Some q \<and> bt_get (sc_slots s) q = Some sl \<and>
    sl_phase sl = Done \<and> \<not> (sl_holding_pages sl \<or> sl_kv_open sl)")
  case True
  then obtain q sl where q: "bt_get (sc_ids s) r = Some q" "bt_get (sc_slots s) q = Some sl"
      "sl_phase sl = Done" "\<not> (sl_holding_pages sl \<or> sl_kv_open sl)" by blast
  then have t: "snd (reap r s) = s\<lparr>sc_slots := bt_remove q (sc_slots s), sc_ids := bt_remove r (sc_ids s)\<rparr>"
    by (simp add: reap_def slot_of_def)
  have id: "sl_request_id sl = r" using inv q(1,2) by (force simp: sched_inv_def)
  have "bt_sum held_pages (bt_remove q (sc_slots s)) + held_pages sl = bt_sum held_pages (sc_slots s)"
    using bt_sum_remove [OF bt_ok_distinct [OF sched_inv_bt [OF inv]] q(2)] .
  then have sum: "bt_sum held_pages (bt_remove q (sc_slots s)) = bt_sum held_pages (sc_slots s)"
    using q(4) by (simp add: held_pages_def)
  have other: "sl_request_id sl' \<noteq> r" if "bt_get (sc_slots s) q' = Some sl'" "q' \<noteq> q" for q' sl'
    using sched_inv_slot [OF inv that(1)] that(2) q(1) by auto
  have other_id: "q' \<noteq> q" if "bt_get (sc_ids s) r' = Some q'" "r' \<noteq> r" for r' q'
    using sched_inv_id [OF inv that(1)] that(2) q(2) id by auto
  show ?thesis
    unfolding t sched_inv_def
  proof (intro conjI allI impI; (use inv sum in \<open>simp_all add: sched_inv_def\<close>)?)
    fix q' sl' assume "(if q' = q then None else bt_get (sc_slots s) q') = Some sl'"
    then show "slot_ok (sc_config s) q' sl'" "q' \<le> sc_next_sequence s"
        "sl_request_id sl' \<noteq> r \<and> (sl_request_id sl' \<noteq> r \<longrightarrow> bt_get (sc_ids s) (sl_request_id sl') = Some q')"
      using inv other by (auto simp: sched_inv_def split: if_splits)
  qed (use inv other_id in \<open>fastforce simp: sched_inv_def split: if_splits\<close>)
next
  case False
  then have "snd (reap r s) = s"
    by (auto simp: reap_def res split: option.split sum.split)
  with inv show ?thesis by simp
qed

subsection \<open>Running operations on the world\<close>

lemma wp_on_sched [wp]: "op_wp (on_sched f) Q E w \<longleftrightarrow> Q () (w\<lparr>w_sched := f (w_sched w)\<rparr>)"
  by (simp add: on_sched_def wp)

lemma wp_on_counters [wp]:
  "op_wp (on_counters f) Q E w \<longleftrightarrow>
   Q () (w\<lparr>w_sched := (w_sched w)\<lparr>sc_counters := f (sc_counters (w_sched w))\<rparr>\<rparr>)"
  by (simp add: on_counters_def wp)

lemma wp_elapsed [wp]:
  "op_wp (elapsed eng) Q E w \<longleftrightarrow> Q (eng_elapsed eng (w_clock w)) (w\<lparr>w_clock := w_clock w + 1\<rparr>)"
  by (simp add: elapsed_def op_wp_def)

lemma wp_get_slot [wp]:
  "bt_get (sc_slots (w_sched w)) q = Some sl \<Longrightarrow> op_wp (get_slot q) Q E w \<longleftrightarrow> Q sl w"
  by (simp add: get_slot_def wp slot_of_def)

lemma wp_set_slot [wp]:
  "bt_ok (sc_slots (w_sched w)) \<Longrightarrow> bt_get (sc_slots (w_sched w)) q = Some sl \<Longrightarrow>
   op_wp (set_slot q f) Q E w \<longleftrightarrow> Q () (w\<lparr>w_sched := put_slot q (f sl) (w_sched w)\<rparr>)"
  using bt_update_const [of "sc_slots (w_sched w)" q sl f]
  by (simp add: set_slot_def wp put_slot_def)

text \<open>Model and store may do anything; the scheduler's part of the world does not change.\<close>

lemma wp_on_kv:
  "(\<And>r k. case r of Inl e \<Rightarrow> E e (w\<lparr>w_kv := k\<rparr>) | Inr a \<Rightarrow> Q a (w\<lparr>w_kv := k\<rparr>)) \<Longrightarrow>
   op_wp (on_kv m) Q E w"
  by (auto simp: op_wp_def on_kv_def split: prod.splits sum.splits)

lemma wp_on_model:
  "(\<And>r mo k. case r of Inl e \<Rightarrow> E e (w\<lparr>w_model := mo, w_kv := k\<rparr>)
     | Inr a \<Rightarrow> Q a (w\<lparr>w_model := mo, w_kv := k\<rparr>)) \<Longrightarrow>
   op_wp (on_model m) Q E w"
  by (auto simp: op_wp_def on_model_def split: prod.splits sum.splits)

lemma put_put [simp]: "put_slot q a (put_slot q b s) = put_slot q a s"
  by (simp add: put_slot_def comp_def)

lemma put_fields [simp]:
  "put_slot q a (s\<lparr>sc_counters := ct\<rparr>) = (put_slot q a s)\<lparr>sc_counters := ct\<rparr>"
  "put_slot q a (s\<lparr>sc_reserved_pages := n\<rparr>) = (put_slot q a s)\<lparr>sc_reserved_pages := n\<rparr>"
  "sc_slots (put_slot q a s) = bt_update q (\<lambda>_. a) (sc_slots s)"
  by (simp_all add: put_slot_def)

subsection \<open>Retiring a request\<close>

definition retired_slot :: "string \<Rightarrow> error_code option \<Rightarrow> slot \<Rightarrow> slot" where
  "retired_slot finish error sl =
    sl\<lparr>sl_kv_open := False, sl_holding_pages := False, sl_phase := Done, sl_finish_reason := finish,
       sl_error_code := error, sl_cancel := False\<rparr>"

definition retired :: "nat \<Rightarrow> string \<Rightarrow> error_code option \<Rightarrow> slot \<Rightarrow> scheduler \<Rightarrow> scheduler" where
  "retired q finish error sl s =
    (put_slot q (retired_slot finish error sl) s)
      \<lparr>sc_reserved_pages := sc_reserved_pages s - sl_pages sl,
       sc_counters := (if error = Some InsufficientMemory
         then (sc_counters s)\<lparr>ct_oom := saturating_add_u64 (ct_oom (sc_counters s)) 1\<rparr>
         else sc_counters s)\<rparr>"

text \<open>
  Retiring either succeeds, with the slot done and its pages returned, or fails in the store and
  leaves the scheduler as it was.
\<close>

lemma wp_retire:
  assumes inv: "sched_inv (w_sched w)" and sl: "bt_get (sc_slots (w_sched w)) q = Some sl"
    and live: "sl_phase sl \<noteq> Done"
    and ok: "\<And>w'. w_sched w' = retired q finish error sl (w_sched w) \<Longrightarrow> Q () w'"
    and err: "\<And>e w'. w_sched w' = w_sched w \<Longrightarrow> E e w'"
  shows "op_wp (retire eng q finish error) Q E w"
proof -
  have hold: "sl_holding_pages sl" using sched_inv_slot [OF inv sl] live by (simp add: slot_ok_def)
  have pages: "sl_pages sl \<le> sc_reserved_pages (w_sched w)"
    using held_le_reserved [OF inv sl] hold by (simp add: held_pages_def)
  have bt: "bt_ok (sc_slots (w_sched w))" using inv by (rule sched_inv_bt)
  let ?rest = "op_seq (release_pages q)
    (op_seq (set_slot q (\<lambda>sl. sl\<lparr>sl_phase := Done, sl_finish_reason := finish,
        sl_error_code := error, sl_cancel := False\<rparr>))
    (op_when (error = Some InsufficientMemory)
      (on_counters (\<lambda>ct. ct\<lparr>ct_oom := saturating_add_u64 (ct_oom ct) 1\<rparr>))))"
  have rest: "op_wp ?rest Q E w'"
    if w': "w_sched w' = put_slot q (sl\<lparr>sl_kv_open := False\<rparr>) (w_sched w)" for w'
    using bt sl hold pages
    by (simp add: release_pages_def wp w' checked_sub_def ok_or_def)
      (auto intro!: ok simp: retired_def retired_slot_def w')
  show ?thesis
  proof (cases "sl_kv_open sl")
    case False
    then have "sl\<lparr>sl_kv_open := False\<rparr> = sl" by (cases sl) simp
    then have "put_slot q (sl\<lparr>sl_kv_open := False\<rparr>) (w_sched w) = w_sched w"
      using bt_update_const [OF bt sl, of "\<lambda>x. x"] by (simp add: put_slot_def bt_update_def)
    then show ?thesis
      using rest [of w] sl False by (simp add: retire_def release_kv_def wp)
  next
    case True
    have set: "op_wp (set_slot q (\<lambda>sl. sl\<lparr>sl_kv_open := False\<rparr>)) (\<lambda>_. op_wp ?rest Q E) E w'"
      if w': "w_sched w' = w_sched w" for w'
      unfolding wp_set_slot [OF bt [folded w'] sl [folded w']] by (rule rest) (simp add: w')
    have rel: "op_wp (on_kv (eng_kv_release eng q))
        (\<lambda>_. op_wp (set_slot q (\<lambda>sl. sl\<lparr>sl_kv_open := False\<rparr>)) (\<lambda>_. op_wp ?rest Q E) E) E w'"
      if w': "w_sched w' = w_sched w" for w'
      using w' set err by (intro wp_on_kv) (simp split: sum.split)
    have "op_wp (on_kv (eng_kv_abort eng q)) (\<lambda>_. op_wp (on_kv (eng_kv_release eng q))
        (\<lambda>_. op_wp (set_slot q (\<lambda>sl. sl\<lparr>sl_kv_open := False\<rparr>)) (\<lambda>_. op_wp ?rest Q E) E) E) E w"
      using rel err by (intro wp_on_kv) (simp split: sum.split)
    then show ?thesis
      unfolding retire_def release_kv_def op_wp_seq [of "op_bind _ _"] op_wp_bind wp_get_slot [OF sl]
      by (simp only: True not_True_eq_False if_False op_wp_seq_fun)
  qed
qed

subsection \<open>Progress\<close>

text \<open>Iterations a request may still take: its retirement, its prompt tokens, its output tokens.\<close>

definition slot_work :: "slot \<Rightarrow> nat" where
  "slot_work sl = (if sl_phase sl = Done then 0
     else 1 + (length (sl_prompt sl) - sl_prompt_cursor sl) + (max_tokens sl - length (sl_tokens sl)))"

definition sched_work :: "scheduler \<Rightarrow> nat" where
  "sched_work s = bt_sum slot_work (sc_slots s)"

text \<open>No request has more tokens than it asked for, and an unfinished one has fewer.\<close>

definition slot_bounded :: "slot \<Rightarrow> bool" where
  "slot_bounded sl \<longleftrightarrow> length (sl_tokens sl) \<le> max_tokens sl \<and>
    (sl_phase sl \<noteq> Done \<longrightarrow> length (sl_tokens sl) < max_tokens sl)"

definition sched_bounded :: "scheduler \<Rightarrow> bool" where
  "sched_bounded s \<longleftrightarrow> (\<forall>q sl. bt_get (sc_slots s) q = Some sl \<longrightarrow> slot_bounded sl)"

text \<open>The effect of serving request \<open>q\<close>: only its slot, the reservation and the counters change.\<close>

definition served :: "nat \<Rightarrow> scheduler \<Rightarrow> scheduler \<Rightarrow> bool" where
  "served q s t \<longleftrightarrow> sched_inv t \<and> sc_config t = sc_config s \<and>
    (\<forall>r. r \<noteq> q \<longrightarrow> bt_get (sc_slots t) r = bt_get (sc_slots s) r) \<and>
    (sched_bounded s \<longrightarrow> sched_bounded t \<and> sched_work t < sched_work s)"

lemma served_put:
  assumes inv: "sched_inv s" and sl: "bt_get (sc_slots s) q = Some sl"
    and ok: "slot_ok (sc_config s) q sl'" and id: "sl_request_id sl' = sl_request_id sl"
    and res: "n + held_pages sl = sc_reserved_pages s + held_pages sl'" and le: "n \<le> sc_reserved_pages s"
    and progress: "slot_bounded sl \<Longrightarrow> slot_bounded sl' \<and> slot_work sl' < slot_work sl"
    and t: "t = (put_slot q sl' s)\<lparr>sc_reserved_pages := n, sc_counters := ct\<rparr>"
  shows "served q s t"
proof -
  have "sched_inv t" using sched_inv_put [OF inv sl ok id res le] unfolding t
    by (metis sched_inv_counters)
  moreover have "bt_sum slot_work (bt_update q (\<lambda>_. sl') (sc_slots s)) + slot_work sl =
      bt_sum slot_work (sc_slots s) + slot_work sl'"
    using bt_sum_update [OF bt_ok_distinct [OF sched_inv_bt [OF inv]] sl, of slot_work "\<lambda>_. sl'"] by simp
  ultimately show ?thesis
    using sl progress by (fastforce simp: served_def t sched_bounded_def sched_work_def split: if_splits)
qed

lemma served_trans: "served q s t \<Longrightarrow> served r t u \<Longrightarrow> (sched_bounded s \<longrightarrow> sched_bounded u \<and> sched_work u < sched_work s) \<and>
    sched_inv u \<and> sc_config u = sc_config s"
  by (auto simp: served_def)

lemma retired_slot_simps [simp]:
  "sl_request_id (retired_slot f e sl) = sl_request_id sl" "sl_phase (retired_slot f e sl) = Done"
  "sl_tokens (retired_slot f e sl) = sl_tokens sl" "max_tokens (retired_slot f e sl) = max_tokens sl"
  "held_pages (retired_slot f e sl) = 0" "slot_work (retired_slot f e sl) = 0"
  "sl_prompt (retired_slot f e sl) = sl_prompt sl"
  by (simp_all add: retired_slot_def max_tokens_def held_pages_def slot_work_def)

lemma slot_ok_retired: "slot_ok c q sl \<Longrightarrow> slot_ok c q (retired_slot f e sl)"
  by (auto simp: slot_ok_def retired_slot_def max_tokens_def)

lemma served_retired:
  assumes inv: "sched_inv s" and sl: "bt_get (sc_slots s) q = Some sl" and live: "sl_phase sl \<noteq> Done"
    and t: "t = (retired q f e sl s)\<lparr>sc_counters := ct\<rparr>"
  shows "served q s t"
proof (rule served_put [OF inv sl])
  have ok: "slot_ok (sc_config s) q sl" using sched_inv_slot [OF inv sl] by simp
  then show "slot_ok (sc_config s) q (retired_slot f e sl)" by (rule slot_ok_retired)
  have "held_pages sl = sl_pages sl" using ok live by (simp add: slot_ok_def held_pages_def)
  then show "sc_reserved_pages s - sl_pages sl + held_pages sl =
      sc_reserved_pages s + held_pages (retired_slot f e sl)"
    using held_le_reserved [OF inv sl] by simp
  show "slot_bounded sl \<Longrightarrow> slot_bounded (retired_slot f e sl) \<and> slot_work (retired_slot f e sl) < slot_work sl"
    using live by (simp add: slot_bounded_def slot_work_def)
qed (simp_all add: t retired_def)

lemma wp_fail_slot:
  assumes inv: "sched_inv (w_sched w)" and sl: "bt_get (sc_slots (w_sched w)) q = Some sl"
    and live: "sl_phase sl \<noteq> Done"
  shows "op_wp (fail_slot eng q c) (\<lambda>_ w'. served q (w_sched w) (w_sched w'))
    (\<lambda>_ w'. sched_inv (w_sched w')) w"
  unfolding fail_slot_def op_wp_seq
  by (rule wp_retire [OF inv sl live])
    (use inv served_retired [OF inv sl live refl, where f="''error''" and e="Some c"] in
      \<open>auto simp: wp retired_def\<close>)

lemma wp_serve_cancel:
  assumes inv: "sched_inv (w_sched w)" and sl: "bt_get (sc_slots (w_sched w)) q = Some sl"
    and live: "sl_phase sl \<noteq> Done"
  shows "op_wp (serve_cancel eng q) (\<lambda>_ w'. served q (w_sched w) (w_sched w'))
    (\<lambda>_ w'. sched_inv (w_sched w')) w"
  unfolding serve_cancel_def op_wp_seq
  by (rule wp_retire [OF inv sl live])
    (use inv served_retired [OF inv sl live refl, where f="''cancelled''" and e=None] in \<open>simp_all add: wp\<close>)

end
