(* ===== verification/Scheduler_Run.thy ===== *)
theory Scheduler_Run
  imports Scheduler_Proofs "HOL-Library.Multiset"
begin

text \<open>
  One iteration of the scheduler keeps the invariant whatever it meets; an iteration that succeeds
  also brings the run closer to its end, so that the run to idle stops, with every request
  finished. The requests are served in the order of their virtual time.
\<close>

subsection \<open>Prefill\<close>

lemma served_from:
  assumes t: "served q s1 t" and inv: "sched_inv s" and sl: "bt_get (sc_slots s) q = Some sl"
    and s1: "s1 = (put_slot q sl1 s)\<lparr>sc_counters := ct\<rparr>"
    and work: "slot_work sl1 = slot_work sl" and bounded: "slot_bounded sl1 = slot_bounded sl"
  shows "served q s t"
proof -
  have "bt_sum slot_work (bt_update q (\<lambda>_. sl1) (sc_slots s)) = bt_sum slot_work (sc_slots s)"
    using bt_sum_update [OF bt_ok_distinct [OF sched_inv_bt [OF inv]] sl, of slot_work "\<lambda>_. sl1"] work
    by simp
  then have "sched_work s1 = sched_work s" by (simp add: sched_work_def s1)
  moreover have "sched_bounded s1 = sched_bounded s"
    using sl bounded by (auto simp: sched_bounded_def s1 split: if_splits)
  moreover have "r \<noteq> q \<Longrightarrow> bt_get (sc_slots s1) r = bt_get (sc_slots s) r" for r by (simp add: s1)
  ultimately show ?thesis using t by (simp add: served_def s1)
qed

lemma served_put_same:
  assumes "sched_inv s" and "bt_get (sc_slots s) q = Some sl" and "slot_ok (sc_config s) q sl'"
    and "sl_request_id sl' = sl_request_id sl" and "held_pages sl' = held_pages sl"
    and "slot_bounded sl \<Longrightarrow> slot_bounded sl' \<and> slot_work sl' < slot_work sl"
  shows "served q s ((put_slot q sl' s)\<lparr>sc_counters := ct\<rparr>)"
  by (rule served_put [OF assms(1-4), of "sc_reserved_pages s" _ ct])
    (use assms(5,6) in \<open>simp_all add: put_slot_def\<close>)

lemma slot_vtime_same: "sl\<lparr>sl_vtime := sl_vtime sl\<rparr> = sl" for sl :: slot
  by (cases sl) simp

definition prefilled :: "nat \<Rightarrow> f32 list \<Rightarrow> slot \<Rightarrow> slot" where
  "prefilled cursor logits sl =
    (let sl = sl\<lparr>sl_prompt_cursor := cursor, sl_prefill_logits := logits, sl_phase := Prefilling\<rparr>
     in if cursor = length (sl_prompt sl)
        then sl\<lparr>sl_logits := logits, sl_needs_forward := False, sl_phase := Decoding\<rparr> else sl)"

lemma prefilled_simps [simp]:
  "sl_request_id (prefilled n l sl) = sl_request_id sl" "sl_sequence_id (prefilled n l sl) = sl_sequence_id sl"
  "sl_prompt (prefilled n l sl) = sl_prompt sl" "sl_prompt_cursor (prefilled n l sl) = n"
  "sl_tokens (prefilled n l sl) = sl_tokens sl" "max_tokens (prefilled n l sl) = max_tokens sl"
  "sl_pages (prefilled n l sl) = sl_pages sl" "sl_holding_pages (prefilled n l sl) = sl_holding_pages sl"
  "sl_kv_open (prefilled n l sl) = sl_kv_open sl" "sl_vtime (prefilled n l sl) = sl_vtime sl"
  "sl_phase (prefilled n l sl) = (if n = length (sl_prompt sl) then Decoding else Prefilling)"
  "sl_needs_forward (prefilled n l sl) = (n \<noteq> length (sl_prompt sl) \<and> sl_needs_forward sl)"
  by (simp_all add: prefilled_def Let_def max_tokens_def)

lemma slot_ok_prefilled:
  assumes "slot_ok c q sl" and "sl_phase sl = Queued \<or> sl_phase sl = Prefilling" and "sl_kv_open sl"
    and "n \<le> length (sl_prompt sl)"
  shows "slot_ok c q ((prefilled n l sl)\<lparr>sl_vtime := v\<rparr>)"
  using assms by (auto simp: slot_ok_def max_tokens_def [of "_\<lparr>sl_vtime := v\<rparr>"]
      max_tokens_def [symmetric])

lemma wp_add_service:
  assumes sl: "bt_get (sc_slots (w_sched w)) q = Some sl" and bt: "bt_ok (sc_slots (w_sched w))"
    and ok: "\<And>v w'. w_sched w' = put_slot q (sl\<lparr>sl_vtime := v\<rparr>) (w_sched w) \<Longrightarrow> sl_vtime sl \<le> v \<Longrightarrow> Q () w'"
    and err: "\<And>e. E e w"
  shows "op_wp (add_service q n) Q E w"
  using sl bt err
  by (auto simp: add_service_def wp checked_defs op_wp_lift ok_or_def split: option.split intro!: ok)

lemma put_slot_same: "bt_ok (sc_slots s) \<Longrightarrow> bt_get (sc_slots s) q = Some sl \<Longrightarrow> put_slot q sl s = s"
  using bt_update_const [of "sc_slots s" q sl "\<lambda>x. x"] by (simp add: put_slot_def bt_update_def)

lemma wp_fail_slot_from:
  assumes inv: "sched_inv s" and sl: "bt_get (sc_slots s) q = Some sl"
    and w: "w_sched w = (put_slot q sl1 s)\<lparr>sc_counters := ct\<rparr>" and inv1: "sched_inv (w_sched w)"
    and live: "sl_phase sl1 \<noteq> Done"
    and work: "slot_work sl1 = slot_work sl" and bounded: "slot_bounded sl1 = slot_bounded sl"
  shows "op_wp (fail_slot eng q c) (\<lambda>_ w'. served q s (w_sched w')) (\<lambda>_ w'. sched_inv (w_sched w')) w"
proof -
  have get: "bt_get (sc_slots (w_sched w)) q = Some sl1"
    using sl sched_inv_bt [OF inv] by (simp add: w)
  show ?thesis
    by (rule op_wp_mono [OF wp_fail_slot [OF inv1 get live]])
      (blast intro: served_from [OF _ inv sl w work bounded])+
qed

lemma wp_run_prefill:
  assumes inv: "sched_inv s" and sl: "bt_get (sc_slots s) q = Some sl"
    and ph: "sl_phase sl = Queued \<or> sl_phase sl = Prefilling"
    and w: "w_sched w = put_slot q (sl\<lparr>sl_kv_open := True\<rparr>) s"
    and chunk: "0 < chunk" "sl_prompt_cursor sl + chunk \<le> length (sl_prompt sl)"
  shows "op_wp (run_prefill eng q (sl_prompt_cursor sl) (length (sl_prompt sl)) chunk ids)
    (\<lambda>_ w'. served q s (w_sched w')) (\<lambda>_ w'. sched_inv (w_sched w')) w"
    (is "op_wp _ ?Q ?E w")
proof -
  let ?sl1 = "sl\<lparr>sl_kv_open := True\<rparr>"
  have ok1: "slot_ok (sc_config s) q ?sl1"
    using sched_inv_slot [OF inv sl] ph by (auto simp: slot_ok_def max_tokens_def)
  have bt: "bt_ok (sc_slots s)" using inv by (rule sched_inv_bt)
  have inv1: "sched_inv (put_slot q ?sl1 s)"
    by (rule sched_inv_put_same [OF inv sl ok1]) (simp_all add: held_pages_def)
  have fails: "op_wp (fail_slot eng q c) (\<lambda>_ w'. served q s (w_sched w')) (\<lambda>_ w'. sched_inv (w_sched w')) w'"
    if w': "w_sched w' = (put_slot q ?sl1 s)\<lparr>sc_counters := ct\<rparr>" for w' ct c
    using inv1 ph by (intro wp_fail_slot_from [OF inv sl w'])
      (auto simp: w' slot_work_def slot_bounded_def max_tokens_def)
  let ?cur = "sl_prompt_cursor sl + chunk"
  have fill: "op_wp (op_seq (set_slot q (\<lambda>sl.
          (let sl = sl\<lparr>sl_prompt_cursor := ?cur, sl_prefill_logits := logits, sl_phase := Prefilling\<rparr>
           in if sl_prompt_cursor sl = length prompt
              then sl\<lparr>sl_logits := logits, sl_needs_forward := False, sl_phase := Decoding\<rparr>
              else sl)))
        (op_seq (add_service q chunk) (op_return st)))
      (\<lambda>_ w'. served q s (w_sched w')) (\<lambda>_ w'. sched_inv (w_sched w')) w'"
    if w': "w_sched w' = (put_slot q ?sl1 s)\<lparr>sc_counters := ct\<rparr>" and p: "prompt = sl_prompt sl"
    for w' ct st logits prompt
  proof -
    let ?sl2 = "prefilled ?cur logits ?sl1"
    have get: "bt_get (sc_slots (w_sched w')) q = Some ?sl1" using sl bt by (simp add: w')
    have bt': "bt_ok (sc_slots (w_sched w'))" using bt by (simp add: w')
    have sl2: "(let sl = ?sl1\<lparr>sl_prompt_cursor := ?cur, sl_prefill_logits := logits, sl_phase := Prefilling\<rparr>
           in if sl_prompt_cursor sl = length prompt
              then sl\<lparr>sl_logits := logits, sl_needs_forward := False, sl_phase := Decoding\<rparr>
              else sl) = ?sl2"
      by (simp add: prefilled_def Let_def p)
    have ok: "slot_ok (sc_config s) q (?sl2\<lparr>sl_vtime := v\<rparr>)" for v
      using ok1 ph chunk by (intro slot_ok_prefilled) auto
    have served: "served q s ((put_slot q (?sl2\<lparr>sl_vtime := v\<rparr>) s)\<lparr>sc_counters := ct\<rparr>)" for v
    proof (rule served_put_same [OF inv sl ok])
      show "slot_bounded sl \<Longrightarrow> slot_bounded (?sl2\<lparr>sl_vtime := v\<rparr>) \<and>
          slot_work (?sl2\<lparr>sl_vtime := v\<rparr>) < slot_work sl"
        using ph chunk by (auto simp: slot_bounded_def slot_work_def max_tokens_def prefilled_def Let_def)
    qed (simp_all add: held_pages_def)
    have "slot_ok (sc_config s) q ?sl2" using ok [of "sl_vtime ?sl2"] by (simp only: slot_vtime_same)
    then have "sched_inv (put_slot q ?sl2 s)"
      by (intro sched_inv_put_same [OF inv sl]) (simp_all add: held_pages_def)
    with get bt' show ?thesis
      unfolding op_wp_seq wp_set_slot [OF bt' get] sl2
      by (intro wp_add_service) (auto simp: w' wp served sl)
  qed
  show ?thesis
    unfolding run_prefill_def op_wp_bind op_wp_try
  proof (rule wp_on_model, goal_cases)
    case (1 r mo k)
    let ?w = "w\<lparr>w_model := mo, w_kv := k\<rparr>"
    let ?w' = "\<lambda>ct. ?w\<lparr>w_clock := w_clock w + 1, w_sched := (w_sched w)\<lparr>sc_counters := ct\<rparr>\<rparr>"
    have s': "w_sched (?w' ct) = (put_slot q ?sl1 s)\<lparr>sc_counters := ct\<rparr>" for ct
      by (simp add: w)
    show ?case
    proof (cases r)
      case (Inl e)
      with fails [OF s'] show ?thesis by (simp add: wp_elapsed op_wp_bind wp_on_counters op_wp_seq)
    next
      case (Inr logits)
      with fill [OF s' refl, of logits] show ?thesis
        by (simp add: wp_elapsed op_wp_bind wp_on_counters op_wp_seq [of "on_counters _"])
    qed
  qed
qed

lemma wp_serve_prefill:
  assumes inv: "sched_inv (w_sched w)" and sl: "bt_get (sc_slots (w_sched w)) q = Some sl"
    and ph: "sl_phase sl = Queued \<or> sl_phase sl = Prefilling"
  shows "op_wp (serve_prefill eng q)
    (\<lambda>_ w'. served q (w_sched w) (w_sched w')) (\<lambda>_ w'. sched_inv (w_sched w')) w"
proof -
  let ?s = "w_sched w"
  have ok: "slot_ok (sc_config ?s) q sl" and bt: "bt_ok (sc_slots ?s)"
    using sched_inv_slot [OF inv sl] inv by (simp_all add: sched_inv_def)
  have cfg: "config_ok (sc_config ?s)" using inv by (simp add: sched_inv_def)
  have len: "length (sl_prompt sl) \<le> u32_max"
    using ok cfg by (simp add: slot_ok_def config_ok_def max_iters_def u32_max_def)
  have cur: "sl_prompt_cursor sl < length (sl_prompt sl)" using ok ph by (auto simp: slot_ok_def)
  let ?chunk = "min (cfg_prefill_chunk_tokens (sc_config ?s)) (length (sl_prompt sl) - sl_prompt_cursor sl)"
  have chunk: "0 < ?chunk" "sl_prompt_cursor sl + ?chunk \<le> length (sl_prompt sl)"
    using cur cfg by (auto simp: config_ok_def)
  have run: "op_wp (run_prefill eng q (sl_prompt_cursor sl) (length (sl_prompt sl)) ?chunk ids)
      (\<lambda>_ w'. served q ?s (w_sched w')) (\<lambda>_ w'. sched_inv (w_sched w')) w'"
    if "w_sched w' = put_slot q (sl\<lparr>sl_kv_open := True\<rparr>) ?s" for w' ids
    by (rule wp_run_prefill [OF inv sl ph that chunk])
  show ?thesis
  proof (cases "sl_kv_open sl")
    case True
    then have "sl\<lparr>sl_kv_open := True\<rparr> = sl" by (cases sl) simp
    then have "w_sched w = put_slot q (sl\<lparr>sl_kv_open := True\<rparr>) ?s" using put_slot_same [OF bt sl] by simp
    from run [OF this] True sl chunk(1) len cur inv show ?thesis
      unfolding serve_prefill_def
      by (simp add: wp Let_def checked_sub_def ok_or_def)
  next
    case False
    have live: "sl_phase sl \<noteq> Done" using ph by auto
    have begun: "op_wp (on_kv (eng_kv_begin eng q)) (\<lambda>a. op_wp (case Inr a of
          Inl e \<Rightarrow> fail_slot eng q (code e)
        | Inr _ \<Rightarrow> op_seq (set_slot q (\<lambda>sl. sl\<lparr>sl_kv_open := True\<rparr>))
            (run_prefill eng q (sl_prompt_cursor sl) (length (sl_prompt sl)) ?chunk ids))
          (\<lambda>_ w'. served q ?s (w_sched w')) (\<lambda>_ w'. sched_inv (w_sched w')))
        (\<lambda>e. op_wp (fail_slot eng q (code e))
          (\<lambda>_ w'. served q ?s (w_sched w')) (\<lambda>_ w'. sched_inv (w_sched w'))) w" for ids
    proof (rule wp_on_kv)
      fix r k
      let ?w = "w\<lparr>w_kv := k\<rparr>"
      have "op_wp (fail_slot eng q c) (\<lambda>_ w'. served q ?s (w_sched w')) (\<lambda>_ w'. sched_inv (w_sched w')) ?w" for c
        using wp_fail_slot [of ?w q sl eng c] inv sl live by simp
      moreover have "op_wp (op_seq (set_slot q (\<lambda>sl. sl\<lparr>sl_kv_open := True\<rparr>))
            (run_prefill eng q (sl_prompt_cursor sl) (length (sl_prompt sl)) ?chunk ids))
          (\<lambda>_ w'. served q ?s (w_sched w')) (\<lambda>_ w'. sched_inv (w_sched w')) ?w"
        using bt sl by (simp add: wp wp_set_slot [of ?w q sl] run)
      ultimately show "case r of Inl e \<Rightarrow> op_wp (fail_slot eng q (code e))
          (\<lambda>_ w'. served q ?s (w_sched w')) (\<lambda>_ w'. sched_inv (w_sched w')) ?w
        | Inr a \<Rightarrow> op_wp (case Inr a of Inl e \<Rightarrow> fail_slot eng q (code e)
        | Inr _ \<Rightarrow> op_seq (set_slot q (\<lambda>sl. sl\<lparr>sl_kv_open := True\<rparr>))
            (run_prefill eng q (sl_prompt_cursor sl) (length (sl_prompt sl)) ?chunk ids))
          (\<lambda>_ w'. served q ?s (w_sched w')) (\<lambda>_ w'. sched_inv (w_sched w')) ?w"
        by (simp split: sum.split)
    qed
    from begun False sl chunk(1) len cur inv show ?thesis
      unfolding serve_prefill_def by (simp add: wp Let_def checked_sub_def ok_or_def)
  qed
qed

subsection \<open>Decode\<close>

text \<open>A slot that was rewritten on the way to its retirement.\<close>

lemma served_retired_from:
  assumes inv: "sched_inv s" and sl: "bt_get (sc_slots s) q = Some sl" and live: "sl_phase sl \<noteq> Done"
    and ok: "slot_ok (sc_config s) q sl1" and id: "sl_request_id sl1 = sl_request_id sl"
    and same: "sl_pages sl1 = sl_pages sl"
    and bounded: "slot_bounded sl \<Longrightarrow> length (sl_tokens sl1) \<le> max_tokens sl1"
    and s1: "s1 = (put_slot q sl1 s)\<lparr>sc_counters := ct\<rparr>"
  shows "served q s ((retired q f e sl1 s1)\<lparr>sc_counters := ct'\<rparr>)"
proof (rule served_put [OF inv sl])
  have "held_pages sl = sl_pages sl" "sl_pages sl \<le> sc_reserved_pages s"
    using sched_inv_slot [OF inv sl] held_le_reserved [OF inv sl] live
    by (auto simp: slot_ok_def held_pages_def)
  then show "sc_reserved_pages s - sl_pages sl + held_pages sl =
      sc_reserved_pages s + held_pages (retired_slot f e sl1)" by simp
  show "slot_ok (sc_config s) q (retired_slot f e sl1)" using ok by (rule slot_ok_retired)
  show "slot_bounded sl \<Longrightarrow> slot_bounded (retired_slot f e sl1) \<and>
      slot_work (retired_slot f e sl1) < slot_work sl"
    using bounded live by (simp add: slot_bounded_def slot_work_def)
qed (use id in \<open>simp_all add: s1 retired_def same\<close>)

lemma wp_fail_decode_from:
  assumes inv: "sched_inv s" and sl: "bt_get (sc_slots s) q = Some sl" and live: "sl_phase sl \<noteq> Done"
    and ok: "slot_ok (sc_config s) q sl1" and live1: "sl_phase sl1 \<noteq> Done"
    and id: "sl_request_id sl1 = sl_request_id sl" and same: "sl_pages sl1 = sl_pages sl"
    and bounded: "slot_bounded sl \<Longrightarrow> length (sl_tokens sl1) \<le> max_tokens sl1"
    and w: "w_sched w = (put_slot q sl1 s)\<lparr>sc_counters := ct\<rparr>"
  shows "op_wp (fail_decode eng q c) (\<lambda>_ w'. served q s (w_sched w')) (\<lambda>_ w'. sched_inv (w_sched w')) w"
proof -
  have bt: "bt_ok (sc_slots s)" using inv by (rule sched_inv_bt)
  have held: "held_pages sl1 = held_pages sl"
    using ok sched_inv_slot [OF inv sl] live live1 same by (auto simp: slot_ok_def held_pages_def)
  have inv1: "sched_inv ((put_slot q sl1 s)\<lparr>sc_counters := c\<rparr>)" for c
    using sched_inv_put_same [OF inv sl ok id held] by simp
  have "op_wp (retire eng q ''error'' (Some c)) (\<lambda>_ w'. served q s (w_sched w')) (\<lambda>_ w'. sched_inv (w_sched w')) w'"
    if w': "w_sched w' = (put_slot q sl1 s)\<lparr>sc_counters := ct'\<rparr>" for w' ct'
  proof (rule wp_retire)
    show "sched_inv (w_sched w')" by (simp only: w' inv1)
    show "bt_get (sc_slots (w_sched w')) q = Some sl1" using sl bt by (simp add: w')
    show "served q s (w_sched w'')" if "w_sched w'' = retired q ''error'' (Some c) sl1 (w_sched w')" for w'' :: "('a, 'b) world"
      using served_retired_from [OF inv sl live ok id same bounded w', where f = "''error''" and e = "Some c" and ct' = "sc_counters (w_sched w'')"]
      by (simp add: that retired_def)
    show "sched_inv (w_sched w'')" if "w_sched w'' = w_sched w'" for w'' :: "('a, 'b) world"
      by (simp only: that w' inv1)
  qed (rule live1)
  note retire = this
  show ?thesis
    unfolding fail_decode_def op_wp_bind wp_elapsed op_wp_seq wp_on_counters
    by (rule op_wp_mono [OF retire [where ct' = "note_decode (eng_elapsed eng (w_clock w)) 0 ct"]])
      (simp_all add: w op_wp_return)
qed

text \<open>The slot once its logits are there, and after a token was appended to it.\<close>

definition with_logits :: "f32 list \<Rightarrow> slot \<Rightarrow> slot" where
  "with_logits l sl = sl\<lparr>sl_logits := l, sl_needs_forward := False\<rparr>"

definition with_token :: "nat \<Rightarrow> nat \<Rightarrow> bool \<Rightarrow> slot \<Rightarrow> slot" where
  "with_token t v forward sl =
    sl\<lparr>sl_tokens := sl_tokens sl @ [t], sl_vtime := v, sl_needs_forward := forward\<rparr>"

lemma with_simps [simp]:
  "sl_request_id (with_logits l sl) = sl_request_id sl" "sl_pages (with_logits l sl) = sl_pages sl"
  "sl_phase (with_logits l sl) = sl_phase sl" "sl_tokens (with_logits l sl) = sl_tokens sl"
  "max_tokens (with_logits l sl) = max_tokens sl" "held_pages (with_logits l sl) = held_pages sl"
  "sl_request_id (with_token t v n sl) = sl_request_id sl" "sl_pages (with_token t v n sl) = sl_pages sl"
  "sl_phase (with_token t v n sl) = sl_phase sl" "sl_tokens (with_token t v n sl) = sl_tokens sl @ [t]"
  "max_tokens (with_token t v n sl) = max_tokens sl" "held_pages (with_token t v n sl) = held_pages sl"
  "sl_needs_forward (with_logits l sl) = False" "sl_needs_forward (with_token t v n sl) = n"
  by (simp_all add: with_logits_def with_token_def max_tokens_def held_pages_def)

lemma slot_ok_with_logits: "slot_ok c q sl \<Longrightarrow> slot_ok c q (with_logits l sl)"
  by (auto simp: slot_ok_def with_logits_def max_tokens_def)

lemma slot_ok_with_token: "slot_ok c q sl \<Longrightarrow> sl_phase sl = Decoding \<Longrightarrow> slot_ok c q (with_token t v n sl)"
  by (auto simp: slot_ok_def with_token_def max_tokens_def)

lemma served_with_token:
  assumes inv: "sched_inv s" and sl: "bt_get (sc_slots s) q = Some sl" and ph: "sl_phase sl = Decoding"
    and more: "(length (sl_tokens sl) + 1) mod 4294967296 \<noteq> max_tokens sl"
  shows "served q s ((put_slot q (with_token t v n (with_logits l sl)) s)\<lparr>sc_counters := ct\<rparr>)"
proof (rule served_put_same [OF inv sl])
  have ok: "slot_ok (sc_config s) q sl" and cfg: "config_ok (sc_config s)"
    using sched_inv_slot [OF inv sl] inv by (simp_all add: sched_inv_def)
  then show "slot_ok (sc_config s) q (with_token t v n (with_logits l sl))"
    using ph by (intro slot_ok_with_token slot_ok_with_logits) simp_all
  have "max_tokens sl < 4294967296" using ok cfg by (simp add: slot_ok_def config_ok_def max_iters_def)
  then show "slot_bounded sl \<Longrightarrow> slot_bounded (with_token t v n (with_logits l sl)) \<and>
      slot_work (with_token t v n (with_logits l sl)) < slot_work sl"
    using more ph
    by (auto simp: slot_bounded_def slot_work_def with_token_def with_logits_def max_tokens_def)
qed simp_all

lemma wp_decode_sample:
  assumes inv: "sched_inv s" and sl: "bt_get (sc_slots s) q = Some sl" and ph: "sl_phase sl = Decoding"
    and w: "w_sched w = put_slot q (with_logits l sl) s"
  shows "op_wp (decode_sample eng q) (\<lambda>_ w'. served q s (w_sched w')) (\<lambda>_ w'. sched_inv (w_sched w')) w"
    (is "op_wp _ ?Q ?E w")
proof -
  let ?sl1 = "with_logits l sl"
  let ?tok = "\<lambda>t v n. with_token t v n ?sl1"
  have live: "sl_phase sl \<noteq> Done" and bt: "bt_ok (sc_slots s)"
    using ph sched_inv_bt [OF inv] by simp_all
  have ok1: "slot_ok (sc_config s) q ?sl1" using sched_inv_slot [OF inv sl] by (simp add: slot_ok_with_logits)
  have okt: "slot_ok (sc_config s) q (?tok t v n)" for t v n
    using ok1 ph by (simp add: slot_ok_with_token)
  have inv1: "sched_inv (put_slot q ?sl1 s)"
    using sched_inv_put_same [OF inv sl ok1] by simp
  have invt: "sched_inv (put_slot q (?tok t v n) s)" for t v n
    using sched_inv_put_same [OF inv sl okt] by simp
  have counters: "s'\<lparr>sc_counters := sc_counters s'\<rparr> = s'" for s' :: scheduler by (cases s') simp
  have get: "bt_get (sc_slots (w_sched w')) q = Some sl'" "bt_ok (sc_slots (w_sched w'))"
    if "w_sched w' = put_slot q sl' s" for w' :: "('a, 'b) world" and sl'
    using sl bt that by simp_all
  have fails: "op_wp (fail_decode eng q c) ?Q ?E w" for c
    using w counters [of "put_slot q ?sl1 s"] ph
    by (intro wp_fail_decode_from [OF inv sl live ok1, where ct = "sc_counters (put_slot q ?sl1 s)"])
      (simp_all add: slot_bounded_def)
  have retires: "op_wp (retire eng q finish None)
      (\<lambda>_. op_wp (op_bind (elapsed eng) (\<lambda>d. op_seq (on_counters (note_decode d 1)) (op_return r))) ?Q ?E) ?E w'"
    if w': "w_sched w' = put_slot q (?tok t v n) s" for w' finish t v n and r :: schedule_op
  proof (rule wp_retire)
    show "sched_inv (w_sched w')" by (simp only: w' invt)
    show "bt_get (sc_slots (w_sched w')) q = Some (?tok t v n)" by (rule get(1) [OF w'])
    show "op_wp (op_bind (elapsed eng) (\<lambda>d. op_seq (on_counters (note_decode d 1)) (op_return r))) ?Q ?E w''"
      if w'': "w_sched w'' = retired q finish None (?tok t v n) (w_sched w')" for w''
    proof -
      have "served q s ((retired q finish None (?tok t v n) (w_sched w'))\<lparr>sc_counters := ct'\<rparr>)" for ct'
        using ph w' counters [of "put_slot q (?tok t v n) s"]
        by (intro served_retired_from [OF inv sl live okt, where ct = "sc_counters (put_slot q (?tok t v n) s)"])
          (simp_all add: slot_bounded_def)
      then show ?thesis by (simp add: op_wp_bind wp_elapsed op_wp_seq wp_on_counters op_wp_return w'')
    qed
    show "sched_inv (w_sched w'')" if "w_sched w'' = w_sched w'" for w'' :: "('a, 'b) world"
      by (simp only: that w' invt)
  qed (use ph in simp)
  have sl2: "?sl1\<lparr>sl_tokens := sl_tokens ?sl1 @ [t]\<rparr> = ?tok t (sl_vtime sl) False" for t
    by (simp add: with_token_def with_logits_def)
  have sampled: "op_wp (op_seq (set_slot q (\<lambda>sl. sl\<lparr>sl_tokens := sl_tokens sl @ [t]\<rparr>))
        (op_bind (get_slot q) (\<lambda>sl.
        let stop = t \<in> set (sp_eos_token_ids (sl_sampler sl));
            len = (length (sl_tokens sl) mod 4294967296 = max_output_tokens (sp_settings (sl_sampler sl)))
        in op_seq (add_service q 1)
          (op_seq (if stop \<or> len
              then retire eng q (if stop then ''stop'' else ''length'') None
              else set_slot q (\<lambda>sl. sl\<lparr>sl_needs_forward := True\<rparr>))
          (op_bind (elapsed eng) (\<lambda>d.
          op_seq (on_counters (note_decode d 1)) (op_return (OpDecode q t)))))))) ?Q ?E w" for t
  proof -
    let ?sl2 = "?tok t (sl_vtime sl) False"
    let ?w1 = "w\<lparr>w_sched := put_slot q ?sl2 (w_sched w)\<rparr>"
    have w1: "w_sched ?w1 = put_slot q ?sl2 s" by (simp add: w)
    let ?stop = "t \<in> set (sp_eos_token_ids (sl_sampler ?sl2))"
    let ?len = "length (sl_tokens ?sl2) mod 4294967296 = max_output_tokens (sp_settings (sl_sampler ?sl2))"
    have max: "max_output_tokens (sp_settings (sl_sampler ?sl2)) = max_tokens sl"
      by (simp add: max_tokens_def with_token_def with_logits_def)
    let ?rest = "op_bind (elapsed eng) (\<lambda>d. op_seq (on_counters (note_decode d 1)) (op_return (OpDecode q t)))"
    have "op_wp (add_service q 1) (\<lambda>_. op_wp (op_seq (if ?stop \<or> ?len
              then retire eng q (if ?stop then ''stop'' else ''length'') None
              else set_slot q (\<lambda>sl. sl\<lparr>sl_needs_forward := True\<rparr>)) ?rest) ?Q ?E) ?E ?w1"
    proof (rule wp_add_service [OF get [OF w1]])
      fix v and w' :: "('a, 'b) world"
      assume "w_sched w' = put_slot q (?sl2\<lparr>sl_vtime := v\<rparr>) (w_sched ?w1)"
      moreover have "?sl2\<lparr>sl_vtime := v\<rparr> = ?tok t v False" by (simp add: with_token_def)
      ultimately have w': "w_sched w' = put_slot q (?tok t v False) s" by (simp add: w1 w)
      show "op_wp (op_seq (if ?stop \<or> ?len then retire eng q (if ?stop then ''stop'' else ''length'') None
          else set_slot q (\<lambda>sl. sl\<lparr>sl_needs_forward := True\<rparr>)) ?rest) ?Q ?E w'"
      proof (cases "?stop \<or> ?len")
        case True
        then show ?thesis
          using retires [OF w', of "if ?stop then ''stop'' else ''length''" "OpDecode q t"]
          by (simp only: op_wp_seq if_True)
      next
        case False
        then have more: "(length (sl_tokens sl) + 1) mod 4294967296 \<noteq> max_tokens sl" by (simp add: max)
        have "(?tok t v False)\<lparr>sl_needs_forward := True\<rparr> = ?tok t v True" by (simp add: with_token_def)
        with False w' served_with_token [OF inv sl ph more] show ?thesis
          by (simp add: op_wp_seq wp_set_slot [OF get(2) [OF w'] get(1) [OF w']] op_wp_bind wp_elapsed
              wp_on_counters op_wp_return)
      qed
    qed (simp add: w1 w invt)
    then show ?thesis
      by (simp only: op_wp_seq wp_set_slot [OF get(2) [OF w] get(1) [OF w]] sl2 op_wp_bind
          wp_get_slot [OF get(1) [OF w1]] Let_def)
  qed
  show ?thesis
    unfolding decode_sample_def op_wp_bind wp_get_slot [OF get(1) [OF w]]
    using sampled fails inv1 by (auto simp: op_wp_throw op_wp_lift ok_or_def w op_wp_bind split: sum.split)
qed

lemma wp_serve_decode_one:
  assumes inv: "sched_inv (w_sched w)" and sl: "bt_get (sc_slots (w_sched w)) q = Some sl"
    and ph: "sl_phase sl = Decoding"
  shows "op_wp (serve_decode_one eng q)
    (\<lambda>_ w'. served q (w_sched w) (w_sched w')) (\<lambda>_ w'. sched_inv (w_sched w')) w"
    (is "op_wp _ ?Q ?E w")
proof (cases "sl_needs_forward sl")
  case False
  then have "with_logits (sl_logits sl) sl = sl" by (cases sl) (simp add: with_logits_def)
  then have "w_sched w = put_slot q (with_logits (sl_logits sl) sl) (w_sched w)"
    using put_slot_same [OF sched_inv_bt [OF inv] sl] by simp
  from wp_decode_sample [OF inv sl ph this] False show ?thesis
    unfolding serve_decode_one_def op_wp_bind wp_get_slot [OF sl] by simp
next
  case True
  have bt: "bt_ok (sc_slots (w_sched w))" using inv by (rule sched_inv_bt)
  have ok: "slot_ok (sc_config (w_sched w)) q sl" using sched_inv_slot [OF inv sl] by simp
  then have tokens: "sl_tokens sl \<noteq> []" using True by (simp add: slot_ok_def)
  have decode: "op_wp (on_model (eng_decode eng q ids at))
      (\<lambda>a. op_wp (op_seq (set_slot q (\<lambda>sl. sl\<lparr>sl_logits := a, sl_needs_forward := False\<rparr>))
        (decode_sample eng q)) ?Q ?E)
      (\<lambda>e. op_wp (fail_decode eng q (code e)) ?Q ?E) w" for ids at
  proof (rule wp_on_model)
    fix r mo k
    let ?w = "w\<lparr>w_model := mo, w_kv := k\<rparr>"
    have "op_wp (fail_decode eng q c) ?Q ?E ?w" for c
      by (rule wp_fail_decode_from [OF inv sl _ ok, where ct = "sc_counters (w_sched w)"])
        (use ph put_slot_same [OF bt sl] in \<open>simp_all add: slot_bounded_def\<close>)
    moreover have "op_wp (op_seq (set_slot q (\<lambda>sl. sl\<lparr>sl_logits := logits, sl_needs_forward := False\<rparr>))
        (decode_sample eng q)) ?Q ?E ?w" for logits
      using bt sl wp_decode_sample [OF inv sl ph, of "?w\<lparr>w_sched := put_slot q (with_logits logits sl) (w_sched w)\<rparr>" logits eng]
      by (simp add: op_wp_seq wp_set_slot [of ?w q sl] with_logits_def)
    ultimately show "case r of Inl e \<Rightarrow> op_wp (fail_decode eng q (code e)) ?Q ?E ?w
      | Inr a \<Rightarrow> op_wp (op_seq (set_slot q (\<lambda>sl. sl\<lparr>sl_logits := a, sl_needs_forward := False\<rparr>))
        (decode_sample eng q)) ?Q ?E ?w"
      by (simp split: sum.split)
  qed
  show ?thesis
    unfolding serve_decode_one_def op_wp_bind wp_get_slot [OF sl]
    using True tokens inv decode by (simp add: op_wp_bind op_wp_getr op_wp_lift ok_or_def op_wp_try)
qed

lemma wp_served_put_slot: "sc_slots s = sc_slots t \<Longrightarrow> sched_work s = sched_work t"
  by (simp add: sched_work_def)

text \<open>A batch: distinct decoding requests, each served once; no other slot is touched.\<close>

definition batch_served :: "scheduler \<Rightarrow> scheduler \<Rightarrow> bool" where
  "batch_served s t \<longleftrightarrow> sched_inv t \<and> sc_config t = sc_config s \<and>
    (sched_bounded s \<longrightarrow> sched_bounded t \<and> sched_work t < sched_work s)"

lemma served_batch: "served q s t \<Longrightarrow> batch_served s t"
  by (simp add: served_def batch_served_def)

lemma batch_served_trans: "batch_served s t \<Longrightarrow> batch_served t u \<Longrightarrow> batch_served s u"
  by (auto simp: batch_served_def)

lemma wp_serve_decodes:
  assumes "sched_inv (w_sched w)" and "distinct qs"
    and "\<forall>q \<in> set qs. \<exists>sl. bt_get (sc_slots (w_sched w)) q = Some sl \<and> sl_phase sl = Decoding"
  shows "op_wp (serve_decodes eng qs ops)
    (\<lambda>_ w'. (qs = [] \<and> w' = w) \<or> batch_served (w_sched w) (w_sched w')) (\<lambda>_ w'. sched_inv (w_sched w')) w"
  using assms
proof (induction qs arbitrary: ops w)
  case Nil
  then show ?case by (simp add: op_wp_return)
next
  case (Cons q qs)
  let ?Q = "\<lambda>_ w'. (q # qs = [] \<and> w' = w) \<or> batch_served (w_sched w) (w_sched w')"
  let ?E = "\<lambda>_ w'. sched_inv (w_sched w')"
  obtain sl where sl: "bt_get (sc_slots (w_sched w)) q = Some sl" "sl_phase sl = Decoding"
    using Cons.prems by auto
  have "op_wp (case op1 of OpFail _ \<Rightarrow> op_return (ops @ [op1]) | _ \<Rightarrow> serve_decodes eng qs (ops @ [op1])) ?Q ?E w'"
    if served: "served q (w_sched w) (w_sched w')" for op1 w'
  proof -
    have first: "batch_served (w_sched w) (w_sched w')" using served by (rule served_batch)
    have "\<forall>q' \<in> set qs. \<exists>sl. bt_get (sc_slots (w_sched w')) q' = Some sl \<and> sl_phase sl = Decoding"
      using served Cons.prems by (auto simp: served_def)
    then have "op_wp (serve_decodes eng qs (ops @ [op1])) ?Q ?E w'"
      using served Cons.prems
      by (intro op_wp_mono [OF Cons.IH]) (auto simp: served_def intro: batch_served_trans [OF first] first)
    then show ?thesis by (cases op1) (simp_all add: op_wp_return first)
  qed
  then show ?case
    unfolding serve_decodes.simps op_wp_bind
    by (intro op_wp_mono [OF wp_serve_decode_one [OF Cons.prems(1) sl]])
qed

subsection \<open>Choosing\<close>

lemma min_by_key_None: "min_by_key f xs = None \<longleftrightarrow> xs = []"
  by (cases xs) (auto split: option.splits)

lemma min_by_key_Some:
  "min_by_key f xs = Some x \<Longrightarrow> x \<in> set xs \<and> (\<forall>y \<in> set xs. f x \<le> f y)"
proof (induction xs arbitrary: x)
  case (Cons a xs)
  show ?case
  proof (cases "min_by_key f xs")
    case None
    then show ?thesis using Cons.prems by (simp add: min_by_key_None)
  next
    case (Some y)
    then show ?thesis using Cons.prems Cons.IH [OF Some] by (auto split: if_splits)
  qed
qed simp

lemma list_min_None: "list_min xs = None \<longleftrightarrow> xs = []"
  by (cases xs) (auto split: option.splits)

lemma list_min_Some: "list_min xs = Some n \<Longrightarrow> n \<in> set xs \<and> (\<forall>m \<in> set xs. n \<le> m)"
proof (induction xs arbitrary: n)
  case (Cons a xs)
  show ?case
  proof (cases "list_min xs")
    case None
    then show ?thesis using Cons.prems by (simp add: list_min_None)
  next
    case (Some m)
    then show ?thesis using Cons.prems Cons.IH [OF Some] by (auto simp: min_def split: if_splits)
  qed
qed simp

lemma slot_values:
  assumes "sched_inv s"
  shows "sl \<in> set (bt_values (sc_slots s)) \<longleftrightarrow> bt_get (sc_slots s) (sl_sequence_id sl) = Some sl"
  unfolding bt_values_iff [OF sched_inv_bt [OF assms]]
  using sched_inv_slot [OF assms] by (auto simp: slot_ok_def)

lemma sequence_ids: "sched_inv s \<Longrightarrow> map sl_sequence_id (bt_values (sc_slots s)) = map fst (sc_slots s)"
proof -
  assume inv: "sched_inv s"
  then have "sl_sequence_id sl = q" if "(q, sl) \<in> set (sc_slots s)" for q sl
    using sched_inv_slot [OF inv, of q sl] that bt_get_iff [OF sched_inv_bt [OF inv]]
    by (auto simp: slot_ok_def)
  then show ?thesis by (auto simp: bt_values_def)
qed

text \<open>The picked request is runnable and no runnable one has a smaller virtual time.\<close>

lemma pick_runnable_Some:
  assumes "sched_inv s" and "pick_runnable s = Some q"
  shows "\<exists>sl. bt_get (sc_slots s) q = Some sl \<and> is_runnable sl \<and>
    (\<forall>r sl'. bt_get (sc_slots s) r = Some sl' \<and> is_runnable sl' \<longrightarrow> (sl_vtime sl, q) \<le> (sl_vtime sl', r))"
proof -
  from assms(2) obtain sl where m: "min_by_key (\<lambda>sl. (sl_vtime sl, sl_sequence_id sl))
      (filter is_runnable (bt_values (sc_slots s))) = Some sl" "q = sl_sequence_id sl"
    by (auto simp: pick_runnable_def)
  note min = min_by_key_Some [OF m(1)]
  then have "bt_get (sc_slots s) q = Some sl" "is_runnable sl"
    using slot_values [OF assms(1)] m(2) by auto
  moreover have "(sl_vtime sl, q) \<le> (sl_vtime sl', r)"
    if "bt_get (sc_slots s) r = Some sl'" "is_runnable sl'" for r sl'
  proof -
    have "sl_sequence_id sl' = r" using sched_inv_slot [OF assms(1) that(1)] by (simp add: slot_ok_def)
    then have "sl' \<in> set (filter is_runnable (bt_values (sc_slots s)))"
      using that slot_values [OF assms(1), of sl'] by simp
    then show ?thesis using min m(2) \<open>sl_sequence_id sl' = r\<close> by force
  qed
  ultimately show ?thesis by blast
qed

lemma pick_runnable_None:
  "sched_inv s \<Longrightarrow> pick_runnable s = None \<longleftrightarrow>
   (\<forall>q sl. bt_get (sc_slots s) q = Some sl \<longrightarrow> \<not> is_runnable sl)"
  by (auto simp: pick_runnable_def min_by_key_None filter_empty_conv bt_values_iff [OF sched_inv_bt])

lemma pick_cancel_Some:
  assumes "sched_inv s" and "pick_cancel s = Some q"
  shows "\<exists>sl. bt_get (sc_slots s) q = Some sl \<and> sl_cancel sl \<and> sl_phase sl \<noteq> Done"
proof -
  from assms(2) obtain sl where "find (\<lambda>sl. sl_cancel sl \<and> sl_phase sl \<noteq> Done) (bt_values (sc_slots s)) = Some sl"
      "q = sl_sequence_id sl"
    by (auto simp: pick_cancel_def)
  then show ?thesis using slot_values [OF assms(1), of sl]
    by (auto simp: find_Some_iff)
qed

lemma pick_cancel_None:
  "sched_inv s \<Longrightarrow> pick_cancel s = None \<longleftrightarrow>
   (\<forall>q sl. bt_get (sc_slots s) q = Some sl \<longrightarrow> sl_cancel sl \<longrightarrow> sl_phase sl = Done)"
  by (auto simp: pick_cancel_def find_None_iff bt_values_iff [OF sched_inv_bt])

text \<open>The decode batch: the decoding requests that no waiting prefill is ahead of, in order.\<close>

definition in_decode_batch :: "scheduler \<Rightarrow> slot \<Rightarrow> bool" where
  "in_decode_batch s sl \<longleftrightarrow> \<not> sl_cancel sl \<and> sl_phase sl = Decoding \<and>
    (\<forall>q sl'. bt_get (sc_slots s) q = Some sl' \<and> awaits_prefill sl' \<longrightarrow> sl_vtime sl \<le> sl_vtime sl')"

lemma decode_batch_props:
  assumes inv: "sched_inv s"
  shows "distinct (decode_batch s)"
    and "q \<in> set (decode_batch s) \<longleftrightarrow> (\<exists>sl. bt_get (sc_slots s) q = Some sl \<and> in_decode_batch s sl)"
proof -
  let ?vs = "bt_values (sc_slots s)"
  let ?min = "list_min (map sl_vtime (filter awaits_prefill ?vs))"
  let ?P = "\<lambda>sl. \<not> (sl_cancel sl \<or> sl_phase sl \<noteq> Decoding) \<and>
      (case ?min of Some bound \<Rightarrow> \<not> sl_vtime sl > bound | None \<Rightarrow> True)"
  let ?rows = "map (\<lambda>sl. (sl_vtime sl, sl_sequence_id sl)) (filter ?P ?vs)"
  have batch: "decode_batch s = map snd (sort ?rows)" by (simp add: decode_batch_def Let_def)
  have ids: "map snd ?rows = map sl_sequence_id (filter ?P ?vs)" by (simp add: comp_def)
  have "distinct (map sl_sequence_id ?vs)"
    using sequence_ids [OF inv] bt_ok_distinct [OF sched_inv_bt [OF inv]] by simp
  then have distinct: "distinct (map snd ?rows)" unfolding ids by (rule distinct_map_filter)
  have same: "mset (map snd (sort ?rows)) = mset (map snd ?rows)" by (simp only: mset_map mset_sort)
  show "distinct (decode_batch s)"
    unfolding batch using distinct mset_eq_imp_distinct_iff [OF same] by (rule iffD2 [rotated])
  have waits: "(\<exists>q. bt_get (sc_slots s) q = Some sl' \<and> awaits_prefill sl') \<longleftrightarrow>
      sl' \<in> set (filter awaits_prefill ?vs)" for sl'
    by (auto simp: bt_values_iff [OF sched_inv_bt [OF inv]])
  have bound: "(case ?min of Some bound \<Rightarrow> \<not> v > bound | None \<Rightarrow> True) \<longleftrightarrow>
      (\<forall>sl' \<in> set (filter awaits_prefill ?vs). v \<le> sl_vtime sl')" for v
  proof (cases ?min)
    case None
    then have "filter awaits_prefill ?vs = []" unfolding list_min_None by simp
    then show ?thesis unfolding None by simp
  next
    case (Some n)
    note min = list_min_Some [OF Some]
    obtain m where m: "m \<in> set (filter awaits_prefill ?vs)" "n = sl_vtime m" using min by auto
    have "\<forall>sl' \<in> set (filter awaits_prefill ?vs). n \<le> sl_vtime sl'" using min by auto
    then show ?thesis unfolding Some using m by (auto dest: order_trans)
  qed
  have P: "?P sl \<longleftrightarrow> in_decode_batch s sl" for sl
    unfolding bound in_decode_batch_def using waits by blast
  have "set (decode_batch s) = set (map snd ?rows)"
    unfolding batch using same by (rule mset_eq_setD)
  also have "\<dots> = sl_sequence_id ` set (filter ?P ?vs)" by (simp only: ids set_map)
  also have "set (filter ?P ?vs) = {sl \<in> set ?vs. in_decode_batch s sl}"
    unfolding set_filter by (intro Collect_cong conj_cong refl P)
  finally have "set (decode_batch s) = sl_sequence_id ` {sl \<in> set ?vs. in_decode_batch s sl}" .
  then show "q \<in> set (decode_batch s) \<longleftrightarrow> (\<exists>sl. bt_get (sc_slots s) q = Some sl \<and> in_decode_batch s sl)"
    using sched_inv_slot [OF inv, of q] by (auto simp: slot_values [OF inv] slot_ok_def)
qed

subsection \<open>Iterations\<close>

lemma wp_serve_decode_batch:
  assumes inv: "sched_inv (w_sched w)" and q: "q \<in> set (decode_batch (w_sched w))"
  shows "op_wp (serve_decode_batch eng)
    (\<lambda>st w'. batch_served (w_sched w) (w_sched w') \<and> step_batch st = decode_batch (w_sched w))
    (\<lambda>_ w'. sched_inv (w_sched w')) w"
proof -
  have ne: "decode_batch (w_sched w) \<noteq> []" using q by auto
  have dec: "\<forall>q \<in> set (decode_batch (w_sched w)).
      \<exists>sl. bt_get (sc_slots (w_sched w)) q = Some sl \<and> sl_phase sl = Decoding"
    by (auto simp: decode_batch_props(2) [OF inv] in_decode_batch_def)
  show ?thesis
    unfolding serve_decode_batch_def op_wp_bind op_wp_gets op_wp_if if_not_P [OF ne]
    by (rule op_wp_mono [OF wp_serve_decodes [OF inv decode_batch_props(1) [OF inv] dec]])
      (use ne in \<open>auto simp: op_wp_return\<close>)
qed

definition all_done :: "scheduler \<Rightarrow> bool" where
  "all_done s \<longleftrightarrow> (\<forall>q sl. bt_get (sc_slots s) q = Some sl \<longrightarrow> sl_phase sl = Done)"

text \<open>An iteration makes progress or finds every request finished; a failed one keeps the invariant.\<close>

definition stepped :: "scheduler \<Rightarrow> schedule_step option \<Rightarrow> scheduler \<Rightarrow> bool" where
  "stepped s st t \<longleftrightarrow> (case st of
     Some _ \<Rightarrow> batch_served s t
   | None \<Rightarrow> sc_slots t = sc_slots s \<and> sched_inv t \<and> all_done s)"

lemma wp_step_once:
  assumes inv: "sched_inv (w_sched w)"
  shows "op_wp (step_once eng) (\<lambda>st w'. stepped (w_sched w) st (w_sched w'))
    (\<lambda>_ w'. sched_inv (w_sched w')) w"
    (is "op_wp _ ?Q ?E w")
proof -
  let ?s = "w_sched w"
  have some: "op_wp (op_bind m (\<lambda>st. op_return (Some st))) ?Q ?E w"
    if "op_wp m (\<lambda>_ w'. batch_served ?s (w_sched w')) ?E w" for m :: "(('a, 'b) world, schedule_step) op"
    unfolding op_wp_bind by (rule op_wp_mono [OF that]) (simp_all add: op_wp_return stepped_def)
  have cancel: "op_wp (serve_cancel eng q) (\<lambda>_ w'. batch_served ?s (w_sched w')) ?E w"
    if "pick_cancel ?s = Some q" for q
    using pick_cancel_Some [OF inv that]
    by (auto intro!: op_wp_mono [OF wp_serve_cancel [OF inv]] dest: served_batch)
  have serve: "op_wp (op_bind (get_slot q) (\<lambda>sl.
      if sl_phase sl = Decoding then op_bind (serve_decode_batch eng) (\<lambda>st. op_return (Some st))
      else op_bind (serve_prefill eng q) (\<lambda>st. op_return (Some st)))) ?Q ?E w"
    if picked: "pick_runnable ?s = Some q" for q
  proof -
    obtain sl where sl: "bt_get (sc_slots ?s) q = Some sl" "is_runnable sl"
        and min: "\<And>r sl'. bt_get (sc_slots ?s) r = Some sl' \<Longrightarrow> is_runnable sl' \<Longrightarrow> (sl_vtime sl, q) \<le> (sl_vtime sl', r)"
      using pick_runnable_Some [OF inv picked] by blast
    show ?thesis
    proof (cases "sl_phase sl = Decoding")
      case True
      have "in_decode_batch ?s sl"
        using True sl(2) min by (force simp: in_decode_batch_def awaits_prefill_def is_runnable_def)
      then have "q \<in> set (decode_batch ?s)" using sl(1) decode_batch_props(2) [OF inv] by blast
      from wp_serve_decode_batch [OF inv this]
      have "op_wp (serve_decode_batch eng) (\<lambda>_ w'. batch_served ?s (w_sched w')) ?E w"
        by (rule op_wp_mono) auto
      from some [OF this] True show ?thesis unfolding op_wp_bind [of "get_slot q"] wp_get_slot [OF sl(1)] by simp
    next
      case False
      then have "sl_phase sl = Queued \<or> sl_phase sl = Prefilling"
        using sl(2) by (cases "sl_phase sl") (auto simp: is_runnable_def)
      from wp_serve_prefill [OF inv sl(1) this]
      have "op_wp (serve_prefill eng q) (\<lambda>_ w'. batch_served ?s (w_sched w')) ?E w"
        by (rule op_wp_mono) (auto dest: served_batch)
      from some [OF this] False show ?thesis unfolding op_wp_bind [of "get_slot q"] wp_get_slot [OF sl(1)] by simp
    qed
  qed
  have idle: "stepped ?s None ?s" if "pick_cancel ?s = None" "pick_runnable ?s = None"
    using that inv by (auto simp: stepped_def all_done_def pick_cancel_None pick_runnable_None is_runnable_def)
  show ?thesis
    unfolding step_once_def op_wp_bind [of "op_getr _"] op_wp_bind [of "op_gets _"] op_wp_getr op_wp_gets
    using inv some [OF cancel] serve idle
    by (auto simp: op_wp_bind [of "op_gets _"] op_wp_gets op_wp_return split: option.split)
qed

lemma stepped_counters: "stepped s st (t\<lparr>sc_counters := ct\<rparr>) = stepped s st t"
  by (auto simp: stepped_def batch_served_def sched_bounded_def sched_work_def split: option.split)

lemma wp_sched_step:
  assumes inv: "sched_inv (w_sched w)"
  shows "op_wp (sched_step eng) (\<lambda>st w'. stepped (w_sched w) st (w_sched w'))
    (\<lambda>_ w'. sched_inv (w_sched w')) w"
  unfolding sched_step_def op_wp_bind op_wp_try
  by (rule op_wp_mono [OF wp_step_once [OF inv]])
    (simp_all add: wp_elapsed op_wp_seq wp_on_counters op_wp_lift stepped_counters)

text \<open>
  The run to idle: with more iterations allowed than there is work, it does not run out of them; it
  returns the results of a scheduler in which every request is finished, or fails in an iteration.
\<close>

definition ran :: "('m, 'k) engine \<Rightarrow> infer_failure \<Rightarrow> ('m, 'k) world \<Rightarrow> bool" where
  "ran eng e w \<longleftrightarrow> (\<exists>v. sched_inv (w_sched v) \<and> sched_step eng v = (Inl e, w))"

lemma wp_run_iterations:
  assumes "sched_inv (w_sched w)" and "sched_bounded (w_sched w)" and "sched_work (w_sched w) < n"
  shows "op_wp (run_iterations eng n)
    (\<lambda>rs w'. sched_inv (w_sched w') \<and> all_done (w_sched w') \<and> sched_bounded (w_sched w') \<and> rs = results (w_sched w'))
    (\<lambda>e w'. sched_inv (w_sched w') \<and> ran eng e w') w"
  using assms
proof (induction n arbitrary: w)
  case (Suc n)
  have "op_wp (sched_step eng) (\<lambda>st w'. stepped (w_sched w) st (w_sched w'))
      (\<lambda>e w'. sched_inv (w_sched w') \<and> ran eng e w') w"
    using op_wp_conj [OF wp_sched_step [OF Suc.prems(1), of eng]
        op_wpI [of "sched_step eng" w "\<lambda>_ _. True" "ran eng"]] Suc.prems(1)
    by (auto simp: ran_def elim: op_wp_mono)
  then show ?case
    unfolding run_iterations.simps op_wp_bind
  proof (rule op_wp_mono)
    fix st and w' :: "('a, 'b) world" assume st: "stepped (w_sched w) st (w_sched w')"
    show "op_wp (case st of None \<Rightarrow> op_gets (\<lambda>w. results (w_sched w)) | Some x \<Rightarrow> run_iterations eng n)
      (\<lambda>rs w'. sched_inv (w_sched w') \<and> all_done (w_sched w') \<and> sched_bounded (w_sched w') \<and> rs = results (w_sched w'))
      (\<lambda>e w'. sched_inv (w_sched w') \<and> ran eng e w') w'"
    proof (cases st)
      case None
      then show ?thesis using st Suc.prems(2)
        by (simp add: op_wp_gets stepped_def all_done_def sched_bounded_def)
    next
      case (Some x)
      then have "batch_served (w_sched w) (w_sched w')" using st by (simp add: stepped_def)
      then have "sched_inv (w_sched w')" "sched_bounded (w_sched w')" "sched_work (w_sched w') < n"
        using Suc.prems by (auto simp: batch_served_def)
      then show ?thesis using Some by (simp add: Suc.IH)
    qed
  qed
qed simp

subsection \<open>Reachable schedulers\<close>

text \<open>
  Any interleaving of the public operations, accepted or refused, with a model and a store that
  may change between them.
\<close>

inductive sched_reachable :: "('m, 'k) engine \<Rightarrow> scheduler_config \<Rightarrow> ('m, 'k) world \<Rightarrow> bool"
  for eng cfg where
  start: "w_sched w = scheduler_new cfg \<Longrightarrow> sched_reachable eng cfg w"
| submit: "sched_reachable eng cfg w \<Longrightarrow> sched_reachable eng cfg (w\<lparr>w_sched := snd (submit rq (w_sched w))\<rparr>)"
| cancel: "sched_reachable eng cfg w \<Longrightarrow> sched_reachable eng cfg (w\<lparr>w_sched := snd (cancel r (w_sched w))\<rparr>)"
| reap: "sched_reachable eng cfg w \<Longrightarrow> sched_reachable eng cfg (w\<lparr>w_sched := snd (reap r (w_sched w))\<rparr>)"
| step: "sched_reachable eng cfg w \<Longrightarrow> sched_reachable eng cfg (snd (sched_step eng w))"
| outside: "sched_reachable eng cfg w \<Longrightarrow> sched_reachable eng cfg (w\<lparr>w_model := m, w_kv := k, w_clock := n\<rparr>)"

lemma sched_inv_step: "sched_inv (w_sched w) \<Longrightarrow> sched_inv (w_sched (snd (sched_step eng w)))"
  using wp_sched_step [of w eng]
  by (auto simp: op_wp_def stepped_def batch_served_def split: prod.splits sum.splits option.splits)

lemma sched_reachable_inv:
  assumes "sched_reachable eng cfg w" and "config_ok cfg"
  shows "sched_inv (w_sched w)"
  using assms
  by (induction rule: sched_reachable.induct)
    (simp_all add: sched_inv_new sched_inv_submit sched_inv_cancel sched_inv_reap sched_inv_step)

text \<open>The token bound is kept by every operation but a failed iteration.\<close>

lemma sched_bounded_new: "sched_bounded (scheduler_new cfg)"
  by (simp add: sched_bounded_def scheduler_new_def)

lemma sched_bounded_submit:
  assumes "sched_inv s" and "sched_bounded s"
  shows "sched_bounded (snd (submit rq s))"
proof (cases "admit_check rq s")
  case (Inl e)
  then show ?thesis using assms by (simp add: submit_def admit_def sched_bounded_def)
next
  case (Inr x)
  obtain q pages reserved where x: "x = (q, pages, reserved)" by (cases x)
  have "slot_bounded (new_slot rq q v pages)" for v
    using sampler_max_tokens_pos admit_check_Inr [OF Inr [unfolded x]]
    by (simp add: slot_bounded_def new_slot_def max_tokens_def)
  then show ?thesis
    using Inr x assms sched_inv_bt [OF assms(1)]
    by (auto simp: submit_def admit_def sched_bounded_def split: if_splits)
qed

lemma sched_bounded_cancel:
  assumes "sched_bounded s"
  shows "sched_bounded (snd (cancel r s))"
proof -
  have "slot_bounded (sl\<lparr>sl_cancel := True\<rparr>) = slot_bounded sl" for sl
    by (simp add: slot_bounded_def max_tokens_def)
  then show ?thesis using assms
    by (auto simp: cancel_def sched_bounded_def split: option.splits sum.splits)
qed

lemma sched_bounded_reap: "sched_bounded s \<Longrightarrow> sched_bounded (snd (reap r s))"
  by (auto simp: reap_def sched_bounded_def split: option.splits sum.splits)

end
