(* ===== verification/Single_Kv.thy ===== *)
theory Single_Kv
  imports Kv_Store
begin

text \<open>
  One contiguous KV block per sequence: \<open>crates/infer-engine/src/kv.rs\<close>. The operations, their
  invariant, and the interpretation of the store contract on them. The source multiplies \<open>usize\<close>
  values without a check and \<open>SingleBlockKv::new\<close> puts no bound on the layout, so the products wrap
  here as in a release build; the invariant asks for a layout whose slots fit \<open>usize\<close>, and
  \<open>single_layers_alias\<close> shows what happens without it.
\<close>

definition max_sequences :: nat where
  "max_sequences = 8"

record sequence_state =
  ss_block_id :: nat
  ss_len :: nat
  ss_k :: "f32 list"
  ss_v :: "f32 list"

record single_kv =
  sk_layout :: kv_layout
  sk_next_block :: nat
  sk_sequences :: "(nat, sequence_state) btree"

definition single_new :: "kv_layout \<Rightarrow> single_kv res" where
  "single_new layout =
    (if lay_layers layout = 0 \<or> lay_kv_heads layout = 0 \<or> lay_head_dim layout = 0
        \<or> lay_block_size layout = 0 \<or> lay_dtype layout \<noteq> ''f32''
     then Inl (fail ContractInvalid ''kv layout is not a single f32 block'')
     else Inr \<lparr>sk_layout = layout, sk_next_block = 0, sk_sequences = []\<rparr>)"

definition single_sequence :: "nat \<Rightarrow> single_kv \<Rightarrow> sequence_state res" where
  "single_sequence q s =
    ok_or (bt_get (sk_sequences s) q) ContractInvalid ''sequence has no KV block''"

definition single_snapshot :: "nat \<Rightarrow> single_kv \<Rightarrow> kv_snapshot res" where
  "single_snapshot q s =
    rbind (single_sequence q s) (\<lambda>st.
      Inr \<lparr>snap_len = ss_len st, snap_block_table = [ss_block_id st], snap_k = ss_k st,
           snap_v = ss_v st\<rparr>)"

definition single_width :: "single_kv \<Rightarrow> nat" where
  "single_width s = wrap_u64 (layout_width (sk_layout s))"

definition single_offset :: "nat \<Rightarrow> nat \<Rightarrow> single_kv \<Rightarrow> nat res" where
  "single_offset l token s =
    (if l \<ge> lay_layers (sk_layout s)
     then Inl (fail ContractInvalid ''kv layer is outside the layout'')
     else if token \<ge> lay_block_size (sk_layout s)
     then Inl (fail ContextLimitExceeded ''kv token is outside the single block'')
     else Inr (wrap_u64 (wrap_u64 (wrap_u64 (l * lay_block_size (sk_layout s)) + token) * single_width s)))"

definition single_begin_sequence :: "nat \<Rightarrow> (single_kv, unit) op" where
  "single_begin_sequence q s =
    (if bt_get (sk_sequences s) q \<noteq> None
     then (Inl (fail ContractInvalid ''sequence already has a KV block''), s)
     else if length (sk_sequences s) \<ge> max_sequences
     then (Inl (fail InsufficientMemory ''single-block KV store is full''), s)
     else
      (let slots = wrap_u64 (wrap_u64 (lay_layers (sk_layout s) * lay_block_size (sk_layout s)) * single_width s) in
       (Inr (), s\<lparr>sk_next_block := saturating_add_u32 (sk_next_block s) 1,
          sk_sequences := bt_insert q
            \<lparr>ss_block_id = sk_next_block s, ss_len = 0, ss_k = replicate slots 0,
             ss_v = replicate slots 0\<rparr> (sk_sequences s)\<rparr>)))"

definition single_release_sequence :: "nat \<Rightarrow> (single_kv, unit) op" where
  "single_release_sequence q s =
    (if bt_get (sk_sequences s) q = None
     then (Inl (fail ContractInvalid ''sequence has no KV block''), s)
     else (Inr (), s\<lparr>sk_sequences := bt_remove q (sk_sequences s)\<rparr>))"

definition single_token_len :: "nat \<Rightarrow> single_kv \<Rightarrow> nat res" where
  "single_token_len q s = rbind (single_sequence q s) (\<lambda>st. Inr (ss_len st))"

definition single_block_table :: "nat \<Rightarrow> single_kv \<Rightarrow> nat list res" where
  "single_block_table q s = rbind (single_sequence q s) (\<lambda>st. Inr [ss_block_id st])"

definition single_commit_token :: "nat \<Rightarrow> (single_kv, nat) op" where
  "single_commit_token q s =
    (case single_sequence q s of
       Inl e \<Rightarrow> (Inl e, s)
     | Inr st \<Rightarrow>
        if ss_len st \<ge> lay_block_size (sk_layout s)
        then (Inl (fail ContextLimitExceeded ''kv block is full''), s)
        else (Inr (ss_len st + 1),
          s\<lparr>sk_sequences := bt_update q (\<lambda>st. st\<lparr>ss_len := ss_len st + 1\<rparr>) (sk_sequences s)\<rparr>))"

text \<open>The trait's default: nothing is pending in a single block.\<close>

definition single_abort_pending :: "nat \<Rightarrow> (single_kv, unit) op" where
  "single_abort_pending q = op_return ()"

definition single_write :: "nat \<Rightarrow> nat \<Rightarrow> nat \<Rightarrow> f32 list \<Rightarrow> bool \<Rightarrow> (single_kv, unit) op" where
  "single_write q l token values key s =
    (if length values \<noteq> single_width s
     then (Inl (fail ContractInvalid ''kv vector width does not match the layout''), s)
     else case single_offset l token s of
       Inl e \<Rightarrow> (Inl e, s)
     | Inr off \<Rightarrow> (case single_sequence q s of
         Inl e \<Rightarrow> (Inl e, s)
       | Inr st \<Rightarrow>
          if token \<noteq> ss_len st
          then (Inl (fail ContractInvalid ''kv write must fill the open token''), s)
          else (Inr (), s\<lparr>sk_sequences := bt_update q
            (\<lambda>st. if key then st\<lparr>ss_k := splice off values (ss_k st)\<rparr>
                  else st\<lparr>ss_v := splice off values (ss_v st)\<rparr>) (sk_sequences s)\<rparr>)))"

definition single_read :: "nat \<Rightarrow> nat \<Rightarrow> nat \<Rightarrow> nat \<Rightarrow> bool \<Rightarrow> single_kv \<Rightarrow> f32 list res" where
  "single_read q l token out_len key s =
    (if out_len \<noteq> single_width s
     then Inl (fail ContractInvalid ''kv vector width does not match the layout'')
     else rbind (single_offset l token s) (\<lambda>off.
       rbind (single_sequence q s) (\<lambda>st.
       if token > ss_len st then Inl (fail ContractInvalid ''kv read is past the open token'')
       else Inr (slice off out_len (if key then ss_k st else ss_v st)))))"

subsection \<open>Invariant\<close>

definition single_inv :: "single_kv \<Rightarrow> bool" where
  "single_inv s \<longleftrightarrow> layout_ok (sk_layout s) \<and> layout_slots (sk_layout s) \<le> u64_max \<and> bt_ok (sk_sequences s) \<and>
    length (sk_sequences s) \<le> max_sequences \<and>
    (\<forall>q st. bt_get (sk_sequences s) q = Some st \<longrightarrow>
      length (ss_k st) = layout_slots (sk_layout s) \<and> length (ss_v st) = layout_slots (sk_layout s) \<and>
      ss_len st \<le> lay_block_size (sk_layout s))"

definition single_live :: "single_kv \<Rightarrow> nat \<Rightarrow> bool" where
  "single_live s q \<longleftrightarrow> bt_get (sk_sequences s) q \<noteq> None"

lemmas single_simps = single_sequence_def single_token_len_def single_live_def single_width_def

lemma single_sequence_Inr [res]: "single_sequence q s = Inr st \<longleftrightarrow> bt_get (sk_sequences s) q = Some st"
  by (simp add: single_sequence_def res)

lemma single_offset_Inr [res]:
  "single_offset l token s = Inr off \<longleftrightarrow> l < lay_layers (sk_layout s) \<and>
   token < lay_block_size (sk_layout s) \<and>
   off = wrap_u64 ((l * lay_block_size (sk_layout s) + token) * layout_width (sk_layout s))"
  by (auto simp: single_offset_def single_width_def wrap_u64_nested)

text \<open>In a layout that fits nothing wraps.\<close>

lemma single_inv_fits:
  assumes "single_inv s"
  shows "single_width s = layout_width (sk_layout s)"
    and "layout_slots (sk_layout s) \<le> u64_max"
    and "wrap_u64 (wrap_u64 (lay_layers (sk_layout s) * lay_block_size (sk_layout s)) * single_width s) =
      layout_slots (sk_layout s)"
proof -
  let ?l = "sk_layout s"
  have "0 < lay_layers ?l * lay_block_size ?l" using assms by (simp add: single_inv_def layout_ok_def)
  then have "layout_width ?l \<le> layout_slots ?l" by (simp add: layout_slots_def)
  moreover show fits: "layout_slots ?l \<le> u64_max" using assms by (simp add: single_inv_def)
  ultimately show "single_width s = layout_width ?l" by (simp add: single_width_def wrap_u64_id)
  show "wrap_u64 (wrap_u64 (lay_layers ?l * lay_block_size ?l) * single_width s) = layout_slots ?l"
    using fits by (simp add: single_width_def wrap_u64_nested wrap_u64_id flip: layout_slots_def)
qed

lemma single_offset_exact:
  assumes inv: "single_inv s" and off: "single_offset l token s = Inr off"
  shows "off = (l * lay_block_size (sk_layout s) + token) * single_width s"
    and "off + single_width s \<le> layout_slots (sk_layout s)"
proof -
  let ?i = "l * lay_block_size (sk_layout s) + token"
  have "?i < lay_layers (sk_layout s) * lay_block_size (sk_layout s)"
    using off by (intro row_bound) (simp_all add: single_offset_Inr)
  from cell_bound [OF this, of "single_width s"]
  have bound: "?i * single_width s + single_width s \<le> layout_slots (sk_layout s)"
    by (simp only: layout_slots_def single_inv_fits(1) [OF inv])
  moreover have "off = wrap_u64 (?i * single_width s)"
    using off by (simp add: single_offset_Inr single_inv_fits(1) [OF inv])
  ultimately show "off = ?i * single_width s"
    using single_inv_fits(2) [OF inv] by (simp add: wrap_u64_id)
  with bound show "off + single_width s \<le> layout_slots (sk_layout s)" by simp
qed

text \<open>No access leaves the slab: the source's slice expressions do not panic.\<close>

lemmas single_offset_bound = single_offset_exact(2)

lemma single_offset_apart:
  assumes inv: "single_inv s"
    and "single_offset l token s = Inr off" and "single_offset l' token' s = Inr off'"
    and "(l, token) \<noteq> (l', token')"
  shows "off + single_width s \<le> off' \<or> off' + single_width s \<le> off"
proof -
  let ?b = "lay_block_size (sk_layout s)"
  have off: "token < ?b" "token' < ?b" "off = (l * ?b + token) * single_width s"
      "off' = (l' * ?b + token') * single_width s"
    using single_offset_exact(1) [OF inv assms(2)] single_offset_exact(1) [OF inv assms(3)] assms(2,3)
    by (simp_all only: single_offset_Inr)
  have "l * ?b + token \<noteq> l' * ?b + token'"
    using row_inj [of l ?b token l' token'] off(1,2) assms(4) by blast
  from cells_apart [OF this, of "single_width s"] show ?thesis by (simp only: off)
qed

lemma length_bt_insert: "length m < n \<Longrightarrow> length (bt_insert k v m) \<le> n"
proof -
  have "length (bt_insert k v m) \<le> Suc (length m)" by (induction m) auto
  then show "length m < n \<Longrightarrow> length (bt_insert k v m) \<le> n" by linarith
qed

lemma length_bt_remove: "length (bt_remove k m) \<le> length m"
  by (simp add: bt_remove_def)

lemma length_bt_update [simp]: "length (bt_update k f m) = length m"
  by (simp add: bt_update_def)

lemma single_new_inv: "single_new layout = Inr s \<Longrightarrow> layout_slots layout \<le> u64_max \<Longrightarrow> single_inv s"
  by (auto simp: single_new_def single_inv_def layout_ok_def split: if_splits)

lemma single_inv_begin: "single_inv s \<Longrightarrow> single_inv (snd (single_begin_sequence q s))"
  using single_inv_fits(3) [of s]
  by (auto simp: single_begin_sequence_def single_inv_def Let_def not_le length_bt_insert)

lemma single_inv_release: "single_inv s \<Longrightarrow> single_inv (snd (single_release_sequence q s))"
  using length_bt_remove [of q "sk_sequences s"]
  by (auto simp: single_release_sequence_def single_inv_def)

lemma single_inv_commit: "single_inv s \<Longrightarrow> single_inv (snd (single_commit_token q s))"
  by (auto simp: single_commit_token_def single_inv_def single_sequence_def split: sum.splits)

subsubsection \<open>Successful calls\<close>

definition single_slab :: "bool \<Rightarrow> sequence_state \<Rightarrow> f32 list" where
  "single_slab key st = (if key then ss_k st else ss_v st)"

lemma single_read_Inr:
  "single_read q l tk w key s = Inr v \<longleftrightarrow>
    (\<exists>st off. bt_get (sk_sequences s) q = Some st \<and> single_offset l tk s = Inr off \<and>
      w = single_width s \<and> tk \<le> ss_len st \<and> v = slice off w (single_slab key st))"
  by (auto simp: single_read_def single_slab_def res cong: conj_cong)

definition single_put :: "nat \<Rightarrow> f32 list \<Rightarrow> bool \<Rightarrow> sequence_state \<Rightarrow> sequence_state" where
  "single_put off values key st =
    (if key then st\<lparr>ss_k := splice off values (ss_k st)\<rparr> else st\<lparr>ss_v := splice off values (ss_v st)\<rparr>)"

lemma single_put_simps [simp]:
  "ss_len (single_put off vs key st) = ss_len st"
  "single_slab key' (single_put off vs key st) =
    (if key' = key then splice off vs (single_slab key st) else single_slab key' st)"
  by (auto simp: single_put_def single_slab_def)

lemma single_write_Inr:
  "single_write q l tk vs key s = (Inr u, t) \<longleftrightarrow>
    (\<exists>st off. bt_get (sk_sequences s) q = Some st \<and> single_offset l tk s = Inr off \<and>
      length vs = single_width s \<and> ss_len st = tk \<and>
      t = s\<lparr>sk_sequences := bt_update q (single_put off vs key) (sk_sequences s)\<rparr>)"
proof -
  have "(\<lambda>st. if key then st\<lparr>ss_k := splice off vs (ss_k st)\<rparr> else st\<lparr>ss_v := splice off vs (ss_v st)\<rparr>) =
      single_put off vs key" for off
    by (auto simp: single_put_def)
  then show ?thesis
    by (auto simp: single_write_def split: sum.splits simp flip: single_sequence_Inr)
qed

lemma single_write_Inl: "single_write q l tk vs key s = (Inl e, t) \<Longrightarrow> t = s"
  by (auto simp: single_write_def split: if_splits sum.splits)

lemma single_inv_slab:
  "single_inv s \<Longrightarrow> bt_get (sk_sequences s) q = Some st \<Longrightarrow>
   length (single_slab key st) = layout_slots (sk_layout s)"
  by (auto simp: single_inv_def single_slab_def)

lemma single_inv_write: "single_inv s \<Longrightarrow> single_inv (snd (single_write q l tk vs key s))"
proof (cases "single_write q l tk vs key s")
  case (Pair r t)
  assume inv: "single_inv s"
  show ?thesis
  proof (cases r)
    case (Inl e)
    with Pair inv show ?thesis by (auto dest: single_write_Inl)
  next
    case (Inr u)
    then obtain st off where w: "bt_get (sk_sequences s) q = Some st" "single_offset l tk s = Inr off"
        "length vs = single_width s" "t = s\<lparr>sk_sequences := bt_update q (single_put off vs key) (sk_sequences s)\<rparr>"
      using Pair by (auto simp: single_write_Inr)
    have "off + length vs \<le> layout_slots (sk_layout s)" using single_offset_bound [OF inv w(2)] w(3) by simp
    with inv w Pair show ?thesis by (auto simp: single_inv_def single_put_def)
  qed
qed

lemma single_read_at [simp]:
  "single_offset l tk (s\<lparr>sk_sequences := m\<rparr>) = single_offset l tk s"
  "single_width (s\<lparr>sk_sequences := m\<rparr>) = single_width s"
  by (simp_all add: single_offset_def single_width_def)

text \<open>A write is read back and disturbs no other vector.\<close>

lemma single_read_write:
  assumes inv: "single_inv s" and w: "single_write q l tk vs key s = (Inr u, t)"
  shows "single_read q l tk (length vs) key t = Inr vs"
    and "(r, l', tk', key') \<noteq> (q, l, tk, key) \<Longrightarrow> single_read r l' tk' n key' s = Inr v \<Longrightarrow>
      single_read r l' tk' n key' t = Inr v"
proof -
  obtain st off where st: "bt_get (sk_sequences s) q = Some st" "single_offset l tk s = Inr off"
      "length vs = single_width s" "ss_len st = tk"
      "t = s\<lparr>sk_sequences := bt_update q (single_put off vs key) (sk_sequences s)\<rparr>"
    using w by (auto simp: single_write_Inr)
  have bound: "off + length vs \<le> length (single_slab key st)"
    using single_offset_bound [OF inv st(2)] st(3) single_inv_slab [OF inv st(1)] by simp
  show "single_read q l tk (length vs) key t = Inr vs"
    using st bound by (simp add: single_read_Inr)
  show "single_read r l' tk' n key' t = Inr v"
    if ne: "(r, l', tk', key') \<noteq> (q, l, tk, key)" and rd: "single_read r l' tk' n key' s = Inr v"
  proof -
    obtain st' off' where st': "bt_get (sk_sequences s) r = Some st'" "single_offset l' tk' s = Inr off'"
        "n = single_width s" "tk' \<le> ss_len st'" "v = slice off' n (single_slab key' st')"
      using rd by (auto simp: single_read_Inr)
    show ?thesis
    proof (cases "r = q \<and> key' = key")
      case True
      with ne have "(l, tk) \<noteq> (l', tk')" by auto
      from single_offset_apart [OF inv st(2) st'(2) this]
      have "slice off' n (splice off vs (single_slab key st)) = slice off' n (single_slab key st)"
        using bound st(3) st'(3) single_offset_bound [OF inv st'(2)] single_inv_slab [OF inv st(1)]
        by (intro slice_splice_disjoint) auto
      with True st st' show ?thesis by (simp add: single_read_Inr)
    next
      case False
      with st st' show ?thesis by (auto simp: single_read_Inr)
    qed
  qed
qed

lemma single_keeps_write:
  assumes "single_inv s"
  shows "kv_keeps single_live single_token_len single_read r s (snd (single_write q l tk vs key s))"
proof (cases "single_write q l tk vs key s")
  case (Pair x t)
  show ?thesis
  proof (cases x)
    case (Inl e)
    with Pair show ?thesis by (auto simp: kv_keeps_def dest: single_write_Inl)
  next
    case (Inr u)
    then have w: "single_write q l tk vs key s = (Inr u, t)" using Pair by simp
    have len: "tk' < n \<Longrightarrow> single_token_len r s = Inr n \<Longrightarrow> (r, l', tk', key') \<noteq> (q, l, tk, key)" for tk' n l' key'
      using w by (auto simp: single_write_Inr single_simps)
    have "single_live s r \<Longrightarrow> single_live t r" "single_token_len r t = single_token_len r s"
      using w by (auto simp: single_write_Inr single_simps)
    with Pair len single_read_write(2) [OF assms w] show ?thesis
      unfolding kv_keeps_def by auto
  qed
qed

interpretation single: kv_store single_begin_sequence single_release_sequence single_commit_token
  single_abort_pending single_write single_read single_token_len single_live single_inv
proof
  fix s q r l tk vs key
  assume inv: "single_inv s"
  show "single_inv (snd (single_begin_sequence q s))" using inv by (rule single_inv_begin)
  show "single_inv (snd (single_release_sequence q s))" using inv by (rule single_inv_release)
  show "single_inv (snd (single_commit_token q s))" using inv by (rule single_inv_commit)
  show "single_inv (snd (single_abort_pending q s))"
    using inv by (simp add: single_abort_pending_def op_return_def)
  show "single_inv (snd (single_write q l tk vs key s))" using inv by (rule single_inv_write)
  show "single_live s q \<Longrightarrow> is_ok (single_token_len q s)" by (auto simp: single_simps)
  have ok: "bt_ok (sk_sequences s)" using inv by (simp add: single_inv_def)
  show "kv_keeps single_live single_token_len single_read r s (snd (single_begin_sequence q s))"
    using ok by (auto simp: kv_keeps_def single_begin_sequence_def Let_def single_simps single_read_Inr
        single_offset_def)
  show "r \<noteq> q \<Longrightarrow> kv_keeps single_live single_token_len single_read r s (snd (single_release_sequence q s))"
    by (auto simp: kv_keeps_def single_release_sequence_def single_simps single_read_Inr)
  show "kv_keeps single_live single_token_len single_read r s (snd (single_commit_token q s))"
    by (auto simp: kv_keeps_def single_commit_token_def single_simps single_read_Inr single_slab_def
        split: sum.splits option.splits)
  show "kv_keeps single_live single_token_len single_read r s (snd (single_abort_pending q s))"
    by (auto simp: kv_keeps_def single_abort_pending_def op_return_def)
  show "kv_keeps single_live single_token_len single_read r s (snd (single_write q l tk vs key s))"
    using inv by (rule single_keeps_write)
next
  fix s q t and u :: unit
  assume inv: "single_inv s"
  then have ok: "bt_ok (sk_sequences s)" by (simp add: single_inv_def)
  show "single_begin_sequence q s = (Inr u, t) \<Longrightarrow> single_live t q \<and> single_token_len q t = Inr 0"
    using ok by (auto simp: single_begin_sequence_def Let_def single_simps split: if_splits)
  show "single_release_sequence q s = (Inr u, t) \<Longrightarrow> \<not> single_live t q \<and> \<not> is_ok (single_token_len q t)"
    by (auto simp: single_release_sequence_def single_simps split: if_splits)
next
  fix s q l tk vs key t and u :: unit
  assume inv: "single_inv s" and w: "single_write q l tk vs key s = (Inr u, t)"
  show "single_token_len q s = Inr tk \<and> single_token_len q t = Inr tk"
    using w by (auto simp: single_write_Inr single_simps)
  show "single_read q l tk (length vs) key t = Inr vs"
    using inv w by (rule single_read_write(1))
  show "(l', key') \<noteq> (l, key) \<Longrightarrow> single_read q l' tk w key' s = Inr v \<Longrightarrow>
      single_read q l' tk w key' t = Inr v" for l' key' w v
    using single_read_write(2) [OF inv w] by auto
next
  fix s q n t l tk w key v
  assume "single_inv s" and c: "single_commit_token q s = (Inr n, t)"
  show "single_token_len q t = Inr n \<and> (\<exists>m. single_token_len q s = Inr m \<and> n = m + 1)"
    using c by (auto simp: single_commit_token_def single_token_len_def res split: sum.splits if_splits)
  show "single_read q l tk w key s = Inr v \<Longrightarrow> single_read q l tk w key t = Inr v"
    using c by (auto simp: single_commit_token_def single_read_Inr single_slab_def
        split: sum.splits if_splits)
qed

text \<open>
  Without the bound the products wrap: in this layout layer \<open>2 ^ 31\<close> starts at the offset of layer 0,
  so a write to one overwrites the committed vectors of the other.
\<close>

definition wide_layout :: kv_layout where
  "wide_layout = \<lparr>lay_layers = 2 ^ 31 + 1, lay_kv_heads = 2 ^ 17, lay_head_dim = 1,
     lay_block_size = 2 ^ 16, lay_dtype = ''f32''\<rparr>"

lemma single_layers_alias:
  "\<exists>s. single_new wide_layout = Inr s \<and> single_offset 0 0 s = Inr 0 \<and> single_offset (2 ^ 31) 0 s = Inr 0"
  by (simp add: single_new_def wide_layout_def single_offset_def single_width_def layout_width_def
      wrap_u64_def)

end
