(* ===== verification/Paged_Kv.thy ===== *)
theory Paged_Kv
  imports Kv_Store "HOL-Library.Multiset"
begin

text \<open>
  Fixed-size KV pages: \<open>crates/infer-engine/src/paged.rs\<close>. A page pool, a sorted free set and a
  page table per sequence. A page is reserved for the open token and enters the table when that
  token is committed; a full pool takes the pages of inactive sequences; a freed page is zeroed.
\<close>

record page =
  pg_k :: "f32 list"
  pg_v :: "f32 list"

record sequence_pages =
  sq_committed :: "nat list"
  sq_pending :: "nat option"
  sq_len :: nat
  sq_active :: bool

record kv_census =
  census_total :: nat
  census_free :: nat
  census_pinned :: nat

record paged_kv =
  pk_layout :: kv_layout
  pk_pages :: "page list"
  pk_free :: "nat list"
  pk_sequences :: "(nat, sequence_pages) btree"

subsection \<open>Operations\<close>

definition paged_allocate :: "kv_layout \<Rightarrow> nat \<Rightarrow> nat \<Rightarrow> paged_kv res" where
  "paged_allocate layout page_count slots =
    rbind (ok_or (if slots \<le> u64_max then Some slots else None) ContractInvalid
      ''kv page size overflows'') (\<lambda>slots.
    Inr \<lparr>pk_layout = layout,
      pk_pages = replicate page_count \<lparr>pg_k = replicate slots 0, pg_v = replicate slots 0\<rparr>,
      pk_free = [0..<page_count], pk_sequences = []\<rparr>)"

definition paged_new :: "kv_layout \<Rightarrow> nat \<Rightarrow> paged_kv res" where
  "paged_new layout page_count =
    rbind (planned_kv_pool layout page_count) (\<lambda>pool.
      paged_allocate layout page_count (pool_slots pool))"

definition paged_with_limit :: "kv_layout \<Rightarrow> nat \<Rightarrow> nat \<Rightarrow> paged_kv res" where
  "paged_with_limit layout page_count max_bytes =
    rbind (planned_kv_pool_within layout page_count max_bytes) (\<lambda>pool.
      paged_allocate layout page_count (pool_slots pool))"

definition zero_page :: "page \<Rightarrow> page" where
  "zero_page p = \<lparr>pg_k = replicate (length (pg_k p)) 0, pg_v = replicate (length (pg_v p)) 0\<rparr>"

definition paged_free_page :: "nat \<Rightarrow> paged_kv \<Rightarrow> paged_kv" where
  "paged_free_page p s =
    (if p < length (pk_pages s)
     then s\<lparr>pk_pages := (pk_pages s)[p := zero_page (pk_pages s ! p)],
            pk_free := bs_insert p (pk_free s)\<rparr>
     else s)"

definition paged_sequence :: "nat \<Rightarrow> paged_kv \<Rightarrow> sequence_pages res" where
  "paged_sequence q s =
    ok_or (bt_get (pk_sequences s) q) ContractInvalid ''sequence has no KV block''"

definition paged_release_sequence :: "nat \<Rightarrow> (paged_kv, unit) op" where
  "paged_release_sequence q s =
    (case paged_sequence q s of
       Inl e \<Rightarrow> (Inl e, s)
     | Inr st \<Rightarrow>
        (let s = s\<lparr>pk_sequences := bt_remove q (pk_sequences s)\<rparr>;
             s = fold paged_free_page (sq_committed st) s;
             s = (case sq_pending st of None \<Rightarrow> s | Some p \<Rightarrow> paged_free_page p s)
         in (Inr (), s)))"

definition paged_invalidate :: "paged_kv \<Rightarrow> paged_kv" where
  "paged_invalidate s =
    (let s = fold (\<lambda>q s. snd (paged_release_sequence q s)) (bt_keys (pk_sequences s)) s
     in s\<lparr>pk_pages := map zero_page (pk_pages s), pk_free := [0..<length (pk_pages s)],
          pk_sequences := []\<rparr>)"

definition paged_resident_bytes :: "paged_kv \<Rightarrow> nat" where
  "paged_resident_bytes s =
    foldl (\<lambda>total p. saturating_add_u64
        (saturating_add_u64 total (saturating_mul_u64 (length (pg_k p)) 4))
        (saturating_mul_u64 (length (pg_v p)) 4)) 0 (pk_pages s)"

definition paged_census :: "paged_kv \<Rightarrow> kv_census" where
  "paged_census s =
    \<lparr>census_total = length (pk_pages s), census_free = length (pk_free s),
     census_pinned = foldl (\<lambda>pinned st.
        if \<not> sq_active st then pinned
        else let pinned = saturating_add_u32 pinned (length (sq_committed st))
             in if sq_pending st \<noteq> None then saturating_add_u32 pinned 1 else pinned)
       0 (bt_values (pk_sequences s))\<rparr>"

definition paged_deactivate :: "nat \<Rightarrow> (paged_kv, unit) op" where
  "paged_deactivate q s =
    (case paged_sequence q s of
       Inl e \<Rightarrow> (Inl e, s)
     | Inr _ \<Rightarrow> (Inr (), s\<lparr>pk_sequences := bt_update q (\<lambda>st. st\<lparr>sq_active := False\<rparr>) (pk_sequences s)\<rparr>))"

definition paged_page :: "nat \<Rightarrow> paged_kv \<Rightarrow> page res" where
  "paged_page p s =
    ok_or (if p < length (pk_pages s) then Some (pk_pages s ! p) else None) ContractInvalid
      ''kv page is outside the pool''"

definition table_of :: "sequence_pages \<Rightarrow> nat list" where
  "table_of st = sq_committed st @ (case sq_pending st of None \<Rightarrow> [] | Some p \<Rightarrow> [p])"

definition paged_snapshot :: "nat \<Rightarrow> paged_kv \<Rightarrow> kv_snapshot res" where
  "paged_snapshot q s =
    rbind (paged_sequence q s) (\<lambda>st.
    rbind (rmap (\<lambda>p. paged_page p s) (sq_committed st)) (\<lambda>ps.
    rbind (case sq_pending st of
        None \<Rightarrow> Inr []
      | Some p \<Rightarrow> rbind (paged_page p s) (\<lambda>g. Inr [g])) (\<lambda>gs.
    Inr \<lparr>snap_len = sq_len st, snap_block_table = table_of st,
         snap_k = concat (map pg_k (ps @ gs)), snap_v = concat (map pg_v (ps @ gs))\<rparr>)))"

definition paged_width :: "paged_kv \<Rightarrow> nat" where
  "paged_width s = layout_width (pk_layout s)"

text \<open>
  \<open>reserve\<close>: the lowest free page, or the pages of the first inactive sequence other than \<open>q\<close>.
  Every turn of the loop that does not return removes a sequence.
\<close>

definition paged_victim :: "nat \<Rightarrow> paged_kv \<Rightarrow> nat option" where
  "paged_victim q s =
    map_option fst (find (\<lambda>(r, st). r \<noteq> q \<and> \<not> sq_active st) (pk_sequences s))"

lemma paged_victim_Some:
  "paged_victim q s = Some r \<Longrightarrow> r \<noteq> q \<and> (\<exists>st. (r, st) \<in> set (pk_sequences s) \<and> \<not> sq_active st)"
  by (auto simp: paged_victim_def find_Some_iff) (metis nth_mem)

lemma sequences_free_page [simp]: "pk_sequences (paged_free_page p s) = pk_sequences s"
  by (simp add: paged_free_page_def)

lemma sequences_free_pages [simp]: "pk_sequences (fold paged_free_page ps s) = pk_sequences s"
  by (induction ps arbitrary: s) simp_all

lemma sequences_release:
  "paged_release_sequence r s = (Inr u, t) \<Longrightarrow> pk_sequences t = bt_remove r (pk_sequences s)"
  by (auto simp: paged_release_sequence_def Let_def split: sum.splits option.splits)

lemma length_bt_remove_less: "(k, v) \<in> set m \<Longrightarrow> length (bt_remove k m) < length m"
  unfolding bt_remove_def by (rule length_filter_less [where x = "(k, v)"]) simp_all

function paged_reserve :: "nat \<Rightarrow> (paged_kv, nat) op" where
  "paged_reserve q s =
    (case bs_pop_first (pk_free s) of
       Some (p, free) \<Rightarrow> (Inr p, s\<lparr>pk_free := free\<rparr>)
     | None \<Rightarrow>
        (case paged_victim q s of
           None \<Rightarrow> (Inl (fail InsufficientMemory ''kv page pool is exhausted''), s)
         | Some victim \<Rightarrow>
            (case paged_release_sequence victim s of
               (Inl e, s') \<Rightarrow> (Inl e, s')
             | (Inr _, s') \<Rightarrow> paged_reserve q s')))"
  by pat_completeness auto
termination
  by (relation "measure (\<lambda>(q, s). length (pk_sequences s))")
    (auto dest!: paged_victim_Some dest: sequences_release length_bt_remove_less
      simp: sequences_release [OF sym])

declare paged_reserve.simps [simp del]

definition paged_page_for_write :: "nat \<Rightarrow> nat \<Rightarrow> (paged_kv, nat) op" where
  "paged_page_for_write q token s =
    (case paged_sequence q s of
       Inl e \<Rightarrow> (Inl e, s)
     | Inr st \<Rightarrow>
        let page_index = token div lay_block_size (pk_layout s);
            committed = length (sq_committed st)
        in if page_index = committed then
            (case sq_pending st of
               Some p \<Rightarrow> (Inr p, s)
             | None \<Rightarrow>
                (case paged_reserve q s of
                   (Inl e, s) \<Rightarrow> (Inl e, s)
                 | (Inr p, s) \<Rightarrow>
                    (case paged_sequence q s of
                       Inl e \<Rightarrow> (Inl e, s)
                     | Inr _ \<Rightarrow> (Inr p, s\<lparr>pk_sequences :=
                         bt_update q (\<lambda>st. st\<lparr>sq_pending := Some p\<rparr>) (pk_sequences s)\<rparr>))))
           else if page_index + 1 = committed then
            (if sq_pending st \<noteq> None
             then (Inl (fail ContractInvalid ''kv page was reserved mid-block''), s)
             else (Inr (sq_committed st ! page_index), s))
           else (Inl (fail ContractInvalid ''kv write must fill the open token''), s))"

definition paged_page_for_read :: "sequence_pages \<Rightarrow> nat \<Rightarrow> paged_kv \<Rightarrow> nat res" where
  "paged_page_for_read st token s =
    (if token > sq_len st
     then Inl (fail ContractInvalid ''kv read is past the open token'')
     else let page_index = token div lay_block_size (pk_layout s)
       in if page_index = length (sq_committed st)
          then ok_or (sq_pending st) ContractInvalid ''kv page is not reserved''
          else ok_or (if page_index < length (sq_committed st)
              then Some (sq_committed st ! page_index) else None)
            ContractInvalid ''kv page is not reserved'')"

definition paged_slot_offset :: "nat \<Rightarrow> nat \<Rightarrow> paged_kv \<Rightarrow> nat res" where
  "paged_slot_offset l token s =
    (if l \<ge> lay_layers (pk_layout s)
     then Inl (fail ContractInvalid ''kv layer is outside the layout'')
     else let slot = token mod lay_block_size (pk_layout s)
       in Inr ((l * lay_block_size (pk_layout s) + slot) * paged_width s))"

definition paged_begin_sequence :: "nat \<Rightarrow> (paged_kv, unit) op" where
  "paged_begin_sequence q s =
    (if bt_get (pk_sequences s) q \<noteq> None
     then (Inl (fail ContractInvalid ''sequence already has a KV block''), s)
     else (Inr (), s\<lparr>pk_sequences := bt_insert q
       \<lparr>sq_committed = [], sq_pending = None, sq_len = 0, sq_active = True\<rparr> (pk_sequences s)\<rparr>))"

definition paged_token_len :: "nat \<Rightarrow> paged_kv \<Rightarrow> nat res" where
  "paged_token_len q s = rbind (paged_sequence q s) (\<lambda>st. Inr (sq_len st))"

definition paged_block_table :: "nat \<Rightarrow> paged_kv \<Rightarrow> nat list res" where
  "paged_block_table q s = rbind (paged_sequence q s) (\<lambda>st. Inr (table_of st))"

definition paged_commit_token :: "nat \<Rightarrow> (paged_kv, nat) op" where
  "paged_commit_token q s =
    (case paged_sequence q s of
       Inl e \<Rightarrow> (Inl e, s)
     | Inr st \<Rightarrow>
        if sq_len st mod lay_block_size (pk_layout s) = 0 \<and> sq_pending st = None
        then (Inl (fail ContractInvalid ''kv commit has no reserved page''), s)
        else if sq_len st mod lay_block_size (pk_layout s) \<noteq> 0 \<and> sq_pending st \<noteq> None
        then (Inl (fail ContractInvalid ''kv page was reserved mid-block''), s)
        else
          (let st = (case sq_pending st of
                 Some p \<Rightarrow> st\<lparr>sq_pending := None, sq_committed := sq_committed st @ [p]\<rparr>
               | None \<Rightarrow> st)
           in case checked_add_u32 (sq_len st) 1 of
             None \<Rightarrow> (Inl (fail ContextLimitExceeded ''kv token length overflows''),
               s\<lparr>pk_sequences := bt_update q (\<lambda>_. st) (pk_sequences s)\<rparr>)
           | Some n \<Rightarrow> (Inr n,
               s\<lparr>pk_sequences := bt_update q (\<lambda>_. st\<lparr>sq_len := n\<rparr>) (pk_sequences s)\<rparr>)))"

definition paged_abort_pending :: "nat \<Rightarrow> (paged_kv, unit) op" where
  "paged_abort_pending q s =
    (case paged_sequence q s of
       Inl e \<Rightarrow> (Inl e, s)
     | Inr st \<Rightarrow>
        (let s = s\<lparr>pk_sequences := bt_update q (\<lambda>st. st\<lparr>sq_pending := None\<rparr>) (pk_sequences s)\<rparr>
         in (Inr (), case sq_pending st of None \<Rightarrow> s | Some p \<Rightarrow> paged_free_page p s)))"

definition paged_write :: "nat \<Rightarrow> nat \<Rightarrow> nat \<Rightarrow> f32 list \<Rightarrow> bool \<Rightarrow> (paged_kv, unit) op" where
  "paged_write q l token values key s =
    (if length values \<noteq> paged_width s
     then (Inl (fail ContractInvalid ''kv vector width does not match the layout''), s)
     else case paged_sequence q s of
       Inl e \<Rightarrow> (Inl e, s)
     | Inr st \<Rightarrow>
        if token \<noteq> sq_len st
        then (Inl (fail ContractInvalid ''kv write must fill the open token''), s)
        else case paged_slot_offset l token s of
          Inl e \<Rightarrow> (Inl e, s)
        | Inr off \<Rightarrow>
          (case paged_page_for_write q token s of
             (Inl e, s) \<Rightarrow> (Inl e, s)
           | (Inr p, s) \<Rightarrow>
              (case paged_page p s of
                 Inl e \<Rightarrow> (Inl e, s)
               | Inr g \<Rightarrow> (Inr (), s\<lparr>pk_pages := (pk_pages s)[p :=
                   (if key then g\<lparr>pg_k := splice off values (pg_k g)\<rparr>
                    else g\<lparr>pg_v := splice off values (pg_v g)\<rparr>)]\<rparr>))))"

definition paged_read :: "nat \<Rightarrow> nat \<Rightarrow> nat \<Rightarrow> nat \<Rightarrow> bool \<Rightarrow> paged_kv \<Rightarrow> f32 list res" where
  "paged_read q l token out_len key s =
    (if out_len \<noteq> paged_width s
     then Inl (fail ContractInvalid ''kv vector width does not match the layout'')
     else rbind (paged_slot_offset l token s) (\<lambda>off.
       rbind (paged_sequence q s) (\<lambda>st.
       rbind (paged_page_for_read st token s) (\<lambda>p.
       rbind (paged_page p s) (\<lambda>g.
       Inr (slice off out_len (if key then pg_k g else pg_v g)))))))"

end
