(* ===== verification/Paged_Proofs.thy ===== *)
theory Paged_Proofs
  imports Paged_Kv
begin

text \<open>
  The page pool's invariant and its consequences: the free set, the committed tables and the
  pending pages partition the pool, free pages are zero, an eviction never touches an active
  sequence, and the paged store satisfies the contract of \<open>Kv_Store\<close>.
\<close>

subsection \<open>Invariant\<close>

definition seq_ok :: "nat \<Rightarrow> sequence_pages \<Rightarrow> bool" where
  "seq_ok b st \<longleftrightarrow> length (sq_committed st) = (sq_len st + (b - 1)) div b \<and>
    (sq_pending st \<noteq> None \<longrightarrow> sq_len st mod b = 0) \<and> sq_len st \<le> u32_max"

definition paged_core :: "paged_kv \<Rightarrow> bool" where
  "paged_core s \<longleftrightarrow> layout_ok (pk_layout s) \<and> even (lay_block_size (pk_layout s)) \<and>
    bt_ok (pk_sequences s) \<and> sorted (pk_free s) \<and>
    (\<forall>g \<in> set (pk_pages s). length (pg_k g) = layout_slots (pk_layout s) \<and>
       length (pg_v g) = layout_slots (pk_layout s)) \<and>
    (\<forall>q st. bt_get (pk_sequences s) q = Some st \<longrightarrow> seq_ok (lay_block_size (pk_layout s)) st)"

definition paged_owned :: "paged_kv \<Rightarrow> nat multiset" where
  "paged_owned s = bt_sum (\<lambda>st. mset (table_of st)) (pk_sequences s)"

definition paged_zero :: "page \<Rightarrow> bool" where
  "paged_zero g \<longleftrightarrow> set (pg_k g) \<subseteq> {0} \<and> set (pg_v g) \<subseteq> {0}"

text \<open>\<open>H\<close>: pages taken from the free set and not yet in a table.\<close>

definition paged_inv_with :: "nat multiset \<Rightarrow> paged_kv \<Rightarrow> bool" where
  "paged_inv_with H s \<longleftrightarrow> paged_core s \<and>
    mset (pk_free s) + paged_owned s + H = mset_set {..<length (pk_pages s)} \<and>
    (\<forall>p \<in> set (pk_free s). paged_zero (pk_pages s ! p))"

abbreviation paged_inv :: "paged_kv \<Rightarrow> bool" where
  "paged_inv \<equiv> paged_inv_with {#}"

definition paged_same :: "nat \<Rightarrow> paged_kv \<Rightarrow> paged_kv \<Rightarrow> bool" where
  "paged_same r s t \<longleftrightarrow> pk_layout t = pk_layout s \<and> length (pk_pages t) = length (pk_pages s) \<and>
    bt_get (pk_sequences t) r = bt_get (pk_sequences s) r \<and>
    (\<forall>st. bt_get (pk_sequences s) r = Some st \<longrightarrow>
      (\<forall>p \<in> set (table_of st). pk_pages t ! p = pk_pages s ! p))"

lemma paged_same_refl [simp]: "paged_same r s s"
  by (simp add: paged_same_def)

lemma paged_same_trans: "paged_same r s t \<Longrightarrow> paged_same r t u \<Longrightarrow> paged_same r s u"
  by (auto simp: paged_same_def)

lemma paged_sequence_Inr [res]: "paged_sequence q s = Inr st \<longleftrightarrow> bt_get (pk_sequences s) q = Some st"
  by (simp add: paged_sequence_def res)

lemma paged_page_Inr [res]: "paged_page p s = Inr g \<longleftrightarrow> p < length (pk_pages s) \<and> g = pk_pages s ! p"
  by (auto simp: paged_page_def res)

lemma bt_sum_subset: "bt_get m k = Some v \<Longrightarrow> (f v :: 'a multiset) \<subseteq># bt_sum f m"
  by (induction m) (auto split: if_splits intro: subset_mset.order_trans mset_subset_eq_add_right)

text \<open>In a partition of distinct pages, the parts are disjoint and in range.\<close>

lemma part_disjoint:
  assumes "A + B = mset_set {..<n :: nat}" and "p \<in># A"
  shows "p \<notin># B" and "p < n" and "count A p = 1"
proof -
  have c: "count A p + count B p = (if p < n then 1 else 0)"
    using arg_cong [OF assms(1), of "\<lambda>M. count M p"] by (simp add: count_mset_set')
  have "0 < count A p" using assms(2) by (simp only: count_greater_zero_iff)
  then have "p < n" using c by (metis add_is_0 less_numeral_extra(3))
  then have "count A p + count B p = 1" using c by simp
  with \<open>0 < count A p\<close> \<open>p < n\<close> have "p < n \<and> count B p = 0 \<and> count A p = 1" by linarith
  then show "p \<notin># B" and "p < n" and "count A p = 1" by (simp_all add: not_in_iff)
qed

lemma mset_bs_insert: "p \<notin> set s \<Longrightarrow> mset (bs_insert p s) = add_mset p (mset s)"
  by (simp add: bs_insert_def insort_insert_key_def)

lemma zero_page_simps [simp]:
  "length (pg_k (zero_page g)) = length (pg_k g)" "length (pg_v (zero_page g)) = length (pg_v g)"
  "paged_zero (zero_page g)"
  by (auto simp: zero_page_def paged_zero_def)

subsection \<open>Freeing pages\<close>

lemma free_page_simps [simp]:
  "pk_layout (paged_free_page p s) = pk_layout s"
  "length (pk_pages (paged_free_page p s)) = length (pk_pages s)"
  "p' \<noteq> p \<Longrightarrow> pk_pages (paged_free_page p s) ! p' = pk_pages s ! p'"
  by (simp_all add: paged_free_page_def)

lemma paged_inv_free_page:
  assumes "paged_inv_with (add_mset p H) s"
  shows "paged_inv_with H (paged_free_page p s)"
proof -
  have part: "add_mset p H + (mset (pk_free s) + paged_owned s) = mset_set {..<length (pk_pages s)}"
    using assms by (simp add: paged_inv_with_def ac_simps)
  have p: "p < length (pk_pages s)" "p \<notin> set (pk_free s)"
    using part_disjoint [OF part, of p] by auto
  have "pk_pages s ! p \<in> set (pk_pages s)" using p by simp
  with assms have "paged_core (paged_free_page p s)"
    using p by (auto simp: paged_inv_with_def paged_core_def paged_free_page_def
        dest!: subsetD [OF set_update_subset_insert])
  moreover have "paged_owned (paged_free_page p s) = paged_owned s"
    by (simp add: paged_owned_def)
  ultimately show ?thesis
    using assms part p
    by (auto simp: paged_inv_with_def paged_free_page_def mset_bs_insert nth_list_update)
qed

lemma paged_inv_free_pages:
  "paged_inv_with (mset ps + H) s \<Longrightarrow> paged_inv_with H (fold paged_free_page ps s)"
  by (induction ps arbitrary: s) (simp_all add: paged_inv_free_page)

lemma free_pages_simps [simp]:
  "pk_layout (fold paged_free_page ps s) = pk_layout s"
  "length (pk_pages (fold paged_free_page ps s)) = length (pk_pages s)"
  "p \<notin> set ps \<Longrightarrow> pk_pages (fold paged_free_page ps s) ! p = pk_pages s ! p"
  by (induction ps arbitrary: s) simp_all

lemma release_fold:
  "paged_release_sequence q s = (case paged_sequence q s of
     Inl e \<Rightarrow> (Inl e, s)
   | Inr st \<Rightarrow> (Inr (), fold paged_free_page (table_of st)
       (s\<lparr>pk_sequences := bt_remove q (pk_sequences s)\<rparr>)))"
  by (simp add: paged_release_sequence_def Let_def table_of_def split: sum.split option.split)

text \<open>Two tables of the pool share no page.\<close>

lemma owned_remove:
  assumes "paged_core s" and "bt_get (pk_sequences s) q = Some st"
  shows "paged_owned s = mset (table_of st) + bt_sum (\<lambda>st. mset (table_of st)) (bt_remove q (pk_sequences s))"
  using bt_sum_remove [of "pk_sequences s" q st "\<lambda>st. mset (table_of st)"] assms
  by (simp add: paged_core_def paged_owned_def bt_ok_distinct add.commute)

lemma tables_disjoint:
  assumes inv: "paged_inv_with H s" and q: "bt_get (pk_sequences s) q = Some st"
    and r: "bt_get (pk_sequences s) r = Some st'" and "r \<noteq> q"
  shows "set (table_of st) \<inter> set (table_of st') = {}"
proof -
  let ?f = "\<lambda>st. mset (table_of st)"
  let ?rest = "bt_sum ?f (bt_remove q (pk_sequences s))"
  have "?f st' \<subseteq># ?rest" using r \<open>r \<noteq> q\<close> by (intro bt_sum_subset [of _ r]) simp
  moreover have "?f st + (?rest + (mset (pk_free s) + H)) = mset_set {..<length (pk_pages s)}"
    using inv owned_remove [OF _ q] by (simp add: paged_inv_with_def ac_simps)
  ultimately show ?thesis
    using part_disjoint(1) by (fastforce dest: mset_subset_eqD)
qed

lemma table_facts:
  assumes "paged_inv_with H s" and "bt_get (pk_sequences s) q = Some st"
  shows "distinct (table_of st)" and "p \<in> set (table_of st) \<Longrightarrow> p < length (pk_pages s) \<and> p \<notin> set (pk_free s)"
proof -
  have part: "mset (table_of st) + (bt_sum (\<lambda>st. mset (table_of st)) (bt_remove q (pk_sequences s)) +
      (mset (pk_free s) + H)) = mset_set {..<length (pk_pages s)}"
    using assms(1) owned_remove [OF _ assms(2)] by (simp add: paged_inv_with_def ac_simps)
  show "distinct (table_of st)"
    using part_disjoint(3) [OF part] by (auto simp: distinct_count_atmost_1 count_eq_zero_iff)
  show "p \<in> set (table_of st) \<Longrightarrow> p < length (pk_pages s) \<and> p \<notin> set (pk_free s)"
    using part_disjoint(1,2) [OF part, of p] by auto
qed

lemma paged_release_ok:
  assumes inv: "paged_inv_with H s" and rel: "paged_release_sequence q s = (Inr u, t)"
  shows "paged_inv_with H t" and "r \<noteq> q \<Longrightarrow> paged_same r s t" and "bt_get (pk_sequences t) q = None"
proof -
  obtain st where st: "bt_get (pk_sequences s) q = Some st"
      and t: "t = fold paged_free_page (table_of st) (s\<lparr>pk_sequences := bt_remove q (pk_sequences s)\<rparr>)"
    using rel by (auto simp: release_fold res split: sum.splits)
  let ?s = "s\<lparr>pk_sequences := bt_remove q (pk_sequences s)\<rparr>"
  have core: "paged_core s" using inv by (simp add: paged_inv_with_def)
  have "paged_core ?s" using core by (auto simp: paged_core_def split: if_splits)
  moreover have "paged_owned s = mset (table_of st) + paged_owned ?s"
    using owned_remove [OF core st] by (simp add: paged_owned_def)
  ultimately have "paged_inv_with (mset (table_of st) + H) ?s"
    using inv by (simp add: paged_inv_with_def ac_simps)
  then show "paged_inv_with H t" unfolding t by (rule paged_inv_free_pages)
  show "bt_get (pk_sequences t) q = None" unfolding t by simp
  have "p \<notin> set (table_of st)"
    if "r \<noteq> q" "bt_get (pk_sequences s) r = Some st'" "p \<in> set (table_of st')" for p st'
    using tables_disjoint [OF inv st that(2,1)] that(3) by blast
  then show "r \<noteq> q \<Longrightarrow> paged_same r s t"
    unfolding t paged_same_def by auto
qed

lemma paged_release_Inl: "paged_release_sequence q s = (Inl e, t) \<Longrightarrow> t = s \<and> bt_get (pk_sequences s) q = None"
  by (auto simp: paged_release_sequence_def Let_def paged_sequence_def res split: sum.splits)

subsection \<open>Reserving a page\<close>

definition paged_active :: "paged_kv \<Rightarrow> nat \<Rightarrow> bool" where
  "paged_active s r \<longleftrightarrow> (\<exists>st. bt_get (pk_sequences s) r = Some st \<and> sq_active st)"

lemma paged_victim_inactive:
  "paged_core s \<Longrightarrow> paged_victim q s = Some v \<Longrightarrow>
   v \<noteq> q \<and> \<not> paged_active s v \<and> bt_get (pk_sequences s) v \<noteq> None"
  by (auto simp: paged_core_def paged_active_def dest!: paged_victim_Some
      simp flip: bt_get_iff)

lemma paged_victim_None:
  "paged_core s \<Longrightarrow> paged_victim q s = None \<Longrightarrow> bt_get (pk_sequences s) r = Some st \<Longrightarrow>
   r = q \<or> paged_active s r"
  by (fastforce simp: paged_core_def paged_active_def paged_victim_def find_None_iff bt_get_iff)

lemma paged_same_active: "paged_same r s t \<Longrightarrow> paged_active t r = paged_active s r"
  by (simp add: paged_same_def paged_active_def)

text \<open>
  A reserved page leaves the free set zeroed; sequence \<open>q\<close> and every active sequence keep their
  tables and contents. It fails only when they hold the whole pool.
\<close>

lemma paged_reserve_ok:
  assumes "paged_inv s" and "paged_reserve q s = (r, t)"
  shows "(\<forall>x. x = q \<or> paged_active s x \<longrightarrow> paged_same x s t) \<and>
    (\<forall>x st. bt_get (pk_sequences t) x = Some st \<longrightarrow> bt_get (pk_sequences s) x = Some st) \<and>
    (case r of
       Inl e \<Rightarrow> paged_inv t \<and> code e = InsufficientMemory \<and> pk_free t = [] \<and>
         (\<forall>x st. bt_get (pk_sequences t) x = Some st \<longrightarrow> x = q \<or> paged_active t x)
     | Inr p \<Rightarrow> paged_inv_with {#p#} t \<and> p < length (pk_pages t) \<and> paged_zero (pk_pages t ! p))"
  using assms
proof (induction q s arbitrary: r t rule: paged_reserve.induct)
  case (1 q s)
  note inv = "1.prems"(1)
  have core: "paged_core s" using inv by (simp add: paged_inv_with_def)
  show ?case
  proof (cases "pk_free s")
    case (Cons p free)
    have rt: "r = Inr p" "t = s\<lparr>pk_free := free\<rparr>"
      using "1.prems"(2) Cons by (simp_all add: paged_reserve.simps [of q s] bs_pop_first_def)
    have part: "{#p#} + (mset free + paged_owned s) = mset_set {..<length (pk_pages s)}"
      using inv Cons by (simp add: paged_inv_with_def ac_simps)
    have "p < length (pk_pages s)" using part_disjoint(2) [OF part] by simp
    moreover have "paged_inv_with {#p#} t"
      using inv Cons by (auto simp: rt paged_inv_with_def paged_core_def paged_owned_def ac_simps)
    moreover have "paged_zero (pk_pages s ! p)" using inv Cons by (simp add: paged_inv_with_def)
    moreover have "paged_same x s t" for x by (simp add: rt paged_same_def)
    ultimately show ?thesis by (simp add: rt)
  next
    case Nil
    show ?thesis
    proof (cases "paged_victim q s")
      case None
      then have "r = Inl (fail InsufficientMemory ''kv page pool is exhausted'')" "t = s"
        using "1.prems"(2) Nil by (simp_all add: paged_reserve.simps [of q s] bs_pop_first_def)
      with None Nil inv paged_victim_None [OF core None] show ?thesis by auto
    next
      case (Some v)
      note v = paged_victim_inactive [OF core Some]
      obtain u s' where rel: "paged_release_sequence v s = (Inr u, s')"
        using v by (auto simp: release_fold paged_sequence_def)
      note ok = paged_release_ok [OF inv rel]
      have rec: "paged_reserve q s' = (r, t)"
        using "1.prems"(2) Nil Some rel by (simp add: paged_reserve.simps [of q s] bs_pop_first_def)
      have IH: "(\<forall>x. x = q \<or> paged_active s' x \<longrightarrow> paged_same x s' t) \<and>
        (\<forall>x st. bt_get (pk_sequences t) x = Some st \<longrightarrow> bt_get (pk_sequences s') x = Some st) \<and>
        (case r of
           Inl e \<Rightarrow> paged_inv t \<and> code e = InsufficientMemory \<and> pk_free t = [] \<and>
             (\<forall>x st. bt_get (pk_sequences t) x = Some st \<longrightarrow> x = q \<or> paged_active t x)
         | Inr p \<Rightarrow> paged_inv_with {#p#} t \<and> p < length (pk_pages t) \<and> paged_zero (pk_pages t ! p))"
        using "1.IH" [OF _ Some rel [symmetric]] Nil ok(1) rec by (simp add: bs_pop_first_def)
      have fewer: "bt_get (pk_sequences s') x = Some st \<Longrightarrow> bt_get (pk_sequences s) x = Some st" for x st
        using ok(2) [of x] ok(3) by (cases "x = v") (auto simp: paged_same_def)
      have "x \<noteq> v" if "x = q \<or> paged_active s x" for x
        using that v by auto
      then have "paged_same x s s'" if "x = q \<or> paged_active s x" for x
        using ok(2) that by blast
      then have "\<forall>x. x = q \<or> paged_active s x \<longrightarrow> paged_same x s t"
        using IH paged_same_active paged_same_trans by metis
      with IH fewer show ?thesis by blast
    qed
  qed
qed

text \<open>Refusal means that \<open>q\<close> and the active sequences hold every page.\<close>

lemma paged_reserve_refused:
  assumes inv: "paged_inv s" and r: "paged_reserve q s = (Inl e, t)" and p: "p < length (pk_pages s)"
  shows "\<exists>x st. (x = q \<or> paged_active s x) \<and> bt_get (pk_sequences s) x = Some st \<and> p \<in> set (table_of st)"
proof -
  have *: "paged_inv t" "pk_free t = []"
      "\<And>x st. bt_get (pk_sequences t) x = Some st \<Longrightarrow> x = q \<or> paged_active t x"
      "\<And>x. x = q \<or> paged_active s x \<Longrightarrow> paged_same x s t"
      "\<And>x st. bt_get (pk_sequences t) x = Some st \<Longrightarrow> bt_get (pk_sequences s) x = Some st"
    using paged_reserve_ok [OF inv r] by auto
  have len: "length (pk_pages t) = length (pk_pages s)"
    using *(4) [of q] by (simp add: paged_same_def)
  have "p \<in># mset_set {..<length (pk_pages s)}" using p by simp
  moreover have "mset_set {..<length (pk_pages s)} = paged_owned t"
    using *(1,2) len by (simp add: paged_inv_with_def)
  ultimately have "p \<in># paged_owned t" by simp
  then obtain x st where x: "(x, st) \<in> set (pk_sequences t)" "p \<in> set (table_of st)"
    unfolding paged_owned_def bt_sum_def bt_values_def by (auto simp: in_Union_mset_iff set_mset_sum_list)
  have "bt_get (pk_sequences t) x = Some st"
    using x *(1) by (simp add: paged_inv_with_def paged_core_def bt_get_iff)
  then have get: "bt_get (pk_sequences s) x = Some st" and act: "x = q \<or> paged_active t x"
    using *(3,5) by blast+
  with \<open>bt_get (pk_sequences t) x = Some st\<close> have "x = q \<or> paged_active s x"
    by (auto simp: paged_active_def)
  with get x(2) show ?thesis by blast
qed

subsection \<open>Page tables\<close>

lemma div_ceil: "0 < b \<Longrightarrow> (n + (b - 1)) div b = (if n mod b = 0 then n div b else n div b + 1)" for n b :: nat
proof -
  assume b: "0 < b"
  have "(n mod b + (b - 1)) div b = (if n mod b = 0 then 0 else 1)"
  proof (cases "n mod b = 0")
    case False
    have "n mod b < b" using b by simp
    with False have "1 * b \<le> n mod b + (b - 1)" "n mod b + (b - 1) < 2 * b" by linarith+
    then have "(n mod b + (b - 1)) div b = 1" by (intro div_nat_eqI) simp_all
    with False show ?thesis by simp
  qed (use b in simp)
  moreover have "(b - 1) div b = 0" "(b - 1) mod b = b - 1" using b by simp_all
  ultimately show ?thesis using div_add1_eq [of n "b - 1" b] by simp
qed

lemma inv_seq_ok:
  "paged_inv_with H s \<Longrightarrow> bt_get (pk_sequences s) q = Some st \<Longrightarrow>
   seq_ok (lay_block_size (pk_layout s)) st \<and> 0 < lay_block_size (pk_layout s)"
  by (auto simp: paged_inv_with_def paged_core_def layout_ok_def)

lemma page_for_read_Inr [res]:
  "paged_page_for_read st tk s = Inr p \<longleftrightarrow> tk \<le> sq_len st \<and>
    tk div lay_block_size (pk_layout s) < length (table_of st) \<and>
    p = table_of st ! (tk div lay_block_size (pk_layout s))"
  by (auto simp: paged_page_for_read_def res table_of_def Let_def nth_append split: option.splits)

lemma paged_slot_offset_Inr [res]:
  "paged_slot_offset l tk s = Inr off \<longleftrightarrow> l < lay_layers (pk_layout s) \<and>
   off = (l * lay_block_size (pk_layout s) + tk mod lay_block_size (pk_layout s)) * paged_width s"
  by (auto simp: paged_slot_offset_def Let_def)

definition page_slab :: "bool \<Rightarrow> page \<Rightarrow> f32 list" where
  "page_slab key g = (if key then pg_k g else pg_v g)"

lemma paged_read_Inr:
  "paged_read q l tk w key s = Inr v \<longleftrightarrow>
    (\<exists>st off. bt_get (pk_sequences s) q = Some st \<and> paged_slot_offset l tk s = Inr off \<and>
      w = paged_width s \<and> tk \<le> sq_len st \<and>
      tk div lay_block_size (pk_layout s) < length (table_of st) \<and>
      table_of st ! (tk div lay_block_size (pk_layout s)) < length (pk_pages s) \<and>
      v = slice off w (page_slab key (pk_pages s ! (table_of st ! (tk div lay_block_size (pk_layout s))))))"
  by (auto simp: paged_read_def page_slab_def res cong: conj_cong)

text \<open>Every access stays inside its page.\<close>

lemma paged_offset_bound:
  assumes "paged_slot_offset l tk s = Inr off" and "0 < lay_block_size (pk_layout s)"
  shows "off + paged_width s \<le> layout_slots (pk_layout s)"
proof -
  have "l * lay_block_size (pk_layout s) + tk mod lay_block_size (pk_layout s)
      < lay_layers (pk_layout s) * lay_block_size (pk_layout s)"
    using assms by (intro row_bound) (simp_all add: paged_slot_offset_Inr)
  moreover have "off = (l * lay_block_size (pk_layout s) + tk mod lay_block_size (pk_layout s)) * paged_width s"
    using assms(1) by (simp only: paged_slot_offset_Inr)
  ultimately show ?thesis
    by (simp only: cell_bound layout_slots_def paged_width_def)
qed

lemma paged_offset_apart:
  assumes "paged_slot_offset l tk s = Inr off" and "paged_slot_offset l' tk' s = Inr off'"
    and "0 < lay_block_size (pk_layout s)"
    and "(l, tk mod lay_block_size (pk_layout s)) \<noteq> (l', tk' mod lay_block_size (pk_layout s))"
  shows "off + paged_width s \<le> off' \<or> off' + paged_width s \<le> off"
proof -
  let ?b = "lay_block_size (pk_layout s)"
  have off: "off = (l * ?b + tk mod ?b) * paged_width s" "off' = (l' * ?b + tk' mod ?b) * paged_width s"
    using assms(1,2) by (simp_all only: paged_slot_offset_Inr)
  have "l * ?b + tk mod ?b \<noteq> l' * ?b + tk' mod ?b"
    using row_inj [of l ?b "tk mod ?b" l' "tk' mod ?b"] assms(3,4) by auto
  from cells_apart [OF this, of "paged_width s"] show ?thesis by (simp only: off)
qed

text \<open>Sequences with the same table and contents are read alike.\<close>

lemma paged_same_read:
  assumes "paged_same r s t" and "paged_read r l tk w key s = Inr v"
  shows "paged_read r l tk w key t = Inr v"
proof -
  obtain st off where st: "bt_get (pk_sequences s) r = Some st" "paged_slot_offset l tk s = Inr off"
      "tk div lay_block_size (pk_layout s) < length (table_of st)"
    using assms(2) by (auto simp: paged_read_Inr)
  have "table_of st ! (tk div lay_block_size (pk_layout s)) \<in> set (table_of st)" using st(3) by simp
  with assms st show ?thesis
    by (auto simp: paged_read_Inr paged_same_def paged_slot_offset_def paged_width_def)
qed

lemma paged_same_len: "paged_same r s t \<Longrightarrow> paged_token_len r t = paged_token_len r s"
  by (simp add: paged_same_def paged_token_len_def paged_sequence_def)

subsection \<open>The page of the open token\<close>

lemma page_for_write_ok:
  assumes inv: "paged_inv s" and st: "bt_get (pk_sequences s) q = Some st"
    and p: "paged_page_for_write q (sq_len st) s = (r, t)"
  shows "paged_inv t \<and> (\<forall>x. x \<noteq> q \<and> paged_active s x \<longrightarrow> paged_same x s t) \<and>
    (case r of
       Inl e \<Rightarrow> paged_same q s t
     | Inr p \<Rightarrow> pk_layout t = pk_layout s \<and> length (pk_pages t) = length (pk_pages s) \<and>
        (\<exists>st'. bt_get (pk_sequences t) q = Some st' \<and> sq_len st' = sq_len st \<and>
          sq_active st' = sq_active st \<and>
          (table_of st' = table_of st \<or> table_of st' = table_of st @ [p]) \<and>
          sq_len st div lay_block_size (pk_layout s) < length (table_of st') \<and>
          table_of st' ! (sq_len st div lay_block_size (pk_layout s)) = p) \<and>
        (\<forall>p' \<in> set (table_of st). pk_pages t ! p' = pk_pages s ! p'))"
proof -
  let ?b = "lay_block_size (pk_layout s)"
  have ok: "seq_ok ?b st" and b: "0 < ?b" using inv_seq_ok [OF inv st] by auto
  have com: "length (sq_committed st) = (if sq_len st mod ?b = 0 then sq_len st div ?b else sq_len st div ?b + 1)"
    using ok div_ceil [OF b] by (simp add: seq_ok_def)
  have seq: "paged_sequence q s = Inr st" using st by (simp add: res)
  show ?thesis
  proof (cases "sq_len st mod ?b = 0")
    case False
    then have pend: "sq_pending st = None" using ok by (auto simp: seq_ok_def)
    have "r = Inr (sq_committed st ! (sq_len st div ?b))" "t = s"
      using p False com pend by (auto simp: paged_page_for_write_def seq Let_def)
    with False com pend inv st show ?thesis by (simp add: table_of_def)
  next
    case True
    then have open_page: "sq_len st div ?b = length (sq_committed st)" using com by simp
    show ?thesis
    proof (cases "sq_pending st")
      case (Some p')
      then have "r = Inr p'" "t = s"
        using p open_page by (simp_all add: paged_page_for_write_def seq Let_def)
      with Some open_page inv st show ?thesis by (simp add: table_of_def)
    next
      case None
      obtain r1 t1 where rv: "paged_reserve q s = (r1, t1)" by fastforce
      note ok1 = paged_reserve_ok [OF inv rv]
      have same: "\<And>x. x = q \<or> paged_active s x \<Longrightarrow> paged_same x s t1" using ok1 by blast
      have st1: "bt_get (pk_sequences t1) q = Some st" using same [of q] st by (simp add: paged_same_def)
      then have seq1: "paged_sequence q t1 = Inr st" by (simp add: res)
      show ?thesis
      proof (cases r1)
        case (Inl e)
        then have "r = Inl e" "t = t1"
          using p open_page None rv by (simp_all add: paged_page_for_write_def seq Let_def)
        with ok1 Inl same show ?thesis by auto
      next
        case (Inr p1)
        let ?st = "st\<lparr>sq_pending := Some p1\<rparr>"
        have rt: "r = Inr p1"
            "t = t1\<lparr>pk_sequences := bt_update q (\<lambda>st. st\<lparr>sq_pending := Some p1\<rparr>) (pk_sequences t1)\<rparr>"
          using p open_page None rv Inr seq1
          by (simp_all add: paged_page_for_write_def seq Let_def)
        have inv1: "paged_inv_with {#p1#} t1" using ok1 Inr by simp
        have lay: "pk_layout t1 = pk_layout s" using same [of q] by (simp add: paged_same_def)
        have table: "table_of ?st = table_of st @ [p1]" using None by (simp add: table_of_def)
        have core: "paged_core t"
          using inv1 st1 ok True None lay unfolding rt(2) paged_inv_with_def paged_core_def
          by (auto simp: seq_ok_def)
        have "distinct (map fst (pk_sequences t1))"
          using inv1 by (simp add: paged_inv_with_def paged_core_def bt_ok_distinct)
        from bt_sum_update [OF this st1, of "\<lambda>st. mset (table_of st)" "\<lambda>st. st\<lparr>sq_pending := Some p1\<rparr>"]
        have "paged_owned t = paged_owned t1 + {#p1#}"
          by (simp add: paged_owned_def rt(2) table)
        then have "paged_inv t"
          using inv1 core by (simp add: paged_inv_with_def rt(2) ac_simps)
        moreover have "paged_same x s t" if "x \<noteq> q" "paged_active s x" for x
          using same [of x] that by (auto simp: rt(2) paged_same_def)
        moreover have "bt_get (pk_sequences t) q = Some ?st" using st1 by (simp add: rt(2))
        moreover have "\<forall>p' \<in> set (table_of st). pk_pages t ! p' = pk_pages s ! p'"
          using same [of q] st by (simp add: paged_same_def rt(2))
        moreover have "pk_layout t = pk_layout s" "length (pk_pages t) = length (pk_pages s)"
          using same [of q] by (simp_all add: paged_same_def rt(2))
        moreover have "table_of st = sq_committed st" using None by (simp add: table_of_def)
        ultimately show ?thesis
          using table open_page by (simp add: rt(1) nth_append)
      qed
    qed
  qed
qed

subsection \<open>Writing\<close>

definition page_put :: "nat \<Rightarrow> f32 list \<Rightarrow> bool \<Rightarrow> page \<Rightarrow> page" where
  "page_put off values key g =
    (if key then g\<lparr>pg_k := splice off values (pg_k g)\<rparr> else g\<lparr>pg_v := splice off values (pg_v g)\<rparr>)"

lemma page_slab_put:
  "page_slab key' (page_put off vs key g) =
    (if key' = key then splice off vs (page_slab key g) else page_slab key' g)"
  by (auto simp: page_put_def page_slab_def)

lemma paged_inv_slab:
  "paged_inv_with H s \<Longrightarrow> p < length (pk_pages s) \<Longrightarrow>
   length (page_slab key (pk_pages s ! p)) = layout_slots (pk_layout s)"
  by (auto simp: paged_inv_with_def paged_core_def page_slab_def)

lemma paged_inv_put:
  assumes "paged_inv s" and "bt_get (pk_sequences s) q = Some st" and "p \<in> set (table_of st)"
    and "off + length vs \<le> layout_slots (pk_layout s)"
  shows "paged_inv (s\<lparr>pk_pages := (pk_pages s)[p := page_put off vs key (pk_pages s ! p)]\<rparr>)"
proof -
  have p: "p < length (pk_pages s)" "p \<notin> set (pk_free s)" using table_facts(2) [OF assms(1,2)] assms(3) by auto
  then have "pk_pages s ! p \<in> set (pk_pages s)" by simp
  with assms p show ?thesis
    by (auto simp: paged_inv_with_def paged_core_def paged_owned_def page_put_def nth_list_update
        dest!: subsetD [OF set_update_subset_insert])
qed

lemma paged_write_Inl:
  assumes "paged_inv s" and "paged_write q l tk vs key s = (Inl e, t)"
  shows "paged_inv t" and "x = q \<or> paged_active s x \<Longrightarrow> paged_same x s t"
proof -
  have "paged_inv t \<and> (\<forall>x. x = q \<or> paged_active s x \<longrightarrow> paged_same x s t)"
  proof (cases "\<exists>st. paged_sequence q s = Inr st \<and> tk = sq_len st \<and> length vs = paged_width s \<and>
      (\<exists>off. paged_slot_offset l tk s = Inr off)")
    case True
    then obtain st off where st: "paged_sequence q s = Inr st" "tk = sq_len st"
        "length vs = paged_width s" "paged_slot_offset l tk s = Inr off" by blast
    have get: "bt_get (pk_sequences s) q = Some st" using st(1) by (simp add: res)
    obtain r s1 where pfw: "paged_page_for_write q (sq_len st) s = (r, s1)" by fastforce
    note ok = page_for_write_ok [OF assms(1) get pfw]
    show ?thesis
    proof (cases r)
      case (Inl e')
      then have "t = s1" using assms(2) st pfw by (simp add: paged_write_def)
      with ok Inl show ?thesis by auto
    next
      case (Inr p)
      with ok obtain st' where st': "bt_get (pk_sequences s1) q = Some st'"
          "sq_len st div lay_block_size (pk_layout s) < length (table_of st')"
          "table_of st' ! (sq_len st div lay_block_size (pk_layout s)) = p" "paged_inv s1" by auto
      then have "p \<in> set (table_of st')" using nth_mem by blast
      then have "paged_page p s1 = Inr (pk_pages s1 ! p)"
        using table_facts(2) [OF st'(4,1)] by (simp add: res)
      then show ?thesis using assms(2) st pfw Inr by (simp add: paged_write_def)
    qed
  next
    case False
    then have "t = s"
      using assms(2) by (auto simp: paged_write_def split: if_splits sum.splits prod.splits)
    with assms(1) show ?thesis by simp
  qed
  then show "paged_inv t" and "x = q \<or> paged_active s x \<Longrightarrow> paged_same x s t" by auto
qed

text \<open>What a successful write does: the open token's page, possibly just reserved, is spliced.\<close>

lemma paged_write_Inr:
  assumes inv: "paged_inv s" and w: "paged_write q l tk vs key s = (Inr u, t)"
  shows "\<exists>st st' s1 off p.
    bt_get (pk_sequences s) q = Some st \<and> tk = sq_len st \<and> length vs = paged_width s \<and>
    paged_slot_offset l tk s = Inr off \<and> paged_inv s1 \<and>
    pk_layout s1 = pk_layout s \<and> length (pk_pages s1) = length (pk_pages s) \<and>
    bt_get (pk_sequences s1) q = Some st' \<and> sq_len st' = sq_len st \<and> sq_active st' = sq_active st \<and>
    (table_of st' = table_of st \<or> table_of st' = table_of st @ [p]) \<and>
    tk div lay_block_size (pk_layout s) < length (table_of st') \<and>
    table_of st' ! (tk div lay_block_size (pk_layout s)) = p \<and>
    (\<forall>p' \<in> set (table_of st). pk_pages s1 ! p' = pk_pages s ! p') \<and>
    (\<forall>x. x \<noteq> q \<and> paged_active s x \<longrightarrow> paged_same x s s1) \<and>
    p < length (pk_pages s1) \<and>
    t = s1\<lparr>pk_pages := (pk_pages s1)[p := page_put off vs key (pk_pages s1 ! p)]\<rparr>"
proof -
  obtain st off where st: "paged_sequence q s = Inr st" "tk = sq_len st"
      "length vs = paged_width s" "paged_slot_offset l tk s = Inr off"
    using w by (auto simp: paged_write_def split: if_splits sum.splits)
  have get: "bt_get (pk_sequences s) q = Some st" using st(1) by (simp add: res)
  obtain r s1 where pfw: "paged_page_for_write q (sq_len st) s = (r, s1)" by fastforce
  note ok = page_for_write_ok [OF inv get pfw]
  from w st pfw obtain p where r: "r = Inr p" by (cases r) (auto simp: paged_write_def)
  have t: "p < length (pk_pages s1)"
      "t = s1\<lparr>pk_pages := (pk_pages s1)[p := page_put off vs key (pk_pages s1 ! p)]\<rparr>"
    using w st pfw r by (auto simp: paged_write_def res page_put_def split: sum.splits)
  obtain st' where st': "bt_get (pk_sequences s1) q = Some st'" "sq_len st' = sq_len st"
      "sq_active st' = sq_active st" "table_of st' = table_of st \<or> table_of st' = table_of st @ [p]"
      "sq_len st div lay_block_size (pk_layout s) < length (table_of st')"
      "table_of st' ! (sq_len st div lay_block_size (pk_layout s)) = p"
    using ok r by auto
  show ?thesis
    using ok r get st t st'
    by (intro exI [of _ st] exI [of _ st'] exI [of _ s1] exI [of _ off] exI [of _ p]) simp
qed

lemma paged_active_other: "bt_get (pk_sequences t) x = bt_get (pk_sequences s) x \<Longrightarrow> paged_active t x = paged_active s x"
  by (simp add: paged_active_def)

lemma paged_write_spec:
  assumes inv: "paged_inv s" and w: "paged_write q l tk vs key s = (Inr u, t)"
  shows "paged_inv t"
    and "paged_token_len q s = Inr tk" and "paged_token_len q t = Inr tk"
    and "paged_active t q = paged_active s q"
    and "x \<noteq> q \<Longrightarrow> paged_active s x \<Longrightarrow> paged_same x s t"
    and "paged_read q l tk (length vs) key t = Inr vs"
    and "(l', tk', key') \<noteq> (l, tk, key) \<Longrightarrow> paged_read q l' tk' n key' s = Inr v \<Longrightarrow>
      paged_read q l' tk' n key' t = Inr v"
proof -
  let ?b = "lay_block_size (pk_layout s)"
  obtain st st' s1 off p where st: "bt_get (pk_sequences s) q = Some st" "tk = sq_len st"
      "length vs = paged_width s" "paged_slot_offset l tk s = Inr off" "paged_inv s1"
      "pk_layout s1 = pk_layout s" "length (pk_pages s1) = length (pk_pages s)"
      "bt_get (pk_sequences s1) q = Some st'" "sq_len st' = sq_len st" "sq_active st' = sq_active st"
    and table: "table_of st' = table_of st \<or> table_of st' = table_of st @ [p]"
      "tk div ?b < length (table_of st')" "table_of st' ! (tk div ?b) = p"
    and pages: "\<forall>p' \<in> set (table_of st). pk_pages s1 ! p' = pk_pages s ! p'"
    and same: "\<And>x. x \<noteq> q \<Longrightarrow> paged_active s x \<Longrightarrow> paged_same x s s1"
    and p: "p < length (pk_pages s1)"
    and t: "t = s1\<lparr>pk_pages := (pk_pages s1)[p := page_put off vs key (pk_pages s1 ! p)]\<rparr>"
    using paged_write_Inr [OF assms] by blast
  have b: "0 < ?b" using inv_seq_ok [OF inv st(1)] by simp
  have p_in: "p \<in> set (table_of st')" using table(2,3) nth_mem by blast
  have slab: "length (page_slab key (pk_pages s1 ! p)) = layout_slots (pk_layout s)"
    using paged_inv_slab [OF st(5) p] st(6) by simp
  have bound: "off + length vs \<le> layout_slots (pk_layout s)"
    using paged_offset_bound [OF st(4) b] st(3) by simp
  show "paged_inv t"
    unfolding t using paged_inv_put [OF st(5,8) p_in] bound st(6) by simp
  show "paged_token_len q s = Inr tk" "paged_token_len q t = Inr tk"
    using st by (simp_all add: paged_token_len_def paged_sequence_def t)
  show "paged_active t q = paged_active s q"
    using st by (simp add: paged_active_def t)
  show "paged_same x s t" if "x \<noteq> q" "paged_active s x"
  proof -
    note x_at = that
    obtain stx where x: "bt_get (pk_sequences s) x = Some stx"
      using x_at(2) by (auto simp: paged_active_def)
    then have "bt_get (pk_sequences s1) x = Some stx"
      using same [OF that] by (simp add: paged_same_def)
    then have "p \<notin> set (table_of stx)"
      using tables_disjoint [OF st(5,8) _ that(1)] p_in by blast
    then have "\<forall>p' \<in> set (table_of stx). p' \<noteq> p" by blast
    with same [OF that] x show ?thesis by (auto simp: paged_same_def t)
  qed
  have lay: "paged_slot_offset l'' tk'' t = paged_slot_offset l'' tk'' s" "paged_width t = paged_width s"
      for l'' tk''
    using st(6) by (simp_all add: paged_slot_offset_def paged_width_def t)
  show "paged_read q l tk (length vs) key t = Inr vs"
    using st table p slab bound by (simp add: paged_read_Inr lay) (simp add: t page_slab_put)
  show "paged_read q l' tk' n key' t = Inr v"
    if ne: "(l', tk', key') \<noteq> (l, tk, key)" and rd: "paged_read q l' tk' n key' s = Inr v"
  proof -
    obtain off' where rd': "paged_slot_offset l' tk' s = Inr off'" "n = paged_width s"
        "tk' \<le> sq_len st" "tk' div ?b < length (table_of st)"
        "table_of st ! (tk' div ?b) < length (pk_pages s)"
        "v = slice off' n (page_slab key' (pk_pages s ! (table_of st ! (tk' div ?b))))"
      using rd st(1) by (auto simp: paged_read_Inr)
    let ?p = "table_of st ! (tk' div ?b)"
    have tab: "table_of st' ! (tk' div ?b) = ?p" "tk' div ?b < length (table_of st')"
      using table(1) rd'(4) by (auto simp: nth_append)
    have content: "pk_pages s1 ! ?p = pk_pages s ! ?p" using pages rd'(4) nth_mem by blast
    have "slice off' n (page_slab key' (pk_pages t ! ?p)) = v"
    proof (cases "?p = p \<and> key' = key")
      case True
      then have "table_of st' ! (tk' div ?b) = table_of st' ! (tk div ?b)"
        using tab table(3) by simp
      then have page: "tk' div ?b = tk div ?b"
        using table_facts(1) [OF st(5,8)] tab(2) table(2) by (simp add: nth_eq_iff_index_eq)
      have "(l, tk mod ?b) \<noteq> (l', tk' mod ?b)"
      proof
        assume "(l, tk mod ?b) = (l', tk' mod ?b)"
        moreover from this page have "tk = tk'"
          using div_mult_mod_eq [of tk ?b] div_mult_mod_eq [of tk' ?b] by simp
        ultimately show False using ne True by simp
      qed
      from paged_offset_apart [OF st(4) rd'(1) b this] have "slice off' n (splice off vs (page_slab key (pk_pages s1 ! p)))
          = slice off' n (page_slab key (pk_pages s1 ! p))"
        using slab bound paged_offset_bound [OF rd'(1) b] rd'(2) st(3)
        by (intro slice_splice_disjoint) auto
      then show ?thesis using True content rd'(6) p by (simp add: t page_slab_put)
    next
      case False
      then show ?thesis using content rd'(6) p by (auto simp: t page_slab_put nth_list_update)
    qed
    then show ?thesis
      using rd' st tab by (auto simp: paged_read_Inr lay) (auto simp: t)
  qed
qed

subsection \<open>The other calls\<close>

lemma paged_new_inv:
  assumes "paged_with_limit layout n max_bytes = Inr s"
  shows "paged_inv s" and "length (pk_pages s) = n"
proof -
  from assms obtain pool where pool: "planned_kv_pool_within layout n max_bytes = Inr pool"
      and s: "paged_allocate layout n (pool_slots pool) = Inr s"
    by (auto simp: paged_with_limit_def res)
  have lay: "layout_ok layout" "16 \<le> lay_block_size layout" "is_power_of_two (lay_block_size layout)"
      "pool_slots pool = layout_slots layout"
    using pool by (simp_all add: planned_kv_pool_within_Inr)
  have "even (lay_block_size layout)"
    using lay(2,3) is_power_of_two_even by fastforce
  with lay s show "paged_inv s" "length (pk_pages s) = n"
    by (auto simp: paged_allocate_def res paged_inv_with_def paged_core_def paged_owned_def
        paged_zero_def atLeast0LessThan split: if_splits)
qed

lemma paged_begin_ok:
  assumes "paged_inv s" and "paged_begin_sequence q s = (r, t)"
  shows "paged_inv t" and "x \<noteq> q \<or> (\<exists>e. r = Inl e) \<Longrightarrow> paged_same x s t"
    and "r = Inr u \<Longrightarrow> paged_active t q \<and> paged_token_len q t = Inr 0"
    and "r = Inr u \<Longrightarrow> \<not> paged_active s q"
proof -
  have bt: "bt_ok (pk_sequences s)" using assms(1) by (simp add: paged_inv_with_def paged_core_def)
  let ?st = "\<lparr>sq_committed = [], sq_pending = None, sq_len = 0, sq_active = True\<rparr>"
  show "paged_inv t"
  proof (cases "bt_get (pk_sequences s) q")
    case None
    then have t: "t = s\<lparr>pk_sequences := bt_insert q ?st (pk_sequences s)\<rparr>"
      using assms(2) by (simp add: paged_begin_sequence_def)
    have "seq_ok b ?st" if "0 < b" for b using that by (simp add: seq_ok_def)
    then have "paged_core t"
      using assms(1) bt by (auto simp: t paged_inv_with_def paged_core_def layout_ok_def)
    moreover have "paged_owned t = paged_owned s"
      by (simp add: t paged_owned_def bt_sum_insert_fresh [OF None] table_of_def)
    ultimately show ?thesis using assms(1) by (simp add: paged_inv_with_def t)
  qed (use assms in \<open>auto simp: paged_begin_sequence_def\<close>)
  show "x \<noteq> q \<or> (\<exists>e. r = Inl e) \<Longrightarrow> paged_same x s t"
    using assms(2) bt by (auto simp: paged_begin_sequence_def paged_same_def split: if_splits)
  show "r = Inr u \<Longrightarrow> paged_active t q \<and> paged_token_len q t = Inr 0"
    using assms(2) bt by (auto simp: paged_begin_sequence_def paged_active_def paged_token_len_def
        paged_sequence_def split: if_splits)
  show "r = Inr u \<Longrightarrow> \<not> paged_active s q"
    using assms(2) by (auto simp: paged_begin_sequence_def paged_active_def split: if_splits)
qed

lemma paged_inv_update:
  assumes inv: "paged_inv_with H s" and st: "bt_get (pk_sequences s) q = Some st"
    and ok: "seq_ok (lay_block_size (pk_layout s)) (f st)"
    and owned: "mset (table_of st) + H = mset (table_of (f st)) + H'"
  shows "paged_inv_with H' (s\<lparr>pk_sequences := bt_update q f (pk_sequences s)\<rparr>)"
proof -
  let ?t = "s\<lparr>pk_sequences := bt_update q f (pk_sequences s)\<rparr>"
  have "distinct (map fst (pk_sequences s))"
    using inv by (simp add: paged_inv_with_def paged_core_def bt_ok_distinct)
  from bt_sum_update [OF this st, of "\<lambda>st. mset (table_of st)" f]
  have sum: "paged_owned ?t + mset (table_of st) = paged_owned s + mset (table_of (f st))"
    by (simp add: paged_owned_def)
  have "paged_owned ?t + H' + mset (table_of st) + mset (table_of (f st)) =
      paged_owned s + H + mset (table_of st) + mset (table_of (f st))"
    using sum owned by (metis (no_types, lifting) add.assoc add.commute)
  then have "paged_owned ?t + H' = paged_owned s + H" by simp
  moreover have "paged_core ?t"
    using inv st ok by (auto simp: paged_inv_with_def paged_core_def)
  ultimately show ?thesis
    using inv by (simp add: paged_inv_with_def add.assoc)
qed

lemma paged_deactivate_inv: "paged_inv s \<Longrightarrow> paged_inv (snd (paged_deactivate q s))"
  using inv_seq_ok [of "{#}" s q]
  by (auto simp: paged_deactivate_def res seq_ok_def table_of_def split: sum.splits
      intro!: paged_inv_update)

lemma paged_abort_ok:
  assumes inv: "paged_inv s" and a: "paged_abort_pending q s = (r, t)"
  shows "paged_inv t" and "x \<noteq> q \<Longrightarrow> paged_same x s t"
    and "bt_get (pk_sequences s) q = Some st \<Longrightarrow>
      pk_layout t = pk_layout s \<and> length (pk_pages t) = length (pk_pages s) \<and>
      bt_get (pk_sequences t) q = Some (st\<lparr>sq_pending := None\<rparr>) \<and>
      (\<forall>p \<in> set (sq_committed st). pk_pages t ! p = pk_pages s ! p)"
proof -
  have "paged_inv t \<and> (\<forall>x. x \<noteq> q \<longrightarrow> paged_same x s t) \<and>
    (\<forall>st. bt_get (pk_sequences s) q = Some st \<longrightarrow>
      pk_layout t = pk_layout s \<and> length (pk_pages t) = length (pk_pages s) \<and>
      bt_get (pk_sequences t) q = Some (st\<lparr>sq_pending := None\<rparr>) \<and>
      (\<forall>p \<in> set (sq_committed st). pk_pages t ! p = pk_pages s ! p))"
  proof (cases "paged_sequence q s")
    case (Inl e)
    then have "bt_get (pk_sequences s) q = None" by (simp add: paged_sequence_def res)
    with Inl a inv show ?thesis by (simp add: paged_abort_pending_def)
  next
    case (Inr st)
    then have st: "bt_get (pk_sequences s) q = Some st" by (simp add: res)
    let ?s = "s\<lparr>pk_sequences := bt_update q (\<lambda>st. st\<lparr>sq_pending := None\<rparr>) (pk_sequences s)\<rparr>"
    have ok: "seq_ok (lay_block_size (pk_layout s)) (st\<lparr>sq_pending := None\<rparr>)"
      using inv_seq_ok [OF inv st] by (simp add: seq_ok_def)
    show ?thesis
    proof (cases "sq_pending st")
      case None
      then have t: "t = ?s" using a Inr by (simp add: paged_abort_pending_def Let_def)
      have "paged_inv t"
        unfolding t using ok None by (intro paged_inv_update [OF inv st]) (simp_all add: table_of_def)
      with st show ?thesis by (auto simp: t paged_same_def)
    next
      case (Some p)
      then have t: "t = paged_free_page p ?s" using a Inr by (simp add: paged_abort_pending_def Let_def)
      have "paged_inv_with {#p#} ?s"
        using ok Some by (intro paged_inv_update [OF inv st]) (simp_all add: table_of_def)
      then have "paged_inv t" unfolding t by (simp add: paged_inv_free_page)
      moreover have dis: "p \<notin> set (sq_committed st)"
        using table_facts(1) [OF inv st] Some by (simp add: table_of_def)
      moreover have "paged_same x s t" if ne: "x \<noteq> q" for x
      proof -
        have "p \<notin> set (table_of stx)" if "bt_get (pk_sequences s) x = Some stx" for stx
          using tables_disjoint [OF inv st that ne] Some by (auto simp: table_of_def)
        then have "\<forall>p' \<in> set (table_of stx). p' \<noteq> p" if "bt_get (pk_sequences s) x = Some stx" for stx
          using that by blast
        with ne show ?thesis by (auto simp: t paged_same_def)
      qed
      moreover have "\<forall>p' \<in> set (sq_committed st). p' \<noteq> p" using dis by blast
      ultimately show ?thesis using st by (auto simp: t)
    qed
  qed
  then show "paged_inv t" and "x \<noteq> q \<Longrightarrow> paged_same x s t"
    and "bt_get (pk_sequences s) q = Some st \<Longrightarrow>
      pk_layout t = pk_layout s \<and> length (pk_pages t) = length (pk_pages s) \<and>
      bt_get (pk_sequences t) q = Some (st\<lparr>sq_pending := None\<rparr>) \<and>
      (\<forall>p \<in> set (sq_committed st). pk_pages t ! p = pk_pages s ! p)" by auto
qed

lemma paged_commit_ok:
  assumes inv: "paged_inv s" and c: "paged_commit_token q s = (r, t)"
  shows "paged_inv t \<and> (\<forall>x. x \<noteq> q \<longrightarrow> paged_same x s t) \<and>
    (case r of
       Inl e \<Rightarrow> paged_same q s t
     | Inr n \<Rightarrow> pk_layout t = pk_layout s \<and> pk_pages t = pk_pages s \<and>
        (\<exists>st st'. bt_get (pk_sequences s) q = Some st \<and> bt_get (pk_sequences t) q = Some st' \<and>
          table_of st' = table_of st \<and> sq_active st' = sq_active st \<and> n = sq_len st + 1 \<and>
          sq_len st' = n))"
proof (cases "paged_sequence q s")
  case (Inl e)
  with c inv show ?thesis by (auto simp: paged_commit_token_def)
next
  case (Inr st)
  let ?b = "lay_block_size (pk_layout s)"
  have st: "bt_get (pk_sequences s) q = Some st" using Inr by (simp add: res)
  have ok: "seq_ok ?b st" and b: "0 < ?b" using inv_seq_ok [OF inv st] by auto
  have even: "even ?b" using inv by (simp add: paged_inv_with_def paged_core_def)
  define st1 where "st1 = (case sq_pending st of
      Some p \<Rightarrow> st\<lparr>sq_pending := None, sq_committed := sq_committed st @ [p]\<rparr> | None \<Rightarrow> st)"
  have st1: "table_of st1 = table_of st" "sq_len st1 = sq_len st" "sq_active st1 = sq_active st"
      "sq_pending st1 = None"
    by (simp_all add: st1_def table_of_def split: option.split)
  show ?thesis
  proof (cases "(sq_len st mod ?b = 0) = (sq_pending st = None)")
    case True
    then have "t = s \<and> (\<exists>e. r = Inl e)"
      using c Inr by (auto simp: paged_commit_token_def)
    with inv show ?thesis by auto
  next
    case False
    then have go: "paged_commit_token q s = (case checked_add_u32 (sq_len st1) 1 of
        None \<Rightarrow> (Inl (fail ContextLimitExceeded ''kv token length overflows''),
          s\<lparr>pk_sequences := bt_update q (\<lambda>_. st1) (pk_sequences s)\<rparr>)
      | Some n \<Rightarrow> (Inr n, s\<lparr>pk_sequences := bt_update q (\<lambda>_. st1\<lparr>sq_len := n\<rparr>) (pk_sequences s)\<rparr>))"
      unfolding paged_commit_token_def st1_def Let_def using Inr by auto
    show ?thesis
    proof (cases "sq_len st + 1 \<le> u32_max")
      case True
      have com: "length (sq_committed st1) = sq_len st div ?b + 1"
        using ok False div_ceil [OF b, of "sq_len st"] by (auto simp: seq_ok_def st1_def split: option.split)
      have "(sq_len st + 1 + (?b - 1)) div ?b = sq_len st div ?b + 1"
        using b by (simp add: div_add_self2)
      then have ok1: "seq_ok ?b (st1\<lparr>sq_len := sq_len st + 1\<rparr>)"
        using com st1 True by (simp add: seq_ok_def)
      have rt: "r = Inr (sq_len st + 1)"
          "t = s\<lparr>pk_sequences := bt_update q (\<lambda>_. st1\<lparr>sq_len := sq_len st + 1\<rparr>) (pk_sequences s)\<rparr>"
        using c go True st1 by (simp_all add: checked_add_u32_def)
      have table: "table_of (st1\<lparr>sq_len := n\<rparr>) = table_of st" for n
        using st1 by (simp add: table_of_def)
      have "paged_inv t"
        unfolding rt(2) using ok1 table by (intro paged_inv_update [OF inv st]) simp_all
      then show ?thesis using st st1 table by (auto simp: rt paged_same_def)
    next
      case over: False
      then have "sq_len st = u32_max" using ok by (simp add: seq_ok_def)
      moreover have "odd u32_max" by (simp add: u32_max_def)
      ultimately have "sq_len st mod ?b \<noteq> 0" using even by (metis dvd_trans mod_0_imp_dvd)
      with False have "sq_pending st = None" by simp
      then have same: "st1 = st" by (simp add: st1_def)
      have rt: "\<exists>e. r = Inl e" "t = s\<lparr>pk_sequences := bt_update q (\<lambda>_. st) (pk_sequences s)\<rparr>"
        using c go over same by (auto simp: checked_add_u32_def)
      have "paged_inv t"
        unfolding rt(2) using ok by (intro paged_inv_update [OF inv st]) simp_all
      then show ?thesis using rt st by (auto simp: paged_same_def)
    qed
  qed
qed

lemma paged_commit_read:
  assumes "paged_inv s" and "paged_commit_token q s = (Inr n, t)" and "paged_read q l tk w key s = Inr v"
  shows "paged_read q l tk w key t = Inr v"
  using paged_commit_ok [OF assms(1,2)] assms(3)
  by (auto simp: paged_read_Inr paged_slot_offset_def paged_width_def)

subsection \<open>The paged store keeps the contract\<close>

lemma paged_same_keeps: "paged_same r s t \<Longrightarrow> kv_keeps paged_active paged_token_len paged_read r s t"
  using paged_same_active [of r s t] paged_same_len [of r s t] paged_same_read [of r s t]
  by (auto simp: kv_keeps_def)

lemma seq_ok_committed:
  assumes "seq_ok b st" and "0 < b" and "tk < sq_len st"
  shows "tk div b < length (sq_committed st)"
proof -
  have "tk div b \<le> sq_len st div b" using assms(3) by (simp add: div_le_mono)
  moreover have "tk div b < sq_len st div b" if "sq_len st mod b = 0"
    using assms(2,3) that by (metis div_less_iff_less_mult div_mult_mod_eq add.right_neutral)
  ultimately show ?thesis using assms(1) div_ceil [OF assms(2), of "sq_len st"]
    by (auto simp: seq_ok_def)
qed

lemma paged_abort_read:
  assumes inv: "paged_inv s" and a: "paged_abort_pending q s = (r, t)"
    and st: "bt_get (pk_sequences s) q = Some st" and tk: "tk < sq_len st"
    and rd: "paged_read q l tk w key s = Inr v"
  shows "paged_read q l tk w key t = Inr v"
proof -
  let ?b = "lay_block_size (pk_layout s)"
  have i: "tk div ?b < length (sq_committed st)"
    using seq_ok_committed inv_seq_ok [OF inv st] tk by blast
  then have "table_of st ! (tk div ?b) = sq_committed st ! (tk div ?b)"
      "table_of (st\<lparr>sq_pending := None\<rparr>) ! (tk div ?b) = sq_committed st ! (tk div ?b)"
      "sq_committed st ! (tk div ?b) \<in> set (sq_committed st)"
    by (simp_all add: table_of_def nth_append)
  then show ?thesis
    using paged_abort_ok(3) [OF inv a st] rd st i
    by (auto simp: paged_read_Inr paged_slot_offset_def paged_width_def table_of_def)
qed

lemma paged_inv_release: "paged_inv s \<Longrightarrow> paged_inv (snd (paged_release_sequence q s))"
  by (cases "paged_release_sequence q s", cases "fst (paged_release_sequence q s)")
    (auto dest: paged_release_ok(1) paged_release_Inl)

lemma paged_inv_write: "paged_inv s \<Longrightarrow> paged_inv (snd (paged_write q l tk vs key s))"
  by (cases "paged_write q l tk vs key s", cases "fst (paged_write q l tk vs key s)")
    (auto dest: paged_write_Inl(1) paged_write_spec(1))

lemma paged_keeps_release:
  assumes "paged_inv s" and "r \<noteq> q"
  shows "kv_keeps paged_active paged_token_len paged_read r s (snd (paged_release_sequence q s))"
proof (cases "paged_release_sequence q s")
  case (Pair x t)
  have "paged_same r s t"
    using Pair assms by (cases x) (auto dest: paged_release_Inl paged_release_ok(2))
  with Pair show ?thesis by (simp add: paged_same_keeps)
qed

lemma paged_keeps_commit:
  assumes inv: "paged_inv s"
  shows "kv_keeps paged_active paged_token_len paged_read r s (snd (paged_commit_token q s))"
proof (cases "paged_commit_token q s")
  case (Pair x t)
  note ok = paged_commit_ok [OF inv Pair]
  show ?thesis
  proof (cases "r = q")
    case False
    with ok Pair show ?thesis by (auto intro: paged_same_keeps)
  next
    case True
    show ?thesis
    proof (cases x)
      case (Inl e)
      with ok True Pair show ?thesis by (auto intro: paged_same_keeps)
    next
      case (Inr n)
      with ok paged_commit_read [OF inv, of q n t] True Pair show ?thesis
        by (fastforce simp: kv_keeps_def paged_active_def paged_token_len_def paged_sequence_def)
    qed
  qed
qed

lemma paged_keeps_abort:
  assumes inv: "paged_inv s"
  shows "kv_keeps paged_active paged_token_len paged_read r s (snd (paged_abort_pending q s))"
proof (cases "paged_abort_pending q s")
  case (Pair x t)
  note ok = paged_abort_ok [OF inv Pair]
  show ?thesis
  proof (cases "r = q")
    case False
    with ok(2) Pair show ?thesis by (auto intro: paged_same_keeps)
  next
    case True
    with ok(3) paged_abort_read [OF inv Pair] Pair show ?thesis
      by (fastforce simp: kv_keeps_def paged_active_def paged_token_len_def paged_sequence_def)
  qed
qed

lemma paged_keeps_write:
  assumes inv: "paged_inv s"
  shows "kv_keeps paged_active paged_token_len paged_read r s (snd (paged_write q l tk vs key s))"
proof (cases "paged_write q l tk vs key s")
  case (Pair x t)
  show ?thesis
  proof (cases x)
    case (Inl e)
    then have "paged_active s r \<Longrightarrow> paged_same r s t" using paged_write_Inl(2) [OF inv] Pair by simp
    then show ?thesis using Pair paged_same_keeps by (fastforce simp: kv_keeps_def)
  next
    case (Inr u)
    note w = paged_write_spec [OF inv Pair [unfolded Inr]]
    show ?thesis
    proof (cases "r = q")
      case False
      then have "paged_active s r \<Longrightarrow> paged_same r s t" using w(5) by blast
      then show ?thesis using Pair paged_same_keeps by (fastforce simp: kv_keeps_def)
    next
      case True
      with w(2,3,4,7) Pair show ?thesis by (auto simp: kv_keeps_def)
    qed
  qed
qed

interpretation paged: kv_store paged_begin_sequence paged_release_sequence paged_commit_token
  paged_abort_pending paged_write paged_read paged_token_len paged_active paged_inv
proof
  fix s q r l tk vs key
  assume inv: "paged_inv s"
  show "paged_inv (snd (paged_begin_sequence q s))"
    by (cases "paged_begin_sequence q s") (simp add: paged_begin_ok(1) [OF inv])
  show "paged_inv (snd (paged_release_sequence q s))" using inv by (rule paged_inv_release)
  show "paged_inv (snd (paged_commit_token q s))"
    by (cases "paged_commit_token q s") (use paged_commit_ok [OF inv, of q] in auto)
  show "paged_inv (snd (paged_abort_pending q s))"
    by (cases "paged_abort_pending q s") (simp add: paged_abort_ok(1) [OF inv])
  show "paged_inv (snd (paged_write q l tk vs key s))" using inv by (rule paged_inv_write)
  show "paged_active s q \<Longrightarrow> is_ok (paged_token_len q s)"
    by (auto simp: paged_active_def paged_token_len_def paged_sequence_def)
  show "kv_keeps paged_active paged_token_len paged_read r s (snd (paged_begin_sequence q s))"
  proof (cases "paged_begin_sequence q s")
    case (Pair x t)
    show ?thesis
    proof (cases "r \<noteq> q \<or> (\<exists>e. x = Inl e)")
      case True
      with paged_begin_ok(2) [OF inv Pair] Pair show ?thesis by (simp add: paged_same_keeps)
    next
      case False
      then obtain u where "x = Inr u" by (cases x) auto
      with paged_begin_ok(4) [OF inv Pair, of u] False show ?thesis by (simp add: kv_keeps_def)
    qed
  qed
  show "r \<noteq> q \<Longrightarrow> kv_keeps paged_active paged_token_len paged_read r s (snd (paged_release_sequence q s))"
    using inv by (rule paged_keeps_release)
  show "kv_keeps paged_active paged_token_len paged_read r s (snd (paged_commit_token q s))"
    using inv by (rule paged_keeps_commit)
  show "kv_keeps paged_active paged_token_len paged_read r s (snd (paged_abort_pending q s))"
    using inv by (rule paged_keeps_abort)
  show "kv_keeps paged_active paged_token_len paged_read r s (snd (paged_write q l tk vs key s))"
    using inv by (rule paged_keeps_write)
next
  fix s q t and u :: unit
  assume inv: "paged_inv s"
  show "paged_begin_sequence q s = (Inr u, t) \<Longrightarrow> paged_active t q \<and> paged_token_len q t = Inr 0"
    using paged_begin_ok(3) [OF inv] by blast
  show "paged_release_sequence q s = (Inr u, t) \<Longrightarrow> \<not> paged_active t q \<and> \<not> is_ok (paged_token_len q t)"
    using paged_release_ok(3) [OF inv, of q u t]
    by (auto simp: paged_active_def paged_token_len_def paged_sequence_def)
next
  fix s q l tk vs key t and u :: unit
  assume inv: "paged_inv s" and w: "paged_write q l tk vs key s = (Inr u, t)"
  note spec = paged_write_spec [OF inv w]
  show "paged_token_len q s = Inr tk \<and> paged_token_len q t = Inr tk" using spec(2,3) by blast
  show "paged_read q l tk (length vs) key t = Inr vs" by (rule spec(6))
  show "(l', key') \<noteq> (l, key) \<Longrightarrow> paged_read q l' tk w key' s = Inr v \<Longrightarrow>
      paged_read q l' tk w key' t = Inr v" for l' key' w v
    using spec(7) [of l' tk key'] by auto
next
  fix s q n t l tk w key v
  assume inv: "paged_inv s" and c: "paged_commit_token q s = (Inr n, t)"
  show "paged_token_len q t = Inr n \<and> (\<exists>m. paged_token_len q s = Inr m \<and> n = m + 1)"
    using paged_commit_ok [OF inv c] by (auto simp: paged_token_len_def paged_sequence_def)
  show "paged_read q l tk w key s = Inr v \<Longrightarrow> paged_read q l tk w key t = Inr v"
    using inv c by (rule paged_commit_read)
qed

subsection \<open>Giving sequences up\<close>

lemma paged_deactivate_ok:
  assumes inv: "paged_inv s" and d: "paged_deactivate q s = (r, t)"
  shows "paged_inv t" and "x \<noteq> q \<Longrightarrow> paged_same x s t"
proof -
  have "paged_inv t \<and> (\<forall>x. x \<noteq> q \<longrightarrow> paged_same x s t)"
  proof (cases "paged_sequence q s")
    case (Inl e)
    with d inv show ?thesis by (auto simp: paged_deactivate_def)
  next
    case (Inr st)
    then have st: "bt_get (pk_sequences s) q = Some st" by (simp add: res)
    have t: "t = s\<lparr>pk_sequences := bt_update q (\<lambda>st. st\<lparr>sq_active := False\<rparr>) (pk_sequences s)\<rparr>"
      using d Inr by (simp add: paged_deactivate_def)
    have "seq_ok (lay_block_size (pk_layout s)) (st\<lparr>sq_active := False\<rparr>)"
      using inv_seq_ok [OF inv st] by (simp add: seq_ok_def)
    then have "paged_inv t"
      unfolding t by (intro paged_inv_update [OF inv st]) (simp_all add: table_of_def)
    then show ?thesis by (auto simp: t paged_same_def)
  qed
  then show "paged_inv t" and "x \<noteq> q \<Longrightarrow> paged_same x s t" by auto
qed

lemma paged_inv_invalidate:
  assumes "paged_inv s"
  shows "paged_inv (paged_invalidate s)"
proof -
  let ?t = "fold (\<lambda>q s. snd (paged_release_sequence q s)) (bt_keys (pk_sequences s)) s"
  have "paged_inv (fold (\<lambda>q s. snd (paged_release_sequence q s)) qs s)" for qs
    using assms by (induction qs arbitrary: s) (simp_all add: paged_inv_release)
  then have core: "paged_core ?t" by (simp add: paged_inv_with_def)
  let ?u = "?t\<lparr>pk_pages := map zero_page (pk_pages ?t), pk_free := [0..<length (pk_pages ?t)], pk_sequences := []\<rparr>"
  have "paged_core ?u"
    using core by (simp add: paged_core_def bt_ok_def)
  moreover have "mset [0..<n] = mset_set {..<n}" for n :: nat
    by (simp add: mset_upt atLeast0LessThan)
  ultimately have "paged_inv ?u"
    by (simp add: paged_inv_with_def paged_owned_def)
  then show ?thesis by (simp only: paged_invalidate_def Let_def)
qed

interpretation pool: kv_pool paged_begin_sequence paged_release_sequence paged_commit_token
  paged_abort_pending paged_write paged_read paged_token_len paged_active paged_inv
  paged_deactivate paged_invalidate
proof
  fix s q r
  assume inv: "paged_inv s"
  show "paged_inv (snd (paged_deactivate q s))"
    by (cases "paged_deactivate q s") (simp add: paged_deactivate_ok(1) [OF inv])
  show "paged_inv (paged_invalidate s)" using inv by (rule paged_inv_invalidate)
  show "r \<noteq> q \<Longrightarrow> kv_keeps paged_active paged_token_len paged_read r s (snd (paged_deactivate q s))"
    by (cases "paged_deactivate q s") (simp add: paged_same_keeps paged_deactivate_ok(2) [OF inv])
qed

end
