(* ===== verification/Kv_Runs.thy ===== *)
theory Kv_Runs
  imports Single_Kv Paged_Proofs
begin

text \<open>
  Sequences of calls on the two stores, as functions that compute, and the lemmas of the store
  contract for them: the mutating calls of the \<open>KvStore\<close> trait, and for the paged store also its own
  \<open>deactivate\<close> and \<open>invalidate\<close>.
\<close>

fun single_call :: "kv_call \<Rightarrow> single_kv \<Rightarrow> single_kv" where
  "single_call (CallBegin q) s = snd (single_begin_sequence q s)"
| "single_call (CallRelease q) s = snd (single_release_sequence q s)"
| "single_call (CallCommit q) s = snd (single_commit_token q s)"
| "single_call (CallAbort q) s = snd (single_abort_pending q s)"
| "single_call (CallWrite q l tk vs key) s = snd (single_write q l tk vs key s)"

fun paged_call :: "pool_call \<Rightarrow> paged_kv \<Rightarrow> paged_kv" where
  "paged_call (TraitCall (CallBegin q)) s = snd (paged_begin_sequence q s)"
| "paged_call (TraitCall (CallRelease q)) s = snd (paged_release_sequence q s)"
| "paged_call (TraitCall (CallCommit q)) s = snd (paged_commit_token q s)"
| "paged_call (TraitCall (CallAbort q)) s = snd (paged_abort_pending q s)"
| "paged_call (TraitCall (CallWrite q l tk vs key)) s = snd (paged_write q l tk vs key s)"
| "paged_call (CallDeactivate q) s = snd (paged_deactivate q s)"
| "paged_call CallInvalidate s = paged_invalidate s"

definition single_run :: "kv_call list \<Rightarrow> single_kv \<Rightarrow> single_kv" where
  "single_run cs s = fold single_call cs s"

definition paged_run :: "pool_call list \<Rightarrow> paged_kv \<Rightarrow> paged_kv" where
  "paged_run cs s = fold paged_call cs s"

text \<open>Writing the vectors of one token: layer, key or value, vector.\<close>

fun single_fill :: "nat \<Rightarrow> nat \<Rightarrow> (nat \<times> bool \<times> f32 list) list \<Rightarrow> (single_kv, unit) op" where
  "single_fill q tk [] = op_return ()"
| "single_fill q tk ((l, key, vs) # cells) = op_seq (single_write q l tk vs key) (single_fill q tk cells)"

fun paged_fill :: "nat \<Rightarrow> nat \<Rightarrow> (nat \<times> bool \<times> f32 list) list \<Rightarrow> (paged_kv, unit) op" where
  "paged_fill q tk [] = op_return ()"
| "paged_fill q tk ((l, key, vs) # cells) = op_seq (paged_write q l tk vs key) (paged_fill q tk cells)"

lemma single_run_eq: "single.run_calls cs s = single_run cs s"
proof -
  have "single.run_call c s = single_call c s" for c s by (cases c) simp_all
  then have "single.run_call = single_call" by (intro ext)
  then show ?thesis by (simp add: single.run_calls_def single_run_def)
qed

lemma paged_run_eq: "pool.run_pool cs s = paged_run cs s"
proof -
  have "pool.run_pool_call c s = paged_call c s" for c s
    by (induction c s rule: paged_call.induct) simp_all
  then have "pool.run_pool_call = paged_call" by (intro ext)
  then show ?thesis by (simp add: pool.run_pool_def paged_run_def)
qed

lemma single_fill_eq: "single.write_cells q tk cells = single_fill q tk cells"
  by (induction q tk cells rule: single_fill.induct) (simp_all add: single.write_cells.simps)

lemma paged_fill_eq: "paged.write_cells q tk cells = paged_fill q tk cells"
  by (induction q tk cells rule: paged_fill.induct) (simp_all add: paged.write_cells.simps)

lemmas single_stable = single.committed_token_stable [unfolded single_run_eq single_fill_eq]
lemmas paged_stable = pool.pool_token_stable [unfolded paged_run_eq paged_fill_eq]

lemma single_run_inv: "single_inv s \<Longrightarrow> single_inv (single_run cs s)"
  using single.inv_calls [of s cs] by (simp only: single_run_eq)

lemma paged_run_inv: "paged_inv s \<Longrightarrow> paged_inv (paged_run cs s)"
  using pool.inv_pool [of s cs] by (simp only: paged_run_eq)

text \<open>A small store of each kind with one open sequence.\<close>

definition demo_layout :: kv_layout where
  "demo_layout = \<lparr>lay_layers = 1, lay_kv_heads = 1, lay_head_dim = 1, lay_block_size = 16,
     lay_dtype = ''f32''\<rparr>"

definition single_demo :: single_kv where
  "single_demo = \<lparr>sk_layout = demo_layout, sk_next_block = 1,
     sk_sequences = [(1, \<lparr>ss_block_id = 0, ss_len = 0, ss_k = replicate 16 0, ss_v = replicate 16 0\<rparr>)]\<rparr>"

definition single_demo_full :: single_kv where
  "single_demo_full = single_demo\<lparr>sk_sequences :=
     [(1, \<lparr>ss_block_id = 0, ss_len = 0, ss_k = 5 # replicate 15 0, ss_v = 7 # replicate 15 0\<rparr>)]\<rparr>"

definition paged_demo :: paged_kv where
  "paged_demo = \<lparr>pk_layout = demo_layout,
     pk_pages = replicate 2 \<lparr>pg_k = replicate 16 0, pg_v = replicate 16 0\<rparr>, pk_free = [0, 1],
     pk_sequences = [(1, \<lparr>sq_committed = [], sq_pending = None, sq_len = 0, sq_active = True\<rparr>)]\<rparr>"

definition paged_demo_full :: paged_kv where
  "paged_demo_full = paged_demo\<lparr>
     pk_pages := [\<lparr>pg_k = 5 # replicate 15 0, pg_v = 7 # replicate 15 0\<rparr>,
       \<lparr>pg_k = replicate 16 0, pg_v = replicate 16 0\<rparr>], pk_free := [1],
     pk_sequences := [(1, \<lparr>sq_committed = [], sq_pending = Some 0, sq_len = 0, sq_active = True\<rparr>)]\<rparr>"

abbreviation demo_cells :: "(nat \<times> bool \<times> f32 list) list" where
  "demo_cells \<equiv> [(0, True, [5]), (0, False, [7])]"

lemmas kv_eval = wrap_u64_def demo_layout_def op_seq_def op_bind_def op_return_def ok_or_def layout_width_def
  splice_def slice_def bt_update_def bs_pop_first_def table_of_def
  single_run_def single_begin_sequence_def single_write_def single_width_def single_offset_def
  single_sequence_def single_commit_token_def single_demo_def single_demo_full_def
  paged_run_def paged_begin_sequence_def paged_write_def paged_width_def paged_slot_offset_def
  paged_sequence_def paged_commit_token_def paged_page_for_write_def paged_reserve.simps
  paged_page_def paged_demo_def paged_demo_full_def

lemma single_demo_reached:
  "single_new demo_layout = Inr \<lparr>sk_layout = demo_layout, sk_next_block = 0, sk_sequences = []\<rparr>"
  "single_run [CallBegin 1] \<lparr>sk_layout = demo_layout, sk_next_block = 0, sk_sequences = []\<rparr> = single_demo"
  by (simp_all add: kv_eval single_new_def max_sequences_def saturating_add_u32_def u32_max_def)

lemma single_demo_fill:
  "single_fill 1 0 demo_cells single_demo = (Inr (), single_demo_full)"
  "single_commit_token 1 single_demo_full = (Inr 1, snd (single_commit_token 1 single_demo_full))"
  "single_live (snd (single_commit_token 1 single_demo_full)) 1"
  by (simp_all add: kv_eval single_live_def)

lemma single_demo_inv: "single_inv single_demo"
  by (auto simp: single_inv_def kv_eval layout_ok_def layout_slots_def max_sequences_def bt_ok_def u64_max_def split: if_splits)

lemma power_of_two_16: "is_power_of_two 16"
  by code_simp

lemma paged_demo_reached:
  "paged_new demo_layout 2 = Inr (paged_demo\<lparr>pk_sequences := []\<rparr>)"
  "paged_run [TraitCall (CallBegin 1)] (paged_demo\<lparr>pk_sequences := []\<rparr>) = paged_demo"
proof -
  have "planned_kv_pool demo_layout 2 = Inr \<lparr>pool_slots = 16, pool_total_bytes = 256\<rparr>"
    by (simp add: planned_kv_pool_def planned_kv_pool_within_Inr demo_layout_def layout_ok_def
        layout_slots_def layout_width_def power_of_two_16 max_pool_bytes_def u64_max_def)
  moreover have "[0..<2] = [0, 1 :: nat]" by (simp add: upt_rec)
  ultimately show "paged_new demo_layout 2 = Inr (paged_demo\<lparr>pk_sequences := []\<rparr>)"
    by (simp add: paged_new_def paged_allocate_def paged_demo_def ok_or_def u64_max_def)
qed (simp add: kv_eval)

lemma paged_demo_fill:
  "paged_fill 1 0 demo_cells paged_demo = (Inr (), paged_demo_full)"
  by (simp add: kv_eval numeral_2_eq_2)

lemma paged_demo_commit:
  "paged_commit_token 1 paged_demo_full = (Inr 1, snd (paged_commit_token 1 paged_demo_full))"
  "paged_active (snd (paged_commit_token 1 paged_demo_full)) 1"
  by (simp_all add: kv_eval paged_active_def checked_add_u32_def u32_max_def)

lemma paged_demo_inv: "paged_inv paged_demo"
proof -
  have "paged_with_limit demo_layout 2 max_pool_bytes = Inr (paged_demo\<lparr>pk_sequences := []\<rparr>)"
    using paged_demo_reached(1)
    by (simp add: paged_new_def paged_with_limit_def planned_kv_pool_def)
  then show ?thesis
    using paged_run_inv [OF paged_new_inv(1)] paged_demo_reached(2) by metis
qed

end
