(* ===== verification/Demo.thy ===== *)
theory Demo
  imports Scheduler_Run Kv_Runs
begin

text \<open>
  Concrete inputs the properties are applied to: a sampler plan, a scheduler with one admitted
  request, a model and a store that always answer, two limits documents and a constant hash.
\<close>

definition demo_sampler :: sampler_plan where
  "demo_sampler =
    \<lparr>sp_settings = \<lparr>temperature_micros = 0, top_p_millionths = 0, min_p_millionths = 0,
       repetition_penalty_micros = 0, presence_penalty_micros = 0, frequency_penalty_micros = 0,
       top_k = 0, max_output_tokens = 3\<rparr>,
     sp_rng = ''none'', sp_seed = None, sp_stream = None, sp_tie_break = ''lowest-token-id'',
     sp_eos_token_ids = [2], sp_stop_string_roots = [], sp_extensions = []\<rparr>"

definition demo_config :: scheduler_config where
  "demo_config = \<lparr>cfg_runtime_root = ''rt'', cfg_max_context_tokens = 64, cfg_block_size = 16,
     cfg_page_capacity = 4, cfg_prefill_chunk_tokens = 2\<rparr>"

definition demo_request :: schedule_request where
  "demo_request = \<lparr>rq_request_id = ''a'', rq_runtime_root = ''rt'', rq_prompt = [5, 6, 7],
     rq_sampler = demo_sampler, rq_class = Standard\<rparr>"

definition demo_float :: float_ops where
  "demo_float =
    \<lparr>fo32_of_u32 = \<lambda>_. 0, fo32_mul = \<lambda>x _. x, fo32_div = \<lambda>x _. x, fo32_sub = \<lambda>x _. x,
     fo64_of_u32 = \<lambda>_. 0, fo64_of_f32 = \<lambda>_. 0, fo64_exp = \<lambda>x. x, fo64_add = \<lambda>x _. x,
     fo64_mul = \<lambda>x _. x, fo64_div = \<lambda>x _. x, fo64_sum = \<lambda>_. 0\<rparr>"

definition demo_engine :: "(unit, unit) engine" where
  "demo_engine =
    \<lparr>eng_runtime_root = \<lambda>_. ''rt'', eng_max_context_tokens = \<lambda>_. 64,
     eng_model_layout = \<lambda>_. demo_layout, eng_prefill = \<lambda>_ _. op_return [0],
     eng_decode = \<lambda>_ _ _. op_return [0], eng_kv_layout = \<lambda>_. demo_layout,
     eng_kv_begin = \<lambda>_. op_return (), eng_kv_release = \<lambda>_. op_return (),
     eng_kv_abort = \<lambda>_. op_return (), eng_kv_token_len = \<lambda>_ _. Inr 3,
     eng_float = demo_float, eng_elapsed = \<lambda>_. 1000\<rparr>"

definition demo_scheduler :: scheduler where
  "demo_scheduler = (scheduler_new demo_config)
     \<lparr>sc_next_sequence := 1, sc_reserved_pages := 1, sc_ids := [(''a'', 1)],
      sc_slots := [(1, new_slot demo_request 1 0 1)]\<rparr>"

definition demo_world :: "(unit, unit) world" where
  "demo_world = \<lparr>w_sched = demo_scheduler, w_model = (), w_kv = (), w_clock = 0\<rparr>"

lemma demo_config_ok:
  "scheduler_config_new ''rt'' 64 16 4 2 = Inr demo_config" "config_ok demo_config"
  by (simp_all add: scheduler_config_new_def demo_config_def max_iters_def power_of_two_16 config_ok_def)

lemma demo_sampler_ok: "sampler_plan_validate demo_sampler = Inr ()"
  by (simp add: sampler_plan_validate_def demo_sampler_def fixed_point_sampler_validate_def one_of_def
      sorted_unique_def)

lemma demo_admit: "admit_check demo_request (scheduler_new demo_config) = Inr (1, 1, 1)"
  using demo_sampler_ok
  by (simp add: admit_check_def demo_request_def scheduler_new_def demo_config_def demo_sampler_def
      valid_request_id_def ascii_defs checked_defs u32_max_def u64_max_def page_count_def ok_or_def)

lemma demo_submit: "submit demo_request (scheduler_new demo_config) = (Inr 1, demo_scheduler)"
  using demo_admit
  by (simp add: submit_def admit_def demo_scheduler_def runnable_vtime_def bt_values_def
      scheduler_new_def demo_request_def)

lemma demo_reachable:
  "sched_reachable demo_engine demo_config demo_world"
proof -
  let ?w = "\<lparr>w_sched = scheduler_new demo_config, w_model = (), w_kv = (), w_clock = 0\<rparr>"
  have "sched_reachable demo_engine demo_config ?w" by (rule sched_reachable.start) simp
  then have "sched_reachable demo_engine demo_config (?w\<lparr>w_sched := snd (submit demo_request (w_sched ?w))\<rparr>)"
    by (rule sched_reachable.submit)
  then show ?thesis by (simp add: demo_submit demo_world_def)
qed

lemma demo_sched_ok: "sched_inv demo_scheduler" "sched_bounded demo_scheduler"
  using sched_reachable_inv [OF demo_reachable demo_config_ok(2)]
    sched_bounded_submit [OF sched_inv_new [OF demo_config_ok(2)] sched_bounded_new, of demo_request]
  by (simp_all add: demo_world_def demo_submit)

lemma demo_work: "sched_work demo_scheduler < max_iters"
  by (simp add: sched_work_def demo_scheduler_def slot_work_def new_slot_def demo_request_def
      max_tokens_def demo_sampler_def max_iters_def)

definition demo_limits :: "nat \<Rightarrow> limits" where
  "demo_limits n = \<lparr>lim_max_output_tokens = n, lim_max_prompt_tokens = 1, lim_deadline_unix_micros = None\<rparr>"

definition demo_limits_cbor :: "nat \<Rightarrow> cbor_value" where
  "demo_limits_cbor n = CMap [(''maxOutputTokens'', CInteger (int n)), (''maxPromptTokens'', CInteger 1)]"

lemma demo_limits_document:
  assumes "n \<in> {1, 2}"
  shows "document_bytes limits_to_cbor (encode (demo_limits_cbor n)) (demo_limits n)"
proof -
  have "limits_to_cbor (demo_limits n) = Inr (demo_limits_cbor n)"
    using assms by (auto simp: limits_to_cbor_def limits_validate_def demo_limits_def demo_limits_cbor_def
        builder_finish_def put_def put_opt_def builder_bare_def cbor_u32_def)
  moreover have "cbor_wf 0 (demo_limits_cbor n)"
    using assms by (auto simp: demo_limits_cbor_def max_depth_def max_items_def u64_max_def key_less_def
        integer_in_cbor_range_def i128_min_cbor_def i128_max_cbor_def ascii_defs
        intro!: utf8_string_ascii)
  moreover have "length (encode (demo_limits_cbor n)) \<le> max_document_bytes"
    using assms by (auto simp: demo_limits_cbor_def max_document_bytes_def encode_text_def
        encode_integer_def encode_length_def)
  ultimately show ?thesis by (auto simp: document_bytes_def)
qed

definition constant_hash :: "u8 list \<Rightarrow> u8 list" where
  "constant_hash bs = replicate 32 0"

definition paged_single :: paged_kv where
  "paged_single = \<lparr>pk_layout = demo_layout, pk_pages = [\<lparr>pg_k = replicate 16 0, pg_v = replicate 16 0\<rparr>],
     pk_free = [0], pk_sequences = []\<rparr>"

lemma demo_eviction_pool: "paged_with_limit demo_layout 1 1000 = Inr paged_single"
proof -
  have "planned_kv_pool_within demo_layout 1 1000 = Inr \<lparr>pool_slots = 16, pool_total_bytes = 128\<rparr>"
    by (simp add: planned_kv_pool_within_Inr demo_layout_def layout_ok_def
        layout_slots_def layout_width_def power_of_two_16 u64_max_def)
  then show ?thesis
    by (simp add: paged_with_limit_def paged_allocate_def ok_or_def u64_max_def paged_single_def)
qed

text \<open>The second sequence takes the only page from the first, which was given up.\<close>

definition demo_eviction :: "pool_call list" where
  "demo_eviction = [TraitCall (CallBegin 1), TraitCall (CallWrite 1 0 0 [5] True), TraitCall (CallCommit 1),
     CallDeactivate 1, TraitCall (CallBegin 2), TraitCall (CallWrite 2 0 0 [6] True)]"

lemma demo_evicted:
  "bt_get (pk_sequences (paged_run demo_eviction paged_single)) 1 = None"
  "paged_block_table 2 (paged_run demo_eviction paged_single) = Inr [0]"
  by (simp_all add: kv_eval demo_eviction_def paged_single_def paged_deactivate_def paged_victim_def
      release_fold paged_free_page_def zero_page_def bs_insert_def insort_insert_key_def bt_remove_def checked_add_u32_def
      u32_max_def paged_block_table_def)

definition paged_full :: paged_kv where
  "paged_full = \<lparr>pk_layout = demo_layout,
     pk_pages = [\<lparr>pg_k = 5 # replicate 15 0, pg_v = replicate 16 0\<rparr>], pk_free = [],
     pk_sequences = [(1, \<lparr>sq_committed = [], sq_pending = Some 0, sq_len = 0, sq_active = True\<rparr>),
       (2, \<lparr>sq_committed = [], sq_pending = None, sq_len = 0, sq_active = True\<rparr>)]\<rparr>"

lemma paged_full_inv: "paged_inv paged_full"
proof -
  let ?s = paged_single
  from paged_run_inv [OF paged_new_inv(1) [OF demo_eviction_pool]]
  have "paged_inv (paged_run (map TraitCall [CallBegin 1, CallWrite 1 0 0 [5] True, CallBegin 2]) ?s)" .
  moreover have "paged_run (map TraitCall [CallBegin 1, CallWrite 1 0 0 [5] True, CallBegin 2]) ?s = paged_full"
    by (simp add: kv_eval paged_full_def paged_single_def)
  ultimately show ?thesis by simp
qed

lemma paged_full_refuses:
  "paged_reserve 2 paged_full = (Inl (fail InsufficientMemory ''kv page pool is exhausted''), paged_full)"
  by (simp add: kv_eval paged_full_def paged_victim_def)

definition demo_logits :: "f32_bits list" where
  "demo_logits = [0x3F800000, 0x40000000, 0x40000000]"

lemma demo_logits_ok:
  "list_all f32_is_finite demo_logits" "demo_logits \<noteq> []" "0x80000000 \<notin> set demo_logits"
  "greedy_index demo_logits 1"
proof -
  have f: "f_mag (0x3F800000 :: f32_bits) = 0x3F800000" "f_mag (0x40000000 :: f32_bits) = 0x40000000"
      "\<not> f_neg (0x3F800000 :: f32_bits)" "\<not> f_neg (0x40000000 :: f32_bits)"
    by (simp_all add: f_mag_def f_neg_def)
  show "list_all f32_is_finite demo_logits" "demo_logits \<noteq> []" "0x80000000 \<notin> set demo_logits"
    by (simp_all add: demo_logits_def f32_is_finite_def f)
  show "greedy_index demo_logits 1"
    by (auto simp: demo_logits_def greedy_index_def f32_is_finite_def f_order_def f less_Suc_eq numeral_3_eq_3)
qed

lemma demo_adjusted: "apply_penalties demo_float demo_sampler [] demo_logits = Inr demo_logits"
  by (simp add: apply_penalties_def Let_def demo_logits_def)

lemma demo_sample: "sample_token demo_float demo_logits demo_sampler [] 0 = Inr 1"
  using sample_token_temperature_0 [OF _ demo_sampler_ok demo_logits_ok(1,2) demo_adjusted demo_logits_ok(3), of 0]
    demo_logits_ok(4)
  by (simp add: demo_sampler_def lowest_finite_argmax_ok u32_max_def)

text \<open>A sampled choice at temperature 1 through a top-1 filter, with a step function for the exponential.\<close>

definition hot_sampler :: sampler_plan where
  "hot_sampler = demo_sampler
     \<lparr>sp_settings := (sp_settings demo_sampler)
        \<lparr>temperature_micros := 1000000, top_p_millionths := 1000000, repetition_penalty_micros := 1000000,
         top_k := 1\<rparr>,
      sp_rng := ''philox-4x32-v1'', sp_seed := Some 7, sp_stream := Some 0\<rparr>"

definition hot_float :: float_ops where
  "hot_float = demo_float
     \<lparr>fo64_exp := \<lambda>x. 0x3FF0000000000000, fo64_add := \<lambda>x y. if x = 0 then y else x,
      fo64_sum := \<lambda>_. 0x3FF0000000000000\<rparr>"

lemma hot_penalties: "apply_penalties hot_float hot_sampler [] demo_logits = Inr demo_logits"
  by (simp add: apply_penalties_def Let_def demo_logits_def)

lemma hot_valid: "sampler_plan_validate hot_sampler = Inr ()"
  by (simp add: sampler_plan_validate_def hot_sampler_def demo_sampler_def fixed_point_sampler_validate_def
      one_of_def sorted_unique_def)

lemma hot_top: "apply_top_k 1 demo_logits = [f32_neg_infinity, 0x40000000, f32_neg_infinity]"
proof -
  have "f_total (0x40000000 :: f32_bits) = 1073741824" "f_total (0x3F800000 :: f32_bits) = 1065353216"
    by (simp_all add: f_total_def f_mag_def f_neg_def)
  then have "top_order demo_logits = [1, 2, 0]"
    by (simp add: top_order_def demo_logits_def upt_rec)
  then show ?thesis by (simp add: apply_top_k_def demo_logits_def Let_def)
qed

lemma hot_sample: "sample_token hot_float demo_logits hot_sampler [] 0 = Inr 1"
proof -
  let ?one = "0x3FF0000000000000 :: f64_bits"
  have mag: "f_mag ?one = 4607182418800017408" "\<not> f_neg ?one" "f_mag (0 :: f64_bits) = 0" "\<not> f_neg (0 :: f64_bits)"
    by (simp_all add: f_mag_def f_neg_def)
  have fin: "f32_is_finite (0x40000000 :: f32_bits)" by (simp add: f32_is_finite_def f_mag_def)
  have "softmax hot_float [f32_neg_infinity, 0x40000000, f32_neg_infinity] = Inr [0, ?one, 0]"
    by (simp add: softmax_def fin hot_float_def demo_float_def f64_is_finite_def f64_eq_def mag f_order_def)
  moreover have "renormalize hot_float [0, ?one, 0] = Inr [0, ?one, 0]"
    by (simp add: renormalize_def hot_float_def demo_float_def f64_is_finite_def f64_eq_def mag f_order_def)
  moreover have "pick hot_float [0, ?one, 0] d = 1" for d
    by (simp add: pick_def f64_ge_def f64_is_nan_def mag f_order_def Let_def)
  ultimately show ?thesis
    using hot_valid hot_penalties hot_top demo_logits_ok
    by (simp add: sample_token_def Let_def hot_sampler_def demo_sampler_def apply_top_p_def apply_min_p_def
        fin ok_or_def hot_float_def demo_float_def)
qed

lemma hot_top_k: "top_k (sp_settings hot_sampler) = 1"
  by (simp add: hot_sampler_def)

lemma demo_logits_length: "length demo_logits = 3"
  by (simp add: demo_logits_def)

end
