(* ===== verification/Journal.thy ===== *)
theory Journal
  imports Execution_Contracts
begin

text \<open>
  The request journals of \<open>crates/infer-engine/src/journal.rs\<close>: one directory per request, one file per
  event, each event carrying the root of the one before. The directory tree is part of the state;
  whether a write succeeds is an argument. A link carries what it leads to.
\<close>

subsection \<open>Directories\<close>

datatype jnode = NFile "u8 list" | NDir | NLink "u8 list option"

type_synonym jfiles = "(string, jnode) btree"

datatype jentry = EDir jfiles | EFile | ELink "jfiles option"

datatype jroot = RMissing | RDir "(string, jentry) btree" | RFile | RLink

fun node_bytes :: "jnode \<Rightarrow> u8 list option" where
  "node_bytes (NFile bs) = Some bs"
| "node_bytes NDir = None"
| "node_bytes (NLink t) = t"

fun entry_files :: "jentry \<Rightarrow> jfiles option" where
  "entry_files (EDir fs) = Some fs"
| "entry_files EFile = None"
| "entry_files (ELink t) = t"

fun root_entry :: "string \<Rightarrow> jroot \<Rightarrow> jentry option" where
  "root_entry r (RDir es) = bt_get es r"
| "root_entry r _ = None"

fun root_put :: "string \<Rightarrow> jentry \<Rightarrow> jroot \<Rightarrow> jroot" where
  "root_put r e (RDir es) = RDir (bt_insert r e es)"
| "root_put r e root = root"

fun root_remove :: "string \<Rightarrow> jroot \<Rightarrow> jroot" where
  "root_remove r (RDir es) = RDir (bt_remove r es)"
| "root_remove r root = root"

text \<open>\<open>{n:06}\<close>\<close>

definition pad6 :: "nat \<Rightarrow> string" where
  "pad6 n = replicate (6 - length (dec_str n)) (CHR ''0'') @ dec_str n"

definition event_file :: "nat \<Rightarrow> string \<Rightarrow> string" where
  "event_file n name = pad6 n @ ''.'' @ name @ ''.cbor''"

definition ends_with :: "string \<Rightarrow> string \<Rightarrow> bool" where
  "ends_with s suffix \<longleftrightarrow> length suffix \<le> length s \<and> drop (length s - length suffix) s = suffix"

definition starts_with :: "string \<Rightarrow> string \<Rightarrow> bool" where
  "starts_with s prefix \<longleftrightarrow> take (length prefix) s = prefix"

fun trim_end_matches_upto :: "nat \<Rightarrow> string \<Rightarrow> string \<Rightarrow> string" where
  "trim_end_matches_upto 0 suffix s = s"
| "trim_end_matches_upto (Suc n) suffix s =
    (if ends_with s suffix then trim_end_matches_upto n suffix (take (length s - length suffix) s) else s)"

definition trim_end_matches :: "string \<Rightarrow> string \<Rightarrow> string" where
  "trim_end_matches suffix s = trim_end_matches_upto (length s) suffix s"

subsection \<open>Writing\<close>

record journal =
  j_request_id :: string
  j_previous :: "digest_hex option"
  j_next_index :: nat

definition journal_create :: "string \<Rightarrow> (jroot, journal) op" where
  "journal_create rid root =
    (case root of
       RDir es \<Rightarrow>
        if bt_get es rid \<noteq> None
        then (Inl (fail ReceiptPersistFailed ''request journal already exists''), root)
        else (Inr \<lparr>j_request_id = rid, j_previous = None, j_next_index = 0\<rparr>,
          RDir (bt_insert rid (EDir []) es))
     | _ \<Rightarrow> (Inl (fail ReceiptPersistFailed ''cannot create the journal''), root))"

text \<open>\<open>write_atomic\<close> into a journal: the whole file or nothing.\<close>

definition write_journal_file ::
  "(string \<Rightarrow> string \<Rightarrow> bool) \<Rightarrow> string \<Rightarrow> string \<Rightarrow> u8 list \<Rightarrow> (jroot, unit) op" where
  "write_journal_file can_write rid file bytes root =
    (case root_entry rid root of
       Some (EDir fs) \<Rightarrow>
        if can_write rid file \<and> bt_get fs file \<noteq> Some NDir
        then (Inr (), root_put rid (EDir (bt_insert file (NFile bytes) fs)) root)
        else (Inl (fail ReceiptPersistFailed ''write''), root)
     | _ \<Rightarrow> (Inl (fail ReceiptPersistFailed ''output directory does not exist''), root))"

definition journal_event :: "journal \<Rightarrow> string \<Rightarrow> digest_hex \<Rightarrow> inference_event" where
  "journal_event j name payload_root =
    \<lparr>ev_request_id = j_request_id j, ev_attempt = 1, ev_name = name,
     ev_previous_event_root = j_previous j, ev_payload_root = payload_root, ev_extensions = []\<rparr>"

definition journal_append ::
  "(u8 list \<Rightarrow> u8 list) \<Rightarrow> (string \<Rightarrow> string \<Rightarrow> bool) \<Rightarrow> string \<Rightarrow> digest_hex \<Rightarrow>
   (journal \<times> jroot, digest_hex) op" where
  "journal_append sha256 can_write name payload_root = (\<lambda>(j, root).
    (let event = journal_event j name payload_root in
     case inference_event_to_bytes event of
       Inl e \<Rightarrow> (Inl e, (j, root))
     | Inr bytes \<Rightarrow> (case inference_event_root sha256 event of
         Inl e \<Rightarrow> (Inl e, (j, root))
       | Inr r \<Rightarrow>
          (case write_journal_file can_write (j_request_id j) (event_file (j_next_index j) name) bytes root of
             (Inl e, root) \<Rightarrow> (Inl e, (j, root))
           | (Inr _, root) \<Rightarrow> (Inr r,
               (j\<lparr>j_previous := Some r, j_next_index := (j_next_index j + 1) mod 4294967296\<rparr>, root))))))"

definition journal_write_sampler ::
  "(string \<Rightarrow> string \<Rightarrow> bool) \<Rightarrow> sampler_plan \<Rightarrow> (journal \<times> jroot, unit) op" where
  "journal_write_sampler can_write plan = (\<lambda>(j, root).
    case sampler_plan_to_bytes plan of
      Inl e \<Rightarrow> (Inl e, (j, root))
    | Inr bytes \<Rightarrow>
       (case write_journal_file can_write (j_request_id j) ''sampler-plan.cbor'' bytes root of
          (r, root) \<Rightarrow> (r, (j, root))))"

definition load_sampler_plan :: "string \<Rightarrow> jroot \<Rightarrow> sampler_plan res" where
  "load_sampler_plan rid root =
    rbind (ok_or (case root_entry rid root of
        None \<Rightarrow> None
      | Some e \<Rightarrow> (case entry_files e of
          None \<Rightarrow> None
        | Some fs \<Rightarrow> (case bt_get fs ''sampler-plan.cbor'' of None \<Rightarrow> None | Some n \<Rightarrow> node_bytes n)))
      ReceiptRequired ''sampler plan is missing from the journal'') (\<lambda>bytes.
    rbind (decode_canonical bytes) (\<lambda>v.
    rbind (sampler_plan_from_cbor v) (\<lambda>plan.
    rbind (sampler_plan_to_bytes plan) (\<lambda>bytes'.
    if bytes' \<noteq> bytes then Inl (fail ContractInvalid ''sampler plan bytes are not canonical'')
    else Inr plan))))"

subsection \<open>Reading\<close>

definition is_event_file :: "string \<Rightarrow> bool" where
  "is_event_file name \<longleftrightarrow>
    utf8_string name \<and> ends_with name ''.cbor'' \<and> 6 < length name \<and> name ! 6 = CHR ''.''"

definition event_names :: "jfiles \<Rightarrow> string list" where
  "event_names fs = filter is_event_file (bt_keys fs)"

record chain =
  ch_previous :: digest_hex
  ch_next_index :: nat
  ch_terminal :: bool
  ch_started_accepted :: bool

text \<open>The body of the loop over the event files.\<close>

definition read_event ::
  "jfiles \<Rightarrow> string \<Rightarrow> nat \<Rightarrow> string \<Rightarrow> digest_hex option \<Rightarrow> inference_event res" where
  "read_event fs rid index name previous =
    (if \<not> starts_with name (pad6 index @ ''.'')
     then Inl (fail ContractInvalid ''journal event index is not contiguous'')
     else rbind (ok_or (case bt_get fs name of None \<Rightarrow> None | Some n \<Rightarrow> node_bytes n)
       ReceiptPersistFailed ''cannot read a journal event'') (\<lambda>bytes.
     rbind (decode_canonical bytes) (\<lambda>v.
     rbind (inference_event_from_cbor v) (\<lambda>event.
     rbind (inference_event_to_bytes event) (\<lambda>bytes'.
     if bytes' \<noteq> bytes then Inl (fail ContractInvalid ''journal event bytes are not canonical'')
     else if ev_request_id event \<noteq> rid \<or> ev_previous_event_root event \<noteq> previous
     then Inl (fail ContractInvalid ''journal event chain does not match'')
     else if ev_name event \<noteq> trim_end_matches ''.cbor'' (drop 7 name)
     then Inl (fail ContractInvalid ''journal file name does not match the event'')
     else Inr event)))))"

fun read_events ::
  "(u8 list \<Rightarrow> u8 list) \<Rightarrow> jfiles \<Rightarrow> string \<Rightarrow> nat \<Rightarrow> digest_hex option \<times> string \<Rightarrow> string list \<Rightarrow>
   (digest_hex option \<times> string) res" where
  "read_events sha256 fs rid index st [] = Inr st"
| "read_events sha256 fs rid index (previous, last_name) (name # names) =
    rbind (read_event fs rid index name previous) (\<lambda>event.
    rbind (inference_event_root sha256 event) (\<lambda>r.
    read_events sha256 fs rid (index + 1) (Some r, ev_name event) names))"

definition read_chain :: "(u8 list \<Rightarrow> u8 list) \<Rightarrow> jfiles \<Rightarrow> string \<Rightarrow> string list \<Rightarrow> chain res" where
  "read_chain sha256 fs rid names =
    rbind (read_events sha256 fs rid 0 (None, []) names) (\<lambda>(previous, last_name).
    rbind (ok_or previous ContractInvalid ''journal chain is empty'') (\<lambda>previous.
    rbind (ok_or (if length names \<le> u32_max then Some (length names) else None) ContractInvalid
      ''journal event index is not contiguous'') (\<lambda>next_index.
    Inr \<lparr>ch_previous = previous, ch_next_index = next_index,
         ch_terminal = (last_name = ''completed'' \<or> last_name = ''failed'' \<or> last_name = ''cancelled''),
         ch_started_accepted = ends_with (hd names) ''.accepted.cbor''\<rparr>)))"

definition verify_journal :: "(u8 list \<Rightarrow> u8 list) \<Rightarrow> string \<Rightarrow> jroot \<Rightarrow> digest_hex res" where
  "verify_journal sha256 rid root =
    rbind (ok_or (case root_entry rid root of None \<Rightarrow> None | Some e \<Rightarrow> entry_files e)
      ReceiptRequired ''journal is missing'') (\<lambda>fs.
    let names = event_names fs in
    if names = [] then Inl (fail ReceiptRequired ''journal has no events'')
    else rbind (read_chain sha256 fs rid names) (\<lambda>chain.
      if ch_started_accepted chain \<and> ch_terminal chain then Inr (ch_previous chain)
      else Inl (fail ContractInvalid ''journal does not start at accepted or end at a terminal event'')))"

subsection \<open>Recovery\<close>

definition worker_lost_payload :: "(u8 list \<Rightarrow> u8 list) \<Rightarrow> digest_hex res" where
  "worker_lost_payload sha256 = digest_value sha256 ''infer-execution-trace'' (CText ''WORKER_LOST'')"

definition valid_journal_id :: "string \<Rightarrow> bool" where
  "valid_journal_id r \<longleftrightarrow> r \<noteq> [] \<and> length r \<le> 64 \<and>
    list_all (\<lambda>c. is_ascii_alphanumeric c \<or> c = CHR ''_'' \<or> c = CHR ''-'') r"

fun journal_files_are_regular :: "jfiles \<Rightarrow> bool res" where
  "journal_files_are_regular [] = Inr True"
| "journal_files_are_regular ((name, node) # fs) =
    (case node of
       NLink _ \<Rightarrow> Inr False
     | NDir \<Rightarrow> Inl (fail ContractInvalid ''journal directory is incomplete'')
     | NFile _ \<Rightarrow>
        if \<not> utf8_string name then Inl (fail ContractInvalid ''journal file name is not unicode'')
        else journal_files_are_regular fs)"

definition recover_one ::
  "(u8 list \<Rightarrow> u8 list) \<Rightarrow> (string \<Rightarrow> string \<Rightarrow> bool) \<Rightarrow> string \<Rightarrow> (jroot, nat) op" where
  "recover_one sha256 can_write rid root =
    (case root_entry rid root of
       Some (EDir fs) \<Rightarrow>
        (case rbind (journal_files_are_regular fs) (\<lambda>regular.
            if regular then Inr () else Inl (fail ContractInvalid ''journal entry is a symlink'')) of
           Inl e \<Rightarrow> (Inl e, root)
         | Inr _ \<Rightarrow>
            (let names = event_names fs in
             if names = [] then (Inr 0, root_remove rid root)
             else case read_chain sha256 fs rid names of
               Inl e \<Rightarrow> (Inl e, root)
             | Inr chain \<Rightarrow>
                if ch_terminal chain \<and> ch_started_accepted chain then (Inr 0, root)
                else if \<not> ch_started_accepted chain
                then (Inl (fail ContractInvalid
                  ''journal does not start at accepted or end at a terminal event''), root)
                else
                 (let j = \<lparr>j_request_id = rid, j_previous = Some (ch_previous chain),
                        j_next_index = ch_next_index chain\<rparr>
                  in case worker_lost_payload sha256 of
                       Inl e \<Rightarrow> (Inl e, root)
                     | Inr payload \<Rightarrow>
                        (case journal_append sha256 can_write ''failed'' payload (j, root) of
                           (Inl e, (_, root)) \<Rightarrow> (Inl e, root)
                         | (Inr _, (_, root)) \<Rightarrow> (Inr 1, root)))))
     | _ \<Rightarrow> (Inl (fail ReceiptPersistFailed ''cannot read the journal''), root))"

text \<open>The entries of the journal directory, all checked before the first is touched.\<close>

fun journal_ids :: "(string, jentry) btree \<Rightarrow> string list res" where
  "journal_ids [] = Inr []"
| "journal_ids ((name, e) # es) =
    (case e of
       ELink _ \<Rightarrow> Inl (fail ContractInvalid ''journal entry is a symlink'')
     | EFile \<Rightarrow> Inl (fail ContractInvalid ''journal entry is not a directory'')
     | EDir _ \<Rightarrow>
        if \<not> utf8_string name \<or> \<not> valid_journal_id name
        then Inl (fail ContractInvalid ''journal name is not a request id'')
        else rbind (journal_ids es) (\<lambda>ids. Inr (name # ids)))"

fun recover_all ::
  "(u8 list \<Rightarrow> u8 list) \<Rightarrow> (string \<Rightarrow> string \<Rightarrow> bool) \<Rightarrow> nat \<Rightarrow> string list \<Rightarrow> (jroot, nat) op" where
  "recover_all sha256 can_write sealed [] = op_return sealed"
| "recover_all sha256 can_write sealed (r # ids) =
    op_bind (recover_one sha256 can_write r) (\<lambda>n.
      recover_all sha256 can_write (saturating_add_u32 sealed n) ids)"

definition recover_open_journals ::
  "(u8 list \<Rightarrow> u8 list) \<Rightarrow> (string \<Rightarrow> string \<Rightarrow> bool) \<Rightarrow> (jroot, nat) op" where
  "recover_open_journals sha256 can_write root =
    (case root of
       RMissing \<Rightarrow> (Inr 0, root)
     | RLink \<Rightarrow> (Inl (fail ContractInvalid ''journal directory is a symlink''), root)
     | RFile \<Rightarrow> (Inl (fail ContractInvalid ''journal directory is not a directory''), root)
     | RDir es \<Rightarrow> (case journal_ids es of
         Inl e \<Rightarrow> (Inl e, root)
       | Inr ids \<Rightarrow> recover_all sha256 can_write 0 (sort ids) root))"

end
