(* ===== verification/Journal_Proofs.thy ===== *)
theory Journal_Proofs
  imports Journal
begin

text \<open>
  What an append adds to a journal, that recovery leaves every journal verified, and that it is
  idempotent. File names sort by event index below a million, the width of the index.
\<close>

subsection \<open>File names in order\<close>

fun digits :: "nat \<Rightarrow> nat \<Rightarrow> string" where
  "digits 0 n = []"
| "digits (Suc w) n = digits w (n div 10) @ [char_of (48 + n mod 10)]"

lemma length_digits [simp]: "length (digits w n) = w"
  by (induction w arbitrary: n) simp_all

lemma digits_zero: "digits w 0 = replicate w (CHR ''0'')"
proof (induction w)
  case (Suc w)
  have "char_of (48 :: nat) = CHR ''0''" by code_simp
  then show ?case using Suc by (simp add: replicate_append_same)
qed simp

lemma dec_str_digits:
  "n < 10 ^ w \<Longrightarrow> 0 < w \<Longrightarrow> replicate (w - length (dec_str n)) (CHR ''0'') @ dec_str n = digits w n"
proof (induction w arbitrary: n)
  case (Suc w)
  show ?case
  proof (cases "n < 10")
    case True
    then show ?thesis by (simp add: dec_str.simps [of n] digits_zero)
  next
    case False
    then have "n div 10 < 10 ^ w" "0 < w" using Suc.prems by (auto simp: less_mult_imp_div_less intro!: gr0I)
    from Suc.IH [OF this] False show ?thesis by (simp add: dec_str.simps [of n])
  qed
qed simp

lemma pad6_digits: "n < 1000000 \<Longrightarrow> pad6 n = digits 6 n"
  using dec_str_digits [of n 6] by (simp add: pad6_def)

lemma length_pad6: "n < 1000000 \<Longrightarrow> length (pad6 n) = 6"
  by (simp add: pad6_digits)

lemma less_snoc: "length xs = length ys \<Longrightarrow> xs @ [a] < ys @ [b] \<longleftrightarrow> xs < ys \<or> xs = ys \<and> a < b"
  for xs ys :: "'a::linorder list"
  by (induction xs ys rule: list_induct2) auto

lemma less_append: "length xs = length ys \<Longrightarrow> xs < ys \<Longrightarrow> xs @ u < ys @ v"
  for xs ys :: "'a::linorder list"
  by (induction xs ys rule: list_induct2) auto

lemma digits_less: "m < 10 ^ w \<Longrightarrow> n < 10 ^ w \<Longrightarrow> digits w m < digits w n \<longleftrightarrow> m < n"
proof (induction w arbitrary: m n)
  case (Suc w)
  have d: "m div 10 < 10 ^ w" "n div 10 < 10 ^ w" using Suc.prems by (auto simp: less_mult_imp_div_less)
  have inj: "digits w (m div 10) = digits w (n div 10) \<longleftrightarrow> m div 10 = n div 10"
    using Suc.IH [OF d] Suc.IH [OF d(2,1)] by (metis linorder_neqE_nat less_irrefl)
  have "(48 + m mod 10) mod 256 = 48 + m mod 10" "(48 + n mod 10) mod 256 = 48 + n mod 10"
    by (simp_all add: mod_less)
  then have c: "char_of (48 + m mod 10) < (char_of (48 + n mod 10) :: char) \<longleftrightarrow> m mod 10 < n mod 10"
    by (simp add: less_char_def)
  have lin: "a < b \<or> a = b \<and> c < d \<longleftrightarrow> a * 10 + c < b * 10 + d" if "c < 10" "d < 10" for a b c d :: nat
    using that by presburger
  have "m div 10 < n div 10 \<or> m div 10 = n div 10 \<and> m mod 10 < n mod 10 \<longleftrightarrow> m < n"
    using lin [of "m mod 10" "n mod 10" "m div 10" "n div 10"] by (simp add: div_mult_mod_eq)
  then show ?case by (simp add: less_snoc Suc.IH [OF d] inj c)
qed simp

lemma pad6_less: "m < n \<Longrightarrow> n < 1000000 \<Longrightarrow> pad6 m < pad6 n"
  by (simp add: pad6_digits digits_less)

lemma indexed_less:
  assumes "starts_with name (pad6 m @ ''.'')" and "m < n" and "n < 1000000"
  shows "name < event_file n x"
proof -
  have "name = pad6 m @ ''.'' @ drop 7 name"
    using assms append_take_drop_id [of 7 name] by (simp add: starts_with_def length_pad6)
  moreover have "pad6 m @ (''.'' @ drop 7 name) < pad6 n @ (''.'' @ x @ ''.cbor'')"
    using assms by (intro less_append pad6_less) (simp_all add: length_pad6)
  ultimately show ?thesis unfolding event_file_def by metis
qed

lemma event_file_simps:
  assumes "n < 1000000"
  shows "starts_with (event_file n x) (pad6 n @ ''.'')" and "drop 7 (event_file n x) = x @ ''.cbor''"
    and "event_file n x ! 6 = CHR ''.''" and "6 < length (event_file n x)"
    and "ends_with (event_file n x) ''.cbor''"
  using length_pad6 [OF assms] by (simp_all add: event_file_def starts_with_def ends_with_def nth_append)

lemma event_names_sorted: "bt_ok fs \<Longrightarrow> sorted_wrt (<) (event_names fs)"
  by (simp add: event_names_def bt_keys_def bt_ok_def sorted_wrt_filter)

lemma event_names_insert:
  assumes "bt_ok fs" and "is_event_file f" and "\<And>g. g \<in> set (event_names fs) \<Longrightarrow> g < f"
  shows "event_names (bt_insert f node fs) = event_names fs @ [f]"
proof (rule sorted_distinct_set_unique)
  have "sorted_wrt (<) (event_names fs @ [f])"
    using event_names_sorted [OF assms(1)] assms(3) by (simp add: sorted_wrt_append)
  then show "sorted (event_names fs @ [f])" "distinct (event_names fs @ [f])"
    by (simp_all add: strict_sorted_iff)
  have "sorted_wrt (<) (event_names (bt_insert f node fs))"
    using assms(1) by (intro event_names_sorted) simp
  then show "sorted (event_names (bt_insert f node fs))" "distinct (event_names (bt_insert f node fs))"
    by (simp_all add: strict_sorted_iff)
  show "set (event_names (bt_insert f node fs)) = set (event_names fs @ [f])"
    using assms(2) by (auto simp: event_names_def bt_keys_def keys_bt_insert)
qed

lemma event_names_other: "\<not> is_event_file f \<Longrightarrow> bt_ok fs \<Longrightarrow> event_names (bt_insert f node fs) = event_names fs"
  by (rule sorted_distinct_set_unique)
    (use event_names_sorted [of fs] event_names_sorted [of "bt_insert f node fs"] in
      \<open>auto simp: strict_sorted_iff event_names_def bt_keys_def keys_bt_insert\<close>)

subsection \<open>The event document\<close>

lemma digest_ok_text: "digest_ok d \<Longrightarrow> utf8_string (digest_as_str d) \<and> length (digest_as_str d) = 71"
  by (auto simp: digest_ok_def intro!: valid_digest_utf8)

lemma event_name_props:
  assumes "inference_event_validate e = Inr ()"
  shows "utf8_string (ev_name e)" and "length (ev_name e) \<le> 9"
    and "utf8_string (ev_request_id e)" and "length (ev_request_id e) \<le> 64"
    and "ev_attempt e \<le> 16" and "trim_end_matches ''.cbor'' (ev_name e @ ''.cbor'') = ev_name e"
proof -
  have name: "ev_name e \<in> {''accepted'', ''cancelled'', ''completed'', ''failed'', ''prefill'', ''token''}"
    using assms by (auto simp: inference_event_validate_def res one_of_def split: if_splits)
  have "list_all is_ascii t" if "t \<in> {''accepted'', ''cancelled'', ''completed'', ''failed'', ''prefill'', ''token''}" for t
    using that by (auto simp: is_ascii_def)
  then show "utf8_string (ev_name e)" using name by (intro utf8_string_ascii) (auto simp: list_all_iff)
  show "length (ev_name e) \<le> 9" using name by auto
  show "trim_end_matches ''.cbor'' (ev_name e @ ''.cbor'') = ev_name e"
    using name by (auto simp: trim_end_matches_def ends_with_def numeral_eq_Suc)
  have "list_all is_ascii (ev_request_id e)"
    using assms by (auto simp: inference_event_validate_def list_all_iff ascii_defs split: if_splits)
  then show "utf8_string (ev_request_id e)" by (intro utf8_string_ascii) (auto simp: list_all_iff)
  show "length (ev_request_id e) \<le> 64" "ev_attempt e \<le> 16"
    using assms by (auto simp: inference_event_validate_def res split: if_splits)
qed

lemma event_document:
  assumes v: "inference_event_to_cbor e = Inr v" and ext: "ev_extensions e = []"
    and typed: "inference_event_typed e"
  shows "cbor_wf 0 v" and "length (encode v) \<le> max_document_bytes"
proof -
  have valid: "inference_event_validate e = Inr ()" using v by (auto simp: inference_event_to_cbor_def res)
  note props = event_name_props [OF valid]
  let ?prev = "case ev_previous_event_root e of None \<Rightarrow> []
     | Some d \<Rightarrow> [(''previousEventRoot'', CText (digest_as_str d))]"
  let ?es = "[(''attempt'', CInteger (int (ev_attempt e))), (''extensions'', CMap []),
      (''kind'', CText inference_event_kind), (''name'', CText (ev_name e)),
      (''payloadRoot'', CText (digest_as_str (ev_payload_root e)))] @ ?prev @
      [(''requestId'', CText (ev_request_id e)), (''version'', CInteger 1)]"
  have es: "v = CMap ?es"
    using v ext valid
    by (auto simp: inference_event_to_cbor_def builder_typed_def put_def put_opt_def put_extensions_def
        insert_extensions_def bt_keys_def builder_finish_def cbor_u32_def cbor_text_def cbor_digest_def
        split: option.splits)
  have ok: "utf8_string (digest_as_str (ev_payload_root e))" "length (digest_as_str (ev_payload_root e)) = 71"
      "\<And>d. ev_previous_event_root e = Some d \<Longrightarrow> utf8_string (digest_as_str d) \<and> length (digest_as_str d) = 71"
    using typed digest_ok_text by (auto simp: inference_event_typed_def)
  have kind: "utf8_string inference_event_kind" "length inference_event_kind = 27"
    by (auto simp: inference_event_kind_def is_ascii_def intro!: utf8_string_ascii)
  have keys: "utf8_string k" if "k \<in> {''attempt'', ''extensions'', ''kind'', ''name'', ''payloadRoot'',
      ''previousEventRoot'', ''requestId'', ''version''}" for k
    using that by (intro utf8_string_ascii) (auto simp: is_ascii_def)
  show "cbor_wf 0 v"
    using props ok kind keys unfolding es
    by (auto simp: max_depth_def max_items_def u64_max_def key_less_def integer_in_cbor_range_def
        i128_min_cbor_def i128_max_cbor_def split: option.splits)
  have "(\<Sum>(k, v) \<leftarrow> ?es. 9 + length k + length (encode v)) \<le> 1000"
    using props ok kind encode_atoms_le(1) [of inference_event_kind] encode_atoms_le(1) [of "ev_name e"]
      encode_atoms_le(1) [of "digest_as_str (ev_payload_root e)"] encode_atoms_le(1) [of "ev_request_id e"]
      encode_atoms_le(2) [of "int (ev_attempt e)"] encode_atoms_le(2) [of 1] encode_map_le [of "[]"]
      encode_atoms_le(1) [of "digest_as_str (the (ev_previous_event_root e))"]
    by (auto simp del: encode.simps split: option.splits)
  then show "length (encode v) \<le> max_document_bytes"
    using encode_map_le [of ?es] unfolding es max_document_bytes_def by linarith
qed

lemma event_decodes:
  assumes "inference_event_to_bytes e = Inr bytes" and "ev_extensions e = []" and "inference_event_typed e"
  shows "\<exists>v. decode_canonical bytes = Inr v \<and> inference_event_from_cbor v = Inr e"
proof -
  obtain v where v: "inference_event_to_cbor e = Inr v" "bytes = encode v"
    using assms(1) by (auto simp: inference_event_to_bytes_def res to_bytes_def)
  note wf = event_document [OF v(1) assms(2,3)]
  have "decode_canonical bytes = Inr v" using wf v(2) by (simp add: decode_canonical_iff)
  moreover have "inference_event_from_cbor v = Inr e"
    using inference_event.reader [OF cbor_wf_sorted [OF wf(1)], of e] v(1) assms(3) by simp
  ultimately show ?thesis by blast
qed

subsection \<open>The chain\<close>

lemma read_events_append:
  "read_events sha256 fs r k st (xs @ ys) =
   rbind (read_events sha256 fs r k st xs) (\<lambda>st. read_events sha256 fs r (k + length xs) st ys)"
proof (induction xs arbitrary: k st)
  case (Cons x xs)
  obtain p l where st: "st = (p, l)" by (cases st)
  show ?case
    by (cases "read_event fs r k x p"; cases "inference_event_root sha256 (projr (read_event fs r k x p))")
      (simp_all add: st Cons.IH)
qed simp

lemma read_event_cong: "bt_get fs name = bt_get gs name \<Longrightarrow> read_event fs r k name p = read_event gs r k name p"
  by (simp add: read_event_def)

lemma read_events_cong:
  "(\<And>name. name \<in> set names \<Longrightarrow> bt_get fs name = bt_get gs name) \<Longrightarrow>
   read_events sha256 fs r k st names = read_events sha256 gs r k st names"
proof (induction names arbitrary: k st)
  case (Cons name names)
  obtain p l where st: "st = (p, l)" by (cases st)
  have "read_event fs r k name p = read_event gs r k name p"
    using Cons.prems by (intro read_event_cong) simp
  then show ?case using Cons by (simp add: st)
qed simp

lemma read_events_prefix:
  assumes "read_events sha256 fs r k st names = Inr st'" and "i < length names"
  shows "starts_with (names ! i) (pad6 (k + i) @ ''.'')"
  using assms
proof (induction names arbitrary: k st i)
  case (Cons name names)
  obtain p l where st: "st = (p, l)" by (cases st)
  obtain st1 where e: "is_ok (read_event fs r k name p)"
      and rest: "read_events sha256 fs r (k + 1) st1 names = Inr st'"
    using Cons.prems(1) by (auto simp: st res is_ok_def)
  have "starts_with name (pad6 k @ ''.'')" using e by (auto simp: read_event_def is_ok_def split: if_splits)
  then show ?case using Cons.IH [OF rest] Cons.prems(2) by (cases i) auto
qed simp

text \<open>\<open>p\<close> and \<open>l\<close> are the last root and name of the \<open>n\<close> events in \<open>fs\<close>.\<close>

definition chain_at ::
  "(u8 list \<Rightarrow> u8 list) \<Rightarrow> jfiles \<Rightarrow> string \<Rightarrow> nat \<Rightarrow> digest_hex option \<Rightarrow> string \<Rightarrow> bool" where
  "chain_at sha256 fs r n p l \<longleftrightarrow> length (event_names fs) = n \<and>
    read_events sha256 fs r 0 (None, []) (event_names fs) = Inr (p, l)"

lemma digest_value_ok:
  assumes "\<And>x. length (sha256 x) = 32" and "digest_value sha256 d v = Inr h"
  shows "digest_ok h"
  using digest_bytes_valid [of sha256 d "to_bytes v" h, OF _ assms(1)] assms(2)
  by (simp add: digest_value_def digest_parse_ok)

lemma event_root_ok:
  "(\<And>x. length (sha256 x) = 32) \<Longrightarrow> inference_event_root sha256 e = Inr h \<Longrightarrow> digest_ok h"
  by (auto simp: inference_event_root_def res intro: digest_value_ok)

lemma read_events_root:
  assumes sha: "\<And>x. length (sha256 x) = 32"
    and "read_events sha256 fs r k (p, l) names = Inr (p', l')" and "pred_option digest_ok p"
  shows "pred_option digest_ok p'"
  using assms(2,3)
proof (induction names arbitrary: k p l)
  case (Cons name names)
  then obtain e h where "inference_event_root sha256 e = Inr h"
      "read_events sha256 fs r (k + 1) (Some h, ev_name e) names = Inr (p', l')"
    by (auto simp: res)
  then show ?case using Cons.IH [of "k + 1" "Some h"] event_root_ok [OF sha] by simp
qed simp

lemma is_event_file_event:
  "n < 1000000 \<Longrightarrow> utf8_string x \<Longrightarrow> is_event_file (event_file n x) \<longleftrightarrow> utf8_string (event_file n x)"
  using event_file_simps [of n x] by (simp add: is_event_file_def)

lemma event_file_utf8:
  assumes "n < 1000000" and "list_all is_ascii x"
  shows "utf8_string (event_file n x)"
proof (intro utf8_string_ascii ballI)
  fix c assume c: "c \<in> set (event_file n x)"
  have d: "is_ascii c" if "c \<in> set (digits w m)" for c w m
    using that
  proof (induction w arbitrary: m)
    case (Suc w)
    have "of_char (char_of (48 + m mod 10) :: char) = 48 + m mod 10" by (simp add: mod_less)
    moreover have "48 + m mod 10 < 128" by simp
    ultimately have "is_ascii (char_of (48 + m mod 10))" by (simp only: is_ascii_def)
    then show ?case using Suc by auto
  qed simp
  show "is_ascii c"
    using c d assms by (auto simp: event_file_def pad6_digits list_all_iff is_ascii_def)
qed

lemma event_names_ascii:
  assumes "inference_event_validate e = Inr ()"
  shows "list_all is_ascii (ev_name e)"
proof -
  have "ev_name e \<in> {''accepted'', ''cancelled'', ''completed'', ''failed'', ''prefill'', ''token''}"
    using assms by (auto simp: inference_event_validate_def res one_of_def split: if_splits)
  then show ?thesis by (auto simp: is_ascii_def)
qed

text \<open>A file written under the next index extends the chain by its event.\<close>

lemma chain_extend:
  assumes sha: "\<And>x. length (sha256 x) = 32" and bt: "bt_ok fs"
    and ch: "chain_at sha256 fs r n p l" and n: "n < 1000000"
    and e: "ev_request_id e = r" "ev_previous_event_root e = p" "ev_extensions e = []" "digest_ok (ev_payload_root e)"
    and bytes: "inference_event_to_bytes e = Inr bytes" and root: "inference_event_root sha256 e = Inr h"
    and gs: "gs = bt_insert (event_file n (ev_name e)) (NFile bytes) fs"
  shows "event_names gs = event_names fs @ [event_file n (ev_name e)]"
    and "chain_at sha256 gs r (n + 1) (Some h) (ev_name e)"
proof -
  let ?f = "event_file n (ev_name e)"
  have len: "length (event_names fs) = n" and read: "read_events sha256 fs r 0 (None, []) (event_names fs) = Inr (p, l)"
    using ch by (simp_all add: chain_at_def)
  have valid: "inference_event_validate e = Inr ()"
    using bytes by (auto simp: inference_event_to_bytes_def inference_event_to_cbor_def res)
  have typed: "inference_event_typed e"
    using read_events_root [OF sha read] e by (simp add: inference_event_typed_def)
  have ev: "is_event_file ?f"
    using is_event_file_event [OF n event_name_props(1) [OF valid]]
      event_file_utf8 [OF n event_names_ascii [OF valid]] by simp
  have before: "g < ?f" if g: "g \<in> set (event_names fs)" for g
  proof -
    obtain i where i: "i < n" "g = event_names fs ! i" using g len by (auto simp: in_set_conv_nth)
    then have "starts_with g (pad6 i @ ''.'')" using read_events_prefix [OF read, of i] len by simp
    then show ?thesis using indexed_less [OF _ i(1) n] by simp
  qed
  show names: "event_names gs = event_names fs @ [?f]"
    unfolding gs by (rule event_names_insert [OF bt ev before])
  have old: "read_events sha256 gs r 0 (None, []) (event_names fs) = Inr (p, l)"
  proof -
    have "?f \<notin> set (event_names fs)" using before by blast
    then have "read_events sha256 gs r 0 (None, []) (event_names fs) =
        read_events sha256 fs r 0 (None, []) (event_names fs)"
      using bt by (intro read_events_cong) (auto simp: gs)
    then show ?thesis using read by simp
  qed
  obtain v where dec: "decode_canonical bytes = Inr v" "inference_event_from_cbor v = Inr e"
    using event_decodes [OF bytes e(3) typed] by blast
  have "read_event gs r n ?f p = Inr e"
    using event_file_simps(1,2) [OF n, of "ev_name e"] dec bytes e bt event_name_props(6) [OF valid]
    by (simp add: read_event_def gs ok_or_def)
  then show "chain_at sha256 gs r (n + 1) (Some h) (ev_name e)"
    using old len root by (simp add: chain_at_def names read_events_append)
qed

text \<open>The state of a journal a process is writing.\<close>

definition journal_inv :: "(u8 list \<Rightarrow> u8 list) \<Rightarrow> journal \<Rightarrow> string \<Rightarrow> jroot \<Rightarrow> bool" where
  "journal_inv sha256 j l root \<longleftrightarrow>
    (\<exists>es fs. root = RDir es \<and> bt_ok es \<and> bt_get es (j_request_id j) = Some (EDir fs) \<and> bt_ok fs \<and>
      chain_at sha256 fs (j_request_id j) (j_next_index j) (j_previous j) l)"

lemma journal_create_inv:
  assumes "journal_create r (RDir es) = (Inr j, root)" and "bt_ok es"
  shows "journal_inv sha256 j [] root"
  using assms
  by (auto simp: journal_create_def journal_inv_def chain_at_def event_names_def bt_keys_def split: if_splits)

lemma journal_append_inv:
  assumes sha: "\<And>x. length (sha256 x) = 32" and inv: "journal_inv sha256 j l root"
    and n: "j_next_index j < 1000000" and payload: "digest_ok payload"
    and a: "journal_append sha256 can_write name payload (j, root) = (Inr h, (j', root'))"
  shows "journal_inv sha256 j' name root'" and "j_next_index j' = j_next_index j + 1"
    and "j_request_id j' = j_request_id j" and "j_previous j' = Some h"
proof -
  let ?e = "journal_event j name payload"
  obtain es fs where es: "root = RDir es" "bt_ok es" "bt_get es (j_request_id j) = Some (EDir fs)" "bt_ok fs"
      and ch: "chain_at sha256 fs (j_request_id j) (j_next_index j) (j_previous j) l"
    using inv by (auto simp: journal_inv_def)
  obtain bytes where bytes: "inference_event_to_bytes ?e = Inr bytes" and root: "inference_event_root sha256 ?e = Inr h"
      and j': "j' = j\<lparr>j_previous := Some h, j_next_index := (j_next_index j + 1) mod 4294967296\<rparr>"
      and root': "root' = RDir (bt_insert (j_request_id j)
        (EDir (bt_insert (event_file (j_next_index j) name) (NFile bytes) fs)) es)"
    using a es by (auto simp: journal_append_def Let_def write_journal_file_def split: sum.splits if_splits)
  have "chain_at sha256 (bt_insert (event_file (j_next_index j) name) (NFile bytes) fs) (j_request_id j)
      (j_next_index j + 1) (Some h) name"
    using chain_extend(2) [OF sha es(4) ch n _ _ _ _ bytes root refl] payload
    by (simp add: journal_event_def)
  then show "journal_inv sha256 j' name root'"
    using es n by (auto simp: journal_inv_def j' root')
  show "j_next_index j' = j_next_index j + 1" using n by (simp add: j')
  show "j_request_id j' = j_request_id j" "j_previous j' = Some h" by (simp_all add: j')
qed

subsection \<open>Recovery\<close>

lemma regular_iff:
  "journal_files_are_regular fs = Inr True \<longleftrightarrow> (\<forall>(k, node) \<in> set fs. (\<exists>bs. node = NFile bs) \<and> utf8_string k)"
  by (induction fs rule: journal_files_are_regular.induct) (auto split: jnode.split)

lemma regular_insert:
  assumes "bt_ok fs" and "journal_files_are_regular fs = Inr True" and "utf8_string f"
  shows "journal_files_are_regular (bt_insert f (NFile bs) fs) = Inr True"
proof -
  have "(k, node) \<in> set (bt_insert f (NFile bs) fs) \<Longrightarrow> (k = f \<and> node = NFile bs) \<or> (k, node) \<in> set fs" for k node
    using bt_get_iff [of "bt_insert f (NFile bs) fs" k node] bt_get_iff [OF assms(1), of k node] assms(1)
    by (auto split: if_splits)
  then show ?thesis using assms(2,3) unfolding regular_iff by fastforce
qed

definition terminal_name :: "string \<Rightarrow> bool" where
  "terminal_name l \<longleftrightarrow> l = ''completed'' \<or> l = ''failed'' \<or> l = ''cancelled''"

lemma read_chain_at:
  "read_chain sha256 fs r (event_names fs) = Inr ch \<longleftrightarrow>
   (\<exists>l. chain_at sha256 fs r (ch_next_index ch) (Some (ch_previous ch)) l \<and> ch_next_index ch \<le> u32_max \<and>
     ch_terminal ch = terminal_name l \<and> ch_started_accepted ch = ends_with (hd (event_names fs)) ''.accepted.cbor'')"
  by (cases ch) (auto simp: read_chain_def res chain_at_def terminal_name_def)

lemma verify_journal_at:
  "verify_journal sha256 r (RDir es) = Inr h \<longleftrightarrow>
   (\<exists>e fs n l. bt_get es r = Some e \<and> entry_files e = Some fs \<and> event_names fs \<noteq> [] \<and>
     chain_at sha256 fs r n (Some h) l \<and> n \<le> u32_max \<and> terminal_name l \<and>
     ends_with (hd (event_names fs)) ''.accepted.cbor'')"
proof -
  have "(\<exists>ch. read_chain sha256 fs r (event_names fs) = Inr ch \<and> ch_started_accepted ch \<and> ch_terminal ch \<and> ch_previous ch = h)
      \<longleftrightarrow> (\<exists>n l. chain_at sha256 fs r n (Some h) l \<and> n \<le> u32_max \<and> terminal_name l \<and>
        ends_with (hd (event_names fs)) ''.accepted.cbor'')" (is "?l \<longleftrightarrow> ?r") for fs
  proof
    assume ?l
    then show ?r unfolding read_chain_at by blast
  next
    assume ?r
    then obtain n l where "chain_at sha256 fs r n (Some h) l" "n \<le> u32_max" "terminal_name l"
        "ends_with (hd (event_names fs)) ''.accepted.cbor''" by blast
    then have "read_chain sha256 fs r (event_names fs) =
        Inr \<lparr>ch_previous = h, ch_next_index = n, ch_terminal = True, ch_started_accepted = True\<rparr>"
      unfolding read_chain_at by auto
    then show ?l by force
  qed
  note chain = this
  have "verify_journal sha256 r (RDir es) = Inr h \<longleftrightarrow>
      (\<exists>e fs. bt_get es r = Some e \<and> entry_files e = Some fs \<and> event_names fs \<noteq> [] \<and>
        (\<exists>ch. read_chain sha256 fs r (event_names fs) = Inr ch \<and> ch_started_accepted ch \<and> ch_terminal ch \<and> ch_previous ch = h))"
    by (cases "bt_get es r") (auto simp: verify_journal_def res Let_def op_if_throw_ok if_Inl_Inr)
  then show ?thesis unfolding chain by blast
qed

text \<open>A journal that is gone, or regular and verified.\<close>

definition sealed :: "(u8 list \<Rightarrow> u8 list) \<Rightarrow> jroot \<Rightarrow> string \<Rightarrow> bool" where
  "sealed sha256 root r \<longleftrightarrow> root_entry r root = None \<or>
    (\<exists>fs h. root_entry r root = Some (EDir fs) \<and> bt_ok fs \<and> journal_files_are_regular fs = Inr True \<and>
      event_names fs \<noteq> [] \<and> verify_journal sha256 r root = Inr h)"

lemma recover_one_ok:
  assumes sha: "\<And>x. length (sha256 x) = 32" and es: "bt_ok es" "bt_get es r = Some (EDir fs)" "bt_ok fs"
    and n: "length (event_names fs) < 1000000"
    and rec: "recover_one sha256 can_write r (RDir es) = (Inr c, root')"
  shows "\<exists>es'. root' = RDir es' \<and> bt_ok es' \<and> (\<forall>q. q \<noteq> r \<longrightarrow> bt_get es' q = bt_get es q) \<and>
    sealed sha256 root' r"
proof -
  have regular: "journal_files_are_regular fs = Inr True"
    using rec es by (cases "journal_files_are_regular fs")
      (auto simp: recover_one_def split: sum.splits if_splits)
  show ?thesis
  proof (cases "event_names fs = []")
    case True
    then have "root' = RDir (bt_remove r es)"
      using rec es regular by (simp add: recover_one_def Let_def)
    then show ?thesis using es by (auto simp: sealed_def)
  next
    case False
    obtain ch where ch: "read_chain sha256 fs r (event_names fs) = Inr ch"
      using rec es regular False by (auto simp: recover_one_def Let_def split: sum.splits)
    obtain l where at: "chain_at sha256 fs r (ch_next_index ch) (Some (ch_previous ch)) l"
        and chs: "ch_next_index ch \<le> u32_max" "ch_terminal ch = terminal_name l"
          "ch_started_accepted ch = ends_with (hd (event_names fs)) ''.accepted.cbor''"
      using ch unfolding read_chain_at by blast
    show ?thesis
    proof (cases "ch_terminal ch \<and> ch_started_accepted ch")
      case True
      then have root': "root' = RDir es"
        using rec es regular False ch by (simp add: recover_one_def Let_def)
      have "verify_journal sha256 r (RDir es) = Inr (ch_previous ch)"
        using es False at chs True by (auto simp: verify_journal_at)
      then show ?thesis using es regular False by (auto simp: sealed_def root')
    next
      case open_chain: False
      let ?j = "\<lparr>j_request_id = r, j_previous = Some (ch_previous ch), j_next_index = ch_next_index ch\<rparr>"
      have started: "ch_started_accepted ch"
        using rec es regular False ch open_chain by (auto simp: recover_one_def Let_def split: if_splits)
      obtain payload where payload: "worker_lost_payload sha256 = Inr payload"
        using rec es regular False ch open_chain started by (auto simp: recover_one_def Let_def split: sum.splits)
      obtain h j' where app: "journal_append sha256 can_write ''failed'' payload (?j, RDir es) = (Inr h, (j', root'))"
        using rec es regular False ch open_chain started payload
        by (auto simp: recover_one_def Let_def split: sum.splits prod.splits)
      let ?e = "journal_event ?j ''failed'' payload"
      have idx: "ch_next_index ch = length (event_names fs)" using at by (simp add: chain_at_def)
      obtain bytes where bytes: "inference_event_to_bytes ?e = Inr bytes" and root: "inference_event_root sha256 ?e = Inr h"
          and root': "root' = RDir (bt_insert r (EDir (bt_insert (event_file (ch_next_index ch) ''failed'') (NFile bytes) fs)) es)"
        using app es by (auto simp: journal_append_def Let_def write_journal_file_def split: sum.splits if_splits)
      let ?gs = "bt_insert (event_file (ch_next_index ch) ''failed'') (NFile bytes) fs"
      have pl: "digest_ok payload"
        using digest_value_ok [of sha256, OF sha] payload unfolding worker_lost_payload_def by blast
      have small: "ch_next_index ch < 1000000" using n idx by simp
      have gs: "event_names ?gs = event_names fs @ [event_file (ch_next_index ch) ''failed'']"
          "chain_at sha256 ?gs r (ch_next_index ch + 1) (Some h) ''failed''"
        using chain_extend [OF sha es(3) at small _ _ _ _ bytes root] pl
        by (simp_all add: journal_event_def)
      have "terminal_name ''failed''" "ch_next_index ch + 1 \<le> u32_max"
        using small by (simp_all add: terminal_name_def u32_max_def)
      moreover have "ends_with (hd (event_names ?gs)) ''.accepted.cbor''" "event_names ?gs \<noteq> []"
        using gs(1) started chs(3) False by simp_all
      moreover have "bt_get (bt_insert r (EDir ?gs) es) r = Some (EDir ?gs)" "entry_files (EDir ?gs) = Some ?gs"
        using es(1) by simp_all
      ultimately have "verify_journal sha256 r root' = Inr h"
        unfolding root' verify_journal_at using gs(2) by blast
      moreover have "utf8_string (event_file (ch_next_index ch) ''failed'')"
        using event_file_utf8 [OF small, of "''failed''"] by (simp add: is_ascii_def)
      ultimately show ?thesis
        using es regular regular_insert [OF es(3) regular] gs
        by (auto simp: sealed_def root')
    qed
  qed
qed

definition journals_ok :: "(string, jentry) btree \<Rightarrow> bool" where
  "journals_ok es \<longleftrightarrow> bt_ok es \<and> (\<forall>r fs. bt_get es r = Some (EDir fs) \<longrightarrow>
    bt_ok fs \<and> length (event_names fs) < 1000000)"

lemma recover_all_ok:
  assumes sha: "\<And>x. length (sha256 x) = 32" and "bt_ok es" and "distinct ids"
    and "\<forall>r \<in> set ids. \<exists>fs. bt_get es r = Some (EDir fs) \<and> bt_ok fs \<and> length (event_names fs) < 1000000"
    and "recover_all sha256 can_write n ids (RDir es) = (Inr c, root')"
  shows "\<exists>es'. root' = RDir es' \<and> bt_ok es' \<and> (\<forall>q. q \<notin> set ids \<longrightarrow> bt_get es' q = bt_get es q) \<and>
    (\<forall>r \<in> set ids. sealed sha256 root' r)"
  using assms(2-5)
proof (induction ids arbitrary: n es)
  case Nil
  then have "root' = RDir es" by (simp add: op_return_def)
  then show ?case using Nil.prems(1) by auto
next
  case (Cons r ids)
  obtain fs where fs: "bt_get es r = Some (EDir fs)" "bt_ok fs" "length (event_names fs) < 1000000"
    using Cons.prems(3) by auto
  obtain k root1 where one: "recover_one sha256 can_write r (RDir es) = (Inr k, root1)"
      and rest: "recover_all sha256 can_write (saturating_add_u32 n k) ids root1 = (Inr c, root')"
    using Cons.prems(4) by (auto simp: op_bind_def split: prod.splits sum.splits)
  obtain es1 where es1: "root1 = RDir es1" "bt_ok es1" "\<forall>q. q \<noteq> r \<longrightarrow> bt_get es1 q = bt_get es q"
      "sealed sha256 root1 r"
    using recover_one_ok [OF sha Cons.prems(1) fs one] by blast
  have "\<forall>q \<in> set ids. \<exists>fs. bt_get es1 q = Some (EDir fs) \<and> bt_ok fs \<and> length (event_names fs) < 1000000"
    using Cons.prems(2,3) es1(3) by auto
  from Cons.IH [OF es1(2) _ this rest [unfolded es1(1)]] Cons.prems(2)
  obtain es' where es': "root' = RDir es'" "bt_ok es'" "\<forall>q. q \<notin> set ids \<longrightarrow> bt_get es' q = bt_get es1 q"
      "\<forall>q \<in> set ids. sealed sha256 root' q"
    by auto
  have "sealed sha256 root' r"
    using es1(1,4) es'(1,3) Cons.prems(2)
    by (auto simp: sealed_def verify_journal_def)
  then show ?case using es' es1(3) by auto
qed

lemma journal_ids_ok:
  "journal_ids es = Inr ids \<longleftrightarrow> ids = map fst es \<and>
   (\<forall>(r, e) \<in> set es. (\<exists>fs. e = EDir fs) \<and> utf8_string r \<and> valid_journal_id r)"
  by (induction es arbitrary: ids rule: journal_ids.induct) (auto simp: res split: jentry.splits)

lemma recover_one_sealed:
  assumes "sealed sha256 (RDir es) r" and "bt_get es r \<noteq> None"
  shows "recover_one sha256 can_write r (RDir es) = (Inr 0, RDir es)"
proof -
  obtain fs h where fs: "bt_get es r = Some (EDir fs)" "journal_files_are_regular fs = Inr True"
      "event_names fs \<noteq> []" "verify_journal sha256 r (RDir es) = Inr h"
    using assms by (auto simp: sealed_def)
  obtain ch where "read_chain sha256 fs r (event_names fs) = Inr ch" "ch_terminal ch \<and> ch_started_accepted ch"
    using fs by (auto simp: verify_journal_def Let_def res split: if_splits)
  then show ?thesis using fs by (simp add: recover_one_def Let_def)
qed

lemma recover_all_sealed:
  "\<forall>r \<in> set ids. sealed sha256 (RDir es) r \<and> bt_get es r \<noteq> None \<Longrightarrow> n \<le> u32_max \<Longrightarrow>
   recover_all sha256 can_write n ids (RDir es) = (Inr n, RDir es)"
proof (induction ids)
  case (Cons r ids)
  then have "recover_one sha256 can_write r (RDir es) = (Inr 0, RDir es)"
    by (intro recover_one_sealed) simp_all
  then show ?case using Cons by (simp add: op_bind_def saturating_add_u32_def)
qed (simp add: op_return_def)

text \<open>After a recovery every remaining journal verifies, and recovering again changes nothing.\<close>

lemma recover_open_journals_ok:
  assumes sha: "\<And>x. length (sha256 x) = 32" and ok: "journals_ok es"
    and rec: "recover_open_journals sha256 can_write (RDir es) = (Inr c, root')"
  shows "\<exists>es'. root' = RDir es' \<and> (\<forall>r. bt_get es' r \<noteq> None \<longrightarrow> (\<exists>h. verify_journal sha256 r root' = Inr h)) \<and>
    recover_open_journals sha256 can_write root' = (Inr 0, root')"
proof -
  have bt: "bt_ok es" using ok by (simp add: journals_ok_def)
  obtain ids where ids: "journal_ids es = Inr ids"
      and all: "recover_all sha256 can_write 0 (sort ids) (RDir es) = (Inr c, root')"
    using rec by (auto simp: recover_open_journals_def split: sum.splits)
  have keys: "ids = map fst es" and entries: "\<And>r e. (r, e) \<in> set es \<Longrightarrow> (\<exists>fs. e = EDir fs) \<and> utf8_string r \<and> valid_journal_id r"
    using ids by (auto simp: journal_ids_ok)
  have "distinct (sort ids)" using bt_ok_distinct [OF bt] by (simp add: keys)
  moreover have "\<forall>r \<in> set (sort ids). \<exists>fs. bt_get es r = Some (EDir fs) \<and> bt_ok fs \<and> length (event_names fs) < 1000000"
  proof
    fix r assume "r \<in> set (sort ids)"
    then obtain e where e: "(r, e) \<in> set es" by (auto simp: keys)
    then obtain fs where "e = EDir fs" using entries by blast
    then have "bt_get es r = Some (EDir fs)" using e bt by (simp add: bt_get_iff)
    then show "\<exists>fs. bt_get es r = Some (EDir fs) \<and> bt_ok fs \<and> length (event_names fs) < 1000000"
      using ok by (auto simp: journals_ok_def)
  qed
  ultimately obtain es' where es': "root' = RDir es'" "bt_ok es'" "\<forall>q. q \<notin> set ids \<longrightarrow> bt_get es' q = bt_get es q"
      and sealed: "\<forall>r \<in> set ids. sealed sha256 root' r"
    using recover_all_ok [OF sha bt _ _ all] by auto
  have known: "r \<in> set ids \<and> (\<exists>fs h. bt_get es' r = Some (EDir fs) \<and> verify_journal sha256 r root' = Inr h)"
    if "bt_get es' r = Some e" for r e
  proof -
    have "r \<in> set ids"
      using that es'(3) bt by (metis keys bt_get_iff image_eqI list.set_map fst_conv)
    then have "sealed sha256 (RDir es') r" using sealed es'(1) by simp
    then show ?thesis using \<open>r \<in> set ids\<close> that unfolding sealed_def es'(1) by auto
  qed
  have ids': "journal_ids es' = Inr (map fst es')"
  proof -
    have "(\<exists>fs. e = EDir fs) \<and> utf8_string r \<and> valid_journal_id r" if "(r, e) \<in> set es'" for r e
    proof -
      have get: "bt_get es' r = Some e" using that es'(2) by (simp add: bt_get_iff)
      then obtain e0 where "(r, e0) \<in> set es" using known [OF get] by (auto simp: keys)
      then show ?thesis using entries known [OF get] get by auto
    qed
    then show ?thesis by (auto simp: journal_ids_ok)
  qed
  have "\<forall>r \<in> set (sort (map fst es')). sealed sha256 (RDir es') r \<and> bt_get es' r \<noteq> None"
  proof
    fix r assume "r \<in> set (sort (map fst es'))"
    then have get: "bt_get es' r \<noteq> None" by (auto simp: bt_get_None)
    then show "sealed sha256 (RDir es') r \<and> bt_get es' r \<noteq> None"
      using known sealed es'(1) by auto
  qed
  from recover_all_sealed [OF this, of 0]
  have "recover_open_journals sha256 can_write root' = (Inr 0, root')"
    by (simp add: recover_open_journals_def es'(1) ids' u32_max_def)
  then show ?thesis using es'(1) known by auto
qed

text \<open>
  Past a million events the index has seven digits: the file is not an event file any more, so the
  event is written and never read.
\<close>

lemma length_dec_str: "10 ^ w \<le> n \<Longrightarrow> w < length (dec_str n)"
proof (induction w arbitrary: n)
  case 0
  show ?case by (subst dec_str.simps) simp
next
  case (Suc w)
  then have le: "10 ^ w \<le> n div 10"
    by (simp add: less_eq_div_iff_mult_less_eq mult.commute)
  moreover have "(1::nat) \<le> 10 ^ w" by simp
  ultimately have "\<not> n < 10" by (cases "n < 10") auto
  with le show ?case using Suc.IH [of "n div 10"] by (subst dec_str.simps) simp
qed

lemma digit_not_dot: "char_of (48 + (m::nat) mod 10) \<noteq> CHR ''.''"
proof
  assume "char_of (48 + m mod 10) = CHR ''.''"
  then have "of_char (char_of (48 + m mod 10) :: char) = (of_char (CHR ''.'') :: nat)" by (rule arg_cong)
  then show False by simp
qed

lemma digits_not_dot: "c \<in> set (dec_str n) \<Longrightarrow> c \<noteq> CHR ''.''"
proof (induction n rule: dec_str.induct)
  case (1 n)
  show ?case
  proof (cases "n < 10")
    case True
    with "1.prems" digit_not_dot [of n] show ?thesis by (subst (asm) dec_str.simps) simp
  next
    case False
    then have "c \<in> set (dec_str (n div 10)) \<or> c = char_of (48 + n mod 10)"
      using "1.prems" by (subst (asm) dec_str.simps) (simp add: disj_commute)
    then show ?thesis using "1.IH" [OF False] digit_not_dot [of n] by (metis (full_types))
  qed
qed

lemma event_file_overflow:
  assumes "1000000 \<le> n"
  shows "\<not> is_event_file (event_file n x)"
proof -
  have "6 < length (dec_str n)" using length_dec_str [of 6 n] assms by simp
  then have "event_file n x ! 6 \<in> set (dec_str n)" by (simp add: event_file_def pad6_def nth_append)
  then show ?thesis using digits_not_dot [of _ n] by (auto simp: is_event_file_def)
qed

subsection \<open>A whole journal\<close>

text \<open>A journal written by one process: the appends in order, and what the directory then holds.\<close>

fun journal_appends ::
  "(u8 list \<Rightarrow> u8 list) \<Rightarrow> (string \<Rightarrow> string \<Rightarrow> bool) \<Rightarrow> (string \<times> digest_hex) list \<Rightarrow>
   (journal \<times> jroot, unit) op" where
  "journal_appends sha256 can_write [] = op_return ()"
| "journal_appends sha256 can_write ((name, payload) # evs) =
    op_bind (journal_append sha256 can_write name payload) (\<lambda>_. journal_appends sha256 can_write evs)"

definition journal_log ::
  "(u8 list \<Rightarrow> u8 list) \<Rightarrow> string \<Rightarrow> string list \<Rightarrow> journal \<times> jroot \<Rightarrow> bool" where
  "journal_log sha256 rid names = (\<lambda>(j, root). j_request_id j = rid \<and> j_next_index j = length names \<and>
    set names \<subseteq> {''accepted'', ''cancelled'', ''completed'', ''failed'', ''prefill'', ''token''} \<and>
    (\<exists>es fs. root = RDir es \<and> bt_ok es \<and> bt_get es rid = Some (EDir fs) \<and> bt_ok fs \<and>
      event_names fs = map (\<lambda>(i, n). event_file i n) (enumerate 0 names) \<and>
      chain_at sha256 fs rid (length names) (j_previous j) (if names = [] then [] else last names)))"

lemma journal_log_create:
  assumes "journal_create rid (RDir es) = (Inr j, root)" and "bt_ok es"
  shows "journal_log sha256 rid [] (j, root)"
  using assms
  by (auto simp: journal_create_def journal_log_def chain_at_def event_names_def bt_keys_def split: if_splits)

lemma journal_log_append:
  assumes sha: "\<And>x. length (sha256 x) = 32" and log: "journal_log sha256 rid names (j, root)"
    and n: "length names < 1000000" and payload: "digest_ok payload"
    and a: "journal_append sha256 can_write name payload (j, root) = (Inr h, st')"
  shows "journal_log sha256 rid (names @ [name]) st'"
proof -
  let ?e = "journal_event j name payload" and ?f = "event_file (length names) name"
  obtain es fs where es: "root = RDir es" "bt_ok es" "bt_get es rid = Some (EDir fs)" "bt_ok fs"
      and files: "event_names fs = map (\<lambda>(i, n). event_file i n) (enumerate 0 names)"
      and ch: "chain_at sha256 fs rid (length names) (j_previous j) (if names = [] then [] else last names)"
      and j: "j_request_id j = rid" "j_next_index j = length names"
      and ok: "set names \<subseteq> {''accepted'', ''cancelled'', ''completed'', ''failed'', ''prefill'', ''token''}"
    using log by (auto simp: journal_log_def)
  obtain bytes where bytes: "inference_event_to_bytes ?e = Inr bytes" and root: "inference_event_root sha256 ?e = Inr h"
      and st': "st' = (j\<lparr>j_previous := Some h, j_next_index := (j_next_index j + 1) mod 4294967296\<rparr>,
        RDir (bt_insert rid (EDir (bt_insert ?f (NFile bytes) fs)) es))"
    using a es j by (auto simp: journal_append_def Let_def write_journal_file_def split: sum.splits if_splits)
  have "inference_event_validate ?e = Inr ()"
    using bytes by (auto simp: inference_event_to_bytes_def inference_event_to_cbor_def res)
  then have name: "name \<in> {''accepted'', ''cancelled'', ''completed'', ''failed'', ''prefill'', ''token''}"
    by (auto simp: inference_event_validate_def journal_event_def res one_of_def split: if_splits)
  have ext: "event_names (bt_insert ?f (NFile bytes) fs) = event_names fs @ [?f]"
      "chain_at sha256 (bt_insert ?f (NFile bytes) fs) rid (length names + 1) (Some h) name"
    using chain_extend [OF sha es(4) ch n _ _ _ _ bytes root refl] payload j
    by (simp_all add: journal_event_def)
  have "event_names (bt_insert ?f (NFile bytes) fs) = map (\<lambda>(i, n). event_file i n) (enumerate 0 (names @ [name]))"
    by (simp only: ext(1) files enumerate_append_eq) simp
  then show ?thesis
    using es n ext(2) name ok j
    by (simp add: journal_log_def st')
qed

lemma journal_log_appends:
  assumes sha: "\<And>x. length (sha256 x) = 32" and "journal_log sha256 rid names st"
    and "length names + length evs \<le> 1000000" and "list_all (\<lambda>(name, payload). digest_ok payload) evs"
    and "journal_appends sha256 can_write evs st = (Inr u, st')"
  shows "journal_log sha256 rid (names @ map fst evs) st'"
  using assms(2-)
proof (induction evs arbitrary: names st)
  case (Cons ev evs)
  obtain name payload j root where [simp]: "ev = (name, payload)" "st = (j, root)" by (cases ev; cases st)
  obtain h st1 where a: "journal_append sha256 can_write name payload (j, root) = (Inr h, st1)"
      and rest: "journal_appends sha256 can_write evs st1 = (Inr u, st')"
    using Cons.prems(4) by (auto simp: op_bind_def split: prod.splits sum.splits)
  have "journal_log sha256 rid (names @ [name]) st1"
    using Cons.prems by (intro journal_log_append [OF sha _ _ _ a]) simp_all
  then show ?case using Cons.IH [of "names @ [name]", OF _ _ _ rest] Cons.prems(2,3) by simp
qed (simp add: op_return_def)

lemma started_accepted:
  "name \<in> {''accepted'', ''cancelled'', ''completed'', ''failed'', ''prefill'', ''token''} \<Longrightarrow>
   ends_with (event_file 0 name) ''.accepted.cbor'' \<longleftrightarrow> name = ''accepted''"
  by (auto simp: event_file_def pad6_def dec_str.simps [of 0] ends_with_def)

lemma verify_journal_log:
  assumes "journal_log sha256 rid names (j, root)" and "length names \<le> 1000000"
  shows "verify_journal sha256 rid root = Inr h \<longleftrightarrow>
    names \<noteq> [] \<and> hd names = ''accepted'' \<and> terminal_name (last names) \<and> j_previous j = Some h"
proof (cases names)
  case Nil
  then show ?thesis using assms by (auto simp: journal_log_def verify_journal_at)
next
  case (Cons name ns)
  obtain es fs where es: "root = RDir es" "bt_get es rid = Some (EDir fs)"
      and files: "event_names fs = map (\<lambda>(i, n). event_file i n) (enumerate 0 names)"
      and ch: "chain_at sha256 fs rid (length names) (j_previous j) (last names)"
      and ok: "name \<in> {''accepted'', ''cancelled'', ''completed'', ''failed'', ''prefill'', ''token''}"
    using assms(1) Cons by (auto simp: journal_log_def)
  have hd: "event_names fs \<noteq> []" "hd (event_names fs) = event_file 0 name"
    by (simp_all add: files Cons)
  have at: "chain_at sha256 fs rid n p l \<longleftrightarrow> n = length names \<and> p = j_previous j \<and> l = last names" for n p l
    using ch by (auto simp: chain_at_def)
  show ?thesis
    unfolding es(1) verify_journal_at
    using assms(2) by (auto simp: es(2) hd at started_accepted [OF ok] u32_max_def Cons)
qed

text \<open>What an append past the last six-digit index does to the journal: nothing that is read.\<close>

lemma append_unseen:
  assumes "1000000 \<le> j_next_index j" and "bt_ok es" and "bt_get es (j_request_id j) = Some (EDir fs)" and "bt_ok fs"
    and "journal_append sha256 can_write name payload (j, RDir es) = (Inr h, (j', root'))"
  shows "verify_journal sha256 (j_request_id j) root' = verify_journal sha256 (j_request_id j) (RDir es)"
proof -
  let ?f = "event_file (j_next_index j) name" and ?r = "j_request_id j"
  obtain bytes where root': "root' = RDir (bt_insert ?r (EDir (bt_insert ?f (NFile bytes) fs)) es)"
    using assms by (auto simp: journal_append_def Let_def write_journal_file_def split: sum.splits if_splits)
  let ?gs = "bt_insert ?f (NFile bytes) fs"
  have unseen: "\<not> is_event_file ?f" by (rule event_file_overflow [OF assms(1)])
  then have names: "event_names ?gs = event_names fs" using assms(4) by (rule event_names_other)
  have "?f \<notin> set (event_names fs)" using unseen by (simp add: event_names_def)
  then have "read_events sha256 ?gs ?r 0 (None, []) (event_names fs) =
      read_events sha256 fs ?r 0 (None, []) (event_names fs)"
    using assms(4) by (intro read_events_cong) auto
  then have "read_chain sha256 ?gs ?r (event_names fs) = read_chain sha256 fs ?r (event_names fs)"
    by (simp add: read_chain_def)
  then show ?thesis using assms(2,3) by (simp add: verify_journal_def root' names ok_or_def Let_def)
qed

end
