(* ===== verification/Demo_Journal.thy ===== *)
theory Demo_Journal
  imports Demo Journal_Proofs
begin

text \<open>
  Concrete journals under the constant hash: appends that succeed, an open journal and its recovery,
  and an append at index 1,000,000.
\<close>

definition demo_digest :: digest_hex where
  "demo_digest = DigestHex (digest_prefix @ concat (replicate 32 (byte_hex 0)))"

definition can_always :: "string \<Rightarrow> string \<Rightarrow> bool" where
  "can_always rid file = True"

lemma length_constant_hash: "length (constant_hash x) = 32"
  by (simp add: constant_hash_def)

lemma demo_digest_bytes: "validate_domain d = Inr () \<Longrightarrow> digest_bytes constant_hash d p = Inr demo_digest"
  by (simp add: digest_bytes_def demo_digest_def constant_hash_def)

lemma demo_payload: "worker_lost_payload constant_hash = Inr demo_digest"
  by (simp add: worker_lost_payload_def digest_value_def demo_digest_bytes validate_domain_def infer_domains_def)

lemma demo_digest_ok: "digest_ok demo_digest"
proof (rule digest_value_ok [of constant_hash])
  show "digest_value constant_hash ''infer-execution-trace'' (CText ''WORKER_LOST'') = Inr demo_digest"
    using demo_payload by (simp add: worker_lost_payload_def)
qed (rule length_constant_hash)

definition demo_journal :: "nat \<Rightarrow> journal" where
  "demo_journal n = \<lparr>j_request_id = ''a'', j_previous = None, j_next_index = n\<rparr>"

lemma event_bytes:
  assumes "inference_event_validate e = Inr ()" and "ev_extensions e = []"
  shows "\<exists>bytes. inference_event_to_bytes e = Inr bytes"
  using assms
  by (auto simp: inference_event_to_bytes_def inference_event_to_cbor_def
      builder_typed_def put_def put_opt_def put_extensions_def
      insert_extensions_def bt_keys_def builder_finish_def Let_def res split: option.splits)

lemma append_ok:
  assumes "inference_event_validate (journal_event j name payload) = Inr ()"
    and "bt_get es (j_request_id j) = Some (EDir fs)" and "bt_get fs (event_file (j_next_index j) name) \<noteq> Some NDir"
  shows "\<exists>bytes. journal_append constant_hash can_always name payload (j, RDir es) =
    (Inr demo_digest, (j\<lparr>j_previous := Some demo_digest, j_next_index := (j_next_index j + 1) mod 4294967296\<rparr>,
      RDir (bt_insert (j_request_id j) (EDir (bt_insert (event_file (j_next_index j) name) (NFile bytes) fs)) es)))"
proof -
  let ?e = "journal_event j name payload"
  obtain bytes where bytes: "inference_event_to_bytes ?e = Inr bytes"
    using event_bytes [OF assms(1)] by (auto simp: journal_event_def)
  then obtain v where "inference_event_to_cbor ?e = Inr v" by (auto simp: inference_event_to_bytes_def res)
  then have "inference_event_root constant_hash ?e = Inr demo_digest"
    by (simp add: inference_event_root_def digest_value_def demo_digest_bytes validate_domain_def infer_domains_def)
  then show ?thesis using assms(2,3) bytes
    by (intro exI [of _ bytes]) (simp add: journal_append_def write_journal_file_def can_always_def)
qed

lemma demo_create:
  "journal_create ''a'' (RDir []) = (Inr (demo_journal 0), RDir [(''a'', EDir [])])"
  by (simp add: journal_create_def demo_journal_def)

lemma demo_event_ok:
  "inference_event_validate (journal_event (demo_journal n) ''accepted'' demo_digest) = Inr ()"
  "inference_event_validate (journal_event (demo_journal n\<lparr>j_previous := Some demo_digest, j_next_index := m\<rparr>)
     ''completed'' demo_digest) = Inr ()"
  by (auto simp: inference_event_validate_def journal_event_def demo_journal_def one_of_def ascii_defs)

lemma demo_first:
  "\<exists>bytes. journal_append constant_hash can_always ''accepted'' demo_digest (demo_journal n, RDir [(''a'', EDir [])]) =
    (Inr demo_digest, (demo_journal n\<lparr>j_previous := Some demo_digest, j_next_index := (n + 1) mod 4294967296\<rparr>,
      RDir [(''a'', EDir [(event_file n ''accepted'', NFile bytes)])]))"
  using append_ok [OF demo_event_ok(1) [of n], of "[(''a'', EDir [])]" "[]"]
  by (simp add: demo_journal_def)

lemma one_file [simp]: "(if g then Some (NFile bs) else None) \<noteq> Some NDir"
  by simp

lemma demo_appends:
  "\<exists>j root. journal_appends constant_hash can_always [(''accepted'', demo_digest), (''completed'', demo_digest)]
      (demo_journal 0, RDir [(''a'', EDir [])]) = (Inr (), (j, root)) \<and> j_previous j = Some demo_digest"
proof -
  let ?j = "demo_journal 0\<lparr>j_previous := Some demo_digest, j_next_index := 1\<rparr>"
  obtain bytes where a: "journal_append constant_hash can_always ''accepted'' demo_digest
      (demo_journal 0, RDir [(''a'', EDir [])]) =
      (Inr demo_digest, (?j, RDir [(''a'', EDir [(event_file 0 ''accepted'', NFile bytes)])]))"
    using demo_first [of 0] by auto
  have "\<exists>bs. journal_append constant_hash can_always ''completed'' demo_digest
      (?j, RDir [(''a'', EDir [(event_file 0 ''accepted'', NFile bytes)])]) =
      (Inr demo_digest, (?j\<lparr>j_previous := Some demo_digest, j_next_index := (j_next_index ?j + 1) mod 4294967296\<rparr>,
        RDir (bt_insert ''a'' (EDir (bt_insert (event_file 1 ''completed'') (NFile bs)
          [(event_file 0 ''accepted'', NFile bytes)])) [(''a'', EDir [(event_file 0 ''accepted'', NFile bytes)])])))"
    using append_ok [OF demo_event_ok(2) [of 1 0], of "[(''a'', EDir [(event_file 0 ''accepted'', NFile bytes)])]"
        "[(event_file 0 ''accepted'', NFile bytes)]"]
    by (simp add: demo_journal_def)
  then show ?thesis using a by (auto simp: op_bind_def op_return_def)
qed

text \<open>A journal left open after accepted is sealed.\<close>

lemma demo_recovery:
  "\<exists>es root'. journals_ok es \<and> recover_open_journals constant_hash can_always (RDir es) = (Inr 1, root')"
proof -
  obtain bytes where a: "journal_append constant_hash can_always ''accepted'' demo_digest
      (demo_journal 0, RDir [(''a'', EDir [])]) =
      (Inr demo_digest, (demo_journal 0\<lparr>j_previous := Some demo_digest, j_next_index := 1\<rparr>,
        RDir [(''a'', EDir [(event_file 0 ''accepted'', NFile bytes)])]))"
    using demo_first [of 0] by auto
  let ?fs = "[(event_file 0 ''accepted'', NFile bytes)]"
  have log: "journal_log constant_hash ''a'' [''accepted'']
      (demo_journal 0\<lparr>j_previous := Some demo_digest, j_next_index := 1\<rparr>, RDir [(''a'', EDir ?fs)])"
    using journal_log_append [OF length_constant_hash journal_log_create [OF demo_create] _ demo_digest_ok a]
    by simp
  then have ch: "event_names ?fs = [event_file 0 ''accepted'']"
      "chain_at constant_hash ?fs ''a'' 1 (Some demo_digest) ''accepted''"
    by (auto simp: journal_log_def demo_journal_def)
  let ?ch = "\<lparr>ch_previous = demo_digest, ch_next_index = 1, ch_terminal = False, ch_started_accepted = True\<rparr>"
  have read: "read_chain constant_hash ?fs ''a'' (event_names ?fs) = Inr ?ch"
    unfolding read_chain_at using ch by (auto simp: u32_max_def terminal_name_def started_accepted)
  let ?j = "\<lparr>j_request_id = ''a'', j_previous = Some demo_digest, j_next_index = 1\<rparr>"
  have "inference_event_validate (journal_event ?j ''failed'' demo_digest) = Inr ()"
    by (auto simp: inference_event_validate_def journal_event_def one_of_def ascii_defs)
  from append_ok [OF this, of "[(''a'', EDir ?fs)]" ?fs]
  obtain st where seal: "journal_append constant_hash can_always ''failed'' demo_digest (?j, RDir [(''a'', EDir ?fs)]) =
      (Inr demo_digest, st)"
    by (auto split del: if_split)
  have f8: "utf8_string (event_file 0 ''accepted'')"
    by (intro event_file_utf8) (simp_all add: is_ascii_def)
  obtain root' where "recover_one constant_hash can_always ''a'' (RDir [(''a'', EDir ?fs)]) = (Inr 1, root')"
    using read seal by (cases st) (simp add: recover_one_def Let_def f8 demo_payload ch(1))
  then have "recover_open_journals constant_hash can_always (RDir [(''a'', EDir ?fs)]) = (Inr 1, root')"
    by (simp add: recover_open_journals_def op_bind_def op_return_def valid_journal_id_def ascii_defs
        utf8_string_ascii saturating_add_u32_def u32_max_def)
  moreover have "journals_ok [(''a'', EDir ?fs)]"
    using ch(1) by (auto simp: journals_ok_def bt_ok_def split: if_splits)
  ultimately show ?thesis by blast
qed

end
