(* ===== verification/Common_Laws.thy ===== *)
theory Common_Laws
  imports Document
begin

text \<open>
  Closed forms of the shared checks: which strings are digests, which paths are accepted, which
  device ids and totals there are, and what a list of files has to satisfy.
\<close>

subsection \<open>Digests\<close>

lemma lower_hex_nibble:
  assumes "is_ascii_hexdigit c" and "\<not> is_ascii_uppercase c"
  shows "\<exists>n < 16. c = nibble_char n"
proof -
  let ?n = "of_char c :: nat"
  let ?m = "if ?n < 58 then ?n - 48 else ?n - 87"
  have "48 \<le> ?n \<and> ?n \<le> 57 \<or> 97 \<le> ?n \<and> ?n \<le> 102" using assms by (auto simp: ascii_defs)
  then have "?m < 16" "(if ?m < 10 then 48 + ?m else 87 + ?m) = ?n" by auto
  then have "?m < 16 \<and> c = nibble_char ?m" by (simp add: nibble_char_def)
  then show ?thesis by blast
qed

lemma nibbles_byte_hex: "h < 16 \<Longrightarrow> l < 16 \<Longrightarrow> [nibble_char h, nibble_char l] = byte_hex (of_nat (h * 16 + l))"
proof -
  assume "h < 16" "l < 16"
  then have "unat (of_nat (h * 16 + l) :: u8) = h * 16 + l"
    by (simp only: unat_byte_of_nat) simp
  then show ?thesis using \<open>l < 16\<close> by (simp only: byte_hex_def) simp
qed

lemma lower_hex_encoded:
  assumes "even (length s)" and "list_all (\<lambda>c. is_ascii_hexdigit c \<and> \<not> is_ascii_uppercase c) s"
  shows "\<exists>bs. s = encode_hex bs"
  using assms
proof (induction s rule: induct_list012)
  case 1
  have "[] = encode_hex []" by (simp add: encode_hex_def)
  then show ?case by blast
next
  case (3 h l s)
  then obtain bs where bs: "s = encode_hex bs" by auto
  obtain m n where "m < 16" "h = nibble_char m" "n < 16" "l = nibble_char n"
    using lower_hex_nibble [of h] lower_hex_nibble [of l] 3 by auto
  then have "[h, l] = byte_hex (of_nat (m * 16 + n))" by (simp add: nibbles_byte_hex)
  then have "h # l # s = encode_hex (of_nat (m * 16 + n) # bs)" by (simp add: bs encode_hex_def)
  then show ?case by blast
qed simp

text \<open>The digests are the prefixed lowercase hex forms of 32 bytes.\<close>

lemma digest_parse_exact:
  "digest_parse s = Inr h \<longleftrightarrow>
   h = DigestHex s \<and> (\<exists>bs. length bs = 32 \<and> s = digest_prefix @ encode_hex bs)"
proof -
  have "(\<exists>hex. s = digest_prefix @ hex \<and> length hex = 64 \<and>
      list_all (\<lambda>b. is_ascii_hexdigit b \<and> \<not> is_ascii_uppercase b) hex) \<longleftrightarrow>
      (\<exists>bs. length bs = 32 \<and> s = digest_prefix @ encode_hex bs)" (is "?l \<longleftrightarrow> ?r")
  proof
    assume ?l
    then obtain hex where hex: "s = digest_prefix @ hex" "length hex = 64"
        "list_all (\<lambda>b. is_ascii_hexdigit b \<and> \<not> is_ascii_uppercase b) hex" by blast
    then obtain bs where "hex = encode_hex bs" using lower_hex_encoded [of hex] by auto
    with hex show ?r by auto
  next
    assume ?r
    then show ?l using encode_hex_lower by auto
  qed
  then show ?thesis by (auto simp: digest_parse_Inr validate_digest_Inr)
qed

subsection \<open>Relative paths\<close>

lemma split_on_sep_mem: "c \<noteq> ch \<Longrightarrow> c \<in> set s \<Longrightarrow> \<exists>seg \<in> set (split_on ch s). c \<in> set seg"
  by (induction s) (fastforce split: list.splits)+

lemma split_on_start: "take 1 s = [ch] \<Longrightarrow> [] \<in> set (split_on ch s)"
  by (cases s) auto

lemma split_on_last: "s \<noteq> [] \<Longrightarrow> last s = ch \<Longrightarrow> [] \<in> set (tl (split_on ch s))"
proof (induction s)
  case (Cons c s)
  then show ?case
    by (cases "split_on ch s") (auto split: if_splits)
qed simp

lemma split_on_hd: "s \<noteq> [] \<Longrightarrow> hd s = ch \<Longrightarrow> [] \<in> set (split_on ch s)"
  by (cases s) auto

lemma split_on_double: "contains_str [ch, ch] s \<Longrightarrow> [] \<in> set (tl (split_on ch s))"
proof (induction s)
  case (Cons c s)
  have tl: "set (tl (split_on ch s)) \<subseteq> set (split_on ch s)" by (cases "split_on ch s") auto
  show ?case
  proof (cases "c = ch")
    case True
    then show ?thesis using Cons tl split_on_start [of s ch] by auto
  next
    case False
    then show ?thesis using Cons by (cases "split_on ch s") auto
  qed
qed simp

lemma tl_mem: "x \<in> set (tl xs) \<Longrightarrow> x \<in> set xs"
  by (cases xs) auto

text \<open>The character checks before the split are implied by the check of every segment.\<close>

lemma validate_relative_path_exact:
  "validate_relative_path path = Inr () \<longleftrightarrow>
   path \<noteq> [] \<and> length path \<le> 512 \<and> (\<forall>seg \<in> set (split_on (CHR ''/'') path). path_segment_ok seg)"
proof -
  let ?segs = "split_on (CHR ''/'') path"
  have "\<not> path_segment_ok []" by (simp add: path_segment_ok_def)
  moreover have "path_segment_ok seg \<Longrightarrow> CHR 0x5C \<notin> set seg" for seg
    by (auto simp: path_segment_ok_def list_all_iff ascii_defs)
  ultimately have "path \<noteq> [] \<Longrightarrow> \<forall>seg \<in> set ?segs. path_segment_ok seg \<Longrightarrow>
      hd path \<noteq> CHR ''/'' \<and> last path \<noteq> CHR ''/'' \<and> CHR 0x5C \<notin> set path \<and> \<not> contains_str ''//'' path"
    using split_on_hd [of path "CHR ''/''"] split_on_last [of path "CHR ''/''"]
      split_on_double [of "CHR ''/''" path] split_on_sep_mem [of "CHR 0x5C" "CHR ''/''" path]
    by (blast dest: tl_mem)
  then show ?thesis by (auto simp: validate_relative_path_def list_all_iff)
qed

text \<open>\<open>split_on\<close> undoes joining: the segments of a path are the only ones that join to it.\<close>

lemma join_split_on: "concat (map ((#) ch) (split_on ch s)) = ch # s"
proof (induction s)
  case (Cons c s)
  then show ?case by (cases "split_on ch s") auto
qed simp

lemma split_on_no_sep: "seg \<in> set (split_on ch s) \<Longrightarrow> ch \<notin> set seg"
proof (induction s arbitrary: seg)
  case (Cons c s)
  then show ?case by (cases "split_on ch s") (auto split: if_splits)
qed simp

lemma split_on_segment: "ch \<notin> set seg \<Longrightarrow> split_on ch seg = [seg]"
  by (induction seg) auto

lemma split_on_append: "ch \<notin> set seg \<Longrightarrow> split_on ch (seg @ ch # s) = seg # split_on ch s"
  by (induction seg) auto

lemma split_on_join:
  "segs \<noteq> [] \<Longrightarrow> \<forall>seg \<in> set segs. ch \<notin> set seg \<Longrightarrow> concat (map ((#) ch) segs) = ch # s \<Longrightarrow> split_on ch s = segs"
proof (induction segs arbitrary: s)
  case (Cons seg segs)
  show ?case
  proof (cases segs)
    case Nil
    then show ?thesis using Cons.prems by (auto simp: split_on_segment)
  next
    case (Cons a as)
    then obtain r where r: "concat (map ((#) ch) segs) = ch # r" by simp
    then have "s = seg @ ch # r" using Cons.prems(3) by simp
    moreover have "split_on ch r = segs" using Cons Cons.prems(2) r by (intro Cons.IH) simp_all
    ultimately show ?thesis using Cons.prems(2) by (simp add: split_on_append)
  qed
qed simp

text \<open>The characters of a name, and a path as the names that a slash joins.\<close>

lemma name_char:
  "is_ascii_alphanumeric c \<or> c = CHR ''.'' \<or> c = CHR ''_'' \<or> c = CHR ''-'' \<longleftrightarrow>
   CHR ''0'' \<le> c \<and> c \<le> CHR ''9'' \<or> CHR ''A'' \<le> c \<and> c \<le> CHR ''Z'' \<or> CHR ''a'' \<le> c \<and> c \<le> CHR ''z'' \<or>
   c \<in> {CHR ''.'', CHR ''_'', CHR ''-''}"
  by (auto simp: ascii_defs less_eq_char_def)

lemma path_segment_exact:
  "path_segment_ok seg \<longleftrightarrow> seg \<notin> {[], ''.'', ''..''} \<and>
   set seg \<subseteq> {CHR ''0''..CHR ''9''} \<union> {CHR ''A''..CHR ''Z''} \<union> {CHR ''a''..CHR ''z''} \<union> {CHR ''.'', CHR ''_'', CHR ''-''}"
  unfolding path_segment_ok_def name_char by (auto simp: list_all_iff)

lemma path_segment_no_slash: "path_segment_ok seg \<Longrightarrow> CHR ''/'' \<notin> set seg"
  by (auto simp: path_segment_ok_def list_all_iff ascii_defs)

lemma relative_path_names:
  "validate_relative_path path = Inr () \<longleftrightarrow> length path \<le> 512 \<and>
   (\<exists>segs. segs \<noteq> [] \<and> ''/'' @ path = concat (map (\<lambda>seg. ''/'' @ seg) segs) \<and>
     list_all (\<lambda>seg. seg \<notin> {[], ''.'', ''..''} \<and> set seg \<subseteq> {CHR ''0''..CHR ''9''} \<union> {CHR ''A''..CHR ''Z''} \<union>
       {CHR ''a''..CHR ''z''} \<union> {CHR ''.'', CHR ''_'', CHR ''-''}) segs)" (is "?l \<longleftrightarrow> ?r")
proof
  assume ?l
  then have "length path \<le> 512" "\<forall>seg \<in> set (split_on (CHR ''/'') path). path_segment_ok seg"
    unfolding validate_relative_path_exact by blast+
  then show ?r
    using join_split_on [of "CHR ''/''" path]
    by (intro conjI exI [of _ "split_on (CHR ''/'') path"]) (auto simp: list_all_iff path_segment_exact)
next
  assume ?r
  then obtain segs where segs: "length path \<le> 512" "segs \<noteq> []" "concat (map ((#) (CHR ''/'')) segs) = CHR ''/'' # path"
      "\<forall>seg \<in> set segs. path_segment_ok seg"
    unfolding list_all_iff path_segment_exact [symmetric] by auto
  then have "split_on (CHR ''/'') path = segs"
    by (intro split_on_join) (auto dest: path_segment_no_slash)
  moreover have "path \<noteq> []"
  proof
    assume "path = []"
    then have "segs = [[]]" using \<open>split_on (CHR ''/'') path = segs\<close> by simp
    with segs(4) show False by (simp add: path_segment_ok_def)
  qed
  ultimately show ?l using segs by (simp add: validate_relative_path_exact)
qed

subsection \<open>Totals and devices\<close>

lemma u64_array_sum_from_exact:
  "acc \<le> u64_max \<Longrightarrow> u64_array_sum_from acc vs = Inr n \<longleftrightarrow> n = acc + sum_list vs \<and> n \<le> u64_max"
proof (induction vs arbitrary: acc)
  case Nil
  then show ?case by auto
next
  case (Cons v vs)
  show ?case
  proof (cases "acc + v \<le> u64_max")
    case True
    then show ?thesis using Cons.IH [of "acc + v"]
      by (simp add: checked_add_u64_def ok_or_def ac_simps)
  next
    case False
    then show ?thesis by (auto simp: checked_add_u64_def ok_or_def)
  qed
qed

lemma u64_array_sum_exact: "u64_array_sum vs = Inr n \<longleftrightarrow> n = sum_list vs \<and> n \<le> u64_max"
  by (simp add: u64_array_sum_def u64_array_sum_from_exact u64_max_def)

lemma u64_array_sum_overflow: "u64_max < sum_list vs \<longleftrightarrow> (\<exists>e. u64_array_sum vs = Inl e)"
proof (cases "u64_array_sum vs")
  case (Inl e)
  then have "u64_array_sum vs \<noteq> Inr (sum_list vs)" by simp
  then have "u64_max < sum_list vs" unfolding u64_array_sum_exact by simp
  then show ?thesis using Inl by blast
next
  case (Inr n)
  then have "\<not> u64_max < sum_list vs" unfolding u64_array_sum_exact by simp
  then show ?thesis using Inr by simp
qed

lemma increasing_sorted: "increasing xs \<longleftrightarrow> sorted_wrt (<) xs"
proof (induction xs rule: increasing.induct)
  case (1 a b xs)
  then show ?case by (fastforce simp: not_le)
qed auto

lemma sorted_unique_ok [res]: "sorted_unique field xs = Inr u \<longleftrightarrow> sorted_wrt (<) xs"
  by (simp add: sorted_unique_def increasing_sorted)

lemma rmap_unit: "rmap f xs = Inr us \<longleftrightarrow> us = replicate (length xs) () \<and> (\<forall>x \<in> set xs. f x = Inr ())"
  by (induction xs arbitrary: us) (auto simp: res)

lemma validate_files_exact:
  "validate_files files = Inr () \<longleftrightarrow> files \<noteq> [] \<and> length files \<le> 1024 \<and>
   sorted_wrt (<) (map af_path files) \<and> (\<forall>a \<in> set files. artifact_file_validate a = Inr ())"
  by (auto simp: validate_files_def res rmap_unit)

lemma strict_sorted_distinct: "sorted_wrt (<) (xs :: string list) \<Longrightarrow> distinct xs"
  by (induction xs) auto

lemma artifact_file_exact:
  "artifact_file_validate a = Inr () \<longleftrightarrow> validate_relative_path (af_path a) = Inr () \<and> af_size_bytes a \<noteq> 0"
  by (simp add: artifact_file_validate_def res)

end
