(* ===== verification/Generate.thy ===== *)
theory Generate
  imports Scheduler_Step
begin

text \<open>
  One request at a time: \<open>generate_samples_with\<close> of \<open>crates/infer-engine/src/sample.rs\<close>. Prefill,
  then sample, report and decode until an end token or the output limit. The reported tokens are
  kept in the world; the loop takes the output limit as fuel.
\<close>

record sampled_output =
  so_tokens :: "nat list"
  so_finish_reason :: string
  so_prefill_micros :: nat
  so_decode_micros :: nat

record ('m, 'k) gen_world =
  g_model :: 'm
  g_kv :: 'k
  g_clock :: nat
  g_emitted :: "nat list"

definition gen_kv :: "('k, 'a) op \<Rightarrow> (('m, 'k) gen_world, 'a) op" where
  "gen_kv m w = (case m (g_kv w) of (r, k) \<Rightarrow> (r, w\<lparr>g_kv := k\<rparr>))"

definition gen_model :: "('m \<times> 'k, 'a) op \<Rightarrow> (('m, 'k) gen_world, 'a) op" where
  "gen_model m w = (case m (g_model w, g_kv w) of (r, (mo, k)) \<Rightarrow> (r, w\<lparr>g_model := mo, g_kv := k\<rparr>))"

definition elapsed_micros :: "('m, 'k) engine \<Rightarrow> (('m, 'k) gen_world, nat) op" where
  "elapsed_micros eng w =
    (let micros = eng_elapsed eng (g_clock w) div 1000; w = w\<lparr>g_clock := g_clock w + 1\<rparr>
     in (ok_or (if micros \<le> u64_max then Some micros else None) ContractInvalid
       ''timing does not fit in u64'', w))"

text \<open>A failed model call drops the pending token and reports the model's failure.\<close>

definition or_abort :: "('m, 'k) engine \<Rightarrow> nat \<Rightarrow> (('m, 'k) gen_world, 'a) op \<Rightarrow> (('m, 'k) gen_world, 'a) op" where
  "or_abort eng sq m w = (case m w of
     (Inr a, w) \<Rightarrow> (Inr a, w)
   | (Inl e, w) \<Rightarrow> (Inl e, snd (gen_kv (eng_kv_abort eng sq) w)))"

text \<open>The logits of the next token and the time spent so far.\<close>

definition generate_decode ::
  "('m, 'k) engine \<Rightarrow> nat \<Rightarrow> nat \<Rightarrow> nat \<Rightarrow> (('m, 'k) gen_world, f32 list \<times> nat) op" where
  "generate_decode eng sq token decode_micros =
    op_bind (op_getr (\<lambda>w. eng_kv_token_len eng sq (g_kv w))) (\<lambda>position.
    op_bind (or_abort eng sq (gen_model (eng_decode eng sq [token] [position]))) (\<lambda>logits.
    op_bind (elapsed_micros eng) (\<lambda>micros.
    op_bind (op_lift (ok_or (checked_add_u64 decode_micros micros) ContractInvalid
      ''decode timing overflows'')) (\<lambda>decode_micros.
    op_return (logits, decode_micros)))))"

fun generate_loop ::
  "('m, 'k) engine \<Rightarrow> nat \<Rightarrow> nat list \<Rightarrow> sampler_plan \<Rightarrow> nat \<Rightarrow> nat \<Rightarrow> nat \<Rightarrow> f32 list \<Rightarrow> nat list \<Rightarrow>
   ('m, 'k) gen_world \<Rightarrow> (sampled_output res \<times> ('m, 'k) gen_world) option" where
  "generate_loop eng sq prompt plan prefill_micros 0 decode_micros logits tokens w = None"
| "generate_loop eng sq prompt plan prefill_micros (Suc fuel) decode_micros logits tokens w =
    (case sample_token (eng_float eng) logits plan (prompt @ tokens) (length tokens mod 4294967296) of
       Inl e \<Rightarrow> Some (Inl e, w)
     | Inr token \<Rightarrow>
        let tokens = tokens @ [token];
            w = w\<lparr>g_emitted := g_emitted w @ [token]\<rparr>;
            stopped = (token \<in> set (sp_eos_token_ids plan))
        in if stopped \<or> length tokens = max_output_tokens (sp_settings plan)
           then Some (Inr \<lparr>so_tokens = tokens, so_finish_reason = (if stopped then ''stop'' else ''length''),
             so_prefill_micros = prefill_micros, so_decode_micros = decode_micros\<rparr>, w)
           else (case generate_decode eng sq token decode_micros w of
               (Inl e, w) \<Rightarrow> Some (Inl e, w)
             | (Inr (logits, decode_micros), w) \<Rightarrow>
                 generate_loop eng sq prompt plan prefill_micros fuel decode_micros logits tokens w))"

definition generate_prefill ::
  "('m, 'k) engine \<Rightarrow> nat \<Rightarrow> nat list \<Rightarrow> sampler_plan \<Rightarrow> (('m, 'k) gen_world, f32 list \<times> nat) op" where
  "generate_prefill eng sq prompt plan =
    op_bind (op_lift (sampler_plan_validate plan)) (\<lambda>_.
    if prompt = [] then op_throw (fail PromptCompilationFailed ''prompt has no tokens'')
    else op_bind (gen_kv (eng_kv_begin eng sq)) (\<lambda>_.
    op_bind (or_abort eng sq (gen_model (eng_prefill eng sq prompt))) (\<lambda>logits.
    op_bind (elapsed_micros eng) (\<lambda>micros. op_return (logits, micros)))))"

definition generate_samples_with ::
  "('m, 'k) engine \<Rightarrow> nat \<Rightarrow> nat list \<Rightarrow> sampler_plan \<Rightarrow> ('m, 'k) gen_world \<Rightarrow>
   (sampled_output res \<times> ('m, 'k) gen_world) option" where
  "generate_samples_with eng sq prompt plan w =
    (case generate_prefill eng sq prompt plan w of
       (Inl e, w) \<Rightarrow> Some (Inl e, w)
     | (Inr (logits, prefill_micros), w) \<Rightarrow>
         generate_loop eng sq prompt plan prefill_micros (max_output_tokens (sp_settings plan)) 0 logits [] w)"

subsection \<open>The loop ends\<close>

lemma emitted_kept [simp]:
  "g_emitted (snd (gen_kv m w)) = g_emitted w" "g_emitted (snd (gen_model f w)) = g_emitted w"
  "g_emitted (snd (elapsed_micros eng w)) = g_emitted w"
  "g_emitted (snd (or_abort eng sq (gen_model f) w)) = g_emitted w"
  by (auto simp: gen_kv_def gen_model_def elapsed_micros_def or_abort_def Let_def split: prod.splits sum.splits)

lemma emitted_bind:
  "(\<And>w. g_emitted (snd (m w)) = g_emitted w) \<Longrightarrow> (\<And>a w. g_emitted (snd (f a w)) = g_emitted w) \<Longrightarrow>
   g_emitted (snd (op_bind m f w)) = g_emitted w"
  by (auto simp: op_bind_def split: prod.split sum.split) (metis snd_conv)+

lemma emitted_decode: "g_emitted (snd (generate_decode eng sq t n w)) = g_emitted w"
  unfolding generate_decode_def
  by (intro emitted_bind) (simp_all add: op_getr_def op_lift_def op_return_def)

lemma emitted_prefill: "g_emitted (snd (generate_prefill eng sq prompt plan w)) = g_emitted w"
  unfolding generate_prefill_def
  by (intro emitted_bind) (auto simp: op_lift_def op_return_def op_throw_def intro!: emitted_bind)

definition generated :: "sampler_plan \<Rightarrow> sampled_output \<Rightarrow> bool" where
  "generated plan out \<longleftrightarrow> so_tokens out \<noteq> [] \<and>
    length (so_tokens out) \<le> max_output_tokens (sp_settings plan) \<and>
    (\<forall>t \<in> set (butlast (so_tokens out)). t \<notin> set (sp_eos_token_ids plan)) \<and>
    (if last (so_tokens out) \<in> set (sp_eos_token_ids plan) then so_finish_reason out = ''stop''
     else so_finish_reason out = ''length'' \<and>
       length (so_tokens out) = max_output_tokens (sp_settings plan))"

lemma generate_loop_ends:
  assumes "length tokens + fuel = max_output_tokens (sp_settings plan)" and "0 < fuel"
    and "g_emitted w = before @ tokens" and "\<forall>t \<in> set tokens. t \<notin> set (sp_eos_token_ids plan)"
  shows "\<exists>r w'. generate_loop eng sq prompt plan pm fuel dm logits tokens w = Some (r, w') \<and>
    (case r of
       Inr out \<Rightarrow> generated plan out \<and> g_emitted w' = before @ so_tokens out
     | Inl e \<Rightarrow> \<exists>ts. g_emitted w' = before @ ts \<and> length ts < max_output_tokens (sp_settings plan) \<and>
         (\<forall>t \<in> set ts. t \<notin> set (sp_eos_token_ids plan)))"
  using assms
proof (induction fuel arbitrary: dm logits tokens w)
  case (Suc fuel)
  show ?case
  proof (cases "sample_token (eng_float eng) logits plan (prompt @ tokens) (length tokens mod 4294967296)")
    case (Inl e)
    then show ?thesis using Suc.prems by auto
  next
    case (Inr t)
    let ?w = "w\<lparr>g_emitted := g_emitted w @ [t]\<rparr>"
    show ?thesis
    proof (cases "t \<in> set (sp_eos_token_ids plan) \<or> length (tokens @ [t]) = max_output_tokens (sp_settings plan)")
      case True
      then show ?thesis using Inr Suc.prems by (auto simp: generated_def Let_def)
    next
      case False
      obtain d w1 where d: "generate_decode eng sq t dm ?w = (d, w1)" by (cases "generate_decode eng sq t dm ?w")
      have em: "g_emitted w1 = before @ tokens @ [t]"
        using emitted_decode [of eng sq t dm ?w] Suc.prems(3) unfolding d by simp
      show ?thesis
      proof (cases d)
        case (Inl e)
        then show ?thesis using Inr False d em Suc.prems
          by (auto simp: Let_def intro!: exI [of _ "tokens @ [t]"])
      next
        case dec: (Inr x)
        obtain l m where x: "x = (l, m)" by (cases x)
        have "\<exists>r w'. generate_loop eng sq prompt plan pm fuel m l (tokens @ [t]) w1 = Some (r, w') \<and>
          (case r of
             Inr out \<Rightarrow> generated plan out \<and> g_emitted w' = before @ so_tokens out
           | Inl e \<Rightarrow> \<exists>ts. g_emitted w' = before @ ts \<and> length ts < max_output_tokens (sp_settings plan) \<and>
               (\<forall>t \<in> set ts. t \<notin> set (sp_eos_token_ids plan)))"
          using Suc.prems False em by (intro Suc.IH) auto
        then show ?thesis using Inr False d dec x by (simp add: Let_def)
      qed
    qed
  qed
qed simp

lemma generate_samples_ends:
  "\<exists>r w'. generate_samples_with eng sq prompt plan w = Some (r, w') \<and>
    (case r of
       Inr out \<Rightarrow> generated plan out \<and> g_emitted w' = g_emitted w @ so_tokens out
     | Inl e \<Rightarrow> \<exists>ts. g_emitted w' = g_emitted w @ ts)"
proof -
  obtain d w1 where d: "generate_prefill eng sq prompt plan w = (d, w1)"
    by (cases "generate_prefill eng sq prompt plan w")
  have em: "g_emitted w1 = g_emitted w @ []" using emitted_prefill [of eng sq prompt plan w] by (simp add: d)
  show ?thesis
  proof (cases d)
    case (Inl e)
    then show ?thesis using d em by (auto simp: generate_samples_with_def)
  next
    case (Inr x)
    obtain l m where x: "x = (l, m)" by (cases x)
    have "sampler_plan_validate plan = Inr ()"
      using d Inr by (cases "sampler_plan_validate plan") (auto simp: generate_prefill_def op_bind_def op_lift_def)
    then have "0 < max_output_tokens (sp_settings plan)"
      by (auto simp: sampler_plan_validate_def res fixed_point_sampler_validate_def split: if_splits)
    then have "\<exists>r w'. generate_loop eng sq prompt plan m (max_output_tokens (sp_settings plan)) 0 l [] w1 = Some (r, w') \<and>
      (case r of
         Inr out \<Rightarrow> generated plan out \<and> g_emitted w' = g_emitted w @ so_tokens out
       | Inl e \<Rightarrow> \<exists>ts. g_emitted w' = g_emitted w @ ts \<and> length ts < max_output_tokens (sp_settings plan) \<and>
           (\<forall>t \<in> set ts. t \<notin> set (sp_eos_token_ids plan)))"
      using em by (intro generate_loop_ends) simp_all
    then show ?thesis using d Inr x by (fastforce simp: generate_samples_with_def split: sum.splits)
  qed
qed

end
