(* ===== verification/Frame.thy ===== *)
theory Frame
  imports Cbor_Proofs
begin

text \<open>
  The length-prefixed frames between supervisor and worker: \<open>crates/infer-serve/src/frame.rs\<close>. The
  decoder keeps a buffer and a read position; it refines a queue of unread bytes, and frames written
  one after the other come out in order however the stream is cut into chunks.
\<close>

definition max_frame :: nat where "max_frame = 1048576"

record frame_decoder =
  fd_buf :: "u8 list"
  fd_pos :: nat

definition frame_new :: frame_decoder where
  "frame_new = \<lparr>fd_buf = [], fd_pos = 0\<rparr>"

definition frame_push :: "u8 list \<Rightarrow> (frame_decoder, unit) op" where
  "frame_push bytes d =
    (if length (fd_buf d) - fd_pos d + length bytes > max_frame + 4
     then (Inl (fail ContractInvalid ''ipc frame buffer exceeded the size limit''), d)
     else
      let d = (if fd_pos d > 4096 then \<lparr>fd_buf = drop (fd_pos d) (fd_buf d), fd_pos = 0\<rparr> else d)
      in (Inr (), d\<lparr>fd_buf := fd_buf d @ bytes\<rparr>))"

definition frame_has_unread :: "frame_decoder \<Rightarrow> bool" where
  "frame_has_unread d \<longleftrightarrow> length (fd_buf d) > fd_pos d"

definition frame_pop :: "(frame_decoder, cbor_value option) op" where
  "frame_pop d =
    (let available = length (fd_buf d) - fd_pos d in
     if available < 4 then (Inr None, d)
     else
      let len = be_value (take 4 (drop (fd_pos d) (fd_buf d))) in
      if len = 0 \<or> len > max_frame
      then (Inl (fail ContractInvalid ''ipc frame length is outside 1..=1048576''), d)
      else if available < 4 + len then (Inr None, d)
      else
       let start = fd_pos d + 4;
           body = take len (drop start (fd_buf d));
           d = d\<lparr>fd_pos := start + len\<rparr>
       in (map_sum id Some (decode_canonical body), d))"

text \<open>A writer is its \<open>write_all\<close> and \<open>flush\<close>.\<close>

definition write_frame ::
  "(u8 list \<Rightarrow> ('w, unit) op) \<Rightarrow> ('w, unit) op \<Rightarrow> cbor_value \<Rightarrow> ('w, unit) op" where
  "write_frame write_all flush v =
    (let body = to_bytes v in
     if body = [] \<or> length body > max_frame
     then op_throw (fail ContractInvalid ''ipc frame length is outside 1..=1048576'')
     else op_seq (write_all (be_bytes 4 (length body))) (op_seq (write_all body) flush))"

definition frame_room :: "frame_decoder \<Rightarrow> nat" where
  "frame_room d = max_frame + 5 + fd_pos d - length (fd_buf d)"

lemma frame_pop_None: "frame_pop d = (Inr None, d') \<Longrightarrow> d' = d"
  by (auto simp: frame_pop_def Let_def split: if_splits sum.splits) (simp_all add: map_sum_def split: sum.splits)

lemma frame_push_room: "frame_push bytes d = (Inr u, d') \<Longrightarrow> bytes \<noteq> [] \<Longrightarrow> frame_room d' < frame_room d"
  by (cases bytes) (auto simp: frame_push_def frame_room_def Let_def split: if_splits)

text \<open>A reader is its \<open>read\<close> of the next chunk, empty at the end of the stream.\<close>

function read_frame_from :: "('r, u8 list) op \<Rightarrow> frame_decoder \<Rightarrow> ('r, cbor_value) op" where
  "read_frame_from rd d r =
    (case frame_pop d of
       (Inl e, d) \<Rightarrow> (Inl e, r)
     | (Inr (Some v), d) \<Rightarrow> (Inr v, r)
     | (Inr None, d) \<Rightarrow>
        (case rd r of
           (Inl e, r) \<Rightarrow> (Inl e, r)
         | (Inr chunk, r) \<Rightarrow>
            if chunk = [] then (Inl (fail WorkerLost ''worker closed the ipc socket''), r)
            else (case frame_push chunk d of
              (Inl e, d) \<Rightarrow> (Inl e, r)
            | (Inr _, d) \<Rightarrow> read_frame_from rd d r)))"
  by pat_completeness auto

termination
  by (relation "measure (\<lambda>(rd, d, r). frame_room d)")
    (auto dest!: frame_pop_None [OF sym] frame_push_room [OF sym])

declare read_frame_from.simps [simp del]

definition read_frame :: "('r, u8 list) op \<Rightarrow> ('r, cbor_value) op" where
  "read_frame rd = read_frame_from rd frame_new"

subsection \<open>The queue of unread bytes\<close>

definition unread :: "frame_decoder \<Rightarrow> u8 list" where
  "unread d = drop (fd_pos d) (fd_buf d)"

definition frame_ok :: "frame_decoder \<Rightarrow> bool" where
  "frame_ok d \<longleftrightarrow> fd_pos d \<le> length (fd_buf d)"

definition queue_push :: "u8 list \<Rightarrow> (u8 list, unit) op" where
  "queue_push bytes q =
    (if length q + length bytes > max_frame + 4
     then (Inl (fail ContractInvalid ''ipc frame buffer exceeded the size limit''), q)
     else (Inr (), q @ bytes))"

definition queue_pop :: "(u8 list, cbor_value option) op" where
  "queue_pop q =
    (if length q < 4 then (Inr None, q)
     else
      let len = be_value (take 4 q) in
      if len = 0 \<or> len > max_frame
      then (Inl (fail ContractInvalid ''ipc frame length is outside 1..=1048576''), q)
      else if length q < 4 + len then (Inr None, q)
      else (map_sum id Some (decode_canonical (take len (drop 4 q))), drop (4 + len) q))"

lemma frame_new_ok [simp]: "frame_ok frame_new" "unread frame_new = []"
  by (simp_all add: frame_new_def frame_ok_def unread_def)

lemma has_unread: "frame_has_unread d \<longleftrightarrow> unread d \<noteq> []"
  by (simp add: frame_has_unread_def unread_def not_le)

lemma frame_push_refines:
  "frame_ok d \<Longrightarrow> map_prod id unread (frame_push bytes d) = queue_push bytes (unread d) \<and>
    frame_ok (snd (frame_push bytes d))"
  by (auto simp: frame_push_def queue_push_def unread_def frame_ok_def Let_def)

lemma frame_pop_refines:
  "frame_ok d \<Longrightarrow> map_prod id unread (frame_pop d) = queue_pop (unread d) \<and> frame_ok (snd (frame_pop d))"
  by (auto simp: frame_pop_def queue_pop_def unread_def frame_ok_def Let_def ac_simps)

subsection \<open>Frames in a stream\<close>

definition frame_bytes :: "cbor_value \<Rightarrow> u8 list" where
  "frame_bytes v = be_bytes 4 (length (encode v)) @ encode v"

definition frame_value :: "cbor_value \<Rightarrow> bool" where
  "frame_value v \<longleftrightarrow> cbor_wf 0 v \<and> length (encode v) \<le> max_frame"

lemma frame_len:
  assumes "frame_value v"
  shows "be_value (be_bytes 4 (length (encode v))) = length (encode v)"
    and "0 < length (encode v)" and "length (encode v) \<le> max_frame"
  using assms by (simp_all add: be_value_be_bytes frame_value_def max_frame_def)

lemma queue_pop_frame:
  assumes v: "frame_value v"
  shows "queue_pop (frame_bytes v @ q) = (Inr (Some v), q)"
proof -
  have "decode_canonical (encode v) = Inr v"
    using v by (simp add: decode_canonical_iff frame_value_def max_frame_def max_document_bytes_def)
  then show ?thesis
    using frame_len [OF v] by (simp add: queue_pop_def frame_bytes_def Let_def not_less)
qed

text \<open>A proper prefix of a frame is not popped.\<close>

lemma queue_pop_partial:
  assumes v: "frame_value v" and q: "q @ rest = frame_bytes v" "rest \<noteq> []"
  shows "queue_pop q = (Inr None, q)"
proof (cases "length q < 4")
  case False
  have "take 4 (q @ rest) = be_bytes 4 (length (encode v))" by (simp add: q frame_bytes_def)
  then have "take 4 q = be_bytes 4 (length (encode v))" using False by simp
  moreover have "length (q @ rest) = 4 + length (encode v)" by (simp add: q frame_bytes_def)
  then have "length q < 4 + length (encode v)" using q(2) by (cases rest) simp_all
  ultimately show ?thesis using frame_len [OF v] False by (simp add: queue_pop_def Let_def)
qed (simp add: queue_pop_def)

lemma frame_pop_Some: "frame_pop d = (Inr (Some v), d') \<Longrightarrow> length (fd_buf d') - fd_pos d' < length (fd_buf d) - fd_pos d"
  by (auto simp: frame_pop_def Let_def split: if_splits)

text \<open>Pop until nothing is complete; then the next chunk.\<close>

function frame_drain :: "(frame_decoder, cbor_value list) op" where
  "frame_drain d =
    (case frame_pop d of
       (Inl e, d) \<Rightarrow> (Inl e, d)
     | (Inr None, d) \<Rightarrow> (Inr [], d)
     | (Inr (Some v), d) \<Rightarrow> (case frame_drain d of
         (Inl e, d) \<Rightarrow> (Inl e, d)
       | (Inr vs, d) \<Rightarrow> (Inr (v # vs), d)))"
  by pat_completeness auto

termination
  by (relation "measure (\<lambda>d. length (fd_buf d) - fd_pos d)") (auto dest!: frame_pop_Some [OF sym])

declare frame_drain.simps [simp del]

fun frame_feed :: "u8 list list \<Rightarrow> (frame_decoder, cbor_value list) op" where
  "frame_feed [] = op_return []"
| "frame_feed (c # cs) =
    op_seq (frame_push c) (op_bind frame_drain (\<lambda>vs. op_bind (frame_feed cs) (\<lambda>ws. op_return (vs @ ws))))"

text \<open>\<open>q\<close> is what is left of the frames \<open>vs\<close> after the first have been taken: a prefix of their bytes.\<close>

lemma frame_drain_prefix:
  assumes "frame_ok d" and "unread d @ rest = concat (map frame_bytes vs)" and "list_all frame_value vs"
  shows "\<exists>us ws d'. vs = us @ ws \<and> frame_drain d = (Inr us, d') \<and> frame_ok d' \<and>
    unread d' @ rest = concat (map frame_bytes ws) \<and>
    (case ws of [] \<Rightarrow> unread d' = [] | w # _ \<Rightarrow> length (unread d') < length (frame_bytes w))"
  using assms
proof (induction vs arbitrary: d)
  case Nil
  then have "unread d = []" "rest = []" by simp_all
  then have "queue_pop (unread d) = (Inr None, unread d)" by (simp add: queue_pop_def)
  then have "fst (frame_pop d) = Inr None"
    using frame_pop_refines [OF Nil.prems(1)] by (metis fst_conv fst_map_prod id_apply)
  then have "frame_pop d = (Inr None, d)"
    using frame_pop_None [of d "snd (frame_pop d)"] by (metis prod.collapse)
  then have "frame_drain d = (Inr [], d)" by (subst frame_drain.simps) simp
  then show ?case using Nil \<open>unread d = []\<close> by simp
next
  case (Cons v vs)
  have v: "frame_value v" using Cons.prems by simp
  obtain r d1 where pop: "frame_pop d = (r, d1)" by (cases "frame_pop d")
  have ref: "(r, unread d1) = queue_pop (unread d)" "frame_ok d1"
    using frame_pop_refines [OF Cons.prems(1)] by (auto simp: pop)
  show ?case
  proof (cases "length (frame_bytes v) \<le> length (unread d)")
    case True
    define q where "q = drop (length (frame_bytes v)) (unread d)"
    have "take (length (frame_bytes v)) (unread d @ rest) = frame_bytes v" using Cons.prems(2) by simp
    then have un: "unread d = frame_bytes v @ q"
      using True append_take_drop_id [of "length (frame_bytes v)" "unread d"] by (simp add: q_def)
    then have "r = Inr (Some v)" "unread d1 = q" using ref queue_pop_frame [OF v] by simp_all
    moreover have "unread d1 @ rest = concat (map frame_bytes vs)"
      using Cons.prems(2) \<open>unread d1 = q\<close> by (simp add: un)
    then obtain us ws d' where d': "vs = us @ ws" "frame_drain d1 = (Inr us, d')" "frame_ok d'"
        "unread d' @ rest = concat (map frame_bytes ws)"
        "case ws of [] \<Rightarrow> unread d' = [] | w # _ \<Rightarrow> length (unread d') < length (frame_bytes w)"
      using Cons.IH [OF ref(2)] Cons.prems(3) by auto
    ultimately have "frame_drain d = (Inr (v # us), d')" by (subst frame_drain.simps) (simp add: pop)
    then show ?thesis using d' by (intro exI [of _ "v # us"] exI [of _ ws] exI [of _ d']) simp
  next
    case False
    define l where "l = drop (length (unread d)) (frame_bytes v)"
    have "take (length (unread d)) (unread d @ rest) = take (length (unread d)) (frame_bytes v)"
      using Cons.prems(2) False by simp
    then have "unread d @ l = frame_bytes v"
      using append_take_drop_id [of "length (unread d)" "frame_bytes v"] by (simp add: l_def)
    moreover have "l \<noteq> []" using False by (simp add: l_def)
    ultimately have "r = Inr None" using ref queue_pop_partial [OF v] by simp
    then have "frame_drain d = (Inr [], d)"
      using frame_pop_None [of d d1] by (subst frame_drain.simps) (simp add: pop)
    then show ?thesis using Cons.prems False
      by (intro exI [of _ "[]"] exI [of _ "v # vs"] exI [of _ d]) simp
  qed
qed

text \<open>Chunks and bodies that together stay in the buffer: every frame comes out, once and in order.\<close>

lemma frame_feed_all:
  assumes "frame_ok d" and "unread d @ concat cs = concat (map frame_bytes vs)" and "list_all frame_value vs"
    and "case vs of [] \<Rightarrow> True | w # _ \<Rightarrow> length (unread d) < length (frame_bytes w)"
    and "\<forall>c \<in> set cs. \<forall>v \<in> set vs. length c + length (encode v) \<le> max_frame + 1"
  shows "\<exists>d'. frame_feed cs d = (Inr vs, d') \<and> frame_ok d' \<and> unread d' = []"
  using assms
proof (induction cs arbitrary: d vs)
  case Nil
  have "vs = []"
  proof (cases vs)
    case (Cons w ws)
    then show ?thesis using Nil.prems(2,4) arg_cong [OF Nil.prems(2), of length] by simp
  qed
  then show ?case using Nil by (simp add: op_return_def)
next
  case (Cons c cs)
  show ?case
  proof (cases "vs = []")
    case True
    then have e: "unread d = []" "c = []" "concat cs = []" using Cons.prems(2) by simp_all
    have push: "map_prod id unread (frame_push c d) = queue_push c (unread d)" "frame_ok (snd (frame_push c d))"
      using frame_push_refines [OF Cons.prems(1), of c] by simp_all
    obtain d1 where d1: "frame_push c d = (Inr (), d1)" "frame_ok d1" "unread d1 = []"
      using push e by (cases "frame_push c d") (auto simp: queue_push_def)
    obtain d2 where d2: "frame_drain d1 = (Inr [], d2)" "frame_ok d2" "unread d2 = []"
      using frame_drain_prefix [of d1 "[]" "[]"] d1 by auto
    obtain d3 where "frame_feed cs d2 = (Inr [], d3)" "frame_ok d3" "unread d3 = []"
      using Cons.IH [of d2 "[]"] d2 e by auto
    then show ?thesis using True d1 d2 by (simp add: op_seq_def op_bind_def op_return_def)
  next
    case False
    then obtain w ws where vs: "vs = w # ws" by (cases vs) auto
    have "length (unread d) + length c \<le> max_frame + 4"
      using Cons.prems(4,5) by (auto simp: vs frame_bytes_def)
    then have q: "queue_push c (unread d) = (Inr (), unread d @ c)" by (simp add: queue_push_def)
    obtain d1 where d1: "frame_push c d = (Inr (), d1)" "frame_ok d1" "unread d1 = unread d @ c"
      using frame_push_refines [OF Cons.prems(1), of c] q by (cases "frame_push c d") auto
    have "unread d1 @ concat cs = concat (map frame_bytes vs)" using Cons.prems(2) d1(3) by simp
    from frame_drain_prefix [OF d1(2) this Cons.prems(3)]
    obtain us rs d2 where d2: "vs = us @ rs" "frame_drain d1 = (Inr us, d2)" "frame_ok d2"
        "unread d2 @ concat cs = concat (map frame_bytes rs)"
        "case rs of [] \<Rightarrow> unread d2 = [] | w # _ \<Rightarrow> length (unread d2) < length (frame_bytes w)"
      by blast
    have "\<exists>d'. frame_feed cs d2 = (Inr rs, d') \<and> frame_ok d' \<and> unread d' = []"
      using d2 Cons.prems(3,5) by (intro Cons.IH) (auto split: list.splits)
    then show ?thesis using d1 d2 by (auto simp: op_seq_def op_bind_def op_return_def)
  qed
qed

text \<open>The bytes a writer gets.\<close>

lemma write_frame_bytes:
  "write_frame (\<lambda>bs out. (Inr (), out @ bs)) (\<lambda>out. (Inr (), out)) v out =
   (if length (encode v) \<le> max_frame then (Inr (), out @ frame_bytes v)
    else (Inl (fail ContractInvalid ''ipc frame length is outside 1..=1048576''), out))"
  by (simp add: write_frame_def to_bytes_def Let_def frame_bytes_def op_seq_def op_bind_def op_throw_def)

end
