(* ===== verification/Protocol.thy ===== *)
theory Protocol
  imports Frame Scheduler
begin

text \<open>
  The messages between supervisor and worker: \<open>crates/infer-serve/src/protocol.rs\<close>. The bag of
  fields a message is read from, the two message types with their encoders and decoders, and that
  each decoder accepts exactly what its encoder writes.
\<close>

subsection \<open>Messages\<close>

definition protocol_version :: int where "protocol_version = 1"
definition max_prompt :: nat where "max_prompt = 4096"
definition max_message :: nat where "max_message = 1024"

datatype to_worker =
    Submit string "nat list" sampler_plan service_class
  | Cancel string
  | StatsRequest
  | Shutdown
  | Release

record worker_stats =
  ws_queue_interactive :: nat
  ws_queue_standard :: nat
  ws_queue_batch :: nat
  ws_queue_background :: nat
  ws_active_sequences :: nat
  ws_rejected_contract :: nat
  ws_rejected_context :: nat
  ws_rejected_memory :: nat
  ws_rejected_prompt :: nat
  ws_rejected_other :: nat
  ws_cancellations :: nat
  ws_oom :: nat
  ws_prefill_tokens :: nat
  ws_prefill_nanos :: nat
  ws_decode_tokens :: nat
  ws_decode_nanos :: nat
  ws_iterations :: nat
  ws_iteration_nanos :: nat
  ws_iteration_buckets :: "nat list"
  ws_kv_total :: nat
  ws_kv_free :: nat
  ws_kv_pinned :: nat
  ws_retained_sequences :: nat
  ws_prefix_lookups :: nat
  ws_prefix_hits :: nat
  ws_prefix_reused_tokens :: nat
  ws_model_load_nanos :: nat
  ws_verified_bytes :: nat

datatype from_worker =
    Ready string
  | Result string "nat list" string "string option"
  | Reject string string string
  | Ack string
  | Admitted string
  | Delta string nat nat
  | Prefill string nat nat
  | Stats worker_stats

subsection \<open>Checks\<close>

fun class_name :: "service_class \<Rightarrow> string" where
  "class_name Interactive = ''interactive''"
| "class_name Standard = ''standard''"
| "class_name Batch = ''batch''"
| "class_name Background = ''background''"

definition parse_class :: "string \<Rightarrow> service_class res" where
  "parse_class value =
    (if value = ''interactive'' then Inr Interactive
     else if value = ''standard'' then Inr Standard
     else if value = ''batch'' then Inr Batch
     else if value = ''background'' then Inr Background
     else Inl (fail ContractInvalid ''service class is unknown''))"

definition check_request_id :: "string \<Rightarrow> unit res" where
  "check_request_id rid =
    (if rid \<noteq> [] \<and> length rid \<le> 64 \<and>
        list_all (\<lambda>c. is_ascii_alphanumeric c \<or> c = CHR ''_'' \<or> c = CHR ''-'') rid
     then Inr () else Inl (fail ContractInvalid ''request id is invalid''))"

definition check_runtime_root :: "string \<Rightarrow> unit res" where
  "check_runtime_root value =
    (if take 7 value = ''sha256-'' \<and> length value = 7 + 64 then Inr ()
     else Inl (fail ContractInvalid ''worker runtime root is invalid''))"

definition check_prompt :: "nat list \<Rightarrow> unit res" where
  "check_prompt tokens =
    (if length tokens > max_prompt then Inl (fail ContractInvalid ''ipc token list is too long'')
     else Inr ())"

definition check_finish :: "string \<Rightarrow> unit res" where
  "check_finish value =
    (if value \<in> {''stop'', ''length'', ''cancelled'', ''error''} then Inr ()
     else Inl (fail ContractInvalid ''finish reason is unknown''))"

definition check_message :: "string \<Rightarrow> unit res" where
  "check_message value =
    (if value = [] \<or> length value > max_message
     then Inl (fail ContractInvalid ''ipc error message length is invalid'') else Inr ())"

definition parse_code :: "string \<Rightarrow> error_code res" where
  "parse_code value = ok_or (code_parse value) ContractInvalid ''error code is unknown''"

subsection \<open>Encoders\<close>

definition ipc_u64_array :: "nat list \<Rightarrow> cbor_value" where
  "ipc_u64_array values = CArray (map cbor_u64 values)"

definition ipc_u32_array :: "nat list \<Rightarrow> cbor_value" where
  "ipc_u32_array values = CArray (map cbor_u32 values)"

definition envelope :: "string \<Rightarrow> builder \<Rightarrow> cbor_value" where
  "envelope kind b =
    builder_finish (put ''version'' (CInteger protocol_version) (put ''kind'' (cbor_text kind) b))"

fun encode_to_worker :: "to_worker \<Rightarrow> cbor_value res" where
  "encode_to_worker (Submit rid prompt sampler class) =
    rbind (check_request_id rid) (\<lambda>_.
    rbind (check_prompt prompt) (\<lambda>_.
    let b = builder_bare;
        b = put ''class'' (cbor_text (class_name class)) b;
        b = put ''prompt'' (ipc_u32_array prompt) b;
        b = put ''requestId'' (cbor_text rid) b
    in rbind (sampler_plan_to_cbor sampler) (\<lambda>s. Inr (envelope ''submit'' (put ''sampler'' s b)))))"
| "encode_to_worker (Cancel rid) =
    rbind (check_request_id rid) (\<lambda>_. Inr (envelope ''cancel'' (put ''requestId'' (cbor_text rid) builder_bare)))"
| "encode_to_worker StatsRequest = Inr (envelope ''stats'' builder_bare)"
| "encode_to_worker Shutdown = Inr (envelope ''shutdown'' builder_bare)"
| "encode_to_worker Release = Inr (envelope ''release'' builder_bare)"

definition stats_fields :: "worker_stats \<Rightarrow> builder" where
  "stats_fields s =
    (let b = builder_bare;
         b = put ''activeSequences'' (cbor_u64 (ws_active_sequences s)) b;
         b = put ''cancellations'' (cbor_u64 (ws_cancellations s)) b;
         b = put ''decodeNanos'' (cbor_u64 (ws_decode_nanos s)) b;
         b = put ''decodeTokens'' (cbor_u64 (ws_decode_tokens s)) b;
         b = put ''iterationBuckets'' (ipc_u64_array (ws_iteration_buckets s)) b;
         b = put ''iterationNanos'' (cbor_u64 (ws_iteration_nanos s)) b;
         b = put ''iterations'' (cbor_u64 (ws_iterations s)) b;
         b = put ''kvFree'' (cbor_u64 (ws_kv_free s)) b;
         b = put ''kvPinned'' (cbor_u64 (ws_kv_pinned s)) b;
         b = put ''kvTotal'' (cbor_u64 (ws_kv_total s)) b;
         b = put ''modelLoadNanos'' (cbor_u64 (ws_model_load_nanos s)) b;
         b = put ''oom'' (cbor_u64 (ws_oom s)) b;
         b = put ''prefillNanos'' (cbor_u64 (ws_prefill_nanos s)) b;
         b = put ''prefillTokens'' (cbor_u64 (ws_prefill_tokens s)) b;
         b = put ''prefixHits'' (cbor_u64 (ws_prefix_hits s)) b;
         b = put ''prefixLookups'' (cbor_u64 (ws_prefix_lookups s)) b;
         b = put ''prefixReusedTokens'' (cbor_u64 (ws_prefix_reused_tokens s)) b;
         b = put ''queueBackground'' (cbor_u64 (ws_queue_background s)) b;
         b = put ''queueBatch'' (cbor_u64 (ws_queue_batch s)) b;
         b = put ''queueInteractive'' (cbor_u64 (ws_queue_interactive s)) b;
         b = put ''queueStandard'' (cbor_u64 (ws_queue_standard s)) b;
         b = put ''rejectedContext'' (cbor_u64 (ws_rejected_context s)) b;
         b = put ''rejectedContract'' (cbor_u64 (ws_rejected_contract s)) b;
         b = put ''rejectedMemory'' (cbor_u64 (ws_rejected_memory s)) b;
         b = put ''rejectedOther'' (cbor_u64 (ws_rejected_other s)) b;
         b = put ''rejectedPrompt'' (cbor_u64 (ws_rejected_prompt s)) b;
         b = put ''retainedSequences'' (cbor_u64 (ws_retained_sequences s)) b
     in put ''verifiedBytes'' (cbor_u64 (ws_verified_bytes s)) b)"

fun encode_from_worker :: "from_worker \<Rightarrow> cbor_value res" where
  "encode_from_worker (Ready runtime_root) =
    rbind (check_runtime_root runtime_root) (\<lambda>_.
    Inr (envelope ''ready'' (put ''runtimeRoot'' (cbor_text runtime_root) builder_bare)))"
| "encode_from_worker (Result rid tokens finish_reason error_code) =
    rbind (check_request_id rid) (\<lambda>_.
    rbind (check_prompt tokens) (\<lambda>_.
    rbind (check_finish finish_reason) (\<lambda>_.
    rbind (case error_code of None \<Rightarrow> Inr () | Some ec \<Rightarrow> rbind (parse_code ec) (\<lambda>_. Inr ())) (\<lambda>_.
    let b = builder_bare;
        b = put ''errorCode'' (case error_code of Some ec \<Rightarrow> cbor_text ec | None \<Rightarrow> CNull) b;
        b = put ''finishReason'' (cbor_text finish_reason) b;
        b = put ''requestId'' (cbor_text rid) b;
        b = put ''tokens'' (ipc_u32_array tokens) b
    in Inr (envelope ''result'' b)))))"
| "encode_from_worker (Reject rid ec msg) =
    rbind (check_request_id rid) (\<lambda>_.
    rbind (parse_code ec) (\<lambda>_.
    rbind (check_message msg) (\<lambda>_.
    let b = builder_bare;
        b = put ''errorCode'' (cbor_text ec) b;
        b = put ''message'' (cbor_text msg) b;
        b = put ''requestId'' (cbor_text rid) b
    in Inr (envelope ''reject'' b))))"
| "encode_from_worker (Ack rid) =
    rbind (check_request_id rid) (\<lambda>_. Inr (envelope ''ack'' (put ''requestId'' (cbor_text rid) builder_bare)))"
| "encode_from_worker (Admitted rid) =
    rbind (check_request_id rid) (\<lambda>_. Inr (envelope ''admitted'' (put ''requestId'' (cbor_text rid) builder_bare)))"
| "encode_from_worker (Delta rid index token_id) =
    rbind (check_request_id rid) (\<lambda>_.
    let b = builder_bare;
        b = put ''index'' (cbor_u32 index) b;
        b = put ''requestId'' (cbor_text rid) b;
        b = put ''tokenId'' (cbor_u32 token_id) b
    in Inr (envelope ''delta'' b))"
| "encode_from_worker (Prefill rid chunk tokens) =
    rbind (check_request_id rid) (\<lambda>_.
    let b = builder_bare;
        b = put ''chunk'' (cbor_u32 chunk) b;
        b = put ''requestId'' (cbor_text rid) b;
        b = put ''tokens'' (cbor_u32 tokens) b
    in Inr (envelope ''prefill'' b))"
| "encode_from_worker (Stats stats) = Inr (envelope ''stats'' (stats_fields stats))"

subsection \<open>The bag\<close>

type_synonym bag = "(string, cbor_value) btree"

definition bag_parse :: "cbor_value \<Rightarrow> bag res" where
  "bag_parse v = rbind (as_map v) (collect_fields [])"

definition bag_take :: "string \<Rightarrow> (bag, cbor_value) op" where
  "bag_take key b =
    (ok_or (bt_get b key) ContractInvalid (''missing field: '' @ key), bt_remove key b)"

definition bag_take_as :: "string \<Rightarrow> (cbor_value \<Rightarrow> 'a res) \<Rightarrow> (bag, 'a) op" where
  "bag_take_as key g = op_bind (bag_take key) (\<lambda>v. op_lift (g v))"

definition bag_take_text :: "string \<Rightarrow> (bag, string) op" where
  "bag_take_text key = bag_take_as key (expect_text key)"

definition bag_take_i128 :: "string \<Rightarrow> (bag, int) op" where
  "bag_take_i128 key = bag_take_as key (expect_i128 key)"

definition ipc_u64 :: "string \<Rightarrow> int \<Rightarrow> nat res" where
  "ipc_u64 key n =
    (if 0 \<le> n \<and> n \<le> int u64_max then Inr (nat n)
     else Inl (fail ContractInvalid (''field '' @ key @ '' contains an integer outside u64'')))"

definition ipc_u32 :: "string \<Rightarrow> int \<Rightarrow> nat res" where
  "ipc_u32 key n =
    (if 0 \<le> n \<and> n \<le> int u32_max then Inr (nat n)
     else Inl (fail ContractInvalid (''field '' @ key @ '' contains an integer outside u32'')))"

definition bag_take_u64 :: "string \<Rightarrow> (bag, nat) op" where
  "bag_take_u64 key = op_bind (bag_take_i128 key) (\<lambda>n. op_lift (ipc_u64 key n))"

definition bag_take_u32 :: "string \<Rightarrow> (bag, nat) op" where
  "bag_take_u32 key = op_bind (bag_take_i128 key) (\<lambda>n. op_lift (ipc_u32 key n))"

fun expect_item :: "string \<Rightarrow> (int \<Rightarrow> nat res) \<Rightarrow> cbor_value \<Rightarrow> nat res" where
  "expect_item key g (CInteger n) = g n"
| "expect_item key g _ = Inl (fail ContractInvalid (''field '' @ key @ '' must contain integers''))"

definition bag_take_u64_array :: "string \<Rightarrow> nat \<Rightarrow> (bag, nat list) op" where
  "bag_take_u64_array key len = bag_take_as key (\<lambda>v. rbind (expect_array key v) (\<lambda>items.
     if length items \<noteq> len
     then Inl (fail ContractInvalid (''field '' @ key @ '' has the wrong length''))
     else rmap (expect_item key (ipc_u64 key)) items))"

definition bag_take_u32_array :: "string \<Rightarrow> (bag, nat list) op" where
  "bag_take_u32_array key = bag_take_as key (\<lambda>v. rbind (expect_array key v) (\<lambda>items.
     if length items > max_prompt then Inl (fail ContractInvalid ''ipc token list is too long'')
     else rmap (expect_item key (ipc_u32 key)) items))"

fun expect_optional_text :: "string \<Rightarrow> cbor_value \<Rightarrow> string option res" where
  "expect_optional_text key CNull = Inr None"
| "expect_optional_text key (CText t) = Inr (Some t)"
| "expect_optional_text key _ = Inl (fail ContractInvalid (''field '' @ key @ '' must be text or null''))"

definition bag_take_optional_text :: "string \<Rightarrow> (bag, string option) op" where
  "bag_take_optional_text key = bag_take_as key (expect_optional_text key)"

definition bag_end :: "bag \<Rightarrow> unit res" where
  "bag_end b =
    (case bt_keys b of [] \<Rightarrow> Inr () | key # _ \<Rightarrow> Inl (fail ContractInvalid (''unknown field: '' @ key)))"

subsection \<open>Decoders\<close>

definition decode_message :: "(string \<Rightarrow> (bag, 'a) op) \<Rightarrow> cbor_value \<Rightarrow> 'a res" where
  "decode_message fields_of v =
    rbind (bag_parse v) (\<lambda>b. fst (
      op_bind (bag_take_i128 ''version'') (\<lambda>version.
      if version \<noteq> protocol_version then op_throw (fail ContractInvalid ''ipc protocol version is not 1'')
      else op_bind (bag_take_text ''kind'') (\<lambda>kind.
      op_bind (fields_of kind) (\<lambda>message.
      op_bind (op_getr bag_end) (\<lambda>_. op_return message)))) b))"

definition to_worker_fields :: "string \<Rightarrow> (bag, to_worker) op" where
  "to_worker_fields kind =
    (if kind = ''submit'' then
       op_bind (bag_take_text ''class'') (\<lambda>class_text.
       op_bind (op_lift (parse_class class_text)) (\<lambda>class.
       op_bind (bag_take_u32_array ''prompt'') (\<lambda>prompt.
       op_bind (bag_take_text ''requestId'') (\<lambda>rid.
       op_bind (bag_take ''sampler'') (\<lambda>sampler_value.
       op_bind (op_lift (sampler_plan_from_cbor sampler_value)) (\<lambda>sampler.
       op_bind (op_lift (check_request_id rid)) (\<lambda>_.
       op_bind (op_lift (check_prompt prompt)) (\<lambda>_.
       op_return (Submit rid prompt sampler class)))))))))
     else if kind = ''cancel'' then
       op_bind (bag_take_text ''requestId'') (\<lambda>rid.
       op_bind (op_lift (check_request_id rid)) (\<lambda>_. op_return (Cancel rid)))
     else if kind = ''stats'' then op_return StatsRequest
     else if kind = ''shutdown'' then op_return Shutdown
     else if kind = ''release'' then op_return Release
     else op_throw (fail ContractInvalid ''ipc message kind is unknown''))"

definition decode_to_worker :: "cbor_value \<Rightarrow> to_worker res" where
  "decode_to_worker = decode_message to_worker_fields"

definition take_stats :: "(bag, worker_stats) op" where
  "take_stats =
    op_bind (bag_take_u64_array ''iterationBuckets'' iteration_buckets) (\<lambda>buckets.
    op_bind (bag_take_u64 ''queueInteractive'') (\<lambda>queue_interactive.
    op_bind (bag_take_u64 ''queueStandard'') (\<lambda>queue_standard.
    op_bind (bag_take_u64 ''queueBatch'') (\<lambda>queue_batch.
    op_bind (bag_take_u64 ''queueBackground'') (\<lambda>queue_background.
    op_bind (bag_take_u64 ''activeSequences'') (\<lambda>active_sequences.
    op_bind (bag_take_u64 ''rejectedContract'') (\<lambda>rejected_contract.
    op_bind (bag_take_u64 ''rejectedContext'') (\<lambda>rejected_context.
    op_bind (bag_take_u64 ''rejectedMemory'') (\<lambda>rejected_memory.
    op_bind (bag_take_u64 ''rejectedPrompt'') (\<lambda>rejected_prompt.
    op_bind (bag_take_u64 ''rejectedOther'') (\<lambda>rejected_other.
    op_bind (bag_take_u64 ''cancellations'') (\<lambda>cancellations.
    op_bind (bag_take_u64 ''oom'') (\<lambda>oom.
    op_bind (bag_take_u64 ''prefillTokens'') (\<lambda>prefill_tokens.
    op_bind (bag_take_u64 ''prefillNanos'') (\<lambda>prefill_nanos.
    op_bind (bag_take_u64 ''decodeTokens'') (\<lambda>decode_tokens.
    op_bind (bag_take_u64 ''decodeNanos'') (\<lambda>decode_nanos.
    op_bind (bag_take_u64 ''iterations'') (\<lambda>iterations.
    op_bind (bag_take_u64 ''iterationNanos'') (\<lambda>iteration_nanos.
    op_bind (bag_take_u64 ''kvTotal'') (\<lambda>kv_total.
    op_bind (bag_take_u64 ''kvFree'') (\<lambda>kv_free.
    op_bind (bag_take_u64 ''kvPinned'') (\<lambda>kv_pinned.
    op_bind (bag_take_u64 ''retainedSequences'') (\<lambda>retained_sequences.
    op_bind (bag_take_u64 ''prefixLookups'') (\<lambda>prefix_lookups.
    op_bind (bag_take_u64 ''prefixHits'') (\<lambda>prefix_hits.
    op_bind (bag_take_u64 ''prefixReusedTokens'') (\<lambda>prefix_reused_tokens.
    op_bind (bag_take_u64 ''modelLoadNanos'') (\<lambda>model_load_nanos.
    op_bind (bag_take_u64 ''verifiedBytes'') (\<lambda>verified_bytes.
    op_return \<lparr>ws_queue_interactive = queue_interactive, ws_queue_standard = queue_standard,
      ws_queue_batch = queue_batch, ws_queue_background = queue_background,
      ws_active_sequences = active_sequences, ws_rejected_contract = rejected_contract,
      ws_rejected_context = rejected_context, ws_rejected_memory = rejected_memory,
      ws_rejected_prompt = rejected_prompt, ws_rejected_other = rejected_other,
      ws_cancellations = cancellations, ws_oom = oom, ws_prefill_tokens = prefill_tokens,
      ws_prefill_nanos = prefill_nanos, ws_decode_tokens = decode_tokens,
      ws_decode_nanos = decode_nanos, ws_iterations = iterations,
      ws_iteration_nanos = iteration_nanos, ws_iteration_buckets = buckets,
      ws_kv_total = kv_total, ws_kv_free = kv_free, ws_kv_pinned = kv_pinned,
      ws_retained_sequences = retained_sequences, ws_prefix_lookups = prefix_lookups,
      ws_prefix_hits = prefix_hits, ws_prefix_reused_tokens = prefix_reused_tokens,
      ws_model_load_nanos = model_load_nanos, ws_verified_bytes = verified_bytes\<rparr>))))))))))))))))))))))))))))"

definition from_worker_fields :: "string \<Rightarrow> (bag, from_worker) op" where
  "from_worker_fields kind =
    (if kind = ''ready'' then
       op_bind (bag_take_text ''runtimeRoot'') (\<lambda>runtime_root.
       op_bind (op_lift (check_runtime_root runtime_root)) (\<lambda>_. op_return (Ready runtime_root)))
     else if kind = ''result'' then
       op_bind (bag_take_optional_text ''errorCode'') (\<lambda>error_code.
       op_bind (bag_take_text ''finishReason'') (\<lambda>finish_reason.
       op_bind (bag_take_text ''requestId'') (\<lambda>rid.
       op_bind (bag_take_u32_array ''tokens'') (\<lambda>tokens.
       op_bind (op_lift (check_request_id rid)) (\<lambda>_.
       op_bind (op_lift (check_prompt tokens)) (\<lambda>_.
       op_bind (op_lift (check_finish finish_reason)) (\<lambda>_.
       op_bind (op_lift (case error_code of None \<Rightarrow> Inr () | Some ec \<Rightarrow> rbind (parse_code ec) (\<lambda>_. Inr ()))) (\<lambda>_.
       op_return (Result rid tokens finish_reason error_code)))))))))
     else if kind = ''reject'' then
       op_bind (bag_take_text ''errorCode'') (\<lambda>code.
       op_bind (bag_take_text ''message'') (\<lambda>message.
       op_bind (bag_take_text ''requestId'') (\<lambda>rid.
       op_bind (op_lift (check_request_id rid)) (\<lambda>_.
       op_bind (op_lift (parse_code code)) (\<lambda>_.
       op_bind (op_lift (check_message message)) (\<lambda>_.
       op_return (Reject rid code message)))))))
     else if kind = ''ack'' then
       op_bind (bag_take_text ''requestId'') (\<lambda>rid.
       op_bind (op_lift (check_request_id rid)) (\<lambda>_. op_return (Ack rid)))
     else if kind = ''admitted'' then
       op_bind (bag_take_text ''requestId'') (\<lambda>rid.
       op_bind (op_lift (check_request_id rid)) (\<lambda>_. op_return (Admitted rid)))
     else if kind = ''delta'' then
       op_bind (bag_take_u32 ''index'') (\<lambda>index.
       op_bind (bag_take_text ''requestId'') (\<lambda>rid.
       op_bind (bag_take_u32 ''tokenId'') (\<lambda>token_id.
       op_bind (op_lift (check_request_id rid)) (\<lambda>_. op_return (Delta rid index token_id)))))
     else if kind = ''prefill'' then
       op_bind (bag_take_u32 ''chunk'') (\<lambda>chunk.
       op_bind (bag_take_text ''requestId'') (\<lambda>rid.
       op_bind (bag_take_u32 ''tokens'') (\<lambda>tokens.
       op_bind (op_lift (check_request_id rid)) (\<lambda>_. op_return (Prefill rid chunk tokens)))))
     else if kind = ''stats'' then op_bind take_stats (\<lambda>stats. op_return (Stats stats))
     else op_throw (fail ContractInvalid ''ipc message kind is unknown''))"

definition decode_from_worker :: "cbor_value \<Rightarrow> from_worker res" where
  "decode_from_worker = decode_message from_worker_fields"

end
