(* ===== verification/Protocol_Proofs.thy ===== *)
theory Protocol_Proofs
  imports Protocol
begin

text \<open>
  The laws of the bag, and that both message types are documents: a decoder accepts a sorted value
  exactly when it is the encoding of the message it returns. Frames and messages together: what one
  side writes is what the other side reads.
\<close>

subsection \<open>The bag\<close>

lemma bag_take_ok [res]: "bag_take key b = (Inr v, c) \<longleftrightarrow> bt_get b key = Some v \<and> c = bt_remove key b"
  by (auto simp: bag_take_def res)

lemma bag_take_as_ok [res]:
  "bag_take_as key g b = (Inr a, c) \<longleftrightarrow> (\<exists>v. bt_get b key = Some v \<and> g v = Inr a) \<and> c = bt_remove key b"
  by (auto simp: bag_take_as_def res)

lemma bag_take_text_ok [res]:
  "bag_take_text key b = (Inr t, c) \<longleftrightarrow> bt_get b key = Some (cbor_text t) \<and> c = bt_remove key b"
  by (auto simp: bag_take_text_def res cbor_text_def)

lemma bag_take_i128_ok [res]:
  "bag_take_i128 key b = (Inr n, c) \<longleftrightarrow> bt_get b key = Some (CInteger n) \<and> c = bt_remove key b"
  by (auto simp: bag_take_i128_def res)

lemma ipc_u64_ok: "ipc_u64 key n = Inr m \<longleftrightarrow> n = int m \<and> m \<le> u64_max"
  by (auto simp: ipc_u64_def)

lemma ipc_u32_ok: "ipc_u32 key n = Inr m \<longleftrightarrow> n = int m \<and> m \<le> u32_max"
  by (auto simp: ipc_u32_def)

lemma bag_take_u64_ok [res]:
  "bag_take_u64 key b = (Inr n, c) \<longleftrightarrow> bt_get b key = Some (cbor_u64 n) \<and> n \<le> u64_max \<and> c = bt_remove key b"
  by (auto simp: bag_take_u64_def res ipc_u64_ok cbor_u64_def)

lemma bag_take_u32_ok [res]:
  "bag_take_u32 key b = (Inr n, c) \<longleftrightarrow> bt_get b key = Some (cbor_u32 n) \<and> n \<le> u32_max \<and> c = bt_remove key b"
  by (auto simp: bag_take_u32_def res ipc_u32_ok cbor_u32_def)

lemma expect_items_u64: "rmap (expect_item key (ipc_u64 key)) xs = Inr ns \<longleftrightarrow>
    xs = map cbor_u64 ns \<and> list_all (\<lambda>n. n \<le> u64_max) ns"
proof (rule rmap_iff)
  show "expect_item key (ipc_u64 key) x = Inr y \<longleftrightarrow> x = cbor_u64 y \<and> y \<le> u64_max" for x y
    by (cases x) (auto simp: ipc_u64_ok cbor_u64_def)
qed

lemma expect_items_u32: "rmap (expect_item key (ipc_u32 key)) xs = Inr ns \<longleftrightarrow>
    xs = map cbor_u32 ns \<and> list_all (\<lambda>n. n \<le> u32_max) ns"
proof (rule rmap_iff)
  show "expect_item key (ipc_u32 key) x = Inr y \<longleftrightarrow> x = cbor_u32 y \<and> y \<le> u32_max" for x y
    by (cases x) (auto simp: ipc_u32_ok cbor_u32_def)
qed

lemma bag_take_u64_array_ok [res]:
  "bag_take_u64_array key len b = (Inr ns, c) \<longleftrightarrow> bt_get b key = Some (ipc_u64_array ns) \<and>
    length ns = len \<and> list_all (\<lambda>n. n \<le> u64_max) ns \<and> c = bt_remove key b"
  by (auto simp: bag_take_u64_array_def res expect_items_u64 ipc_u64_array_def if_Inl_Inr)

lemma bag_take_u32_array_ok [res]:
  "bag_take_u32_array key b = (Inr ns, c) \<longleftrightarrow> bt_get b key = Some (ipc_u32_array ns) \<and>
    length ns \<le> max_prompt \<and> list_all (\<lambda>n. n \<le> u32_max) ns \<and> c = bt_remove key b"
  by (auto simp: bag_take_u32_array_def res expect_items_u32 ipc_u32_array_def if_Inl_Inr)

definition cbor_opt_text :: "string option \<Rightarrow> cbor_value" where
  "cbor_opt_text t = (case t of Some ec \<Rightarrow> cbor_text ec | None \<Rightarrow> CNull)"

lemma bag_take_optional_text_ok [res]:
  "bag_take_optional_text key b = (Inr t, c) \<longleftrightarrow> bt_get b key = Some (cbor_opt_text t) \<and> c = bt_remove key b"
proof -
  have "expect_optional_text key v = Inr t \<longleftrightarrow> v = cbor_opt_text t" for v
    by (cases v) (auto simp: cbor_opt_text_def cbor_text_def split: option.split)
  then show ?thesis by (auto simp: bag_take_optional_text_def res)
qed

lemma bag_end_ok [res]: "bag_end b = Inr u \<longleftrightarrow> keys_within b {}"
  by (cases b) (auto simp: bag_end_def bt_keys_def keys_within_def)

lemma bag_parse_sorted: "cbor_sorted (CMap es) \<Longrightarrow> bag_parse (CMap es) = Inr es"
proof -
  assume s: "cbor_sorted (CMap es)"
  have "fields_parse (CMap es) = Inr \<lparr>f_map = es, f_used = {}\<rparr>"
    using s by (simp add: fields_parse_sorted)
  then show ?thesis by (auto simp: fields_parse_def bag_parse_def res)
qed

lemma bag_parse_map: "bag_parse v = Inr b \<Longrightarrow> \<exists>es. v = CMap es"
  by (cases v) (auto simp: bag_parse_def)

lemma keys_within_remove [simp]: "keys_within (bt_remove key b) K = keys_within b (insert key K)"
  by (auto simp: keys_within_def keys_bt_remove)

lemma decode_message_ok:
  assumes "cbor_sorted (CMap es)"
  shows "decode_message fields_of (CMap es) = Inr m \<longleftrightarrow>
    bt_get es ''version'' = Some (CInteger protocol_version) \<and>
    (\<exists>kind b. bt_get es ''kind'' = Some (cbor_text kind) \<and>
      fields_of kind (bt_remove ''kind'' (bt_remove ''version'' es)) = (Inr m, b) \<and> keys_within b {})"
proof -
  have "decode_message fields_of (CMap es) = Inr m \<longleftrightarrow>
    (\<exists>g. op_bind (bag_take_i128 ''version'') (\<lambda>version.
      if version \<noteq> protocol_version then op_throw (fail ContractInvalid ''ipc protocol version is not 1'')
      else op_bind (bag_take_text ''kind'') (\<lambda>kind.
      op_bind (fields_of kind) (\<lambda>message.
      op_bind (op_getr bag_end) (\<lambda>_. op_return message)))) es = (Inr m, g))"
    using bag_parse_sorted [OF assms] by (auto simp: decode_message_def prod_eq_iff)
  also have "\<dots> \<longleftrightarrow> bt_get es ''version'' = Some (CInteger protocol_version) \<and>
    (\<exists>kind b. bt_get es ''kind'' = Some (cbor_text kind) \<and>
      fields_of kind (bt_remove ''kind'' (bt_remove ''version'' es)) = (Inr m, b) \<and> keys_within b {})"
    by (auto simp: res)
  finally show ?thesis .
qed

lemma decode_message_map: "decode_message fields_of v = Inr m \<Longrightarrow> \<exists>es. v = CMap es"
  by (auto simp: decode_message_def res dest: bag_parse_map)

lemma envelope_map: "envelope kind b = CMap (b_fields (put ''version'' (CInteger protocol_version) (put ''kind'' (cbor_text kind) b)))"
  by (simp add: envelope_def builder_finish_def)

lemma envelope_eq:
  assumes "cbor_sorted (CMap es)" and "builder_ok b" and "b_keys b \<subseteq> K"
  shows "envelope kind b = CMap es \<longleftrightarrow> keys_within es (insert ''version'' (insert ''kind'' K)) \<and>
    (\<forall>k \<in> insert ''version'' (insert ''kind'' K). bt_get es k =
      (if k = ''version'' then Some (CInteger protocol_version)
       else if k = ''kind'' then Some (cbor_text kind) else bt_get (b_fields b) k))"
  using assms
  by (subst envelope_def, subst builder_finish_eq [where K = "insert ''version'' (insert ''kind'' K)"]) auto

subsection \<open>To the worker\<close>

lemma parse_class_ok [res]: "parse_class t = Inr c \<longleftrightarrow> t = class_name c"
  by (cases c) (auto simp: parse_class_def)

lemma cbor_sorted_get: "cbor_sorted (CMap es) \<Longrightarrow> bt_get es k = Some v \<Longrightarrow> cbor_sorted v"
  by (auto dest: map_of_SomeD)

fun to_worker_typed :: "to_worker \<Rightarrow> bool" where
  "to_worker_typed (Submit rid prompt sampler class) \<longleftrightarrow>
    list_all (\<lambda>n. n \<le> u32_max) prompt \<and> sampler_plan_typed sampler"
| "to_worker_typed _ \<longleftrightarrow> True"

lemma check_prompt_ok [res]: "check_prompt ts = Inr u \<longleftrightarrow> length ts \<le> max_prompt"
  by (auto simp: check_prompt_def)

fun to_worker_kind :: "to_worker \<Rightarrow> string" where
  "to_worker_kind (Submit _ _ _ _) = ''submit''"
| "to_worker_kind (Cancel _) = ''cancel''"
| "to_worker_kind StatsRequest = ''stats''"
| "to_worker_kind Shutdown = ''shutdown''"
| "to_worker_kind Release = ''release''"

lemma to_worker_fields_kind: "to_worker_fields kind b = (Inr m, c) \<Longrightarrow> kind = to_worker_kind m"
  by (auto simp: to_worker_fields_def op_bind_ok op_return_ok op_throw_ok split: if_splits)

lemma submit_fields_ok:
  "to_worker_fields ''submit'' b = (Inr (Submit rid prompt smp cl), c) \<longleftrightarrow>
    bt_get b ''class'' = Some (cbor_text (class_name cl)) \<and>
    bt_get b ''prompt'' = Some (ipc_u32_array prompt) \<and> length prompt \<le> max_prompt \<and>
    list_all (\<lambda>n. n \<le> u32_max) prompt \<and>
    bt_get b ''requestId'' = Some (cbor_text rid) \<and> check_request_id rid = Inr () \<and>
    (\<exists>s. bt_get b ''sampler'' = Some s \<and> sampler_plan_from_cbor s = Inr smp) \<and>
    c = bt_remove ''sampler'' (bt_remove ''requestId'' (bt_remove ''prompt'' (bt_remove ''class'' b)))"
  by (simp add: to_worker_fields_def res) auto

lemma small_fields_ok:
  "to_worker_fields ''cancel'' b = (Inr (Cancel rid), c) \<longleftrightarrow>
    bt_get b ''requestId'' = Some (cbor_text rid) \<and> check_request_id rid = Inr () \<and> c = bt_remove ''requestId'' b"
  "to_worker_fields ''stats'' b = (Inr StatsRequest, c) \<longleftrightarrow> c = b"
  "to_worker_fields ''shutdown'' b = (Inr Shutdown, c) \<longleftrightarrow> c = b"
  "to_worker_fields ''release'' b = (Inr Release, c) \<longleftrightarrow> c = b"
  by (simp_all add: to_worker_fields_def res)

lemma decode_to_worker_ok:
  assumes "cbor_sorted (CMap es)"
  shows "decode_to_worker (CMap es) = Inr m \<longleftrightarrow>
    bt_get es ''version'' = Some (CInteger protocol_version) \<and>
    bt_get es ''kind'' = Some (cbor_text (to_worker_kind m)) \<and>
    (\<exists>b. to_worker_fields (to_worker_kind m) (bt_remove ''kind'' (bt_remove ''version'' es)) = (Inr m, b) \<and>
      keys_within b {})"
  unfolding decode_to_worker_def decode_message_ok [OF assms] using to_worker_fields_kind by blast

lemma to_worker_iff:
  assumes s: "cbor_sorted v"
  shows "decode_to_worker v = Inr m \<longleftrightarrow> to_worker_typed m \<and> encode_to_worker m = Inr v"
proof (cases v)
  case (CMap es)
  have sampler: "sampler_plan_from_cbor x = Inr y \<longleftrightarrow> sampler_plan_typed y \<and> sampler_plan_to_cbor y = Inr x"
    if "bt_get es ''sampler'' = Some x" for x y
    using sampler_plan_iff cbor_sorted_get [OF s [unfolded CMap] that] by blast
  note env = envelope_eq [OF s [unfolded CMap]] and dec = decode_to_worker_ok [OF s [unfolded CMap]]
  show ?thesis
  proof (cases m)
    case (Submit rid prompt smp cl)
    show ?thesis
      unfolding CMap Submit dec to_worker_kind.simps submit_fields_ok
      by (simp add: res Let_def sampler env [where K = "{''class'', ''prompt'', ''requestId'', ''sampler''}"],
        auto simp: contract_ac sampler)
  next
    case (Cancel rid)
    show ?thesis
      unfolding CMap Cancel dec to_worker_kind.simps small_fields_ok
      by (simp add: res Let_def env [where K = "{''requestId''}"], auto simp: contract_ac)
  qed (unfold CMap dec, simp_all add: small_fields_ok env [where K = "{}"], auto simp: contract_ac)
qed (cases m; auto simp: decode_to_worker_def res Let_def envelope_map dest!: decode_message_map)+

interpretation to_worker: document to_worker_typed encode_to_worker decode_to_worker
  by unfold_locales (rule to_worker_iff)

subsection \<open>From the worker\<close>

definition worker_stats_typed :: "worker_stats \<Rightarrow> bool" where
  "worker_stats_typed s \<longleftrightarrow>
    length (ws_iteration_buckets s) = iteration_buckets \<and> list_all (\<lambda>n. n \<le> u64_max) (ws_iteration_buckets s) \<and>
    list_all (\<lambda>n. n \<le> u64_max)
      [ws_queue_interactive s, ws_queue_standard s, ws_queue_batch s, ws_queue_background s,
       ws_active_sequences s, ws_rejected_contract s, ws_rejected_context s, ws_rejected_memory s,
       ws_rejected_prompt s, ws_rejected_other s, ws_cancellations s, ws_oom s, ws_prefill_tokens s,
       ws_prefill_nanos s, ws_decode_tokens s, ws_decode_nanos s, ws_iterations s,
       ws_iteration_nanos s, ws_kv_total s, ws_kv_free s, ws_kv_pinned s, ws_retained_sequences s,
       ws_prefix_lookups s, ws_prefix_hits s, ws_prefix_reused_tokens s, ws_model_load_nanos s,
       ws_verified_bytes s]"

fun from_worker_typed :: "from_worker \<Rightarrow> bool" where
  "from_worker_typed (Result rid tokens finish ec) \<longleftrightarrow> list_all (\<lambda>n. n \<le> u32_max) tokens"
| "from_worker_typed (Delta rid index token_id) \<longleftrightarrow> index \<le> u32_max \<and> token_id \<le> u32_max"
| "from_worker_typed (Prefill rid chunk tokens) \<longleftrightarrow> chunk \<le> u32_max \<and> tokens \<le> u32_max"
| "from_worker_typed (Stats s) \<longleftrightarrow> worker_stats_typed s"
| "from_worker_typed _ \<longleftrightarrow> True"

fun from_worker_kind :: "from_worker \<Rightarrow> string" where
  "from_worker_kind (Ready _) = ''ready''"
| "from_worker_kind (Result _ _ _ _) = ''result''"
| "from_worker_kind (Reject _ _ _) = ''reject''"
| "from_worker_kind (Ack _) = ''ack''"
| "from_worker_kind (Admitted _) = ''admitted''"
| "from_worker_kind (Delta _ _ _) = ''delta''"
| "from_worker_kind (Prefill _ _ _) = ''prefill''"
| "from_worker_kind (Stats _) = ''stats''"

lemma from_worker_fields_kind: "from_worker_fields kind b = (Inr m, c) \<Longrightarrow> kind = from_worker_kind m"
  by (auto simp: from_worker_fields_def op_bind_ok op_return_ok op_throw_ok split: if_splits)

lemma worker_id_fields_ok:
  "from_worker_fields ''ready'' b = (Inr (Ready root), c) \<longleftrightarrow>
    bt_get b ''runtimeRoot'' = Some (cbor_text root) \<and> check_runtime_root root = Inr () \<and> c = bt_remove ''runtimeRoot'' b"
  "from_worker_fields ''ack'' b = (Inr (Ack rid), c) \<longleftrightarrow>
    bt_get b ''requestId'' = Some (cbor_text rid) \<and> check_request_id rid = Inr () \<and> c = bt_remove ''requestId'' b"
  "from_worker_fields ''admitted'' b = (Inr (Admitted rid), c) \<longleftrightarrow>
    bt_get b ''requestId'' = Some (cbor_text rid) \<and> check_request_id rid = Inr () \<and> c = bt_remove ''requestId'' b"
  by (simp_all add: from_worker_fields_def res)

lemma worker_token_fields_ok:
  "from_worker_fields ''delta'' b = (Inr (Delta rid i t), c) \<longleftrightarrow>
    bt_get b ''index'' = Some (cbor_u32 i) \<and> i \<le> u32_max \<and>
    bt_get b ''requestId'' = Some (cbor_text rid) \<and> check_request_id rid = Inr () \<and>
    bt_get b ''tokenId'' = Some (cbor_u32 t) \<and> t \<le> u32_max \<and>
    c = bt_remove ''tokenId'' (bt_remove ''requestId'' (bt_remove ''index'' b))"
  "from_worker_fields ''prefill'' b = (Inr (Prefill rid i t), c) \<longleftrightarrow>
    bt_get b ''chunk'' = Some (cbor_u32 i) \<and> i \<le> u32_max \<and>
    bt_get b ''requestId'' = Some (cbor_text rid) \<and> check_request_id rid = Inr () \<and>
    bt_get b ''tokens'' = Some (cbor_u32 t) \<and> t \<le> u32_max \<and>
    c = bt_remove ''tokens'' (bt_remove ''requestId'' (bt_remove ''chunk'' b))"
  by (simp_all add: from_worker_fields_def res) auto

definition finish_code_ok :: "string option \<Rightarrow> unit res" where
  "finish_code_ok ec = (case ec of None \<Rightarrow> Inr () | Some ec \<Rightarrow> rbind (parse_code ec) (\<lambda>_. Inr ()))"

lemma worker_result_fields_ok:
  "from_worker_fields ''result'' b = (Inr (Result rid tokens fin ec), c) \<longleftrightarrow>
    bt_get b ''errorCode'' = Some (cbor_opt_text ec) \<and> finish_code_ok ec = Inr () \<and>
    bt_get b ''finishReason'' = Some (cbor_text fin) \<and> check_finish fin = Inr () \<and>
    bt_get b ''requestId'' = Some (cbor_text rid) \<and> check_request_id rid = Inr () \<and>
    bt_get b ''tokens'' = Some (ipc_u32_array tokens) \<and> length tokens \<le> max_prompt \<and>
    list_all (\<lambda>n. n \<le> u32_max) tokens \<and>
    c = bt_remove ''tokens'' (bt_remove ''requestId'' (bt_remove ''finishReason'' (bt_remove ''errorCode'' b)))"
  unfolding finish_code_ok_def by (simp add: from_worker_fields_def res) auto

lemma worker_reject_fields_ok:
  "from_worker_fields ''reject'' b = (Inr (Reject rid ec msg), c) \<longleftrightarrow>
    bt_get b ''errorCode'' = Some (cbor_text ec) \<and> is_ok (parse_code ec) \<and>
    bt_get b ''message'' = Some (cbor_text msg) \<and> check_message msg = Inr () \<and>
    bt_get b ''requestId'' = Some (cbor_text rid) \<and> check_request_id rid = Inr () \<and>
    c = bt_remove ''requestId'' (bt_remove ''message'' (bt_remove ''errorCode'' b))"
  by (simp add: from_worker_fields_def res is_ok_iff) auto

lemma decode_from_worker_ok:
  assumes "cbor_sorted (CMap es)"
  shows "decode_from_worker (CMap es) = Inr m \<longleftrightarrow>
    bt_get es ''version'' = Some (CInteger protocol_version) \<and>
    bt_get es ''kind'' = Some (cbor_text (from_worker_kind m)) \<and>
    (\<exists>b. from_worker_fields (from_worker_kind m) (bt_remove ''kind'' (bt_remove ''version'' es)) = (Inr m, b) \<and>
      keys_within b {})"
  unfolding decode_from_worker_def decode_message_ok [OF assms] using from_worker_fields_kind by blast

definition stats_keys :: "string set" where
  "stats_keys = {''verifiedBytes'', ''retainedSequences'', ''rejectedPrompt'', ''rejectedOther'', ''rejectedMemory'',
    ''rejectedContract'', ''rejectedContext'', ''queueStandard'', ''queueInteractive'', ''queueBatch'',
    ''queueBackground'', ''prefixReusedTokens'', ''prefixLookups'', ''prefixHits'', ''prefillTokens'',
    ''prefillNanos'', ''oom'', ''modelLoadNanos'', ''kvTotal'', ''kvPinned'',
    ''kvFree'', ''iterations'', ''iterationNanos'', ''iterationBuckets'', ''decodeTokens'',
    ''decodeNanos'', ''cancellations'', ''activeSequences''}"

text \<open>The keys in the order \<open>take_stats\<close> reads them, and the lookups of a stats message.\<close>

definition stats_order :: "string list" where
  "stats_order =
     [''iterationBuckets'', ''queueInteractive'', ''queueStandard'', ''queueBatch'', ''queueBackground'',
      ''activeSequences'', ''rejectedContract'', ''rejectedContext'', ''rejectedMemory'', ''rejectedPrompt'',
      ''rejectedOther'', ''cancellations'', ''oom'', ''prefillTokens'', ''prefillNanos'',
      ''decodeTokens'', ''decodeNanos'', ''iterations'', ''iterationNanos'', ''kvTotal'',
      ''kvFree'', ''kvPinned'', ''retainedSequences'', ''prefixLookups'', ''prefixHits'',
      ''prefixReusedTokens'', ''modelLoadNanos'', ''verifiedBytes'']"

definition stats_at :: "bag \<Rightarrow> worker_stats \<Rightarrow> bool" where
  "stats_at b s \<longleftrightarrow>
    bt_get b ''iterationBuckets'' = Some (ipc_u64_array (ws_iteration_buckets s)) \<and>
    bt_get b ''queueInteractive'' = Some (cbor_u64 (ws_queue_interactive s)) \<and>
    bt_get b ''queueStandard'' = Some (cbor_u64 (ws_queue_standard s)) \<and>
    bt_get b ''queueBatch'' = Some (cbor_u64 (ws_queue_batch s)) \<and>
    bt_get b ''queueBackground'' = Some (cbor_u64 (ws_queue_background s)) \<and>
    bt_get b ''activeSequences'' = Some (cbor_u64 (ws_active_sequences s)) \<and>
    bt_get b ''rejectedContract'' = Some (cbor_u64 (ws_rejected_contract s)) \<and>
    bt_get b ''rejectedContext'' = Some (cbor_u64 (ws_rejected_context s)) \<and>
    bt_get b ''rejectedMemory'' = Some (cbor_u64 (ws_rejected_memory s)) \<and>
    bt_get b ''rejectedPrompt'' = Some (cbor_u64 (ws_rejected_prompt s)) \<and>
    bt_get b ''rejectedOther'' = Some (cbor_u64 (ws_rejected_other s)) \<and>
    bt_get b ''cancellations'' = Some (cbor_u64 (ws_cancellations s)) \<and>
    bt_get b ''oom'' = Some (cbor_u64 (ws_oom s)) \<and>
    bt_get b ''prefillTokens'' = Some (cbor_u64 (ws_prefill_tokens s)) \<and>
    bt_get b ''prefillNanos'' = Some (cbor_u64 (ws_prefill_nanos s)) \<and>
    bt_get b ''decodeTokens'' = Some (cbor_u64 (ws_decode_tokens s)) \<and>
    bt_get b ''decodeNanos'' = Some (cbor_u64 (ws_decode_nanos s)) \<and>
    bt_get b ''iterations'' = Some (cbor_u64 (ws_iterations s)) \<and>
    bt_get b ''iterationNanos'' = Some (cbor_u64 (ws_iteration_nanos s)) \<and>
    bt_get b ''kvTotal'' = Some (cbor_u64 (ws_kv_total s)) \<and>
    bt_get b ''kvFree'' = Some (cbor_u64 (ws_kv_free s)) \<and>
    bt_get b ''kvPinned'' = Some (cbor_u64 (ws_kv_pinned s)) \<and>
    bt_get b ''retainedSequences'' = Some (cbor_u64 (ws_retained_sequences s)) \<and>
    bt_get b ''prefixLookups'' = Some (cbor_u64 (ws_prefix_lookups s)) \<and>
    bt_get b ''prefixHits'' = Some (cbor_u64 (ws_prefix_hits s)) \<and>
    bt_get b ''prefixReusedTokens'' = Some (cbor_u64 (ws_prefix_reused_tokens s)) \<and>
    bt_get b ''modelLoadNanos'' = Some (cbor_u64 (ws_model_load_nanos s)) \<and>
    bt_get b ''verifiedBytes'' = Some (cbor_u64 (ws_verified_bytes s))"

lemma take_stats_ok:
  "take_stats b = (Inr s, c) \<longleftrightarrow> stats_at b s \<and> worker_stats_typed s \<and> c = fold bt_remove stats_order b"
  unfolding take_stats_def stats_at_def worker_stats_typed_def stats_order_def
  by (cases s) (simp add: res, auto)

lemma worker_stats_fields_ok:
  "from_worker_fields ''stats'' b = (Inr (Stats s), c) \<longleftrightarrow>
    stats_at b s \<and> worker_stats_typed s \<and> c = fold bt_remove stats_order b"
  by (simp add: from_worker_fields_def op_bind_ok op_return_ok take_stats_ok)

lemma keys_within_fold_remove: "keys_within (fold bt_remove ks b) K = keys_within b (set ks \<union> K)"
  by (induction ks arbitrary: b) simp_all

lemma stats_at_remove: "stats_at (bt_remove ''kind'' (bt_remove ''version'' es)) s = stats_at es s"
  by (simp add: stats_at_def)

lemma stats_order_set: "set stats_order = stats_keys"
  by (simp add: stats_order_def stats_keys_def insert_commute)

lemma put_lookups:
  "builder_ok b \<Longrightarrow> key \<notin> K \<Longrightarrow>
   (\<forall>k \<in> insert key K. bt_get es k = bt_get (b_fields (put key v b)) k) \<longleftrightarrow>
   bt_get es key = Some v \<and> (\<forall>k \<in> K. bt_get es k = bt_get (b_fields b) k)"
  by auto

lemma stats_builder_ok: "builder_ok (stats_fields s)" "b_keys (stats_fields s) \<subseteq> stats_keys"
  by (simp_all add: stats_fields_def Let_def stats_keys_def)

lemma stats_fields_get:
  "(\<forall>k \<in> stats_keys. bt_get es k = bt_get (b_fields (stats_fields s)) k) \<longleftrightarrow> stats_at es s"
  unfolding stats_fields_def Let_def stats_keys_def stats_at_def
  by (simp del: b_get_put ball_simps add: put_lookups, simp add: conj_ac)

lemma stats_order_keys: "k \<in> stats_keys \<Longrightarrow> k \<noteq> ''version'' \<and> k \<noteq> ''kind''"
  by (auto simp: stats_keys_def)

lemma from_worker_iff:
  assumes s: "cbor_sorted v"
  shows "decode_from_worker v = Inr m \<longleftrightarrow> from_worker_typed m \<and> encode_from_worker m = Inr v"
proof (cases v)
  case (CMap es)
  note env = envelope_eq [OF s [unfolded CMap]] and dec = decode_from_worker_ok [OF s [unfolded CMap]]
  show ?thesis
  proof (cases m)
    case (Ready root)
    show ?thesis unfolding CMap Ready dec from_worker_kind.simps worker_id_fields_ok
      by (simp add: res Let_def env [where K = "{''runtimeRoot''}"], auto simp: contract_ac)
  next
    case (Ack rid)
    show ?thesis unfolding CMap Ack dec from_worker_kind.simps worker_id_fields_ok
      by (simp add: res Let_def env [where K = "{''requestId''}"], auto simp: contract_ac)
  next
    case (Admitted rid)
    show ?thesis unfolding CMap Admitted dec from_worker_kind.simps worker_id_fields_ok
      by (simp add: res Let_def env [where K = "{''requestId''}"], auto simp: contract_ac)
  next
    case (Delta rid i t)
    show ?thesis unfolding CMap Delta dec from_worker_kind.simps worker_token_fields_ok
      by (simp add: res Let_def env [where K = "{''index'', ''requestId'', ''tokenId''}"], auto simp: contract_ac)
  next
    case (Prefill rid i t)
    show ?thesis unfolding CMap Prefill dec from_worker_kind.simps worker_token_fields_ok
      by (simp add: res Let_def env [where K = "{''chunk'', ''requestId'', ''tokens''}"], auto simp: contract_ac)
  next
    case (Result rid tokens fin ec)
    show ?thesis unfolding CMap Result dec from_worker_kind.simps worker_result_fields_ok
      by (simp add: res Let_def env [where K = "{''errorCode'', ''finishReason'', ''requestId'', ''tokens''}"]
          cbor_opt_text_def [symmetric] finish_code_ok_def [symmetric], auto simp: contract_ac)
  next
    case (Reject rid ec msg)
    show ?thesis unfolding CMap Reject dec from_worker_kind.simps worker_reject_fields_ok
      by (simp add: res Let_def env [where K = "{''errorCode'', ''message'', ''requestId''}"] is_ok_iff,
        auto simp: contract_ac)
  next
    case (Stats st)
    have "(\<forall>k \<in> insert ''version'' (insert ''kind'' stats_keys). bt_get es k =
        (if k = ''version'' then Some (CInteger protocol_version)
         else if k = ''kind'' then Some (cbor_text ''stats'') else bt_get (b_fields (stats_fields st)) k)) \<longleftrightarrow>
        bt_get es ''version'' = Some (CInteger protocol_version) \<and>
        bt_get es ''kind'' = Some (cbor_text ''stats'') \<and> stats_at es st"
      using stats_order_keys stats_fields_get [of es st] by auto
    then show ?thesis
      unfolding CMap Stats dec from_worker_kind.simps worker_stats_fields_ok encode_from_worker.simps
        from_worker_typed.simps
      using env [OF stats_builder_ok, of "''stats''" st]
      by (auto simp: keys_within_fold_remove stats_at_remove stats_order_set insert_commute)
  qed
next
qed (cases m; auto simp: decode_from_worker_def res Let_def envelope_map dest!: decode_message_map)+

interpretation from_worker: document from_worker_typed encode_from_worker decode_from_worker
  by unfold_locales (rule from_worker_iff)

end
