(* ===== verification/Ipc.thy ===== *)
theory Ipc
  imports Protocol_Proofs
begin

text \<open>
  Frames and messages together: a worker message always fits a frame, and a list of messages written
  to the socket is read back as that list however the bytes are cut into reads of 8 KiB at most.
\<close>

subsection \<open>The size of a message\<close>

lemma encode_array_le: "length (encode (CArray vs)) \<le> 9 + (\<Sum>v \<leftarrow> vs. length (encode v))"
  using encode_length_le [of 4 "length vs"] by (simp add: length_concat comp_def)

lemma sum_list_le: "(\<And>x. x \<in> set xs \<Longrightarrow> f x \<le> c) \<Longrightarrow> (\<Sum>x \<leftarrow> xs. f x) \<le> length xs * (c::nat)"
  by (induction xs) (auto simp: add_mono)

lemma builder_document:
  assumes ok: "builder_ok b" and K: "b_keys b \<subseteq> K" "finite K" "card K \<le> 1000"
    and keys: "\<And>k. k \<in> K \<Longrightarrow> utf8_string k \<and> length k \<le> 32"
    and vals: "\<And>k v. k \<in> K \<Longrightarrow> bt_get (b_fields b) k = Some v \<Longrightarrow> cbor_wf 1 v \<and> length (encode v) \<le> L"
  shows "cbor_wf 0 (builder_finish b)" and "length (encode (builder_finish b)) \<le> 9 + card K * (41 + L)"
proof -
  let ?es = "b_fields b"
  have bt: "bt_ok ?es" using ok by (simp add: builder_ok_def)
  have entry: "utf8_string k \<and> length k \<le> 32 \<and> cbor_wf 1 v \<and> length (encode v) \<le> L" if "(k, v) \<in> set ?es" for k v
  proof -
    have "k \<in> b_keys b" using that by (force simp: b_keys_def)
    moreover have "bt_get ?es k = Some v" using that bt by (simp add: bt_get_iff)
    ultimately show ?thesis using K(1) keys vals by blast
  qed
  have "length ?es = card (set (map fst ?es))"
    using distinct_card [OF bt_ok_distinct [OF bt]] by simp
  also have "\<dots> \<le> card K"
    using K by (intro card_mono) (simp_all add: b_keys_def)
  finally have len: "length ?es \<le> card K" .
  have depth: "(1::nat) \<le> max_depth" "card K \<le> max_items" "32 \<le> u64_max"
    using K(3) by (simp_all add: max_depth_def max_items_def u64_max_def)
  have "sorted_wrt key_less (map fst ?es)" using bt by (simp add: bt_ok_def key_less_less)
  then show "cbor_wf 0 (builder_finish b)"
    using len depth entry unfolding builder_finish_def cbor_wf.simps by (fastforce simp: case_prod_beta)
  have "(\<Sum>(k, v) \<leftarrow> ?es. 9 + length k + length (encode v)) \<le> length ?es * (41 + L)"
    using entry by (intro sum_list_le) fastforce
  also have "\<dots> \<le> card K * (41 + L)" using len by (rule mult_le_mono1)
  finally show "length (encode (builder_finish b)) \<le> 9 + card K * (41 + L)"
    using encode_map_le [of ?es] unfolding builder_finish_def by linarith
qed

definition atom_ok :: "nat \<Rightarrow> cbor_value \<Rightarrow> bool" where
  "atom_ok n v \<longleftrightarrow> cbor_wf 1 v \<and> length (encode v) \<le> n"

lemma atom_text: "utf8_string t \<Longrightarrow> length t \<le> n \<Longrightarrow> n \<le> 65536 \<Longrightarrow> atom_ok (9 + n) (cbor_text t)"
  using encode_atoms_le(1) [of t] by (simp add: atom_ok_def cbor_text_def max_depth_def u64_max_def)

lemma atom_int: "0 \<le> n \<Longrightarrow> n \<le> int u64_max \<Longrightarrow> 9 \<le> m \<Longrightarrow> atom_ok m (CInteger n)"
  using encode_atoms_le(2) [of n]
  by (auto simp: atom_ok_def max_depth_def u64_max_def integer_in_cbor_range_def i128_min_cbor_def i128_max_cbor_def)

lemma atom_nums:
  "n \<le> u32_max \<Longrightarrow> 9 \<le> m \<Longrightarrow> atom_ok m (cbor_u32 n)" "n \<le> u64_max \<Longrightarrow> 9 \<le> m \<Longrightarrow> atom_ok m (cbor_u64 n)"
  using atom_int [of "int n" m] by (simp_all add: cbor_u32_def cbor_u64_def u32_max_def u64_max_def)

lemma atom_ints:
  assumes "\<And>v. v \<in> set vs \<Longrightarrow> \<exists>n. v = CInteger n \<and> 0 \<le> n \<and> n \<le> int u64_max" and "length vs \<le> 4096"
    and "9 + 9 * length vs \<le> m"
  shows "atom_ok m (CArray vs)"
proof -
  have v: "cbor_wf 2 v \<and> length (encode v) \<le> 9" if "v \<in> set vs" for v
    using assms(1) [OF that] encode_atoms_le(2)
    by (auto simp: max_depth_def u64_max_def integer_in_cbor_range_def i128_min_cbor_def i128_max_cbor_def)
  then have "(\<Sum>v \<leftarrow> vs. length (encode v)) \<le> length vs * 9" by (intro sum_list_le) simp
  then have "length (encode (CArray vs)) \<le> m" using encode_array_le [of vs] assms(3) by linarith
  then show ?thesis
    using v assms(2) by (simp add: atom_ok_def max_depth_def max_items_def numeral_2_eq_2)
qed

lemma ascii_utf8: "list_all is_ascii t \<Longrightarrow> utf8_string t"
  by (auto simp: list_all_iff intro: utf8_string_ascii)

lemma envelope_frame:
  assumes "builder_ok b" and "b_keys b \<subseteq> K" and "finite K" and "card K \<le> 100"
    and "\<And>k. k \<in> K \<Longrightarrow> utf8_string k \<and> length k \<le> 32"
    and "\<And>k v. k \<in> K \<Longrightarrow> bt_get (b_fields b) k = Some v \<Longrightarrow> atom_ok L v"
    and "utf8_string kind" and "length kind \<le> 16" and "25 \<le> L"
  shows "cbor_wf 0 (envelope kind b)" and "length (encode (envelope kind b)) \<le> 9 + (2 + card K) * (41 + L)"
proof -
  let ?b = "put ''version'' (CInteger protocol_version) (put ''kind'' (cbor_text kind) b)"
  let ?K = "insert ''version'' (insert ''kind'' K)"
  have card: "card ?K \<le> 2 + card K" using assms(3) by (auto simp: card_insert_if)
  have "utf8_string ''version''" "utf8_string ''kind''"
    by (rule ascii_utf8, simp add: is_ascii_def)+
  then have keys: "utf8_string k \<and> length k \<le> 32" if "k \<in> ?K" for k
    using that assms(5) [of k] by auto
  have vals: "cbor_wf 1 v \<and> length (encode v) \<le> L" if k: "k \<in> ?K" and v: "bt_get (b_fields ?b) k = Some v" for k v
  proof -
    consider "k = ''version''" | "k = ''kind''" | "k \<noteq> ''version''" "k \<noteq> ''kind''" by blast
    then have "atom_ok L v"
    proof cases
      case 1
      then have "v = CInteger 1" using v assms(1) by (simp add: protocol_version_def)
      then show ?thesis using atom_int [of 1 L] assms(9) by (simp add: u64_max_def)
    next
      case 2
      then have "v = cbor_text kind" using v assms(1) by simp
      then show ?thesis using atom_text [OF assms(7,8)] assms(9) by (simp add: atom_ok_def)
    next
      case 3
      then show ?thesis using k v assms(1,6) by simp
    qed
    then show ?thesis by (simp add: atom_ok_def)
  qed
  have "b_keys ?b \<subseteq> ?K" using assms(2) by auto
  note doc = builder_document [of ?b ?K L, OF _ this _ _ keys vals]
  show "cbor_wf 0 (envelope kind b)"
    unfolding envelope_def by (rule doc(1)) (use assms card in auto)
  have "length (encode (envelope kind b)) \<le> 9 + card ?K * (41 + L)"
    unfolding envelope_def by (rule doc(2)) (use assms card in auto)
  also have "\<dots> \<le> 9 + (2 + card K) * (41 + L)" using mult_le_mono1 [OF card] by (rule add_left_mono)
  finally show "length (encode (envelope kind b)) \<le> 9 + (2 + card K) * (41 + L)" .
qed

text \<open>What Rust's \<open>String\<close> guarantees of the two free texts of a message.\<close>

fun from_worker_text :: "from_worker \<Rightarrow> bool" where
  "from_worker_text (Ready root) \<longleftrightarrow> utf8_string root"
| "from_worker_text (Reject rid ec msg) \<longleftrightarrow> utf8_string msg"
| "from_worker_text _ \<longleftrightarrow> True"

lemma request_id_text: "check_request_id rid = Inr () \<Longrightarrow> utf8_string rid \<and> length rid \<le> 64"
  by (auto simp: check_request_id_def list_all_iff ascii_defs split: if_splits intro!: utf8_string_ascii)

lemma code_text: "parse_code ec = Inr c \<Longrightarrow> utf8_string ec \<and> length ec \<le> 64"
proof -
  assume "parse_code ec = Inr c"
  then have "ec = code_as_str c" by (auto simp: parse_code_def res dest: code_parse_sound)
  moreover have "list_all is_ascii (code_as_str c) \<and> length (code_as_str c) \<le> 64"
    by (cases c) (simp_all add: is_ascii_def)
  ultimately show ?thesis by (auto simp: list_all_iff intro!: utf8_string_ascii)
qed

lemma finish_text: "check_finish t = Inr () \<Longrightarrow> utf8_string t \<and> length t \<le> 64"
  by (auto simp: check_finish_def is_ascii_def split: if_splits intro!: utf8_string_ascii)

lemma stats_at_self: "stats_at (b_fields (stats_fields s)) s"
  using stats_fields_get [of "b_fields (stats_fields s)" s] by simp

lemma stats_values:
  assumes t: "worker_stats_typed s" and "k \<in> stats_keys" and "bt_get (b_fields (stats_fields s)) k = Some v"
  shows "atom_ok 1100 v"
proof -
  have buckets: "atom_ok 1100 (ipc_u64_array (ws_iteration_buckets s))"
    using t unfolding ipc_u64_array_def
    by (intro atom_ints) (auto simp: worker_stats_typed_def iteration_buckets_def list_all_iff cbor_u64_def)
  have "\<forall>k \<in> stats_keys. \<exists>v. bt_get es k = Some v \<and> atom_ok 1100 v" if "stats_at es s" for es
    using that t buckets by (simp add: stats_at_def stats_keys_def worker_stats_typed_def atom_nums)
  from this [OF stats_at_self] assms(2,3) show ?thesis by auto
qed

text \<open>Every message of the worker is a well-formed value of at most 300,000 bytes.\<close>

lemma small_keys:
  "k \<in> {''chunk'', ''errorCode'', ''finishReason'', ''index'', ''message'', ''requestId'', ''runtimeRoot'',
      ''tokenId'', ''tokens''} \<Longrightarrow> utf8_string k \<and> length k \<le> 32"
  by (elim insertE emptyE) (simp_all add: ascii_utf8 is_ascii_def)

lemma stats_key_text: "k \<in> stats_keys \<Longrightarrow> utf8_string k \<and> length k \<le> 32"
  unfolding stats_keys_def by (elim insertE emptyE) (simp_all add: ascii_utf8 is_ascii_def)

lemma stats_card: "finite stats_keys" "card stats_keys \<le> 28"
proof -
  have "card stats_keys \<le> length stats_order" unfolding stats_order_set [symmetric] by (rule card_length)
  then show "card stats_keys \<le> 28" by (simp add: stats_order_def)
  show "finite stats_keys" by (simp add: stats_keys_def)
qed

lemma atom_mono: "atom_ok m v \<Longrightarrow> m \<le> n \<Longrightarrow> atom_ok n v"
  by (simp add: atom_ok_def)

lemma message_frame:
  assumes "builder_ok b" and "b_keys b \<subseteq> K"
    and "K \<subseteq> {''chunk'', ''errorCode'', ''finishReason'', ''index'', ''message'', ''requestId'', ''runtimeRoot'',
      ''tokenId'', ''tokens''}"
    and "\<And>k v. k \<in> K \<Longrightarrow> bt_get (b_fields b) k = Some v \<Longrightarrow> atom_ok 36873 v"
    and "list_all is_ascii kind" and "length kind \<le> 16" and "card K \<le> 4"
  shows "cbor_wf 0 (envelope kind b)" and "length (encode (envelope kind b)) \<le> 300000"
proof -
  have fin: "finite K" using assms(3) by (rule finite_subset) simp
  note env = envelope_frame [OF assms(1,2) fin _ _ assms(4) ascii_utf8 [OF assms(5)] assms(6)]
  show "cbor_wf 0 (envelope kind b)"
    by (rule env(1)) (use assms(3,7) small_keys in auto)
  have "length (encode (envelope kind b)) \<le> 9 + (2 + card K) * (41 + 36873)"
    by (rule env(2)) (use assms(3,7) small_keys in auto)
  also have "\<dots> \<le> 9 + 6 * (41 + 36873)" using assms(7) by (intro add_left_mono mult_le_mono1) simp
  finally show "length (encode (envelope kind b)) \<le> 300000" by simp
qed

lemma atom_text': "utf8_string t \<Longrightarrow> length t \<le> 30000 \<Longrightarrow> atom_ok 36873 (cbor_text t)"
  using atom_text [of t 30000] by (auto elim: atom_mono)

lemma atom_tokens: "length ts \<le> max_prompt \<Longrightarrow> list_all (\<lambda>n. n \<le> u32_max) ts \<Longrightarrow> atom_ok 36873 (ipc_u32_array ts)"
  unfolding ipc_u32_array_def
  by (rule atom_ints) (auto simp: max_prompt_def list_all_iff cbor_u32_def u32_max_def u64_max_def)

lemma atom_null: "atom_ok 36873 CNull"
  by (simp add: atom_ok_def max_depth_def)

lemmas message_atoms = atom_text' atom_tokens atom_null atom_nums

lemma from_worker_frame:
  assumes "encode_from_worker m = Inr v" and "from_worker_typed m" and "from_worker_text m"
  shows "cbor_wf 0 v" and "length (encode v) \<le> 300000"
proof -
  have "cbor_wf 0 v \<and> length (encode v) \<le> 300000"
  proof (cases m)
    case (Ready root)
    have r: "utf8_string root" "length root = 71" and v: "v = envelope ''ready'' (put ''runtimeRoot'' (cbor_text root) builder_bare)"
      using assms by (auto simp: Ready res check_runtime_root_def split: if_splits)
    show ?thesis unfolding v
      by (intro conjI message_frame [where K = "{''runtimeRoot''}"]) (use r in \<open>auto simp: message_atoms is_ascii_def\<close>)
  next
    case (Ack rid)
    have r: "utf8_string rid" "length rid \<le> 64" and v: "v = envelope ''ack'' (put ''requestId'' (cbor_text rid) builder_bare)"
      using assms request_id_text by (auto simp: Ack res)
    show ?thesis unfolding v
      by (intro conjI message_frame [where K = "{''requestId''}"]) (use r in \<open>auto simp: message_atoms is_ascii_def\<close>)
  next
    case (Admitted rid)
    have r: "utf8_string rid" "length rid \<le> 64" and v: "v = envelope ''admitted'' (put ''requestId'' (cbor_text rid) builder_bare)"
      using assms request_id_text by (auto simp: Admitted res)
    show ?thesis unfolding v
      by (intro conjI message_frame [where K = "{''requestId''}"]) (use r in \<open>auto simp: message_atoms is_ascii_def\<close>)
  next
    case (Delta rid i t)
    have r: "utf8_string rid" "length rid \<le> 64" "i \<le> u32_max" "t \<le> u32_max"
        and v: "v = envelope ''delta'' (put ''tokenId'' (cbor_u32 t) (put ''requestId'' (cbor_text rid)
          (put ''index'' (cbor_u32 i) builder_bare)))"
      using assms request_id_text by (auto simp: Delta res Let_def)
    show ?thesis unfolding v
      by (intro conjI message_frame [where K = "{''tokenId'', ''requestId'', ''index''}"])
        (use r in \<open>auto simp: message_atoms is_ascii_def\<close>)
  next
    case (Prefill rid i t)
    have r: "utf8_string rid" "length rid \<le> 64" "i \<le> u32_max" "t \<le> u32_max"
        and v: "v = envelope ''prefill'' (put ''tokens'' (cbor_u32 t) (put ''requestId'' (cbor_text rid)
          (put ''chunk'' (cbor_u32 i) builder_bare)))"
      using assms request_id_text by (auto simp: Prefill res Let_def)
    show ?thesis unfolding v
      by (intro conjI message_frame [where K = "{''tokens'', ''requestId'', ''chunk''}"])
        (use r in \<open>auto simp: message_atoms is_ascii_def\<close>)
  next
    case (Result rid tokens fin ec)
    have r: "utf8_string rid" "length rid \<le> 64" "length tokens \<le> max_prompt" "list_all (\<lambda>n. n \<le> u32_max) tokens"
        "utf8_string fin" "length fin \<le> 64"
        and ec: "finish_code_ok ec = Inr ()"
        and v: "v = envelope ''result'' (put ''tokens'' (ipc_u32_array tokens) (put ''requestId'' (cbor_text rid)
          (put ''finishReason'' (cbor_text fin) (put ''errorCode'' (cbor_opt_text ec) builder_bare))))"
      using assms request_id_text finish_text
      by (auto simp: Result res Let_def cbor_opt_text_def [symmetric] finish_code_ok_def [symmetric])
    have code: "atom_ok 36873 (cbor_opt_text ec)"
      using ec by (cases ec) (auto simp: finish_code_ok_def cbor_opt_text_def res atom_null dest!: code_text intro!: atom_text')
    show ?thesis unfolding v
      by (intro conjI message_frame [where K = "{''tokens'', ''requestId'', ''finishReason'', ''errorCode''}"])
        (use r code in \<open>auto simp: message_atoms is_ascii_def\<close>)
  next
    case (Reject rid ec msg)
    have r: "utf8_string rid" "length rid \<le> 64" "utf8_string ec" "length ec \<le> 64" "utf8_string msg" "length msg \<le> 1024"
        and v: "v = envelope ''reject'' (put ''requestId'' (cbor_text rid)
          (put ''message'' (cbor_text msg) (put ''errorCode'' (cbor_text ec) builder_bare)))"
      using assms request_id_text code_text
      by (auto simp: Reject res Let_def check_message_def max_message_def split: if_splits)
    show ?thesis unfolding v
      by (intro conjI message_frame [where K = "{''requestId'', ''message'', ''errorCode''}"])
        (use r in \<open>auto simp: message_atoms is_ascii_def\<close>)
  next
    case (Stats st)
    have t: "worker_stats_typed st" and v: "v = envelope ''stats'' (stats_fields st)"
      using assms by (auto simp: Stats)
    have kind: "utf8_string ''stats''" by (rule ascii_utf8) (simp add: is_ascii_def)
    note env = envelope_frame [OF stats_builder_ok stats_card(1) _ stats_key_text stats_values [OF t] kind]
    have "length (encode v) \<le> 9 + (2 + card stats_keys) * (41 + 1100)"
      unfolding v using stats_card(2) by (intro env(2)) auto
    also have "\<dots> \<le> 9 + 30 * (41 + 1100)" using stats_card(2) by (intro add_left_mono mult_le_mono1) simp
    finally show ?thesis unfolding v using stats_card(2) env(1) by simp
  qed
  then show "cbor_wf 0 v" "length (encode v) \<le> 300000" by simp_all
qed

subsection \<open>A conversation\<close>

text \<open>The worker's writes: each message encoded, framed and appended to the socket.\<close>

fun ipc_send :: "from_worker list \<Rightarrow> (u8 list, unit) op" where
  "ipc_send [] = op_return ()"
| "ipc_send (m # ms) =
    op_bind (op_lift (encode_from_worker m)) (\<lambda>v.
    op_seq (write_frame (\<lambda>bytes out. (Inr (), out @ bytes)) (\<lambda>out. (Inr (), out)) v) (ipc_send ms))"

definition ipc_receive :: "u8 list list \<Rightarrow> from_worker list res" where
  "ipc_receive chunks = rbind (fst (frame_feed chunks frame_new)) (rmap decode_from_worker)"

lemma ipc_send_frames:
  assumes "ipc_send ms out = (Inr u, out')" and "list_all from_worker_typed ms" and "list_all from_worker_text ms"
  shows "\<exists>vs. out' = out @ concat (map frame_bytes vs) \<and> list_all frame_value vs \<and>
    list_all (\<lambda>v. length (encode v) \<le> 300000) vs \<and> list_all2 (\<lambda>m v. encode_from_worker m = Inr v) ms vs"
  using assms
proof (induction ms arbitrary: out)
  case Nil
  then show ?case by (auto simp: op_return_def)
next
  case (Cons m ms)
  obtain v out1 where v: "encode_from_worker m = Inr v"
      and w: "write_frame (\<lambda>bytes out. (Inr (), out @ bytes)) (\<lambda>out. (Inr (), out)) v out = (Inr (), out1)"
      and rest: "ipc_send ms out1 = (Inr u, out')"
    using Cons.prems(1) by (auto simp: op_seq_def res)
  have wf: "cbor_wf 0 v" "length (encode v) \<le> 300000"
    using from_worker_frame [OF v] Cons.prems by simp_all
  then have fv: "frame_value v" by (simp add: frame_value_def max_frame_def)
  have out1: "out1 = out @ frame_bytes v"
    using w by (simp add: write_frame_bytes split: if_splits)
  obtain vs where "out' = out1 @ concat (map frame_bytes vs)" "list_all frame_value vs"
      "list_all (\<lambda>v. length (encode v) \<le> 300000) vs" "list_all2 (\<lambda>m v. encode_from_worker m = Inr v) ms vs"
    using Cons.IH [OF rest] Cons.prems by auto
  then show ?case
    using wf(2) fv v out1 by (intro exI [of _ "v # vs"]) simp
qed

lemma ipc_decode:
  "list_all2 (\<lambda>m v. encode_from_worker m = Inr v) ms vs \<Longrightarrow> list_all from_worker_typed ms \<Longrightarrow>
   list_all frame_value vs \<Longrightarrow> rmap decode_from_worker vs = Inr ms"
proof (induction rule: list_all2_induct)
  case (Cons m ms v vs)
  have "cbor_sorted v" using Cons.prems(2) by (auto simp: frame_value_def intro: cbor_wf_sorted)
  then have "decode_from_worker v = Inr m" using Cons.hyps(1) Cons.prems(1) by (simp add: from_worker_iff)
  then show ?case using Cons by simp
qed simp

lemma ipc_conversation:
  assumes send: "ipc_send ms [] = (Inr u, bytes)" and "list_all from_worker_typed ms"
    and "list_all from_worker_text ms" and "concat chunks = bytes" and "list_all (\<lambda>c. length c \<le> 8192) chunks"
  shows "ipc_receive chunks = Inr ms"
proof -
  obtain vs where vs: "bytes = concat (map frame_bytes vs)" "list_all frame_value vs"
      "list_all (\<lambda>v. length (encode v) \<le> 300000) vs" "list_all2 (\<lambda>m v. encode_from_worker m = Inr v) ms vs"
    using ipc_send_frames [OF send assms(2,3)] by auto
  have "\<exists>d. frame_feed chunks frame_new = (Inr vs, d) \<and> frame_ok d \<and> unread d = []"
  proof (rule frame_feed_all)
    show "unread frame_new @ concat chunks = concat (map frame_bytes vs)" using assms(4) vs(1) by simp
    show "\<forall>c \<in> set chunks. \<forall>v \<in> set vs. length c + length (encode v) \<le> max_frame + 1"
      using assms(5) vs(3) by (fastforce simp: list_all_iff max_frame_def)
  qed (use vs(2) in \<open>auto simp: frame_bytes_def split: list.split\<close>)
  then show ?thesis using ipc_decode [OF vs(4) assms(2) vs(2)] by (auto simp: ipc_receive_def)
qed

end
