(* ===== verification/Demo_Ipc.thy ===== *)
theory Demo_Ipc
  imports Ipc Demo
begin

text \<open>Concrete messages, streams and decoders for the properties of the worker's socket.\<close>

definition demo_cancel :: cbor_value where
  "demo_cancel = CMap [(''kind'', CText ''cancel''), (''requestId'', CText ''a''), (''version'', CInteger 1)]"

definition demo_ack :: cbor_value where
  "demo_ack = CMap [(''kind'', CText ''ack''), (''requestId'', CText ''a''), (''version'', CInteger 1)]"

lemma demo_messages_sorted: "cbor_sorted demo_cancel" "cbor_sorted demo_ack"
  by code_simp+

lemma demo_encoded:
  "encode_to_worker (Cancel ''a'') = Inr demo_cancel" "encode_from_worker (Ack ''a'') = Inr demo_ack"
  by code_simp+

lemma demo_ack_ok: "list_all from_worker_typed [Ack ''a'', Ack ''a'']" "list_all from_worker_text [Ack ''a'', Ack ''a'']"
  by code_simp+

lemma demo_ack_sent: "ipc_send [Ack ''a'', Ack ''a''] [] = (Inr (), frame_bytes demo_ack @ frame_bytes demo_ack)"
proof -
  have "length (encode demo_ack) \<le> 300000"
    using from_worker_frame [OF demo_encoded(2)] demo_ack_ok by simp
  then show ?thesis
    by (simp del: encode_from_worker.simps add: demo_encoded(2) op_seq_def op_bind_def op_lift_def op_return_def write_frame_bytes max_frame_def)
qed

end
