(* ===== verification/Supervisor.thy ===== *)
theory Supervisor
  imports Protocol_Proofs
begin

text \<open>
  The supervisor's side of a worker: \<open>crates/infer-serve/src/supervisor.rs\<close>. The slot that its mutex
  guards, and each section of code that runs under that mutex, as one operation on the slot, the
  messages sent to waiting handlers and the bytes written to the worker.
\<close>

subsection \<open>The slot\<close>

definition max_inflight :: nat where "max_inflight = 64"
definition max_handlers :: nat where "max_handlers = 128"

datatype worker_state = WorkerStarting | WorkerReady | WorkerDown

datatype outcome =
    OutcomeResult "nat list" string "string option"
  | OutcomeRejected string string
  | OutcomeAck
  | OutcomeLost

datatype worker_event =
    EventAdmitted
  | EventPrefill nat nat
  | EventDelta nat nat
  | EventFinished outcome

text \<open>
  The process, socket, reader thread and directory of a worker are named by the number of the spawn that
  made them, the sender of a channel by the number of the channel. The hash maps are the sorted maps of
  \<open>Btree\<close>: the order of their entries shows only in the order in which different channels are sent to.
\<close>

record worker_slot =
  wk_generation :: "u64"
  wk_state :: worker_state
  wk_child :: "nat option"
  wk_writer :: "nat option"
  wk_reader :: "nat option"
  wk_dir :: "nat option"
  wk_completion :: "(string, nat) btree"
  wk_cancel :: "(string, nat) btree"
  wk_stats :: "nat option"
  wk_released :: bool
  wk_release_sent :: bool
  wk_draining :: bool
  wk_unloading :: bool
  wk_reserved :: nat

record host_metrics =
  hm_restarts :: nat
  hm_snapshot :: "worker_stats option"
  hm_rejected_contract :: nat
  hm_rejected_memory :: nat

text \<open>The slot, and what has left it: events, replies to cancellations, statistics, bytes.\<close>

record supervisor =
  sv_slot :: worker_slot
  sv_metrics :: host_metrics
  sv_events :: "(nat \<times> worker_event) list"
  sv_acks :: "(nat \<times> outcome) list"
  sv_scrapes :: "(nat \<times> worker_stats option) list"
  sv_wire :: "(nat \<times> u8 list) list"

definition slot_start :: worker_slot where
  "slot_start = \<lparr>wk_generation = 0, wk_state = WorkerDown, wk_child = None, wk_writer = None,
     wk_reader = None, wk_dir = None, wk_completion = [], wk_cancel = [], wk_stats = None,
     wk_released = False, wk_release_sent = False, wk_draining = False, wk_unloading = False, wk_reserved = 0\<rparr>"

definition on_slot :: "(worker_slot \<Rightarrow> worker_slot) \<Rightarrow> supervisor \<Rightarrow> supervisor" where
  "on_slot f s = s\<lparr>sv_slot := f (sv_slot s)\<rparr>"

definition is_ready :: "supervisor \<Rightarrow> bool" where
  "is_ready s \<longleftrightarrow> wk_state (sv_slot s) = WorkerReady"

definition occupancy :: "worker_slot \<Rightarrow> nat" where
  "occupancy slot = saturating_add_u64 (length (wk_completion slot)) (wk_reserved slot)"

definition lifecycle_name :: "worker_slot \<Rightarrow> string" where
  "lifecycle_name slot =
    (if wk_unloading slot then
       (if occupancy slot = 0 \<and> wk_state slot = WorkerDown then ''unloaded'' else ''unloading'')
     else if \<not> wk_draining slot then ''serving''
     else if occupancy slot = 0 then ''drained'' else ''draining'')"

subsection \<open>Sending\<close>

definition send_event :: "nat \<Rightarrow> worker_event \<Rightarrow> supervisor \<Rightarrow> supervisor" where
  "send_event c e s = s\<lparr>sv_events := sv_events s @ [(c, e)]\<rparr>"

definition send_ack :: "nat \<Rightarrow> outcome \<Rightarrow> supervisor \<Rightarrow> supervisor" where
  "send_ack c r s = s\<lparr>sv_acks := sv_acks s @ [(c, r)]\<rparr>"

definition send_stats :: "nat \<Rightarrow> worker_stats option \<Rightarrow> supervisor \<Rightarrow> supervisor" where
  "send_stats c r s = s\<lparr>sv_scrapes := sv_scrapes s @ [(c, r)]\<rparr>"

text \<open>\<open>io\<close> is what the socket does with the write: accept it, or fail.\<close>

definition write_worker_stream :: "infer_failure option \<Rightarrow> nat \<Rightarrow> to_worker \<Rightarrow> (supervisor, unit) op" where
  "write_worker_stream io n m =
    op_bind (op_lift (encode_to_worker m)) (\<lambda>v.
      write_frame
        (\<lambda>bytes s. (case io of None \<Rightarrow> (Inr (), s\<lparr>sv_wire := sv_wire s @ [(n, bytes)]\<rparr>) | Some e \<Rightarrow> (Inl e, s)))
        (op_return ()) v)"

definition write_worker :: "infer_failure option \<Rightarrow> to_worker \<Rightarrow> (supervisor, unit) op" where
  "write_worker io m s =
    (case wk_writer (sv_slot s) of
       None \<Rightarrow> (Inl (fail WorkerLost ''worker ipc is closed''), s)
     | Some n \<Rightarrow> write_worker_stream io n m s)"

definition send_release_if_needed :: "infer_failure option \<Rightarrow> (supervisor, unit) op" where
  "send_release_if_needed io s =
    (if wk_released (sv_slot s) \<and> \<not> wk_release_sent (sv_slot s) \<and> is_ready s
     then op_seq (write_worker io Release) (op_modify (on_slot (\<lambda>k. k\<lparr>wk_release_sent := True\<rparr>))) s
     else (Inr (), s))"

definition release_forward :: "infer_failure option \<Rightarrow> (supervisor, unit) op" where
  "release_forward io s =
    (let s = on_slot (\<lambda>k. k\<lparr>wk_released := True\<rparr>) s in
     if is_ready s \<and> \<not> wk_release_sent (sv_slot s)
     then op_seq (write_worker io Release) (op_modify (on_slot (\<lambda>k. k\<lparr>wk_release_sent := True\<rparr>))) s
     else (Inr (), s))"

subsection \<open>The reader thread\<close>

fun deliver :: "from_worker \<Rightarrow> supervisor \<Rightarrow> supervisor" where
  "deliver (Ready _) s = s"
| "deliver (Admitted rid) s =
    (case bt_get (wk_completion (sv_slot s)) rid of None \<Rightarrow> s | Some c \<Rightarrow> send_event c EventAdmitted s)"
| "deliver (Delta rid index token) s =
    (case bt_get (wk_completion (sv_slot s)) rid of None \<Rightarrow> s | Some c \<Rightarrow> send_event c (EventDelta index token) s)"
| "deliver (Prefill rid chunk tokens) s =
    (case bt_get (wk_completion (sv_slot s)) rid of None \<Rightarrow> s | Some c \<Rightarrow> send_event c (EventPrefill chunk tokens) s)"
| "deliver (Result rid tokens reason ec) s =
    (case bt_get (wk_completion (sv_slot s)) rid of
       None \<Rightarrow> s
     | Some c \<Rightarrow> send_event c (EventFinished (OutcomeResult tokens reason ec))
         (on_slot (\<lambda>k. k\<lparr>wk_completion := bt_remove rid (wk_completion k)\<rparr>) s))"
| "deliver (Reject rid ec msg) s =
    (case bt_get (wk_cancel (sv_slot s)) rid of
       Some c \<Rightarrow> send_ack c (OutcomeRejected ec msg)
         (on_slot (\<lambda>k. k\<lparr>wk_cancel := bt_remove rid (wk_cancel k)\<rparr>) s)
     | None \<Rightarrow> (case bt_get (wk_completion (sv_slot s)) rid of
         None \<Rightarrow> s
       | Some c \<Rightarrow> send_event c (EventFinished (OutcomeRejected ec msg))
           (on_slot (\<lambda>k. k\<lparr>wk_completion := bt_remove rid (wk_completion k)\<rparr>) s)))"
| "deliver (Ack rid) s =
    (case bt_get (wk_cancel (sv_slot s)) rid of
       None \<Rightarrow> s
     | Some c \<Rightarrow> send_ack c OutcomeAck (on_slot (\<lambda>k. k\<lparr>wk_cancel := bt_remove rid (wk_cancel k)\<rparr>) s))"
| "deliver (Stats stats) s =
    (case wk_stats (sv_slot s) of
       None \<Rightarrow> s
     | Some c \<Rightarrow> send_stats c (Some stats) (on_slot (\<lambda>k. k\<lparr>wk_stats := None\<rparr>) s))"

definition dispatch :: "u64 \<Rightarrow> cbor_value \<Rightarrow> supervisor \<Rightarrow> (unit + unit) \<times> supervisor" where
  "dispatch g v s =
    (case decode_from_worker v of
       Inl _ \<Rightarrow> (Inl (), s)
     | Inr m \<Rightarrow> (Inr (), if wk_generation (sv_slot s) \<noteq> g then s else deliver m s))"

subsection \<open>Losing and stopping a worker\<close>

definition fail_waiters :: "supervisor \<Rightarrow> supervisor" where
  "fail_waiters s =
    on_slot (\<lambda>k. k\<lparr>wk_stats := None, wk_completion := [], wk_cancel := []\<rparr>)
      (s\<lparr>sv_scrapes := sv_scrapes s @ (case wk_stats (sv_slot s) of None \<Rightarrow> [] | Some c \<Rightarrow> [(c, None)]),
         sv_events := sv_events s @ map (\<lambda>c. (c, EventFinished OutcomeLost)) (bt_values (wk_completion (sv_slot s))),
         sv_acks := sv_acks s @ map (\<lambda>c. (c, OutcomeLost)) (bt_values (wk_cancel (sv_slot s)))\<rparr>)"

definition mark_lost :: "u64 \<Rightarrow> supervisor \<Rightarrow> supervisor" where
  "mark_lost g s =
    (if wk_generation (sv_slot s) \<noteq> g then s
     else
      let was_ready = is_ready s;
          s = fail_waiters s;
          s = on_slot (\<lambda>k. k\<lparr>wk_child := None, wk_writer := None, wk_state := WorkerDown, wk_dir := None\<rparr>) s
      in if was_ready
         then s\<lparr>sv_metrics := (sv_metrics s)\<lparr>hm_restarts := saturating_add_u64 (hm_restarts (sv_metrics s)) 1\<rparr>\<rparr>
         else s)"

text \<open>The part of \<open>stop_worker\<close> under the mutex, then the message to the worker; what it waits for is no state.\<close>

definition stop_worker :: "infer_failure option \<Rightarrow> supervisor \<Rightarrow> supervisor" where
  "stop_worker io s =
    (let writer = wk_writer (sv_slot s);
         s = on_slot (\<lambda>k. k\<lparr>wk_generation := wk_generation k + 1, wk_child := None, wk_writer := None,
               wk_reader := None, wk_dir := None, wk_state := WorkerDown\<rparr>) s;
         s = fail_waiters s
     in case writer of None \<Rightarrow> s | Some n \<Rightarrow> snd (write_worker_stream io n Shutdown s))"

definition should_stop :: "worker_slot \<Rightarrow> bool" where
  "should_stop slot \<longleftrightarrow> wk_unloading slot \<and> occupancy slot = 0 \<and> wk_state slot \<noteq> WorkerDown"

subsection \<open>Starting a worker\<close>

text \<open>What one turn of the loop of \<open>ensure_worker\<close> does under the mutex.\<close>

datatype ensure_next =
    EnsureDone "unit res"
  | EnsureWait
  | EnsureSpawn u64 "nat option"

definition ensure_enter :: "infer_failure option \<Rightarrow> supervisor \<Rightarrow> ensure_next \<times> supervisor" where
  "ensure_enter io s =
    (case wk_state (sv_slot s) of
       WorkerReady \<Rightarrow> (case send_release_if_needed io s of (r, s) \<Rightarrow> (EnsureDone r, s))
     | WorkerStarting \<Rightarrow> (EnsureWait, s)
     | WorkerDown \<Rightarrow>
        if wk_unloading (sv_slot s)
        then (EnsureDone (Inl (fail ServiceUnloaded ''model is not loaded'')), s)
        else
          let s' = on_slot (\<lambda>k. k\<lparr>wk_state := WorkerStarting, wk_generation := wk_generation k + 1,
                wk_reader := None\<rparr>) s
          in (EnsureSpawn (wk_generation (sv_slot s')) (wk_reader (sv_slot s)), s'))"

text \<open>After the wait of a worker that another thread is starting: give up, or another turn.\<close>

definition ensure_waited :: "bool \<Rightarrow> supervisor \<Rightarrow> unit res" where
  "ensure_waited timed_out s =
    (if timed_out \<and> wk_state (sv_slot s) = WorkerStarting
     then Inl (fail WorkerStartFailed ''worker did not become ready'') else Inr ())"

text \<open>
  The spawn succeeded with worker \<open>n\<close>: install it, or find that its generation is over. In the second
  case the worker is dropped, with the mutex held, and there is another turn.
\<close>

definition ensure_install ::
  "infer_failure option \<Rightarrow> u64 \<Rightarrow> nat \<Rightarrow> supervisor \<Rightarrow> unit res option \<times> supervisor" where
  "ensure_install io g n s =
    (if wk_generation (sv_slot s) \<noteq> g then (None, s)
     else
      let s = on_slot (\<lambda>k. k\<lparr>wk_child := Some n, wk_writer := Some n, wk_reader := Some n, wk_dir := Some n,
            wk_stats := None, wk_release_sent := False, wk_state := WorkerReady\<rparr>) s
      in case send_release_if_needed io s of (r, s) \<Rightarrow> (Some r, s))"

definition ensure_failed :: "u64 \<Rightarrow> supervisor \<Rightarrow> supervisor" where
  "ensure_failed g s =
    (if wk_generation (sv_slot s) = g then on_slot (\<lambda>k. k\<lparr>wk_state := WorkerDown\<rparr>) s else s)"

subsection \<open>Admission\<close>

definition reserve :: "(supervisor, unit) op" where
  "reserve s =
    (if wk_unloading (sv_slot s) then (Inl (fail ServiceUnloaded ''model is not loaded''), s)
     else if wk_draining (sv_slot s) then (Inl (fail ServiceDraining ''supervisor is draining''), s)
     else (Inr (), on_slot (\<lambda>k. k\<lparr>wk_reserved := saturating_add_u64 (wk_reserved k) 1\<rparr>) s))"

definition drop_hold :: "supervisor \<Rightarrow> supervisor" where
  "drop_hold = on_slot (\<lambda>k. k\<lparr>wk_reserved := wk_reserved k - 1\<rparr>)"

datatype rejection = RejectionContract | RejectionMemory

fun note_rejection_host :: "rejection \<Rightarrow> host_metrics \<Rightarrow> host_metrics" where
  "note_rejection_host RejectionContract m = m\<lparr>hm_rejected_contract := saturating_add_u64 (hm_rejected_contract m) 1\<rparr>"
| "note_rejection_host RejectionMemory m = m\<lparr>hm_rejected_memory := saturating_add_u64 (hm_rejected_memory m) 1\<rparr>"

fun rejection_error :: "rejection \<Rightarrow> infer_failure" where
  "rejection_error RejectionContract = fail ContractInvalid ''request id is already admitted''"
| "rejection_error RejectionMemory = fail InsufficientMemory ''too many in-flight requests''"

text \<open>
  \<open>submit\<close> after \<open>ensure_worker\<close>, with the channel \<open>c\<close>. The boolean says whether the hold is disarmed.
\<close>

definition submit_locked ::
  "infer_failure option \<Rightarrow> string \<Rightarrow> to_worker \<Rightarrow> nat \<Rightarrow> supervisor \<Rightarrow> (unit res \<times> bool) \<times> supervisor" where
  "submit_locked io rid m c s =
    (if \<not> is_ready s then ((Inl (fail WorkerLost ''worker is not ready''), False), s)
     else
      let k = sv_slot s;
          rejection = (if bt_get (wk_completion k) rid \<noteq> None then Some RejectionContract
            else if length (wk_completion k) \<ge> max_inflight then Some RejectionMemory else None)
      in case rejection of
        Some r \<Rightarrow> ((Inl (rejection_error r), False), s\<lparr>sv_metrics := note_rejection_host r (sv_metrics s)\<rparr>)
      | None \<Rightarrow>
         let s = on_slot (\<lambda>k. k\<lparr>wk_completion := bt_insert rid c (wk_completion k),
               wk_reserved := wk_reserved k - 1\<rparr>) s
         in case write_worker io m s of
           (Inl e, s) \<Rightarrow> ((Inl e, True), on_slot (\<lambda>k. k\<lparr>wk_completion := bt_remove rid (wk_completion k)\<rparr>) s)
         | (Inr _, s) \<Rightarrow> ((Inr (), True), s))"

definition abandon :: "infer_failure option \<Rightarrow> string \<Rightarrow> supervisor \<Rightarrow> supervisor" where
  "abandon io rid s =
    snd (write_worker io (Cancel rid) (on_slot (\<lambda>k. k\<lparr>wk_completion := bt_remove rid (wk_completion k)\<rparr>) s))"

definition cancel_locked :: "infer_failure option \<Rightarrow> string \<Rightarrow> nat \<Rightarrow> (supervisor, unit) op" where
  "cancel_locked io rid c s =
    (if bt_get (wk_completion (sv_slot s)) rid = None
     then (Inl (fail ContractInvalid ''request is not admitted''), s)
     else if bt_get (wk_cancel (sv_slot s)) rid \<noteq> None
     then (Inl (fail ContractInvalid ''request is already cancelled''), s)
     else
      let s = on_slot (\<lambda>k. k\<lparr>wk_cancel := bt_insert rid c (wk_cancel k)\<rparr>) s
      in case write_worker io (Cancel rid) s of
        (Inl e, s) \<Rightarrow> (Inl e, on_slot (\<lambda>k. k\<lparr>wk_cancel := bt_remove rid (wk_cancel k)\<rparr>) s)
      | (Inr _, s) \<Rightarrow> (Inr (), s))"

subsection \<open>Statistics and the lifecycle\<close>

definition scrape_begin :: "infer_failure option \<Rightarrow> nat \<Rightarrow> supervisor \<Rightarrow> bool \<times> supervisor" where
  "scrape_begin io c s =
    (if \<not> is_ready s \<or> wk_stats (sv_slot s) \<noteq> None then (False, s)
     else
      let s = on_slot (\<lambda>k. k\<lparr>wk_stats := Some c\<rparr>) s
      in case write_worker io StatsRequest s of
        (Inl _, s) \<Rightarrow> (False, on_slot (\<lambda>k. k\<lparr>wk_stats := None\<rparr>) s)
      | (Inr _, s) \<Rightarrow> (True, s))"

definition scrape_end :: "worker_stats option \<Rightarrow> supervisor \<Rightarrow> bool \<times> supervisor" where
  "scrape_end reply s =
    (case reply of
       Some stats \<Rightarrow> (True, s\<lparr>sv_metrics := (sv_metrics s)\<lparr>hm_snapshot := Some stats\<rparr>\<rparr>)
     | None \<Rightarrow> (False, on_slot (\<lambda>k. k\<lparr>wk_stats := None\<rparr>) s))"

definition begin_drain :: "supervisor \<Rightarrow> (string \<times> nat) \<times> supervisor" where
  "begin_drain s =
    (let s = on_slot (\<lambda>k. k\<lparr>wk_draining := True\<rparr>) s;
         inflight = occupancy (sv_slot s)
     in ((if inflight = 0 then ''drained'' else ''draining'', inflight), s))"

text \<open>\<open>begin_unload\<close>, whether it goes on to \<open>maybe_finish_unload\<close> first.\<close>

definition begin_unload :: "supervisor \<Rightarrow> (bool \<times> string \<times> nat) \<times> supervisor" where
  "begin_unload s =
    (let s = on_slot (\<lambda>k. k\<lparr>wk_unloading := True\<rparr>) s;
         inflight = occupancy (sv_slot s)
     in (if inflight = 0 then (True, ''unloaded'', 0) else (False, ''unloading'', inflight), s))"

text \<open>\<open>begin_load\<close> after \<open>maybe_finish_unload\<close>: an answer, or whether it leaves an unload and starts the worker.\<close>

definition load_locked :: "supervisor \<Rightarrow> (string \<times> nat + bool) \<times> supervisor" where
  "load_locked s =
    (let k = sv_slot s in
     if wk_unloading k \<and> occupancy k > 0 then (Inl (''unloading'', occupancy k), s)
     else if wk_state k = WorkerReady then (Inl (lifecycle_name k, occupancy k), s)
     else (Inr (wk_unloading k), on_slot (\<lambda>k. k\<lparr>wk_unloading := False\<rparr>) s))"

definition load_failed :: "bool \<Rightarrow> supervisor \<Rightarrow> supervisor" where
  "load_failed leaving s =
    (if leaving \<and> wk_state (sv_slot s) = WorkerDown \<and> occupancy (sv_slot s) = 0
     then on_slot (\<lambda>k. k\<lparr>wk_unloading := True\<rparr>) s else s)"

end
