(* ===== verification/Supervisor_Run.thy ===== *)
theory Supervisor_Run
  imports Supervisor
begin

text \<open>
  The threads of the supervisor as a step relation: each step is one section under the mutex, or one
  step of a thread without it. A worker is named by the number of its spawn. The invariant of the slot,
  and what becomes of the channel of every submitted request.
\<close>

subsection \<open>Threads\<close>

datatype reader_phase = Reading | Closing | ReaderDone

text \<open>
  Beside the shared state: the readers; the threads inside \<open>spawn_worker\<close>, each with the generation it
  starts and the reader it joins first; the workers spawned and not yet installed; the holds, the
  threads between the two sections of \<open>maybe_finish_unload\<close>, the loads that left an unload; the reader
  that a thread joins while it has the mutex; how many generations have begun; the next channel, and the
  channels of submitted requests and of those that their own handler took back. The steps allow more than
  the handlers do where that is simpler: \<open>abandoned\<close> takes back whatever channel is registered for any
  request id at any time, although only the handler of that id calls it.
\<close>

record system =
  sy_sup :: supervisor
  sy_readers :: "nat \<Rightarrow> (u64 \<times> reader_phase) option"
  sy_spawning :: "(u64 \<times> nat option) list"
  sy_live :: "(u64 \<times> nat) list"
  sy_next :: nat
  sy_holds :: nat
  sy_stopping :: nat
  sy_leaving :: nat
  sy_joining :: "nat option"
  sy_gens :: nat
  sy_chan :: nat
  sy_submitted :: "nat set"
  sy_withdrawn :: "nat set"

abbreviation sy_slot :: "system \<Rightarrow> worker_slot" where
  "sy_slot s \<equiv> sv_slot (sy_sup s)"

definition lock_free :: "system \<Rightarrow> bool" where
  "lock_free s \<longleftrightarrow> sy_joining s = None"

definition joined :: "system \<Rightarrow> nat option \<Rightarrow> bool" where
  "joined s old = (case old of None \<Rightarrow> True | Some n \<Rightarrow> (\<exists>g. sy_readers s n = Some (g, ReaderDone)))"

definition metrics_start :: host_metrics where
  "metrics_start = \<lparr>hm_restarts = 0, hm_snapshot = None, hm_rejected_contract = 0, hm_rejected_memory = 0\<rparr>"

definition sup_start :: supervisor where
  "sup_start = \<lparr>sv_slot = slot_start, sv_metrics = metrics_start, sv_events = [], sv_acks = [], sv_scrapes = [],
     sv_wire = []\<rparr>"

definition system_start :: system where
  "system_start = \<lparr>sy_sup = sup_start, sy_readers = Map.empty, sy_spawning = [], sy_live = [], sy_next = 0,
     sy_holds = 0, sy_stopping = 0, sy_leaving = 0, sy_joining = None, sy_gens = 0, sy_chan = 0,
     sy_submitted = {}, sy_withdrawn = {}\<rparr>"

inductive sup_step :: "system \<Rightarrow> system \<Rightarrow> bool" where
  ensure_done: "\<lbrakk>lock_free s; ensure_enter io (sy_sup s) = (EnsureDone r, u)\<rbrakk> \<Longrightarrow>
    sup_step s (s\<lparr>sy_sup := u\<rparr>)"
| ensure_spawn: "\<lbrakk>lock_free s; ensure_enter io (sy_sup s) = (EnsureSpawn g old, u)\<rbrakk> \<Longrightarrow>
    sup_step s (s\<lparr>sy_sup := u, sy_spawning := (g, old) # sy_spawning s, sy_gens := Suc (sy_gens s)\<rparr>)"
| spawn_ok: "\<lbrakk>(g, old) \<in> set (sy_spawning s); joined s old\<rbrakk> \<Longrightarrow>
    sup_step s (s\<lparr>sy_spawning := remove1 (g, old) (sy_spawning s), sy_live := (g, sy_next s) # sy_live s,
      sy_readers := (sy_readers s)(sy_next s \<mapsto> (g, Reading)), sy_next := Suc (sy_next s)\<rparr>)"
| spawn_failed: "\<lbrakk>lock_free s; (g, old) \<in> set (sy_spawning s); joined s old\<rbrakk> \<Longrightarrow>
    sup_step s (s\<lparr>sy_sup := ensure_failed g (sy_sup s), sy_spawning := remove1 (g, old) (sy_spawning s)\<rparr>)"
| install: "\<lbrakk>lock_free s; (g, n) \<in> set (sy_live s); ensure_install io g n (sy_sup s) = (Some r, u)\<rbrakk> \<Longrightarrow>
    sup_step s (s\<lparr>sy_sup := u, sy_live := remove1 (g, n) (sy_live s)\<rparr>)"
| install_stale: "\<lbrakk>lock_free s; (g, n) \<in> set (sy_live s); ensure_install io g n (sy_sup s) = (None, u)\<rbrakk> \<Longrightarrow>
    sup_step s (s\<lparr>sy_sup := u, sy_live := remove1 (g, n) (sy_live s), sy_joining := Some n\<rparr>)"
| join_done: "\<lbrakk>sy_joining s = Some n; joined s (Some n)\<rbrakk> \<Longrightarrow> sup_step s (s\<lparr>sy_joining := None\<rparr>)"
| read_message: "\<lbrakk>lock_free s; sy_readers s n = Some (g, Reading); dispatch g v (sy_sup s) = (r, u)\<rbrakk> \<Longrightarrow>
    sup_step s (s\<lparr>sy_sup := u,
      sy_readers := (sy_readers s)(n \<mapsto> (g, case r of Inl _ \<Rightarrow> Closing | Inr _ \<Rightarrow> Reading))\<rparr>)"
| read_end: "sy_readers s n = Some (g, Reading) \<Longrightarrow>
    sup_step s (s\<lparr>sy_readers := (sy_readers s)(n \<mapsto> (g, Closing))\<rparr>)"
| reader_exit: "\<lbrakk>lock_free s; sy_readers s n = Some (g, Closing)\<rbrakk> \<Longrightarrow>
    sup_step s (s\<lparr>sy_sup := mark_lost g (sy_sup s), sy_readers := (sy_readers s)(n \<mapsto> (g, ReaderDone))\<rparr>)"
| drain: "lock_free s \<Longrightarrow> sup_step s (s\<lparr>sy_sup := snd (begin_drain (sy_sup s))\<rparr>)"
| unload: "lock_free s \<Longrightarrow> sup_step s (s\<lparr>sy_sup := snd (begin_unload (sy_sup s))\<rparr>)"
| unload_check: "\<lbrakk>lock_free s; should_stop (sy_slot s)\<rbrakk> \<Longrightarrow> sup_step s (s\<lparr>sy_stopping := Suc (sy_stopping s)\<rparr>)"
| unload_stop: "\<lbrakk>lock_free s; 0 < sy_stopping s\<rbrakk> \<Longrightarrow>
    sup_step s (s\<lparr>sy_sup := stop_worker io (sy_sup s), sy_stopping := sy_stopping s - 1, sy_gens := Suc (sy_gens s)\<rparr>)"
| shutdown: "lock_free s \<Longrightarrow> sup_step s (s\<lparr>sy_sup := stop_worker io (sy_sup s), sy_gens := Suc (sy_gens s)\<rparr>)"
| load: "\<lbrakk>lock_free s; load_locked (sy_sup s) = (Inr leaving, u)\<rbrakk> \<Longrightarrow>
    sup_step s (s\<lparr>sy_sup := u, sy_leaving := sy_leaving s + of_bool leaving\<rparr>)"
| load_undo: "\<lbrakk>lock_free s; 0 < sy_leaving s\<rbrakk> \<Longrightarrow>
    sup_step s (s\<lparr>sy_sup := load_failed True (sy_sup s), sy_leaving := sy_leaving s - 1\<rparr>)"
| load_done: "0 < sy_leaving s \<Longrightarrow> sup_step s (s\<lparr>sy_leaving := sy_leaving s - 1\<rparr>)"
| hold: "\<lbrakk>lock_free s; sy_holds s < max_handlers; reserve (sy_sup s) = (Inr x, u)\<rbrakk> \<Longrightarrow>
    sup_step s (s\<lparr>sy_sup := u, sy_holds := Suc (sy_holds s)\<rparr>)"
| release_hold: "\<lbrakk>lock_free s; 0 < sy_holds s\<rbrakk> \<Longrightarrow>
    sup_step s (s\<lparr>sy_sup := drop_hold (sy_sup s), sy_holds := sy_holds s - 1\<rparr>)"
| submit: "\<lbrakk>lock_free s; 0 < sy_holds s;
      submit_locked io rid (Submit rid prompt sampler class) (sy_chan s) (sy_sup s) = ((r, disarmed), u)\<rbrakk> \<Longrightarrow>
    sup_step s (s\<lparr>sy_sup := u, sy_chan := Suc (sy_chan s), sy_holds := sy_holds s - of_bool disarmed,
      sy_submitted := (if disarmed then insert (sy_chan s) (sy_submitted s) else sy_submitted s),
      sy_withdrawn := (if disarmed \<and> isl r then insert (sy_chan s) (sy_withdrawn s) else sy_withdrawn s)\<rparr>)"
| abandoned: "lock_free s \<Longrightarrow>
    sup_step s (s\<lparr>sy_sup := abandon io rid (sy_sup s),
      sy_withdrawn := sy_withdrawn s \<union> set_option (bt_get (wk_completion (sy_slot s)) rid)\<rparr>)"
| cancelled: "\<lbrakk>lock_free s; cancel_locked io rid (sy_chan s) (sy_sup s) = (r, u)\<rbrakk> \<Longrightarrow>
    sup_step s (s\<lparr>sy_sup := u, sy_chan := Suc (sy_chan s)\<rparr>)"
| scrape: "\<lbrakk>lock_free s; scrape_begin io (sy_chan s) (sy_sup s) = (r, u)\<rbrakk> \<Longrightarrow>
    sup_step s (s\<lparr>sy_sup := u, sy_chan := Suc (sy_chan s)\<rparr>)"
| scraped: "lock_free s \<Longrightarrow> sup_step s (s\<lparr>sy_sup := snd (scrape_end reply (sy_sup s))\<rparr>)"
| released: "\<lbrakk>lock_free s; release_forward io (sy_sup s) = (r, u)\<rbrakk> \<Longrightarrow> sup_step s (s\<lparr>sy_sup := u\<rparr>)"

inductive sup_reachable :: "system \<Rightarrow> bool" where
  start: "sup_reachable system_start"
| step: "\<lbrakk>sup_reachable s; sup_step s s'\<rbrakk> \<Longrightarrow> sup_reachable s'"

end
