(* ===== verification/Supervisor_Proofs.thy ===== *)
theory Supervisor_Proofs
  imports Supervisor_Run "HOL-Library.Multiset"
begin

text \<open>The invariant of the slot and of the channels, section by section and then for every reachable state.\<close>

subsection \<open>What a write leaves alone\<close>

lemma write_stream_frame: "\<exists>w. snd (write_worker_stream io n m s) = s\<lparr>sv_wire := w\<rparr>"
  by (auto simp: write_worker_stream_def write_frame_def op_bind_def op_lift_def op_seq_def op_throw_def
      op_return_def Let_def split: sum.splits option.splits intro: exI [of _ "sv_wire s"])

lemma write_worker_frame: "write_worker io m s = (r, s') \<Longrightarrow> \<exists>w. s' = s\<lparr>sv_wire := w\<rparr>"
  using write_stream_frame [of io _ m s]
  by (auto simp: write_worker_def split: option.splits dest!: arg_cong [of _ "(_, _)" snd] intro: exI [of _ "sv_wire s"])

lemma write_worker_same [simp]:
  "sv_slot (snd (write_worker io m s)) = sv_slot s" "sv_events (snd (write_worker io m s)) = sv_events s"
  using write_worker_frame [of io m s, OF prod.collapse [symmetric]] by auto

lemma write_stream_same [simp]:
  "sv_slot (snd (write_worker_stream io n m s)) = sv_slot s"
  "sv_events (snd (write_worker_stream io n m s)) = sv_events s"
  using write_stream_frame [of io n m s] by auto

lemma on_slot_simps [simp]:
  "sv_slot (on_slot f s) = f (sv_slot s)" "sv_events (on_slot f s) = sv_events s"
  by (simp_all add: on_slot_def)

lemma send_simps [simp]:
  "sv_slot (send_event c e s) = sv_slot s" "sv_events (send_event c e s) = sv_events s @ [(c, e)]"
  "sv_slot (send_ack c a s) = sv_slot s" "sv_events (send_ack c a s) = sv_events s"
  "sv_slot (send_stats c x s) = sv_slot s" "sv_events (send_stats c x s) = sv_events s"
  by (simp_all add: send_event_def send_ack_def send_stats_def)

text \<open>The slot without the two flags of the release message.\<close>

definition slot_core :: "worker_slot \<Rightarrow> worker_slot" where
  "slot_core k = k\<lparr>wk_released := False, wk_release_sent := False\<rparr>"

lemma slot_core_simps [simp]:
  "slot_core (k\<lparr>wk_released := a\<rparr>) = slot_core k" "slot_core (k\<lparr>wk_release_sent := a\<rparr>) = slot_core k"
  by (simp_all add: slot_core_def)

lemma slot_core_fields:
  assumes "slot_core k = slot_core k'"
  shows "wk_completion k = wk_completion k'" and "wk_cancel k = wk_cancel k'" and "wk_stats k = wk_stats k'"
    and "wk_reserved k = wk_reserved k'" and "wk_state k = wk_state k'" and "wk_unloading k = wk_unloading k'"
    and "wk_draining k = wk_draining k'" and "wk_generation k = wk_generation k'"
    and "wk_child k = wk_child k'" and "wk_writer k = wk_writer k'" and "wk_reader k = wk_reader k'"
    and "wk_dir k = wk_dir k'"
  using assms by (cases k; cases k'; simp add: slot_core_def)+

lemma release_needed_same [simp]:
  "sv_events (snd (send_release_if_needed io s)) = sv_events s"
  "slot_core (sv_slot (snd (send_release_if_needed io s))) = slot_core (sv_slot s)"
  by (auto simp: send_release_if_needed_def op_seq_def op_bind_def op_modify_def split: prod.splits sum.splits
      dest!: write_worker_frame)

lemma release_forward_same [simp]:
  "sv_events (snd (release_forward io s)) = sv_events s"
  "slot_core (sv_slot (snd (release_forward io s))) = slot_core (sv_slot s)"
  by (auto simp: release_forward_def op_seq_def op_bind_def op_modify_def Let_def split: prod.splits sum.splits
      dest!: write_worker_frame)

lemma fail_waiters_simps [simp]:
  "sv_slot (fail_waiters s) = (sv_slot s)\<lparr>wk_stats := None, wk_completion := [], wk_cancel := []\<rparr>"
  "sv_events (fail_waiters s) =
    sv_events s @ map (\<lambda>c. (c, EventFinished OutcomeLost)) (bt_values (wk_completion (sv_slot s)))"
  by (simp_all add: fail_waiters_def)

subsection \<open>The slot\<close>

definition slot_inv :: "worker_slot \<Rightarrow> bool" where
  "slot_inv k \<longleftrightarrow> bt_ok (wk_completion k) \<and> bt_ok (wk_cancel k) \<and> length (wk_completion k) \<le> max_inflight \<and>
    (if wk_state k = WorkerReady
     then (\<exists>n. wk_child k = Some n \<and> wk_writer k = Some n \<and> wk_reader k = Some n \<and> wk_dir k = Some n)
     else wk_completion k = [] \<and> wk_cancel k = [] \<and> wk_stats k = None \<and>
       wk_child k = None \<and> wk_writer k = None \<and> wk_dir k = None)"

lemma length_bt_insert_le: "length (bt_insert k v m) \<le> Suc (length m)"
  by (induction m) auto

lemma length_bt_remove_le: "length (bt_remove k m) \<le> length m"
  by (simp add: bt_remove_def)

lemma slot_inv_flags [simp]:
  "slot_inv (k\<lparr>wk_released := a\<rparr>) = slot_inv k" "slot_inv (k\<lparr>wk_release_sent := a\<rparr>) = slot_inv k"
  "slot_inv (k\<lparr>wk_draining := a\<rparr>) = slot_inv k" "slot_inv (k\<lparr>wk_unloading := a\<rparr>) = slot_inv k"
  "slot_inv (k\<lparr>wk_reserved := r\<rparr>) = slot_inv k"
  by (simp_all add: slot_inv_def)

lemma slot_inv_core: "slot_core k = slot_core k' \<Longrightarrow> slot_inv k = slot_inv k'"
  by (simp add: slot_inv_def slot_core_fields [of k k'])

lemma bt_remove_Nil [simp]: "bt_remove k [] = []"
  by (simp add: bt_remove_def)

lemma slot_inv_remove [simp]:
  "slot_inv k \<Longrightarrow> slot_inv (k\<lparr>wk_completion := bt_remove rid (wk_completion k)\<rparr>)"
  "slot_inv k \<Longrightarrow> slot_inv (k\<lparr>wk_cancel := bt_remove rid (wk_cancel k)\<rparr>)"
  "slot_inv k \<Longrightarrow> slot_inv (k\<lparr>wk_stats := None\<rparr>)"
  using length_bt_remove_le [of rid "wk_completion k"] by (auto simp: slot_inv_def split: if_splits)

lemma slot_inv_deliver: "slot_inv (sv_slot s) \<Longrightarrow> slot_inv (sv_slot (deliver m s))"
  by (cases m) (auto split: option.splits)

lemma slot_inv_lost [simp]:
  "slot_inv (k\<lparr>wk_child := None, wk_writer := None, wk_dir := None, wk_state := WorkerDown,
     wk_stats := None, wk_completion := [], wk_cancel := []\<rparr>)"
  by (simp add: slot_inv_def)

lemma slot_inv_mark_lost: "slot_inv (sv_slot s) \<Longrightarrow> slot_inv (sv_slot (mark_lost g s))"
  by (simp add: mark_lost_def Let_def slot_inv_def)

lemma slot_inv_stop: "slot_inv (sv_slot (stop_worker io s))"
  by (simp add: stop_worker_def Let_def slot_inv_def split: option.splits)

lemma slot_inv_enter: "slot_inv (sv_slot s) \<Longrightarrow> ensure_enter io s = (r, u) \<Longrightarrow> slot_inv (sv_slot u)"
  using slot_inv_core [OF release_needed_same(2), of io s]
  by (auto simp: ensure_enter_def Let_def split: worker_state.splits prod.splits if_splits) (simp_all add: slot_inv_def)

lemma slot_inv_install:
  assumes "slot_inv (sv_slot s)" and "ensure_install io g n s = (r, u)"
  shows "slot_inv (sv_slot u)"
proof (cases "wk_generation (sv_slot s) = g")
  case True
  let ?s = "on_slot (\<lambda>k. k\<lparr>wk_child := Some n, wk_writer := Some n, wk_reader := Some n, wk_dir := Some n,
            wk_stats := None, wk_release_sent := False, wk_state := WorkerReady\<rparr>) s"
  have "slot_inv (sv_slot ?s)" using assms(1) by (auto simp: slot_inv_def split: if_splits)
  moreover have "u = snd (send_release_if_needed io ?s)"
    using assms(2) True by (auto simp: ensure_install_def Let_def split: prod.splits)
  ultimately show ?thesis using slot_inv_core [OF release_needed_same(2), of io ?s] by simp
qed (use assms in \<open>auto simp: ensure_install_def\<close>)

lemma slot_inv_failed: "slot_inv (sv_slot s) \<Longrightarrow> wk_state (sv_slot s) \<noteq> WorkerReady \<Longrightarrow> slot_inv (sv_slot (ensure_failed g s))"
  by (simp add: ensure_failed_def slot_inv_def)

lemma slot_inv_insert:
  assumes "slot_inv k" and "wk_state k = WorkerReady" and "length (wk_completion k) < max_inflight"
  shows "slot_inv (k\<lparr>wk_completion := bt_insert rid c (wk_completion k), wk_reserved := r\<rparr>)"
  using assms length_bt_insert_le [of rid c "wk_completion k"] by (simp add: slot_inv_def)

lemma slot_inv_submit:
  assumes "slot_inv (sv_slot s)" and "submit_locked io rid m c s = (r, u)"
  shows "slot_inv (sv_slot u)"
proof -
  let ?s = "on_slot (\<lambda>k. k\<lparr>wk_completion := bt_insert rid c (wk_completion k), wk_reserved := wk_reserved k - 1\<rparr>) s"
  have ins: "slot_inv (sv_slot ?s)" if "is_ready s" "length (wk_completion (sv_slot s)) < max_inflight"
    using that slot_inv_insert [OF assms(1)] by (simp add: is_ready_def)
  have "slot_inv (sv_slot u)" if "is_ready s" "length (wk_completion (sv_slot s)) < max_inflight"
      "(case write_worker io m ?s of
        (Inl e, s) \<Rightarrow> ((Inl e, True), on_slot (\<lambda>k. k\<lparr>wk_completion := bt_remove rid (wk_completion k)\<rparr>) s)
      | (Inr _, s) \<Rightarrow> ((Inr (), True), s)) = (r, u)"
    using that(3) slot_inv_remove(1) [OF ins [OF that(1,2)], of rid] ins [OF that(1,2)]
    by (auto split: prod.splits sum.splits dest!: write_worker_frame)
  then show ?thesis
    using assms by (auto simp: submit_locked_def Let_def not_le split: if_splits)
qed

lemma slot_inv_abandon: "slot_inv (sv_slot s) \<Longrightarrow> slot_inv (sv_slot (abandon io rid s))"
  by (simp add: abandon_def)

lemma slot_inv_cancel:
  assumes "slot_inv (sv_slot s)" and "cancel_locked io rid c s = (r, u)"
  shows "slot_inv (sv_slot u)"
proof -
  let ?k = "(sv_slot s)\<lparr>wk_cancel := bt_insert rid c (wk_cancel (sv_slot s))\<rparr>"
  have "slot_inv ?k" if "bt_get (wk_completion (sv_slot s)) rid \<noteq> None"
    using that assms(1) by (auto simp: slot_inv_def split: if_splits)
  moreover from slot_inv_remove(2) [OF this, of rid]
  have "slot_inv (?k\<lparr>wk_cancel := bt_remove rid (wk_cancel ?k)\<rparr>)" if "bt_get (wk_completion (sv_slot s)) rid \<noteq> None"
    using that by simp
  ultimately show ?thesis
    using assms by (auto simp: cancel_locked_def Let_def split: if_splits prod.splits sum.splits dest!: write_worker_frame)
qed

lemma slot_inv_scrape_begin:
  assumes "slot_inv (sv_slot s)" and "scrape_begin io c s = (r, u)"
  shows "slot_inv (sv_slot u)"
proof -
  have "slot_inv ((sv_slot s)\<lparr>wk_stats := Some c\<rparr>)" if "is_ready s"
    using that assms(1) by (simp add: slot_inv_def is_ready_def)
  then show ?thesis
    using assms slot_inv_remove(3) [OF assms(1)]
    by (auto simp: scrape_begin_def Let_def split: if_splits prod.splits sum.splits dest!: write_worker_frame)
qed

lemma slot_inv_scrape_end: "slot_inv (sv_slot s) \<Longrightarrow> slot_inv (sv_slot (snd (scrape_end reply s)))"
  by (simp add: scrape_end_def split: option.splits)

subsection \<open>Generations and holds\<close>

definition starting :: "system \<Rightarrow> u64 list" where
  "starting s = map fst (sy_spawning s) @ map fst (sy_live s)"

text \<open>
  A generation is started by one thread only, and while it is, the slot is not ready. This needs that the
  counter of generations has not come round.
\<close>

definition gens_inv :: "system \<Rightarrow> bool" where
  "gens_inv s \<longleftrightarrow> unat (wk_generation (sy_slot s)) = sy_gens s \<and> (\<forall>g \<in> set (starting s). unat g \<le> sy_gens s) \<and>
    count_list (starting s) (wk_generation (sy_slot s)) \<le> of_bool (wk_state (sy_slot s) \<noteq> WorkerReady)"

definition holds_inv :: "system \<Rightarrow> bool" where
  "holds_inv s \<longleftrightarrow> wk_reserved (sy_slot s) = sy_holds s \<and> sy_holds s \<le> max_handlers"

lemma count_list_remove1: "count_list (remove1 x xs) y = count_list xs y - of_bool (x = y \<and> x \<in> set xs)"
  by (induction xs) auto

lemma count_list_map_remove1:
  "x \<in> set xs \<Longrightarrow> count_list (map f (remove1 x xs)) y = count_list (map f xs) y - of_bool (f x = y)"
proof (induction xs)
  case (Cons a xs)
  then show ?case using count_list_0_iff [of "map f xs" y] by (cases "a = x") auto
qed simp

lemma next_generation:
  assumes "Suc (unat g) < 2 ^ 64" shows "unat (g + 1 :: u64) = Suc (unat g)"
  using assms by (simp add: unat_word_ariths unat_of_nat)

subsection \<open>The effect of each section\<close>

lemma release_needed_eq:
  "send_release_if_needed io s = (r, u) \<Longrightarrow> slot_core (sv_slot u) = slot_core (sv_slot s) \<and> sv_events u = sv_events s"
  using release_needed_same [of io s] by simp

lemma enter_done:
  "ensure_enter io s = (EnsureDone r, u) \<Longrightarrow>
    slot_core (sv_slot u) = slot_core (sv_slot s) \<and> sv_events u = sv_events s"
  by (auto simp: ensure_enter_def Let_def split: worker_state.splits prod.splits if_splits
      dest: release_needed_eq)

lemma enter_spawn:
  "ensure_enter io s = (EnsureSpawn g old, u) \<Longrightarrow>
    wk_state (sv_slot s) = WorkerDown \<and> \<not> wk_unloading (sv_slot s) \<and> g = wk_generation (sv_slot s) + 1 \<and>
    u = on_slot (\<lambda>k. k\<lparr>wk_state := WorkerStarting, wk_generation := g, wk_reader := None\<rparr>) s"
  by (auto simp: ensure_enter_def Let_def on_slot_def split: worker_state.splits prod.splits if_splits)

lemma install_done:
  assumes "ensure_install io g n s = (Some r, u)"
  shows "wk_generation (sv_slot s) = g" and "sv_events u = sv_events s"
    and "slot_core (sv_slot u) = slot_core ((sv_slot s)\<lparr>wk_child := Some n, wk_writer := Some n, wk_reader := Some n,
      wk_dir := Some n, wk_stats := None, wk_state := WorkerReady\<rparr>)"
proof -
  let ?s = "on_slot (\<lambda>k. k\<lparr>wk_child := Some n, wk_writer := Some n, wk_reader := Some n, wk_dir := Some n,
            wk_stats := None, wk_release_sent := False, wk_state := WorkerReady\<rparr>) s"
  have u: "u = snd (send_release_if_needed io ?s)" and g: "wk_generation (sv_slot s) = g"
    using assms by (auto simp: ensure_install_def Let_def split: prod.splits if_splits)
  show "wk_generation (sv_slot s) = g" by (rule g)
  show "sv_events u = sv_events s" by (simp add: u)
  show "slot_core (sv_slot u) = slot_core ((sv_slot s)\<lparr>wk_child := Some n, wk_writer := Some n, wk_reader := Some n,
      wk_dir := Some n, wk_stats := None, wk_state := WorkerReady\<rparr>)"
    unfolding u release_needed_same by (simp add: slot_core_def)
qed

lemma install_stale_same: "ensure_install io g n s = (None, u) \<Longrightarrow> u = s \<and> wk_generation (sv_slot s) \<noteq> g"
  by (auto simp: ensure_install_def Let_def split: prod.splits if_splits)

lemma submit_effect:
  assumes "submit_locked io rid m c s = ((r, d), u)"
  shows "sv_events u = sv_events s"
    and "if d then is_ready s \<and> bt_get (wk_completion (sv_slot s)) rid = None \<and>
        length (wk_completion (sv_slot s)) < max_inflight \<and>
        sv_slot u = (sv_slot s)\<lparr>wk_completion := (if isl r then bt_remove rid else id)
            (bt_insert rid c (wk_completion (sv_slot s))), wk_reserved := wk_reserved (sv_slot s) - 1\<rparr>
      else isl r \<and> sv_slot u = sv_slot s"
proof -
  let ?k = "sv_slot s"
  let ?s = "on_slot (\<lambda>k. k\<lparr>wk_completion := bt_insert rid c (wk_completion k), wk_reserved := wk_reserved k - 1\<rparr>) s"
  let ?goal = "sv_events u = sv_events s \<and> (if d then is_ready s \<and> bt_get (wk_completion ?k) rid = None \<and>
        length (wk_completion ?k) < max_inflight \<and>
        sv_slot u = ?k\<lparr>wk_completion := (if isl r then bt_remove rid else id)
            (bt_insert rid c (wk_completion ?k)), wk_reserved := wk_reserved ?k - 1\<rparr>
      else isl r \<and> sv_slot u = ?k)"
  obtain x s' where s': "write_worker io m ?s = (x, s')" by (cases "write_worker io m ?s")
  then obtain w where w: "write_worker io m ?s = (x, ?s\<lparr>sv_wire := w\<rparr>)"
    using write_worker_frame [OF s'] by blast
  have ?goal
  proof (cases "is_ready s \<and> bt_get (wk_completion ?k) rid = None \<and> length (wk_completion ?k) < max_inflight")
    case True
    then have "((r, d), u) = (case x of
          Inl e \<Rightarrow> ((Inl e, True), on_slot (\<lambda>k. k\<lparr>wk_completion := bt_remove rid (wk_completion k)\<rparr>) (?s\<lparr>sv_wire := w\<rparr>))
        | Inr _ \<Rightarrow> ((Inr (), True), ?s\<lparr>sv_wire := w\<rparr>))"
      unfolding assms [symmetric] submit_locked_def Let_def
      by (simp add: w del: on_slot_simps One_nat_def)
    then show ?thesis using True by (cases x) auto
  next
    case False
    then show ?thesis using assms by (auto simp: submit_locked_def Let_def not_le split: if_splits)
  qed
  then show "sv_events u = sv_events s"
    and "if d then is_ready s \<and> bt_get (wk_completion ?k) rid = None \<and>
        length (wk_completion ?k) < max_inflight \<and>
        sv_slot u = ?k\<lparr>wk_completion := (if isl r then bt_remove rid else id)
            (bt_insert rid c (wk_completion ?k)), wk_reserved := wk_reserved ?k - 1\<rparr>
      else isl r \<and> sv_slot u = ?k" by simp_all
qed

lemma abandon_effect:
  "sv_events (abandon io rid s) = sv_events s"
  "sv_slot (abandon io rid s) = (sv_slot s)\<lparr>wk_completion := bt_remove rid (wk_completion (sv_slot s))\<rparr>"
  by (simp_all add: abandon_def)

lemma cancel_effect:
  "cancel_locked io rid c s = (r, u) \<Longrightarrow>
    sv_events u = sv_events s \<and> (\<exists>m. sv_slot u = (sv_slot s)\<lparr>wk_cancel := m\<rparr>)"
  by (auto simp: cancel_locked_def Let_def split: if_splits prod.splits sum.splits dest!: write_worker_frame
      intro: exI [of _ "wk_cancel (sv_slot s)"])

lemma scrape_begin_effect:
  "scrape_begin io c s = (r, u) \<Longrightarrow>
    sv_events u = sv_events s \<and> (\<exists>m. sv_slot u = (sv_slot s)\<lparr>wk_stats := m\<rparr>)"
  by (auto simp: scrape_begin_def Let_def split: if_splits prod.splits sum.splits dest!: write_worker_frame
      intro: exI [of _ "wk_stats (sv_slot s)"])

lemma scrape_end_effect:
  "sv_events (snd (scrape_end reply s)) = sv_events s"
  "\<exists>m. sv_slot (snd (scrape_end reply s)) = (sv_slot s)\<lparr>wk_stats := m\<rparr>"
  by (auto simp: scrape_end_def split: option.splits intro: exI [of _ "wk_stats (sv_slot s)"])

lemma flag_effects [simp]:
  "sv_events (snd (begin_drain s)) = sv_events s"
  "sv_slot (snd (begin_drain s)) = (sv_slot s)\<lparr>wk_draining := True\<rparr>"
  "sv_events (snd (begin_unload s)) = sv_events s"
  "sv_slot (snd (begin_unload s)) = (sv_slot s)\<lparr>wk_unloading := True\<rparr>"
  by (simp_all add: begin_drain_def begin_unload_def Let_def)

lemma load_effect:
  "load_locked s = (Inr leaving, u) \<Longrightarrow> u = on_slot (\<lambda>k. k\<lparr>wk_unloading := False\<rparr>) s \<and>
    \<not> is_ready s \<and> (wk_unloading (sv_slot s) \<longrightarrow> occupancy (sv_slot s) = 0)"
  by (auto simp: load_locked_def Let_def is_ready_def split: if_splits)

lemma load_failed_effect:
  "sv_events (load_failed leaving s) = sv_events s"
  "\<exists>b. sv_slot (load_failed leaving s) = (sv_slot s)\<lparr>wk_unloading := b\<rparr>"
  by (auto simp: load_failed_def intro: exI [of _ "wk_unloading (sv_slot s)"])

lemma hold_effect:
  "reserve s = (Inr x, u) \<Longrightarrow> \<not> wk_unloading (sv_slot s) \<and> \<not> wk_draining (sv_slot s) \<and>
    u = on_slot (\<lambda>k. k\<lparr>wk_reserved := saturating_add_u64 (wk_reserved k) 1\<rparr>) s"
  by (auto simp: reserve_def split: if_splits)

lemma dispatch_effect:
  "dispatch g v s = (r, u) \<Longrightarrow> u = s \<or> wk_generation (sv_slot s) = g \<and> (\<exists>m. u = deliver m s)"
  by (auto simp: dispatch_def split: sum.splits if_splits)

lemma deliver_frame [simp]:
  "wk_generation (sv_slot (deliver m s)) = wk_generation (sv_slot s)"
  "wk_state (sv_slot (deliver m s)) = wk_state (sv_slot s)"
  "wk_reserved (sv_slot (deliver m s)) = wk_reserved (sv_slot s)"
  "wk_unloading (sv_slot (deliver m s)) = wk_unloading (sv_slot s)"
  "wk_draining (sv_slot (deliver m s)) = wk_draining (sv_slot s)"
  by (cases m; simp split: option.split)+

lemma mark_lost_frame [simp]:
  "wk_generation (sv_slot (mark_lost g s)) = wk_generation (sv_slot s)"
  "wk_state (sv_slot (mark_lost g s)) = (if wk_generation (sv_slot s) = g then WorkerDown else wk_state (sv_slot s))"
  "wk_reserved (sv_slot (mark_lost g s)) = wk_reserved (sv_slot s)"
  "wk_unloading (sv_slot (mark_lost g s)) = wk_unloading (sv_slot s)"
  "wk_draining (sv_slot (mark_lost g s)) = wk_draining (sv_slot s)"
  by (simp_all add: mark_lost_def Let_def)

lemma stop_frame [simp]:
  "wk_generation (sv_slot (stop_worker io s)) = wk_generation (sv_slot s) + 1"
  "wk_state (sv_slot (stop_worker io s)) = WorkerDown"
  "wk_reserved (sv_slot (stop_worker io s)) = wk_reserved (sv_slot s)"
  "wk_unloading (sv_slot (stop_worker io s)) = wk_unloading (sv_slot s)"
  "wk_draining (sv_slot (stop_worker io s)) = wk_draining (sv_slot s)"
  by (simp_all add: stop_worker_def Let_def split: option.split)

lemma ensure_failed_effect:
  "sv_events (ensure_failed g s) = sv_events s"
  "sv_slot (ensure_failed g s) =
    (if wk_generation (sv_slot s) = g then (sv_slot s)\<lparr>wk_state := WorkerDown\<rparr> else sv_slot s)"
  by (simp_all add: ensure_failed_def)

lemma drop_hold_effect [simp]:
  "sv_events (drop_hold s) = sv_events s"
  "sv_slot (drop_hold s) = (sv_slot s)\<lparr>wk_reserved := wk_reserved (sv_slot s) - 1\<rparr>"
  by (simp_all add: drop_hold_def)

subsection \<open>Every reachable state\<close>

lemma slot_inv_cong:
  "wk_completion k = wk_completion k' \<Longrightarrow> wk_cancel k = wk_cancel k' \<Longrightarrow> wk_stats k = wk_stats k' \<Longrightarrow>
   wk_state k = wk_state k' \<Longrightarrow> wk_child k = wk_child k' \<Longrightarrow> wk_writer k = wk_writer k' \<Longrightarrow>
   wk_reader k = wk_reader k' \<Longrightarrow> wk_dir k = wk_dir k' \<Longrightarrow> slot_inv k = slot_inv k'"
  by (simp add: slot_inv_def)

lemma count_starting_spawn:
  assumes "(g, old) \<in> set (sy_spawning s)"
  shows "count_list (map fst (remove1 (g, old) (sy_spawning s)) @ map fst (sy_live s)) h =
    count_list (starting s) h - of_bool (g = h)"
    and "g \<in> set (starting s)"
  using assms count_list_0_iff [of "map fst (sy_spawning s)" h]
  by (force simp: starting_def count_list_map_remove1)+

lemma count_starting_live:
  assumes "(g, n) \<in> set (sy_live s)"
  shows "count_list (map fst (sy_spawning s) @ map fst (remove1 (g, n) (sy_live s))) h =
    count_list (starting s) h - of_bool (g = h)"
    and "g \<in> set (starting s)"
  using assms count_list_0_iff [of "map fst (sy_live s)" h]
  by (force simp: starting_def count_list_map_remove1)+

lemma starting_not_ready:
  assumes "gens_inv s" and "wk_generation (sy_slot s) \<in> set (starting s)"
  shows "wk_state (sy_slot s) \<noteq> WorkerReady" and "count_list (starting s) (wk_generation (sy_slot s)) = 1"
  using assms count_list_0_iff [of "starting s" "wk_generation (sy_slot s)"]
  by (auto simp: gens_inv_def of_bool_def split: if_splits)

definition sup_inv :: "system \<Rightarrow> bool" where
  "sup_inv s \<longleftrightarrow> slot_inv (sy_slot s) \<and> gens_inv s \<and> holds_inv s"

lemma sup_inv_slot: "sup_inv s \<Longrightarrow> slot_inv (sy_slot s)"
  by (simp add: sup_inv_def)

text \<open>A step that moves no spawn, generation or hold keeps the two counts.\<close>

lemma sup_inv_frame:
  assumes "sup_inv s" and "slot_inv (sy_slot s')"
    and "wk_generation (sy_slot s') = wk_generation (sy_slot s)" and "wk_reserved (sy_slot s') = wk_reserved (sy_slot s)"
    and "wk_state (sy_slot s') = wk_state (sy_slot s) \<or> wk_state (sy_slot s') \<noteq> WorkerReady"
    and "mset (starting s') \<subseteq># mset (starting s)" and "sy_gens s' = sy_gens s" and "sy_holds s' = sy_holds s"
  shows "sup_inv s'"
proof -
  have "set (starting s') \<subseteq> set (starting s)" using assms(6) set_mset_mono by fastforce
  moreover have "count_list (starting s') g \<le> count_list (starting s) g" for g
    using mset_subset_eq_count [OF assms(6), of g] by (simp add: count_mset)
  from this [of "wk_generation (sy_slot s)"] assms(1,3,5)
  have "count_list (starting s') (wk_generation (sy_slot s')) \<le> of_bool (wk_state (sy_slot s') \<noteq> WorkerReady)"
    by (auto simp: sup_inv_def gens_inv_def of_bool_def split: if_splits)
  ultimately show ?thesis using assms by (auto simp: sup_inv_def gens_inv_def holds_inv_def)
qed

lemma sup_inv_next_generation:
  assumes "sup_inv s" and "slot_inv (sy_slot s')" and "sy_gens s' = Suc (sy_gens s)" and "sy_gens s' < 2 ^ 64"
    and "wk_generation (sy_slot s') = wk_generation (sy_slot s) + 1" and "wk_reserved (sy_slot s') = wk_reserved (sy_slot s)"
    and "wk_state (sy_slot s') \<noteq> WorkerReady" and "sy_holds s' = sy_holds s"
    and "starting s' = starting s \<or> starting s' = wk_generation (sy_slot s') # starting s"
  shows "sup_inv s'"
proof -
  have nxt: "unat (wk_generation (sy_slot s) + 1) = Suc (unat (wk_generation (sy_slot s)))"
    using assms by (intro next_generation) (simp add: sup_inv_def gens_inv_def)
  have old: "unat g \<le> unat (wk_generation (sy_slot s))" if "g \<in> set (starting s)" for g
    using that assms(1) by (auto simp: sup_inv_def gens_inv_def)
  have "wk_generation (sy_slot s) + 1 \<notin> set (starting s)"
    using old nxt by fastforce
  then have "count_list (starting s) (wk_generation (sy_slot s) + 1) = 0"
    by (simp add: count_list_0_iff)
  then show ?thesis
    using assms nxt old by (auto simp: sup_inv_def gens_inv_def holds_inv_def le_Suc_eq)
qed

lemma sup_inv_spawn_failed:
  assumes inv: "sup_inv s" and mem: "(g, old) \<in> set (sy_spawning s)"
  shows "sup_inv (s\<lparr>sy_sup := ensure_failed g (sy_sup s), sy_spawning := remove1 (g, old) (sy_spawning s)\<rparr>)"
proof -
  have gens: "gens_inv s" using inv by (simp add: sup_inv_def)
  have "slot_inv (sv_slot (ensure_failed g (sy_sup s)))"
  proof (cases "wk_generation (sy_slot s) = g")
    case True
    then have "wk_state (sy_slot s) \<noteq> WorkerReady"
      using starting_not_ready(1) [OF gens] count_starting_spawn(2) [OF mem] by simp
    then show ?thesis using slot_inv_failed sup_inv_slot [OF inv] by blast
  qed (use sup_inv_slot [OF inv] in \<open>simp add: ensure_failed_effect\<close>)
  then show ?thesis
    using inv by (intro sup_inv_frame [OF inv])
      (auto simp: ensure_failed_effect starting_def mset_map image_mset_subseteq_mono)
qed

lemma sup_inv_install:
  assumes inv: "sup_inv s" and mem: "(g, n) \<in> set (sy_live s)" and ins: "ensure_install io g n (sy_sup s) = (Some r, u)"
  shows "sup_inv (s\<lparr>sy_sup := u, sy_live := remove1 (g, n) (sy_live s)\<rparr>)"
proof -
  note inst = install_done [OF ins] and core = slot_core_fields [OF install_done(3) [OF ins]]
  have gens: "gens_inv s" using inv by (simp add: sup_inv_def)
  have "count_list (starting s) g = 1"
    using starting_not_ready(2) [OF gens] count_starting_live(2) [OF mem] inst(1) by simp
  then have "count_list (map fst (sy_spawning s) @ map fst (remove1 (g, n) (sy_live s))) g = 0"
    using count_starting_live(1) [OF mem, of g] by simp
  moreover have "slot_inv (sv_slot u)" using slot_inv_install [OF sup_inv_slot [OF inv] ins] .
  moreover have "fst ` set (remove1 (g, n) (sy_live s)) \<subseteq> fst ` set (sy_live s)"
    by (intro image_mono set_remove1_subset)
  ultimately show ?thesis
    using inv core inst(1) by (auto simp: sup_inv_def gens_inv_def holds_inv_def starting_def)
qed

lemma sup_inv_step:
  assumes "sup_step s s'" and inv: "sup_inv s" and "sy_gens s' < 2 ^ 64"
  shows "sup_inv s'"
  using assms(1,3)
proof cases
  case (ensure_done io r u)
  then show ?thesis
    using enter_done [OF ensure_done(3)] slot_core_fields [of "sv_slot u" "sy_slot s"]
    by (intro sup_inv_frame [OF inv]) (auto simp: starting_def intro: slot_inv_enter [OF sup_inv_slot [OF inv]])
next
  case (ensure_spawn io g old u)
  then show ?thesis
    using enter_spawn [OF ensure_spawn(3)] slot_inv_enter [OF sup_inv_slot [OF inv] ensure_spawn(3)] assms(3)
    by (intro sup_inv_next_generation [OF inv]) (auto simp: starting_def)
next
  case (spawn_ok g old)
  have "mset (sy_spawning s) = add_mset (g, old) (mset (sy_spawning s) - {#(g, old)#})"
    using spawn_ok(2) by simp
  from arg_cong [OF this, of "image_mset fst"]
  have "mset (starting s') = mset (starting s)" by (simp add: spawn_ok(1) starting_def mset_map)
  then show ?thesis using spawn_ok sup_inv_slot [OF inv] by (intro sup_inv_frame [OF inv]) auto
next
  case (spawn_failed g old)
  then show ?thesis using sup_inv_spawn_failed [OF inv] by simp
next
  case (install g n io r u)
  then show ?thesis using sup_inv_install [OF inv] by simp
next
  case (install_stale g n io u)
  have "mset (starting s') \<subseteq># mset (starting s)"
    unfolding install_stale(1) by (simp add: starting_def mset_map image_mset_subseteq_mono)
  then show ?thesis
    using install_stale install_stale_same [OF install_stale(4)] sup_inv_slot [OF inv]
    by (intro sup_inv_frame [OF inv]) auto
next
  case (join_done n)
  then show ?thesis by (intro sup_inv_frame [OF inv]) (use sup_inv_slot [OF inv] in \<open>auto simp: starting_def\<close>)
next
  case (read_message n g v r u)
  then show ?thesis
    using dispatch_effect [OF read_message(4)] sup_inv_slot [OF inv]
    by (intro sup_inv_frame [OF inv]) (auto simp: starting_def slot_inv_deliver)
next
  case (read_end n g)
  then show ?thesis by (intro sup_inv_frame [OF inv]) (use sup_inv_slot [OF inv] in \<open>auto simp: starting_def\<close>)
next
  case (reader_exit n g)
  then show ?thesis
    by (intro sup_inv_frame [OF inv]) (use sup_inv_slot [OF inv] in \<open>auto simp: starting_def slot_inv_mark_lost\<close>)
next
  case drain
  then show ?thesis by (intro sup_inv_frame [OF inv]) (use sup_inv_slot [OF inv] in \<open>auto simp: starting_def\<close>)
next
  case unload
  then show ?thesis by (intro sup_inv_frame [OF inv]) (use sup_inv_slot [OF inv] in \<open>auto simp: starting_def\<close>)
next
  case unload_check
  then show ?thesis by (intro sup_inv_frame [OF inv]) (use sup_inv_slot [OF inv] in \<open>auto simp: starting_def\<close>)
next
  case (unload_stop io)
  then show ?thesis using assms(3)
    by (intro sup_inv_next_generation [OF inv]) (auto simp: starting_def slot_inv_stop)
next
  case (shutdown io)
  then show ?thesis using assms(3)
    by (intro sup_inv_next_generation [OF inv]) (auto simp: starting_def slot_inv_stop)
next
  case (load leaving u)
  then show ?thesis using load_effect [OF load(3)] sup_inv_slot [OF inv]
    by (intro sup_inv_frame [OF inv]) (auto simp: starting_def)
next
  case load_undo
  obtain b where "sv_slot (load_failed True (sy_sup s)) = (sy_slot s)\<lparr>wk_unloading := b\<rparr>"
    using load_failed_effect(2) by blast
  then show ?thesis using load_undo sup_inv_slot [OF inv]
    by (intro sup_inv_frame [OF inv]) (auto simp: starting_def)
next
  case load_done
  then show ?thesis by (intro sup_inv_frame [OF inv]) (use sup_inv_slot [OF inv] in \<open>auto simp: starting_def\<close>)
next
  case (hold x u)
  then show ?thesis using hold_effect [OF hold(4)] inv
    by (auto simp: sup_inv_def gens_inv_def holds_inv_def starting_def saturating_defs max_handlers_def u64_max_def)
next
  case release_hold
  then show ?thesis using inv by (auto simp: sup_inv_def gens_inv_def holds_inv_def starting_def)
next
  case (submit io rid prompt sampler "class" r disarmed u)
  then show ?thesis
    using submit_effect [OF submit(4)] slot_inv_submit [OF sup_inv_slot [OF inv] submit(4)] inv
    by (auto simp: sup_inv_def gens_inv_def holds_inv_def starting_def split: if_splits)
next
  case (abandoned io rid)
  then show ?thesis
    by (intro sup_inv_frame [OF inv])
      (use slot_inv_abandon [OF sup_inv_slot [OF inv]] in \<open>auto simp: starting_def abandon_effect\<close>)
next
  case (cancelled io rid r u)
  then show ?thesis
    using cancel_effect [OF cancelled(3)] slot_inv_cancel [OF sup_inv_slot [OF inv] cancelled(3)]
    by (intro sup_inv_frame [OF inv]) (auto simp: starting_def)
next
  case (scrape io r u)
  then show ?thesis
    using scrape_begin_effect [OF scrape(3)] slot_inv_scrape_begin [OF sup_inv_slot [OF inv] scrape(3)]
    by (intro sup_inv_frame [OF inv]) (auto simp: starting_def)
next
  case (scraped reply)
  obtain m where "sv_slot (snd (scrape_end reply (sy_sup s))) = (sy_slot s)\<lparr>wk_stats := m\<rparr>"
    using scrape_end_effect(2) by blast
  then show ?thesis
    using scraped slot_inv_scrape_end [OF sup_inv_slot [OF inv], of reply]
    by (intro sup_inv_frame [OF inv]) (auto simp: starting_def)
next
  case (released io r u)
  have "u = snd (release_forward io (sy_sup s))" using released(3) by simp
  then have "slot_core (sv_slot u) = slot_core (sy_slot s)" by simp
  then show ?thesis
    using released(1) slot_core_fields [of "sv_slot u" "sy_slot s"] slot_inv_core [of "sv_slot u" "sy_slot s"]
      sup_inv_slot [OF inv]
    by (intro sup_inv_frame [OF inv]) (auto simp: starting_def)
qed

end
