(* ===== verification/Supervisor_Channels.thy ===== *)
theory Supervisor_Channels
  imports Supervisor_Proofs
begin

text \<open>
  What a handler receives. The channel of a submitted request gets its \<open>Finished\<close> once and last, and every
  channel that is no longer registered got it, unless the handler itself took the request back. And two
  behaviours of the threads: the gate of admission, and a thread that waits for another with the mutex
  held.
\<close>

subsection \<open>Channels\<close>

definition is_finished :: "worker_event \<Rightarrow> bool" where
  "is_finished e = (case e of EventFinished _ \<Rightarrow> True | _ \<Rightarrow> False)"

definition channel_events :: "nat \<Rightarrow> (nat \<times> worker_event) list \<Rightarrow> worker_event list" where
  "channel_events c evs = map snd (filter (\<lambda>e. fst e = c) evs)"

definition channel_open :: "worker_event list \<Rightarrow> bool" where
  "channel_open es \<longleftrightarrow> list_all (\<lambda>e. \<not> is_finished e) es"

definition channel_closed :: "worker_event list \<Rightarrow> bool" where
  "channel_closed es \<longleftrightarrow> es \<noteq> [] \<and> channel_open (butlast es) \<and> is_finished (last es)"

lemma is_finished_simps [simp]:
  "is_finished (EventFinished out)" "\<not> is_finished EventAdmitted" "\<not> is_finished (EventPrefill i j)"
  "\<not> is_finished (EventDelta i j)"
  by (simp_all add: is_finished_def)

lemma channel_events_simps [simp]:
  "channel_events c [] = []" "channel_events c (xs @ ys) = channel_events c xs @ channel_events c ys"
  "channel_events c ((d, e) # xs) = (if d = c then [e] else []) @ channel_events c xs"
  by (simp_all add: channel_events_def)

lemma channel_open_simps [simp]:
  "channel_open []" "channel_open (xs @ ys) \<longleftrightarrow> channel_open xs \<and> channel_open ys"
  "channel_open (e # xs) \<longleftrightarrow> \<not> is_finished e \<and> channel_open xs"
  by (simp_all add: channel_open_def)

lemma channel_closed_snoc [simp]: "channel_closed (xs @ [e]) \<longleftrightarrow> channel_open xs \<and> is_finished e"
  by (simp add: channel_closed_def)

lemma channel_closed_Nil [simp]: "\<not> channel_closed []"
  by (simp add: channel_closed_def)

lemma channel_events_lost:
  "distinct cs \<Longrightarrow> channel_events c (map (\<lambda>c. (c, e)) cs) = (if c \<in> set cs then [e] else [])"
  by (induction cs) auto

text \<open>\<open>M\<close> registers channels, \<open>E\<close> was sent, \<open>S\<close> are the submitted and \<open>W\<close> the withdrawn channels, \<open>N\<close> the next one.\<close>

definition chan_inv ::
  "(string \<Rightarrow> nat option) \<Rightarrow> (nat \<times> worker_event) list \<Rightarrow> nat set \<Rightarrow> nat set \<Rightarrow> nat \<Rightarrow> bool" where
  "chan_inv M E S W N \<longleftrightarrow> ran M \<subseteq> S \<and> S \<subseteq> {..<N} \<and> inj_on M (dom M) \<and>
    (\<forall>c. if c \<in> ran M then channel_open (channel_events c E)
         else if c \<in> S then channel_closed (channel_events c E) \<or> c \<in> W \<and> channel_open (channel_events c E)
         else channel_events c E = [])"

lemma ran_remove: "inj_on M (dom M) \<Longrightarrow> M r = Some c \<Longrightarrow> ran (M(r := None)) = ran M - {c}"
  by (auto simp: ran_def inj_on_def dom_def) (metis option.inject)

lemma ran_insert_new: "M r = None \<Longrightarrow> ran (M(r \<mapsto> c)) = insert c (ran M)"
  by (rule ran_map_upd)

lemma inj_on_remove: "inj_on M (dom M) \<Longrightarrow> inj_on (M(r := None)) (dom (M(r := None)))"
  by (auto simp: inj_on_def)

lemma chan_inv_send:
  "chan_inv M E S W N \<Longrightarrow> M r = Some c \<Longrightarrow> \<not> is_finished e \<Longrightarrow> chan_inv M (E @ [(c, e)]) S W N"
  by (auto simp: chan_inv_def intro: ranI split: if_splits)

lemma chan_inv_finish:
  assumes "chan_inv M E S W N" and "M r = Some c"
  shows "chan_inv (M(r := None)) (E @ [(c, EventFinished out)]) S W N"
  using assms ran_remove [of M r c] inj_on_remove [of M r] ranI [of M r c]
  by (auto simp: chan_inv_def split: if_splits)

lemma chan_inv_lost:
  assumes "chan_inv M E S W N" and "distinct cs" and "set cs = ran M"
  shows "chan_inv Map.empty (E @ map (\<lambda>c. (c, EventFinished out)) cs) S W N"
  using assms by (auto simp: chan_inv_def channel_events_lost split: if_splits)

lemma chan_inv_submit:
  assumes "chan_inv M E S W N" and "M r = None"
  shows "chan_inv (M(r \<mapsto> N)) E (insert N S) W (Suc N)"
proof -
  have "N \<notin> S" "N \<notin> ran M" using assms(1) by (auto simp: chan_inv_def)
  moreover have "inj_on (M(r \<mapsto> N)) (dom (M(r \<mapsto> N)))"
    using assms \<open>N \<notin> ran M\<close> by (auto simp: chan_inv_def inj_on_def ran_def)
  ultimately show ?thesis
    using assms by (auto simp: chan_inv_def ran_insert_new less_Suc_eq split: if_splits)
qed

lemma chan_inv_submit_failed:
  assumes "chan_inv M E S W N"
  shows "chan_inv M E (insert N S) (insert N W) (Suc N)"
proof -
  have "N \<notin> S" "N \<notin> ran M" using assms(1) by (auto simp: chan_inv_def)
  then show ?thesis using assms by (auto simp: chan_inv_def less_Suc_eq split: if_splits)
qed

lemma chan_inv_withdraw:
  assumes "chan_inv M E S W N"
  shows "chan_inv (M(r := None)) E S (W \<union> set_option (M r)) N"
proof (cases "M r")
  case None
  then show ?thesis using assms by (simp add: fun_upd_idem)
next
  case (Some c)
  then show ?thesis
    using assms ran_remove [of M r c] inj_on_remove [of M r]
    by (auto simp: chan_inv_def split: if_splits)
qed

lemma chan_inv_next: "chan_inv M E S W N \<Longrightarrow> chan_inv M E S W (Suc N)"
  by (auto simp: chan_inv_def less_Suc_eq)

lemma bt_values_ran: "bt_ok m \<Longrightarrow> set (bt_values m) = ran (bt_get m)"
  by (auto simp: bt_values_iff ran_def)

lemma bt_values_distinct:
  assumes "bt_ok m" and "inj_on (bt_get m) (dom (bt_get m))" shows "distinct (bt_values m)"
proof -
  have "inj_on snd (set m)"
  proof (rule inj_onI)
    fix x y assume xy: "x \<in> set m" "y \<in> set m" "snd x = snd y"
    have "bt_get m (fst x) = Some (snd x)" "bt_get m (fst y) = Some (snd y)"
      using assms(1) xy(1,2) by (simp_all add: bt_get_iff)
    then have "fst x = fst y" using assms(2) xy(3) by (auto simp: inj_on_def dom_def)
    then show "x = y" using xy(3) by (simp add: prod_eq_iff)
  qed
  then show ?thesis
    using bt_ok_distinct [OF assms(1)] by (auto simp: bt_values_def distinct_map)
qed

definition channels_inv :: "system \<Rightarrow> bool" where
  "channels_inv s \<longleftrightarrow>
    chan_inv (bt_get (wk_completion (sy_slot s))) (sv_events (sy_sup s)) (sy_submitted s) (sy_withdrawn s) (sy_chan s)"

lemma bt_get_Nil: "bt_get [] = Map.empty"
  by (simp add: fun_eq_iff)

lemma chan_inv_fail_waiters:
  assumes "chan_inv (bt_get m) E S W N" and "bt_ok m"
  shows "chan_inv (bt_get []) (E @ map (\<lambda>c. (c, EventFinished OutcomeLost)) (bt_values m)) S W N"
  unfolding bt_get_Nil
  using assms by (intro chan_inv_lost) (auto simp: bt_values_ran chan_inv_def intro: bt_values_distinct)

lemma chan_inv_deliver:
  "chan_inv (bt_get (wk_completion (sv_slot s))) (sv_events s) S W N \<Longrightarrow>
   chan_inv (bt_get (wk_completion (sv_slot (deliver m s)))) (sv_events (deliver m s)) S W N"
  by (cases m) (auto split: option.split intro: chan_inv_send chan_inv_finish)

lemma chan_inv_mark_lost:
  "chan_inv (bt_get (wk_completion (sv_slot s))) (sv_events s) S W N \<Longrightarrow> bt_ok (wk_completion (sv_slot s)) \<Longrightarrow>
   chan_inv (bt_get (wk_completion (sv_slot (mark_lost g s)))) (sv_events (mark_lost g s)) S W N"
  by (auto simp: mark_lost_def Let_def chan_inv_fail_waiters simp del: map_of.simps)

lemma chan_inv_stop:
  "chan_inv (bt_get (wk_completion (sv_slot s))) (sv_events s) S W N \<Longrightarrow> bt_ok (wk_completion (sv_slot s)) \<Longrightarrow>
   chan_inv (bt_get (wk_completion (sv_slot (stop_worker io s)))) (sv_events (stop_worker io s)) S W N"
  by (auto simp: stop_worker_def Let_def chan_inv_fail_waiters simp del: map_of.simps split: option.split)

lemma channels_inv_frame:
  "channels_inv s \<Longrightarrow> wk_completion (sy_slot s') = wk_completion (sy_slot s) \<Longrightarrow>
   sv_events (sy_sup s') = sv_events (sy_sup s) \<Longrightarrow> sy_submitted s' = sy_submitted s \<Longrightarrow>
   sy_withdrawn s' = sy_withdrawn s \<Longrightarrow> sy_chan s' = sy_chan s \<or> sy_chan s' = Suc (sy_chan s) \<Longrightarrow> channels_inv s'"
  using chan_inv_next by (auto simp: channels_inv_def)

lemma channels_inv_step:
  assumes "sup_step s s'" and inv: "channels_inv s" and ok: "bt_ok (wk_completion (sy_slot s))"
  shows "channels_inv s'"
  using assms(1)
proof cases
  case (ensure_done io r u)
  then show ?thesis
    using enter_done [OF ensure_done(3)] slot_core_fields(1) [of "sv_slot u" "sy_slot s"]
    by (intro channels_inv_frame [OF inv]) auto
next
  case (ensure_spawn io g old u)
  then show ?thesis using enter_spawn [OF ensure_spawn(3)] by (intro channels_inv_frame [OF inv]) auto
next
  case (spawn_failed g old)
  then show ?thesis by (intro channels_inv_frame [OF inv]) (auto simp: ensure_failed_effect)
next
  case (install g n io r u)
  then show ?thesis
    using install_done [OF install(4)] slot_core_fields(1) [OF install_done(3) [OF install(4)]]
    by (intro channels_inv_frame [OF inv]) auto
next
  case (install_stale g n io u)
  then show ?thesis using install_stale_same [OF install_stale(4)] by (intro channels_inv_frame [OF inv]) auto
next
  case (read_message n g v r u)
  then show ?thesis
    using dispatch_effect [OF read_message(4)] inv by (auto simp: channels_inv_def intro: chan_inv_deliver)
next
  case (reader_exit n g)
  then show ?thesis using inv ok by (simp add: channels_inv_def chan_inv_mark_lost)
next
  case (unload_stop io)
  then show ?thesis using inv ok by (simp add: channels_inv_def chan_inv_stop)
next
  case (shutdown io)
  then show ?thesis using inv ok by (simp add: channels_inv_def chan_inv_stop)
next
  case (load leaving u)
  then show ?thesis using load_effect [OF load(3)] by (intro channels_inv_frame [OF inv]) auto
next
  case load_undo
  obtain b where "sv_slot (load_failed True (sy_sup s)) = (sy_slot s)\<lparr>wk_unloading := b\<rparr>"
    using load_failed_effect(2) by blast
  then show ?thesis using load_undo by (intro channels_inv_frame [OF inv]) (auto simp: load_failed_effect)
next
  case (hold x u)
  then show ?thesis using hold_effect [OF hold(4)] by (intro channels_inv_frame [OF inv]) auto
next
  case (submit io rid prompt sampler "class" r disarmed u)
  let ?M = "bt_get (wk_completion (sy_slot s))"
  note eff = submit_effect [OF submit(4)]
  have "?M(rid := None) = ?M" if "?M rid = None" using that by auto
  then show ?thesis
    using submit(1) eff inv ok chan_inv_submit [of ?M _ _ _ _ rid] chan_inv_submit_failed [of ?M]
    by (auto simp: channels_inv_def chan_inv_next split: if_splits)
next
  case (abandoned io rid)
  then show ?thesis using inv by (simp add: channels_inv_def abandon_effect chan_inv_withdraw)
next
  case (cancelled io rid r u)
  then show ?thesis using cancel_effect [OF cancelled(3)] by (intro channels_inv_frame [OF inv]) auto
next
  case (scrape io r u)
  then show ?thesis using scrape_begin_effect [OF scrape(3)] by (intro channels_inv_frame [OF inv]) auto
next
  case (scraped reply)
  obtain m where "sv_slot (snd (scrape_end reply (sy_sup s))) = (sy_slot s)\<lparr>wk_stats := m\<rparr>"
    using scrape_end_effect(2) by blast
  then show ?thesis using scraped by (intro channels_inv_frame [OF inv]) (auto simp: scrape_end_effect)
next
  case (released io r u)
  have u: "u = snd (release_forward io (sy_sup s))" using released(3) by simp
  then have "slot_core (sv_slot u) = slot_core (sy_slot s)" by simp
  then show ?thesis
    using released(1) slot_core_fields(1) [of "sv_slot u" "sy_slot s"] u by (intro channels_inv_frame [OF inv]) auto
qed (intro channels_inv_frame [OF inv]; simp)+

lemma gens_mono: "sup_step s s' \<Longrightarrow> sy_gens s \<le> sy_gens s'"
  by (induction rule: sup_step.induct) simp_all

lemma sup_start_inv: "sup_inv system_start" "channels_inv system_start"
  by (simp_all add: sup_inv_def gens_inv_def holds_inv_def slot_inv_def starting_def channels_inv_def chan_inv_def
      system_start_def sup_start_def slot_start_def)

lemma sup_reachable_inv:
  "sup_reachable s \<Longrightarrow> sy_gens s < 2 ^ 64 \<Longrightarrow> sup_inv s \<and> channels_inv s"
proof (induction rule: sup_reachable.induct)
  case (step s s')
  then have inv: "sup_inv s" "channels_inv s" using gens_mono [OF step(2)] by auto
  moreover have "bt_ok (wk_completion (sy_slot s))" using inv(1) by (simp add: sup_inv_def slot_inv_def)
  ultimately show ?case using step sup_inv_step channels_inv_step by blast
qed (simp add: sup_start_inv)

subsection \<open>The gate\<close>

lemma occupancy_simps:
  "wk_completion k = wk_completion k' \<Longrightarrow> wk_reserved k = wk_reserved k' \<Longrightarrow> occupancy k = occupancy k'"
  by (simp add: occupancy_def)

lemma occupancy_le:
  "length (wk_completion k) \<le> length (wk_completion k') \<Longrightarrow> wk_reserved k \<le> wk_reserved k' \<Longrightarrow> occupancy k \<le> occupancy k'"
  by (simp add: occupancy_def saturating_defs)

lemma length_deliver: "length (wk_completion (sv_slot (deliver m s))) \<le> length (wk_completion (sv_slot s))"
  by (cases m) (auto split: option.split simp: length_bt_remove_le)

lemma length_lost: "length (wk_completion (sv_slot (mark_lost g s))) \<le> length (wk_completion (sv_slot s))"
  by (simp add: mark_lost_def Let_def)

lemma length_stop: "wk_completion (sv_slot (stop_worker io s)) = []"
  by (simp add: stop_worker_def Let_def split: option.split)

text \<open>While the supervisor drains or unloads, no step admits anything.\<close>

lemma gate_step:
  assumes "sup_step s s'" and "holds_inv s" and "wk_draining (sy_slot s) \<or> wk_unloading (sy_slot s)"
  shows "occupancy (sy_slot s') \<le> occupancy (sy_slot s)"
  using assms(1)
proof cases
  case (ensure_done io r u)
  then show ?thesis
    using enter_done [OF ensure_done(3)] slot_core_fields [of "sv_slot u" "sy_slot s"] by (auto intro!: occupancy_le)
next
  case (ensure_spawn io g old u)
  then show ?thesis using enter_spawn [OF ensure_spawn(3)] by (auto intro!: occupancy_le)
next
  case (spawn_failed g old)
  then show ?thesis by (auto simp: ensure_failed_effect intro!: occupancy_le)
next
  case (install g n io r u)
  then show ?thesis using slot_core_fields [OF install_done(3) [OF install(4)]] by (auto intro!: occupancy_le)
next
  case (install_stale g n io u)
  then show ?thesis using install_stale_same [OF install_stale(4)] by auto
next
  case (read_message n g v r u)
  then show ?thesis using dispatch_effect [OF read_message(4)] by (auto intro!: occupancy_le length_deliver)
next
  case (reader_exit n g)
  then show ?thesis by (auto intro!: occupancy_le length_lost)
next
  case (unload_stop io)
  then show ?thesis by (auto intro!: occupancy_le simp: length_stop)
next
  case (shutdown io)
  then show ?thesis by (auto intro!: occupancy_le simp: length_stop)
next
  case (load leaving u)
  then show ?thesis using load_effect [OF load(3)] by (auto intro!: occupancy_le)
next
  case load_undo
  obtain b where "sv_slot (load_failed True (sy_sup s)) = (sy_slot s)\<lparr>wk_unloading := b\<rparr>"
    using load_failed_effect(2) by blast
  then show ?thesis using load_undo by (auto intro!: occupancy_le)
next
  case (hold x u)
  then show ?thesis using hold_effect [OF hold(4)] assms(3) by simp
next
  case release_hold
  then show ?thesis by (auto intro!: occupancy_le)
next
  case (submit io rid prompt sampler "class" r disarmed u)
  let ?m = "bt_insert rid (sy_chan s) (wk_completion (sy_slot s))"
  have "length (bt_remove rid ?m) \<le> Suc (length (wk_completion (sy_slot s)))"
    using length_bt_remove_le length_bt_insert_le by (rule le_trans)
  then have "length (wk_completion (sv_slot u)) + wk_reserved (sv_slot u) \<le>
      length (wk_completion (sy_slot s)) + wk_reserved (sy_slot s)"
    using submit_effect(2) [OF submit(4)] submit(3) assms(2) length_bt_insert_le [of rid "sy_chan s" "wk_completion (sy_slot s)"]
    by (auto simp: holds_inv_def split: if_splits)
  then show ?thesis using submit(1) by (simp add: occupancy_def saturating_defs)
next
  case (abandoned io rid)
  then show ?thesis by (auto simp: abandon_effect intro!: occupancy_le length_bt_remove_le)
next
  case (cancelled io rid r u)
  then show ?thesis using cancel_effect [OF cancelled(3)] by (auto intro!: occupancy_le)
next
  case (scrape io r u)
  then show ?thesis using scrape_begin_effect [OF scrape(3)] by (auto intro!: occupancy_le)
next
  case (scraped reply)
  obtain m where "sv_slot (snd (scrape_end reply (sy_sup s))) = (sy_slot s)\<lparr>wk_stats := m\<rparr>"
    using scrape_end_effect(2) by blast
  then show ?thesis using scraped by (auto intro!: occupancy_le)
next
  case (released io r u)
  have "slot_core (sv_slot u) = slot_core (sy_slot s)" using released(3) release_forward_same(2) [of io "sy_sup s"] by simp
  then show ?thesis using released(1) slot_core_fields [of "sv_slot u" "sy_slot s"] by (auto intro!: occupancy_le)
qed (auto intro!: occupancy_le)

subsection \<open>A thread that waits with the mutex held\<close>

text \<open>No thread gets the mutex any more, whatever the threads do.\<close>

definition stuck :: "system \<Rightarrow> bool" where
  "stuck s \<longleftrightarrow> (\<forall>s'. sup_step\<^sup>*\<^sup>* s s' \<longrightarrow> \<not> lock_free s')"

lemma joining_step:
  assumes "sup_step s s'" and "sy_joining s = Some n" and "sy_readers s n = Some (g, p)" and "p \<noteq> ReaderDone"
  shows "sy_joining s' = Some n \<and> (\<exists>g p. sy_readers s' n = Some (g, p) \<and> p \<noteq> ReaderDone)"
  using assms by (cases rule: sup_step.cases) (auto simp: lock_free_def joined_def)

lemma joining_stuck:
  assumes "sy_joining s = Some n" and "sy_readers s n = Some (g, p)" and "p \<noteq> ReaderDone"
  shows "stuck s"
proof -
  have "sy_joining s' = Some n \<and> (\<exists>g p. sy_readers s' n = Some (g, p) \<and> p \<noteq> ReaderDone)"
    if "sup_step\<^sup>*\<^sup>* s s'" for s'
    using that
  proof (induction rule: rtranclp_induct)
    case (step s1 s2)
    then show ?case using joining_step [OF step(2)] by blast
  qed (use assms in blast)
  then show ?thesis by (auto simp: stuck_def lock_free_def)
qed

lemma draining_step: "sup_step s s' \<Longrightarrow> wk_draining (sy_slot s) \<Longrightarrow> wk_draining (sy_slot s')"
proof (induction rule: sup_step.induct)
  case (ensure_done s io r u)
  then show ?case using enter_done [OF ensure_done(2)] slot_core_fields(7) [of "sv_slot u" "sy_slot s"] by simp
next
  case (ensure_spawn s io g old u)
  then show ?case using enter_spawn [OF ensure_spawn(2)] by simp
next
  case (install s g n io r u)
  then show ?case using slot_core_fields(7) [OF install_done(3) [OF install(3)]] by simp
next
  case (install_stale s g n io u)
  then show ?case using install_stale_same [OF install_stale(3)] by simp
next
  case (read_message s n g v r u)
  then show ?case using dispatch_effect [OF read_message(3)] by auto
next
  case (load_undo s)
  obtain b where "sv_slot (load_failed True (sy_sup s)) = (sy_slot s)\<lparr>wk_unloading := b\<rparr>"
    using load_failed_effect(2) by blast
  then show ?case using load_undo(3) by simp
next
  case (submit s io rid prompt sampler "class" r disarmed u)
  then show ?case using submit_effect(2) [OF submit(3)] by (auto split: if_splits)
next
  case (scraped s reply)
  obtain m where "sv_slot (snd (scrape_end reply (sy_sup s))) = (sy_slot s)\<lparr>wk_stats := m\<rparr>"
    using scrape_end_effect(2) by blast
  then show ?case using scraped by simp
next
  case (released s io r u)
  have "slot_core (sv_slot u) = slot_core (sy_slot s)" using released(2) release_forward_same(2) [of io "sy_sup s"] by simp
  then show ?case using released(3) slot_core_fields(7) [of "sv_slot u" "sy_slot s"] by simp
next
  case (load s leaving u)
  then show ?case using load_effect [OF load(2)] by simp
next
  case (hold s x u)
  then show ?case using hold_effect [OF hold(3)] by simp
next
  case (cancelled s io rid r u)
  then show ?case using cancel_effect [OF cancelled(2)] by auto
next
  case (scrape s io r u)
  then show ?case using scrape_begin_effect [OF scrape(2)] by auto
qed (simp_all add: ensure_failed_effect abandon_effect)

lemma reachable_steps: "sup_step\<^sup>*\<^sup>* s s' \<Longrightarrow> sup_reachable s \<Longrightarrow> sup_reachable s'"
  by (induction rule: rtranclp_induct) (auto intro: sup_reachable.step)

lemma drained_steps:
  assumes "sup_step\<^sup>*\<^sup>* s s'" and "sup_reachable s" and "wk_draining (sy_slot s)" and "sy_gens s' < 2 ^ 64"
  shows "wk_draining (sy_slot s') \<and> occupancy (sy_slot s') \<le> occupancy (sy_slot s)"
  using assms(1,4)
proof (induction rule: rtranclp_induct)
  case (step s1 s2)
  then have IH: "wk_draining (sy_slot s1)" "occupancy (sy_slot s1) \<le> occupancy (sy_slot s)" and gens: "sy_gens s1 < 2 ^ 64"
    using gens_mono [OF step(2)] by auto
  have "holds_inv s1"
    using sup_reachable_inv [OF reachable_steps [OF step(1) assms(2)] gens] by (simp add: sup_inv_def)
  then show ?case using IH gate_step [OF step(2)] draining_step [OF step(2)] by (auto intro: le_trans)
qed (use assms in simp)

text \<open>
  The worker of the slot is gone and nobody is left to notice: the slot stays ready until a stop or a load.
\<close>

definition lost_unnoticed :: "system \<Rightarrow> bool" where
  "lost_unnoticed s \<longleftrightarrow>
    (\<forall>s'. sup_step\<^sup>*\<^sup>* s s' \<and> sy_gens s' = sy_gens s \<longrightarrow> is_ready (sy_sup s'))"

definition readers_done :: "system \<Rightarrow> bool" where
  "readers_done s \<longleftrightarrow> is_ready (sy_sup s) \<and> starting s = [] \<and>
    (\<forall>n g p. sy_readers s n = Some (g, p) \<longrightarrow> p = ReaderDone)"

lemma readers_done_step:
  assumes "sup_step s s'" and "readers_done s" and "sy_gens s' = sy_gens s"
  shows "readers_done s'"
  using assms(1)
proof cases
  case (ensure_done io r u)
  then show ?thesis
    using assms enter_done [OF ensure_done(3)] slot_core_fields(5) [of "sv_slot u" "sy_slot s"]
    by (auto simp: readers_done_def starting_def is_ready_def)
next
  case (spawn_ok g old)
  then show ?thesis using assms by (auto simp: readers_done_def starting_def)
next
  case (load leaving u)
  then show ?thesis using assms load_effect [OF load(3)] by (auto simp: readers_done_def)
next
  case load_undo
  obtain b where "sv_slot (load_failed True (sy_sup s)) = (sy_slot s)\<lparr>wk_unloading := b\<rparr>"
    using load_failed_effect(2) by blast
  then show ?thesis using load_undo assms by (auto simp: readers_done_def starting_def is_ready_def)
next
  case (hold x u)
  then show ?thesis using assms hold_effect [OF hold(4)] by (auto simp: readers_done_def starting_def is_ready_def)
next
  case (submit io rid prompt sampler "class" r disarmed u)
  then show ?thesis using assms submit_effect(2) [OF submit(4)]
    by (auto simp: readers_done_def starting_def is_ready_def split: if_splits)
next
  case (cancelled io rid r u)
  then show ?thesis using assms cancel_effect [OF cancelled(3)] by (auto simp: readers_done_def starting_def is_ready_def)
next
  case (scrape io r u)
  then show ?thesis using assms scrape_begin_effect [OF scrape(3)] by (auto simp: readers_done_def starting_def is_ready_def)
next
  case (scraped reply)
  obtain m where "sv_slot (snd (scrape_end reply (sy_sup s))) = (sy_slot s)\<lparr>wk_stats := m\<rparr>"
    using scrape_end_effect(2) by blast
  then show ?thesis using scraped assms by (auto simp: readers_done_def starting_def is_ready_def)
next
  case (released io r u)
  have "slot_core (sv_slot u) = slot_core (sy_slot s)" using released(3) release_forward_same(2) [of io "sy_sup s"] by simp
  then show ?thesis
    using released(1) assms slot_core_fields(5) [of "sv_slot u" "sy_slot s"]
    by (auto simp: readers_done_def starting_def is_ready_def)
qed (use assms in \<open>fastforce simp: readers_done_def starting_def is_ready_def abandon_effect\<close>)+

lemma readers_done_lost:
  assumes "readers_done s" shows "lost_unnoticed s"
proof -
  have "sy_gens s \<le> sy_gens s' \<and> (sy_gens s' = sy_gens s \<longrightarrow> readers_done s')" if "sup_step\<^sup>*\<^sup>* s s'" for s'
    using that
  proof (induction rule: rtranclp_induct)
    case (step s1 s2)
    then show ?case using gens_mono [OF step(2)] readers_done_step [OF step(2)] by auto
  qed (use assms in simp)
  then show ?thesis by (auto simp: lost_unnoticed_def readers_done_def)
qed

end
