(* ===== verification/Demo_Supervisor.thy ===== *)
theory Demo_Supervisor
  imports Supervisor_Channels Demo
begin

text \<open>Concrete runs of the supervisor's threads for the properties of the supervisor.\<close>

subsection \<open>A worker that is stopped while it starts\<close>

definition starting_slot :: worker_slot where
  "starting_slot = slot_start\<lparr>wk_state := WorkerStarting, wk_generation := 1\<rparr>"

definition demo_starting :: system where
  "demo_starting = system_start\<lparr>sy_sup := sup_start\<lparr>sv_slot := starting_slot\<rparr>, sy_spawning := [(1, None)],
     sy_gens := 1\<rparr>"

definition demo_spawned :: system where
  "demo_spawned = system_start\<lparr>sy_sup := sup_start\<lparr>sv_slot := starting_slot\<rparr>, sy_live := [(1, 0)], sy_next := 1,
     sy_readers := [0 \<mapsto> (1, Reading)], sy_gens := 1\<rparr>"

definition demo_unloading :: system where
  "demo_unloading = demo_spawned\<lparr>sy_sup := sup_start\<lparr>sv_slot := starting_slot\<lparr>wk_unloading := True\<rparr>\<rparr>\<rparr>"

definition demo_stopped :: system where
  "demo_stopped = demo_unloading\<lparr>sy_gens := 2, sy_sup := sup_start\<lparr>sv_slot :=
     slot_start\<lparr>wk_generation := 2, wk_unloading := True\<rparr>\<rparr>\<rparr>"

lemmas demo_sys = system_start_def sup_start_def slot_start_def starting_slot_def demo_starting_def demo_spawned_def

lemma demo_start_steps: "sup_step system_start demo_starting" "sup_step demo_starting demo_spawned"
proof -
  have "ensure_enter None sup_start = (EnsureSpawn 1 None, sup_start\<lparr>sv_slot := starting_slot\<rparr>)"
    by (simp add: ensure_enter_def demo_sys on_slot_def)
  then show "sup_step system_start demo_starting"
    using sup_step.ensure_spawn [of system_start None 1 None "sup_start\<lparr>sv_slot := starting_slot\<rparr>"]
    by (simp add: demo_sys lock_free_def)
  show "sup_step demo_starting demo_spawned"
    using sup_step.spawn_ok [of 1 None demo_starting] by (simp add: demo_sys joined_def)
qed

lemma demo_spawned_reachable: "sup_reachable demo_spawned"
  using demo_start_steps by (blast intro: sup_reachable.intros)

lemma demo_unload_reachable: "sup_reachable demo_unloading"
proof -
  have "sup_step demo_spawned demo_unloading"
    using sup_step.unload [of demo_spawned]
    by (simp add: demo_unloading_def demo_sys lock_free_def begin_unload_def on_slot_def Let_def)
  then show ?thesis using demo_spawned_reachable by (rule sup_reachable.step [rotated])
qed

lemma demo_stopped_reachable: "sup_reachable demo_stopped"
proof -
  let ?s = "demo_unloading\<lparr>sy_stopping := 1\<rparr>"
  have "should_stop (sy_slot demo_unloading)"
    by (simp add: should_stop_def demo_unloading_def demo_sys occupancy_def saturating_defs)
  then have "sup_step demo_unloading ?s"
    using sup_step.unload_check [of demo_unloading] by (simp add: demo_unloading_def demo_sys lock_free_def)
  moreover have "sup_step ?s demo_stopped"
    using sup_step.unload_stop [of ?s None]
    by (simp add: demo_stopped_def demo_unloading_def demo_sys lock_free_def stop_worker_def on_slot_def fail_waiters_def
        bt_values_def Let_def numeral_2_eq_2)
  ultimately show ?thesis using demo_unload_reachable by (blast intro: sup_reachable.step)
qed

definition demo_joining :: system where
  "demo_joining = demo_stopped\<lparr>sy_live := [], sy_joining := Some 0\<rparr>"

lemma demo_joining_reachable: "sup_reachable demo_joining"
proof -
  have "sup_step demo_stopped demo_joining"
    using sup_step.install_stale [of demo_stopped 1 0 None "sy_sup demo_stopped"]
    by (simp add: demo_joining_def demo_stopped_def demo_unloading_def demo_sys lock_free_def ensure_install_def)
  then show ?thesis using demo_stopped_reachable by (blast intro: sup_reachable.step)
qed

lemma demo_joining_stuck: "stuck demo_joining"
  by (rule joining_stuck [of _ 0 1 Reading])
    (simp_all add: demo_joining_def demo_stopped_def demo_unloading_def demo_sys)

subsection \<open>A worker that dies before it is installed\<close>

definition demo_dead :: system where
  "demo_dead = demo_spawned\<lparr>sy_readers := [0 \<mapsto> (1, ReaderDone)],
     sy_sup := sup_start\<lparr>sv_slot := slot_start\<lparr>wk_generation := 1\<rparr>\<rparr>\<rparr>"

definition demo_ready :: system where
  "demo_ready = demo_dead\<lparr>sy_live := [], sy_sup := sup_start\<lparr>sv_slot := slot_start\<lparr>wk_generation := 1,
     wk_state := WorkerReady, wk_child := Some 0, wk_writer := Some 0, wk_reader := Some 0, wk_dir := Some 0\<rparr>\<rparr>\<rparr>"

lemma demo_ready_reachable: "sup_reachable demo_ready"
proof -
  let ?s = "demo_spawned\<lparr>sy_readers := [0 \<mapsto> (1, Closing)]\<rparr>"
  have "sup_step demo_spawned ?s"
    using sup_step.read_end [of demo_spawned 0 1] by (simp add: demo_sys)
  moreover have "sup_step ?s demo_dead"
    using sup_step.reader_exit [of ?s 0 1]
    by (simp add: demo_dead_def demo_sys lock_free_def mark_lost_def is_ready_def on_slot_def fail_waiters_def
        bt_values_def Let_def)
  moreover have "sup_step demo_dead demo_ready"
    using sup_step.install [of demo_dead 1 0 None "Inr ()" "sy_sup demo_ready"]
    by (simp add: demo_ready_def demo_dead_def demo_sys lock_free_def ensure_install_def on_slot_def
        send_release_if_needed_def)
  ultimately show ?thesis using demo_spawned_reachable by (blast intro: sup_reachable.step)
qed

lemma demo_ready_lost: "readers_done demo_ready"
  by (auto simp: readers_done_def demo_ready_def demo_dead_def demo_sys is_ready_def starting_def)

subsection \<open>A request that is submitted\<close>

definition demo_held :: system where
  "demo_held = demo_spawned\<lparr>sy_live := [], sy_holds := 1, sy_sup := sup_start\<lparr>sv_slot := slot_start\<lparr>wk_generation := 1,
     wk_state := WorkerReady, wk_child := Some 0, wk_writer := Some 0, wk_reader := Some 0, wk_dir := Some 0,
     wk_reserved := 1\<rparr>\<rparr>\<rparr>"

lemma demo_held_reachable: "sup_reachable demo_held"
proof -
  let ?s = "demo_held\<lparr>sy_holds := 0, sy_sup := on_slot (\<lambda>k. k\<lparr>wk_reserved := 0\<rparr>) (sy_sup demo_held)\<rparr>"
  have "sup_step demo_spawned ?s"
    using sup_step.install [of demo_spawned 1 0 None "Inr ()" "sy_sup ?s"]
    by (simp add: demo_held_def demo_sys lock_free_def ensure_install_def on_slot_def send_release_if_needed_def)
  moreover have "sup_step ?s demo_held"
    using sup_step.hold [of ?s "()" "sy_sup demo_held"]
    by (simp add: demo_held_def demo_sys lock_free_def reserve_def on_slot_def saturating_defs u64_max_def max_handlers_def)
  ultimately show ?thesis using demo_spawned_reachable by (blast intro: sup_reachable.step)
qed

text \<open>A request submitted to a worker whose socket fails, and one whose worker is then lost.\<close>

lemma demo_request_reachable:
  "\<exists>s. sup_reachable s \<and> sy_gens s = 1 \<and> sy_submitted s = {0} \<and> wk_completion (sy_slot s) = []"
proof -
  let ?m = "Submit ''a'' [1] demo_sampler Standard"
  obtain r d u where sub: "submit_locked None ''a'' ?m 0 (sy_sup demo_held) = ((r, d), u)"
    by (metis prod.exhaust)
  then have d: d
    by (auto simp: submit_locked_def demo_held_def demo_sys is_ready_def max_inflight_def Let_def
        split: prod.splits sum.splits)
  define s where "s = demo_held\<lparr>sy_sup := u, sy_chan := 1, sy_holds := 0, sy_submitted := {0},
      sy_withdrawn := (if isl r then {0} else {})\<rparr>"
  have "sup_step demo_held s"
    using sup_step.submit [of demo_held None "''a''" "[1]" demo_sampler Standard r d u] sub d
    by (cases "isl r") (simp_all add: s_def demo_held_def demo_sys lock_free_def)
  then have s: "sup_reachable s" using demo_held_reachable by (blast intro: sup_reachable.step)
  have "sup_step s (s\<lparr>sy_readers := [0 \<mapsto> (1, Closing)]\<rparr>)"
    using sup_step.read_end [of s 0 1] by (simp add: s_def demo_held_def demo_sys)
  moreover have "sup_step (s\<lparr>sy_readers := [0 \<mapsto> (1, Closing)]\<rparr>)
      (s\<lparr>sy_readers := [0 \<mapsto> (1, ReaderDone)], sy_sup := mark_lost 1 u\<rparr>)"
    using sup_step.reader_exit [of "s\<lparr>sy_readers := [0 \<mapsto> (1, Closing)]\<rparr>" 0 1]
    by (simp add: s_def demo_held_def demo_sys lock_free_def)
  ultimately have "sup_reachable (s\<lparr>sy_readers := [0 \<mapsto> (1, ReaderDone)], sy_sup := mark_lost 1 u\<rparr>)"
    using s by (blast intro: sup_reachable.step)
  moreover have "wk_generation (sv_slot u) = 1"
    using submit_effect(2) [OF sub] d by (simp add: demo_held_def demo_sys)
  then have "wk_completion (sv_slot (mark_lost 1 u)) = []" by (simp add: mark_lost_def Let_def)
  moreover have "sy_gens s = 1" "sy_submitted s = {0}" by (simp_all add: s_def demo_held_def demo_sys)
  ultimately show ?thesis
    by (intro exI [of _ "s\<lparr>sy_readers := [0 \<mapsto> (1, ReaderDone)], sy_sup := mark_lost 1 u\<rparr>"]) simp
qed

end
