(* ===== verification/Worker.thy ===== *)
theory Worker
  imports Scheduler_Step Protocol
begin

text \<open>
  The worker process: \<open>crates/infer-serve/src/worker.rs\<close>. One session of scheduler, model and KV store
  answers the supervisor's messages, and between them runs the scheduler and reports what it did.
\<close>

subsection \<open>The session\<close>

record ('m, 'k) session =
  ss_world :: "('m, 'k) world"
  ss_runtime_root :: string
  ss_model_load_nanos :: nat
  ss_verified_bytes :: nat
  ss_prefill_chunks :: "(string, nat) btree"
  ss_paused :: bool
  ss_sent :: "from_worker list"
  ss_wire :: "u8 list"

text \<open>
  What the worker meets outside: the store's \<open>invalidate\<close> and \<open>census\<close> (total, free and pinned pages),
  whether the gate is set in the environment, and what the socket does with a write after \<open>n\<close> bytes.
\<close>

record 'k worker_env =
  we_invalidate :: "'k \<Rightarrow> 'k"
  we_census :: "'k \<Rightarrow> nat \<times> nat \<times> nat"
  we_gate :: bool
  we_write :: "nat \<Rightarrow> infer_failure option"

definition on_world :: "(('m, 'k) world, 'a) op \<Rightarrow> (('m, 'k) session, 'a) op" where
  "on_world m s = (case m (ss_world s) of (r, w) \<Rightarrow> (r, s\<lparr>ss_world := w\<rparr>))"

definition on_scheduler :: "(scheduler, 'a) op \<Rightarrow> (('m, 'k) world, 'a) op" where
  "on_scheduler m w = (case m (w_sched w) of (r, t) \<Rightarrow> (r, w\<lparr>w_sched := t\<rparr>))"

definition socket_write :: "'k worker_env \<Rightarrow> u8 list \<Rightarrow> (('m, 'k) session, unit) op" where
  "socket_write env bytes s =
    (case we_write env (length (ss_wire s)) of
       Some e \<Rightarrow> (Inl e, s)
     | None \<Rightarrow> (Inr (), s\<lparr>ss_wire := ss_wire s @ bytes\<rparr>))"

text \<open>\<open>write_message(stream, &encode_from_worker(&message)?)?\<close>, with a record of what was sent.\<close>

definition emit :: "'k worker_env \<Rightarrow> from_worker \<Rightarrow> (('m, 'k) session, unit) op" where
  "emit env m =
    op_bind (op_lift (encode_from_worker m)) (\<lambda>v.
    op_seq (write_frame (socket_write env) (op_return ()) v)
      (op_modify (\<lambda>s. s\<lparr>ss_sent := ss_sent s @ [m]\<rparr>)))"

text \<open>\<open>String::truncate\<close> panics inside a character; the panic ends the worker as a failure does.\<close>

definition send_reject :: "'k worker_env \<Rightarrow> string \<Rightarrow> infer_failure \<Rightarrow> (('m, 'k) session, unit) op" where
  "send_reject env rid err =
    (if length (message err) > 1024 \<and> \<not> utf8_string (take 1024 (message err))
     then op_throw (fail WorkerLost ''truncate inside a character'')
     else
      let msg = take 1024 (message err);
          msg = (if msg = [] then code_as_str (code err) else msg)
      in emit env (Reject rid (code_as_str (code err)) msg))"

definition session_stats :: "'k worker_env \<Rightarrow> ('m, 'k) session \<Rightarrow> worker_stats" where
  "session_stats env s =
    (let ct = scheduler_counters_of (w_sched (ss_world s));
         (total, free, pinned) = we_census env (w_kv (ss_world s));
         held = retained (w_sched (ss_world s))
     in \<lparr>ws_queue_interactive = ct_queue_interactive ct, ws_queue_standard = ct_queue_standard ct,
         ws_queue_batch = ct_queue_batch ct, ws_queue_background = ct_queue_background ct,
         ws_active_sequences = ct_active_sequences ct, ws_rejected_contract = ct_rejected_contract ct,
         ws_rejected_context = ct_rejected_context ct, ws_rejected_memory = ct_rejected_memory ct,
         ws_rejected_prompt = ct_rejected_prompt ct, ws_rejected_other = ct_rejected_other ct,
         ws_cancellations = ct_cancellations ct, ws_oom = ct_oom ct, ws_prefill_tokens = ct_prefill_tokens ct,
         ws_prefill_nanos = ct_prefill_nanos ct, ws_decode_tokens = ct_decode_tokens ct,
         ws_decode_nanos = ct_decode_nanos ct, ws_iterations = ct_iterations ct,
         ws_iteration_nanos = ct_iteration_nanos ct, ws_iteration_buckets = ct_iteration_buckets ct,
         ws_kv_total = total, ws_kv_free = free, ws_kv_pinned = pinned,
         ws_retained_sequences = (if held \<le> u64_max then held else u64_max),
         ws_prefix_lookups = ct_prefix_lookups ct, ws_prefix_hits = ct_prefix_hits ct,
         ws_prefix_reused_tokens = ct_prefix_reused_tokens ct,
         ws_model_load_nanos = ss_model_load_nanos s, ws_verified_bytes = ss_verified_bytes s\<rparr>)"

subsection \<open>Messages in\<close>

text \<open>The answer says whether the worker shuts down.\<close>

fun handle_message :: "'k worker_env \<Rightarrow> to_worker \<Rightarrow> (('m, 'k) session, bool) op" where
  "handle_message env Shutdown =
    op_seq (op_modify (\<lambda>s. s\<lparr>ss_world := (ss_world s)\<lparr>w_kv := we_invalidate env (w_kv (ss_world s))\<rparr>\<rparr>))
      (op_return True)"
| "handle_message env Release =
    (if \<not> we_gate env then op_throw (fail ContractInvalid ''release is only accepted by a paused worker'')
     else op_seq (op_modify (\<lambda>s. s\<lparr>ss_paused := False\<rparr>)) (op_return False))"
| "handle_message env (Submit rid prompt sampler class) =
    op_bind (op_gets ss_runtime_root) (\<lambda>root.
    let request = \<lparr>rq_request_id = rid, rq_runtime_root = root, rq_prompt = prompt,
          rq_sampler = sampler, rq_class = class\<rparr>
    in op_bind (op_try (on_world (on_scheduler (submit request)))) (\<lambda>r.
      op_seq (case r of Inl err \<Rightarrow> send_reject env rid err | Inr _ \<Rightarrow> emit env (Admitted rid))
        (op_return False)))"
| "handle_message env (Cancel rid) =
    op_bind (op_try (on_world (on_scheduler (cancel rid)))) (\<lambda>r.
      op_seq (case r of Inl err \<Rightarrow> send_reject env rid err | Inr _ \<Rightarrow> emit env (Ack rid))
        (op_return False))"
| "handle_message env StatsRequest =
    op_bind (op_gets (session_stats env)) (\<lambda>st. op_seq (emit env (Stats st)) (op_return False))"

definition handle_frame :: "'k worker_env \<Rightarrow> cbor_value \<Rightarrow> (('m, 'k) session, bool) op" where
  "handle_frame env v = op_bind (op_lift (decode_to_worker v)) (handle_message env)"

subsection \<open>Reports\<close>

definition chunk_of :: "string \<Rightarrow> ('m, 'k) session \<Rightarrow> nat" where
  "chunk_of rid s = (case bt_get (ss_prefill_chunks s) rid of None \<Rightarrow> 0 | Some n \<Rightarrow> n)"

fun report_ops :: "'k worker_env \<Rightarrow> nat list \<Rightarrow> schedule_op list \<Rightarrow> (('m, 'k) session, unit) op" where
  "report_ops env seen [] = op_return ()"
| "report_ops env seen (OpPrefill q tokens # ops) =
    op_bind (op_getr (\<lambda>s. request_id_of q (w_sched (ss_world s)))) (\<lambda>rid.
    op_bind (op_gets (chunk_of rid)) (\<lambda>chunk.
    op_seq (op_modify (\<lambda>s. s\<lparr>ss_prefill_chunks :=
        bt_insert rid (saturating_add_u32 chunk 1) (ss_prefill_chunks s)\<rparr>))
    (op_seq (emit env (Prefill rid chunk tokens)) (report_ops env seen ops))))"
| "report_ops env seen (OpDecode q token # ops) =
    (if q \<in> set seen then op_throw (fail ContractInvalid ''scheduler sampled one sequence twice in one step'')
     else
      op_bind (op_getr (\<lambda>s. last_output q (w_sched (ss_world s)))) (\<lambda>(rid, index, issued).
      if issued \<noteq> token then op_throw (fail ContractInvalid ''scheduler token does not match the decode step'')
      else op_seq (emit env (Delta rid index token)) (report_ops env (q # seen) ops)))"
| "report_ops env seen (OpCancel q # ops) = report_ops env seen ops"
| "report_ops env seen (OpFail q # ops) = report_ops env seen ops"

definition report_steps :: "'k worker_env \<Rightarrow> schedule_step option \<Rightarrow> (('m, 'k) session, unit) op" where
  "report_steps env st = (case st of None \<Rightarrow> op_return () | Some st \<Rightarrow> report_ops env [] (step_ops st))"

fun report_results :: "'k worker_env \<Rightarrow> schedule_result list \<Rightarrow> (('m, 'k) session, unit) op" where
  "report_results env [] = op_return ()"
| "report_results env (r # rs) =
    op_seq (op_modify (\<lambda>s. s\<lparr>ss_prefill_chunks := bt_remove (sr_request_id r) (ss_prefill_chunks s)\<rparr>))
    (op_seq (emit env (Result (sr_request_id r) (sr_tokens r) (sr_finish_reason r)
        (map_option code_as_str (sr_error_code r))))
    (op_seq (on_world (on_scheduler (reap (sr_request_id r)))) (report_results env rs)))"

definition report_new :: "'k worker_env \<Rightarrow> (('m, 'k) session, unit) op" where
  "report_new env = op_bind (op_gets (\<lambda>s. results (w_sched (ss_world s)))) (report_results env)"

text \<open>A turn of the connection with nothing to read: step and report.\<close>

definition worker_turn :: "('m, 'k) engine \<Rightarrow> 'k worker_env \<Rightarrow> (('m, 'k) session, unit) op" where
  "worker_turn eng env =
    op_bind (op_gets ss_paused) (\<lambda>paused.
    if paused then op_return ()
    else op_bind (on_world (sched_step eng)) (\<lambda>st.
      op_seq (report_steps env st) (report_new env)))"

text \<open>The connection, on the frames that arrive and the turns between them; it ends at a shutdown.\<close>

datatype worker_input = InputFrame cbor_value | InputTurn

fun worker_loop :: "('m, 'k) engine \<Rightarrow> 'k worker_env \<Rightarrow> worker_input list \<Rightarrow> (('m, 'k) session, unit) op" where
  "worker_loop eng env [] = op_return ()"
| "worker_loop eng env (InputFrame v # is) =
    op_bind (handle_frame env v) (\<lambda>stop. if stop then op_return () else worker_loop eng env is)"
| "worker_loop eng env (InputTurn # is) = op_seq (worker_turn eng env) (worker_loop eng env is)"

definition serve_connection ::
  "('m, 'k) engine \<Rightarrow> 'k worker_env \<Rightarrow> worker_input list \<Rightarrow> (('m, 'k) session, unit) op" where
  "serve_connection eng env is =
    op_bind (op_gets ss_runtime_root) (\<lambda>root. op_seq (emit env (Ready root)) (worker_loop eng env is))"

end
