(* ===== verification/Worker_Proofs.thy ===== *)
theory Worker_Proofs
  imports Worker Scheduler_Run Ipc
begin

text \<open>
  What the worker reports of a request follows one protocol: it is admitted, then its prefill chunks are
  counted, then its tokens are numbered from zero without a gap, then its result has exactly these
  tokens. First what an iteration of the scheduler does to the tokens, then the session.
\<close>

subsection \<open>Tokens in an iteration\<close>

definition gist :: "('m, 'k) world \<Rightarrow> nat \<Rightarrow> (string \<times> nat list) option" where
  "gist w q = map_option (\<lambda>sl. (sl_request_id sl, sl_tokens sl)) (bt_get (sc_slots (w_sched w)) q)"

definition keeps :: "(('m, 'k) world, 'a) op \<Rightarrow> bool" where
  "keeps m \<longleftrightarrow> (\<forall>w. gist (snd (m w)) = gist w)"

named_theorems keeps

lemma keeps_basic [keeps]:
  "keeps (op_return a)" "keeps (op_throw e)" "keeps (op_lift r)" "keeps (op_gets f)" "keeps (op_getr g)"
  by (simp_all add: keeps_def op_return_def op_throw_def op_lift_def op_gets_def op_getr_def)

lemma keeps_bind [keeps]: "keeps m \<Longrightarrow> (\<And>a. keeps (f a)) \<Longrightarrow> keeps (op_bind m f)"
  by (auto simp: keeps_def op_bind_def split: prod.split sum.split) (metis snd_conv)+

lemma keeps_seq [keeps]: "keeps m \<Longrightarrow> keeps n \<Longrightarrow> keeps (op_seq m n)"
  by (simp add: op_seq_def keeps_bind)

lemma keeps_try [keeps]: "keeps m \<Longrightarrow> keeps (op_try m)"
  by (auto simp: keeps_def op_try_def split: prod.split) (metis snd_conv)

lemma keeps_when [keeps]: "keeps m \<Longrightarrow> keeps (op_when b m)"
  by (simp add: op_when_def keeps_basic)

lemma keeps_if [keeps]: "keeps m \<Longrightarrow> keeps n \<Longrightarrow> keeps (if b then m else n)"
  by simp

lemma keeps_sum [keeps]: "(\<And>e. keeps (f e)) \<Longrightarrow> (\<And>a. keeps (g a)) \<Longrightarrow> keeps (case r of Inl e \<Rightarrow> f e | Inr a \<Rightarrow> g a)"
  by (cases r) simp_all

lemma keeps_on_kv [keeps]: "keeps (on_kv m)"
  by (simp add: keeps_def on_kv_def gist_def fun_eq_iff split: prod.split)

lemma keeps_on_model [keeps]: "keeps (on_model m)"
  by (simp add: keeps_def on_model_def gist_def fun_eq_iff split: prod.split)

lemma keeps_elapsed [keeps]: "keeps (elapsed eng)"
  by (simp add: keeps_def elapsed_def gist_def fun_eq_iff)

lemma keeps_on_sched: "(\<And>s. sc_slots (f s) = sc_slots s) \<Longrightarrow> keeps (on_sched f)"
  by (simp add: keeps_def on_sched_def op_modify_def gist_def fun_eq_iff)

lemma keeps_counters [keeps]: "keeps (on_counters f)" "keeps (on_sched (\<lambda>s. s\<lparr>sc_reserved_pages := n\<rparr>))"
  by (simp_all add: on_counters_def keeps_on_sched)

lemma keeps_get_slot [keeps]: "keeps (get_slot q)"
  by (simp add: get_slot_def keeps_basic)

lemma gist_update:
  "gist (w\<lparr>w_sched := (w_sched w)\<lparr>sc_slots := bt_update q f (sc_slots (w_sched w))\<rparr>\<rparr>) r =
    (if r = q then map_option (\<lambda>sl. (sl_request_id (f sl), sl_tokens (f sl))) (bt_get (sc_slots (w_sched w)) q)
     else gist w r)"
  by (simp add: gist_def option.map_comp comp_def)

lemma keeps_set_slot [keeps]:
  assumes "\<And>sl. sl_request_id (f sl) = sl_request_id sl \<and> sl_tokens (f sl) = sl_tokens sl"
  shows "keeps (set_slot q f)"
  unfolding set_slot_def
proof (intro keeps_bind keeps_get_slot)
  show "keeps (on_sched (\<lambda>s. s\<lparr>sc_slots := bt_update q f (sc_slots s)\<rparr>))"
    using assms by (simp add: keeps_def on_sched_def op_modify_def gist_update fun_eq_iff) (simp add: gist_def)
qed

lemma keeps_retire [keeps]: "keeps (retire eng q finish error)"
  by (auto simp: retire_def release_kv_def release_pages_def intro!: keeps)

lemma keeps_add_service [keeps]: "keeps (add_service q n)"
  by (auto simp: add_service_def intro!: keeps)

lemma keeps_fail [keeps]: "keeps (fail_slot eng q c)" "keeps (fail_decode eng q c)" "keeps (serve_cancel eng q)"
  by (auto simp: fail_slot_def fail_decode_def serve_cancel_def intro!: keeps)

lemma keeps_prefill [keeps]: "keeps (serve_prefill eng q)"
  by (auto simp: serve_prefill_def run_prefill_def Let_def intro!: keeps)

lemma wp_keeps:
  assumes "keeps m" and "\<And>a w'. gist w' = gist w \<Longrightarrow> Q a w'"
  shows "op_wp m Q (\<lambda>_ _. True) w"
  using assms by (auto simp: keeps_def op_wp_def split: prod.split sum.split) (metis snd_conv)

text \<open>What one decode does: one token more for its request, or its failure.\<close>

fun decoded :: "nat \<Rightarrow> ('m, 'k) world \<Rightarrow> schedule_op \<Rightarrow> ('m, 'k) world \<Rightarrow> bool" where
  "decoded q w (OpDecode p t) w' \<longleftrightarrow>
    p = q \<and> (\<exists>rid ts. gist w q = Some (rid, ts) \<and> gist w' = (gist w)(q \<mapsto> (rid, ts @ [t])))"
| "decoded q w (OpFail p) w' \<longleftrightarrow> p = q \<and> gist w' = gist w"
| "decoded q w _ w' \<longleftrightarrow> False"

lemma decoded_from: "decoded q w1 op1 w' \<Longrightarrow> gist w1 = gist w \<Longrightarrow> decoded q w op1 w'"
  by (cases op1) auto

lemma wp_fail_decode: "op_wp (fail_decode eng q c) (\<lambda>r w'. decoded q w r w') (\<lambda>_ _. True) w"
  unfolding fail_decode_def op_wp_bind op_wp_seq wp_elapsed wp_on_counters op_wp_return
  by (rule wp_keeps [OF keeps_retire]) (simp add: gist_def fun_eq_iff)

lemma op_wp_get_slot:
  "op_wp (get_slot q) Q (\<lambda>_ _. True) w \<longleftrightarrow> (\<forall>sl. bt_get (sc_slots (w_sched w)) q = Some sl \<longrightarrow> Q sl w)"
  by (auto simp: get_slot_def op_wp_getr res)

lemma wp_push_token:
  assumes "\<And>w' rid ts. gist w q = Some (rid, ts) \<Longrightarrow> gist w' = (gist w)(q \<mapsto> (rid, ts @ [t])) \<Longrightarrow> Q () w'"
  shows "op_wp (set_slot q (\<lambda>sl. sl\<lparr>sl_tokens := sl_tokens sl @ [t]\<rparr>)) Q (\<lambda>_ _. True) w"
  unfolding set_slot_def op_wp_bind op_wp_get_slot wp_on_sched
proof (intro allI impI)
  fix sl assume sl: "bt_get (sc_slots (w_sched w)) q = Some sl"
  show "Q () (w\<lparr>w_sched := (w_sched w)
      \<lparr>sc_slots := bt_update q (\<lambda>sl. sl\<lparr>sl_tokens := sl_tokens sl @ [t]\<rparr>) (sc_slots (w_sched w))\<rparr>\<rparr>)"
    using sl by (intro assms [of "sl_request_id sl" "sl_tokens sl"]) (auto simp: gist_update fun_eq_iff, simp add: gist_def)
qed

lemma gist_world [simp]:
  "gist (w\<lparr>w_clock := n\<rparr>) = gist w" "gist (w\<lparr>w_sched := (w_sched w)\<lparr>sc_counters := ct\<rparr>\<rparr>) = gist w"
  "gist (w\<lparr>w_model := mo, w_kv := k\<rparr>) = gist w"
  "gist (w\<lparr>w_clock := n, w_sched := (w_sched w)\<lparr>sc_counters := ct\<rparr>\<rparr>) = gist w"
  by (simp_all add: gist_def fun_eq_iff)

lemma wp_decode_sample_tokens:
  "op_wp (decode_sample eng q) (\<lambda>r w'. decoded q w r w') (\<lambda>_ _. True) w"
proof -
  have fin: "op_wp (op_bind (get_slot q) (\<lambda>sl.
        let stop = t \<in> set (sp_eos_token_ids (sl_sampler sl));
            len = (length (sl_tokens sl) mod 4294967296 = max_output_tokens (sp_settings (sl_sampler sl)))
        in op_seq (add_service q 1)
          (op_seq (if stop \<or> len
              then retire eng q (if stop then ''stop'' else ''length'') None
              else set_slot q (\<lambda>sl. sl\<lparr>sl_needs_forward := True\<rparr>))
          (op_bind (elapsed eng) (\<lambda>d.
          op_seq (on_counters (note_decode d 1)) (op_return (OpDecode q t)))))))
      (\<lambda>r w'. decoded q w r w') (\<lambda>_ _. True) w1"
    if "gist w q = Some (rid, ts)" "gist w1 = (gist w)(q \<mapsto> (rid, ts @ [t]))" for t w1 rid ts
    unfolding op_wp_bind [of "get_slot q"] op_wp_get_slot Let_def op_wp_seq_fun
  proof (intro allI impI)
    fix sl
    let ?b = "t \<in> set (sp_eos_token_ids (sl_sampler sl)) \<or>
      length (sl_tokens sl) mod 4294967296 = max_output_tokens (sp_settings (sl_sampler sl))"
    have k: "keeps (if ?b then retire eng q (if t \<in> set (sp_eos_token_ids (sl_sampler sl)) then ''stop'' else ''length'') None
        else set_slot q (\<lambda>sl. sl\<lparr>sl_needs_forward := True\<rparr>))"
      by (intro keeps) simp
    show "op_wp (add_service q 1) (\<lambda>_. op_wp
          (if ?b then retire eng q (if t \<in> set (sp_eos_token_ids (sl_sampler sl)) then ''stop'' else ''length'') None
           else set_slot q (\<lambda>sl. sl\<lparr>sl_needs_forward := True\<rparr>))
          (\<lambda>_. op_wp (op_bind (elapsed eng) (\<lambda>d. op_seq (on_counters (note_decode d 1)) (op_return (OpDecode q t))))
            (\<lambda>r w'. decoded q w r w') (\<lambda>_ _. True)) (\<lambda>_ _. True)) (\<lambda>_ _. True) w1"
      by (rule wp_keeps [OF keeps_add_service], rule wp_keeps [OF k])
        (use that in \<open>simp add: op_wp_bind wp_elapsed op_wp_seq wp_on_counters op_wp_return\<close>)
  qed
  then have "op_wp (op_seq (set_slot q (\<lambda>sl. sl\<lparr>sl_tokens := sl_tokens sl @ [t]\<rparr>))
        (op_bind (get_slot q) (\<lambda>sl.
        let stop = t \<in> set (sp_eos_token_ids (sl_sampler sl));
            len = (length (sl_tokens sl) mod 4294967296 = max_output_tokens (sp_settings (sl_sampler sl)))
        in op_seq (add_service q 1)
          (op_seq (if stop \<or> len
              then retire eng q (if stop then ''stop'' else ''length'') None
              else set_slot q (\<lambda>sl. sl\<lparr>sl_needs_forward := True\<rparr>))
          (op_bind (elapsed eng) (\<lambda>d.
          op_seq (on_counters (note_decode d 1)) (op_return (OpDecode q t))))))))
      (\<lambda>r w'. decoded q w r w') (\<lambda>_ _. True) w" for t
    unfolding op_wp_seq by (rule wp_push_token)
  then show ?thesis
    unfolding decode_sample_def op_wp_bind [of "get_slot q"] op_wp_get_slot
    using wp_fail_decode [of eng q _ w]
    by (simp add: op_wp_throw op_wp_lift ok_or_def op_wp_bind [of "op_lift _"] split: sum.split)
qed

lemma wp_decode_one_tokens:
  "op_wp (serve_decode_one eng q) (\<lambda>r w'. decoded q w r w') (\<lambda>_ _. True) w"
proof -
  have fwd: "op_wp (op_seq (set_slot q (\<lambda>sl. sl\<lparr>sl_logits := l, sl_needs_forward := False\<rparr>)) (decode_sample eng q))
      (\<lambda>r w'. decoded q w r w') (\<lambda>_ _. True) w1" if "gist w1 = gist w" for w1 l
    unfolding op_wp_seq
    by (rule wp_keeps, intro keeps, simp, rule op_wp_mono [OF wp_decode_sample_tokens])
      (auto intro: decoded_from simp: that)
  have "op_wp (op_try (on_model (eng_decode eng q ids at)))
      (\<lambda>r. op_wp (case r of Inr l \<Rightarrow> op_seq (set_slot q (\<lambda>sl. sl\<lparr>sl_logits := l, sl_needs_forward := False\<rparr>))
          (decode_sample eng q) | Inl e \<Rightarrow> fail_decode eng q (code e))
        (\<lambda>r w'. decoded q w r w') (\<lambda>_ _. True)) (\<lambda>_ _. True) w" for ids at
  proof (rule wp_keeps [OF keeps_try [OF keeps_on_model]])
    fix r and w1 :: "('a, 'b) world" assume g: "gist w1 = gist w"
    have "op_wp (fail_decode eng q c) (\<lambda>r w'. decoded q w r w') (\<lambda>_ _. True) w1" for c
      by (rule op_wp_mono [OF wp_fail_decode]) (auto intro: decoded_from simp: g)
    then show "op_wp (case r of Inr l \<Rightarrow> op_seq (set_slot q (\<lambda>sl. sl\<lparr>sl_logits := l, sl_needs_forward := False\<rparr>))
          (decode_sample eng q) | Inl e \<Rightarrow> fail_decode eng q (code e))
        (\<lambda>r w'. decoded q w r w') (\<lambda>_ _. True) w1"
      using fwd [OF g] by (simp split: sum.split)
  qed
  then show ?thesis
    unfolding serve_decode_one_def op_wp_bind op_wp_get_slot
    using wp_decode_sample_tokens [of eng q w]
    by (auto simp: op_wp_lift ok_or_def op_wp_bind op_wp_getr split: if_splits)
qed

text \<open>The operations of an iteration, replayed on the tokens of the requests.\<close>

fun ops_gist ::
  "schedule_op list \<Rightarrow> (nat \<Rightarrow> (string \<times> nat list) option) \<Rightarrow> (nat \<Rightarrow> (string \<times> nat list) option) option" where
  "ops_gist [] G = Some G"
| "ops_gist (OpDecode q t # ops) G =
    (case G q of None \<Rightarrow> None | Some (rid, ts) \<Rightarrow> ops_gist ops (G(q \<mapsto> (rid, ts @ [t]))))"
| "ops_gist (OpPrefill q n # ops) G =
    (case G q of Some (rid, []) \<Rightarrow> ops_gist ops G | _ \<Rightarrow> None)"
| "ops_gist (OpCancel q # ops) G = ops_gist ops G"
| "ops_gist (OpFail q # ops) G = ops_gist ops G"

fun decode_ids :: "schedule_op list \<Rightarrow> nat list" where
  "decode_ids [] = []"
| "decode_ids (OpDecode q t # ops) = q # decode_ids ops"
| "decode_ids (op1 # ops) = decode_ids ops"

lemma wp_serve_decodes_tokens:
  "distinct qs \<Longrightarrow> op_wp (serve_decodes eng qs ops)
    (\<lambda>r w'. \<exists>new. r = ops @ new \<and> ops_gist new (gist w) = Some (gist w') \<and>
      distinct (decode_ids new) \<and> set (decode_ids new) \<subseteq> set qs) (\<lambda>_ _. True) w"
proof (induction qs arbitrary: ops w)
  case Nil
  then show ?case by (simp add: op_wp_return)
next
  case (Cons q qs)
  let ?Q = "\<lambda>r w'. \<exists>new. r = ops @ new \<and> ops_gist new (gist w) = Some (gist w') \<and>
      distinct (decode_ids new) \<and> set (decode_ids new) \<subseteq> set (q # qs)"
  have "op_wp (case op1 of OpFail _ \<Rightarrow> op_return (ops @ [op1]) | _ \<Rightarrow> serve_decodes eng qs (ops @ [op1])) ?Q (\<lambda>_ _. True) w1"
    if d: "decoded q w op1 w1" for op1 w1
  proof (cases op1)
    case (OpDecode p t)
    then obtain rid ts where g: "p = q" "gist w q = Some (rid, ts)" "gist w1 = (gist w)(q \<mapsto> (rid, ts @ [t]))"
      using d by auto
    have "op_wp (serve_decodes eng qs (ops @ [op1])) ?Q (\<lambda>_ _. True) w1"
    proof (rule op_wp_mono [OF Cons.IH])
      show "distinct qs" using Cons.prems by simp
      fix r and w' :: "('a, 'b) world"
      assume "\<exists>new. r = (ops @ [op1]) @ new \<and> ops_gist new (gist w1) = Some (gist w') \<and>
        distinct (decode_ids new) \<and> set (decode_ids new) \<subseteq> set qs"
      then obtain new where new: "r = ops @ (op1 # new)" "ops_gist new (gist w1) = Some (gist w')"
          "distinct (decode_ids new)" "set (decode_ids new) \<subseteq> set qs" by auto
      then show "?Q r w'" using Cons.prems g
        by (intro exI [of _ "op1 # new"]) (auto simp: OpDecode)
    qed simp
    then show ?thesis by (simp add: OpDecode)
  next
    case (OpFail p)
    then show ?thesis using d by (auto simp: op_wp_return intro!: exI [of _ "[OpFail p]"])
  qed (use d in auto)
  then show ?case unfolding serve_decodes.simps op_wp_bind
    by (rule op_wp_mono [OF wp_decode_one_tokens])
qed

definition yields :: "('s, 'a) op \<Rightarrow> ('a \<Rightarrow> bool) \<Rightarrow> bool" where
  "yields m P \<longleftrightarrow> (\<forall>s a s'. m s = (Inr a, s') \<longrightarrow> P a)"

named_theorems yields

lemma yields_rules [yields]:
  "P a \<Longrightarrow> yields (op_return a) P" "yields (op_throw e) P"
  "(\<And>a. yields (f a) P) \<Longrightarrow> yields (op_bind m f) P" "yields n P \<Longrightarrow> yields (op_seq m' n) P"
  "yields m1 P \<Longrightarrow> yields m2 P \<Longrightarrow> yields (if b then m1 else m2) P"
  by (auto simp: yields_def op_return_def op_throw_def op_seq_def op_bind_def split: prod.splits sum.splits)

lemma yields_sum [yields]: "(\<And>e. yields (f e) P) \<Longrightarrow> (\<And>a. yields (g a) P) \<Longrightarrow>
    yields (case r of Inl e \<Rightarrow> f e | Inr a \<Rightarrow> g a) P"
  by (cases r) simp_all

lemma yields_prefill: "yields (serve_prefill eng q) (\<lambda>st. step_ops st = [OpFail q] \<or> (\<exists>n. step_ops st = [OpPrefill q n]))"
  unfolding serve_prefill_def run_prefill_def fail_slot_def Let_def by (intro yields) (simp_all add: fail_step_def)

lemma yields_cancel: "yields (serve_cancel eng q) (\<lambda>st. step_ops st = [OpCancel q])"
  unfolding serve_cancel_def by (intro yields) simp

lemma wp_keeps_yields:
  "keeps m \<Longrightarrow> yields m P \<Longrightarrow> op_wp m (\<lambda>a w'. P a \<and> gist w' = gist w) (\<lambda>_ _. True) w"
  by (auto simp: keeps_def yields_def op_wp_def split: prod.split sum.split) (metis snd_conv)

definition step_tokens :: "('m, 'k) world \<Rightarrow> schedule_step option \<Rightarrow> ('m, 'k) world \<Rightarrow> bool" where
  "step_tokens w st w' \<longleftrightarrow> (case st of None \<Rightarrow> gist w' = gist w
    | Some st \<Rightarrow> ops_gist (step_ops st) (gist w) = Some (gist w') \<and> distinct (decode_ids (step_ops st)))"

lemma wp_step_once_tokens:
  assumes inv: "sched_inv (w_sched w)"
  shows "op_wp (step_once eng) (\<lambda>st w'. step_tokens w st w') (\<lambda>_ _. True) w"
proof -
  let ?Q = "\<lambda>st w'. step_tokens w st w'" and ?E = "\<lambda>_ _. True"
  have cancel: "op_wp (op_bind (serve_cancel eng q) (\<lambda>st. op_return (Some st))) ?Q ?E w" for q
    unfolding op_wp_bind op_wp_return
    by (rule op_wp_mono [OF wp_keeps_yields [OF keeps_fail(3) yields_cancel]]) (auto simp: step_tokens_def)
  have batch: "op_wp (op_bind (serve_decode_batch eng) (\<lambda>st. op_return (Some st))) ?Q ?E w"
    unfolding serve_decode_batch_def op_wp_bind op_wp_gets op_wp_return
    using wp_serve_decodes_tokens [OF decode_batch_props(1) [OF inv], of eng "[]" w]
    by (auto simp: op_wp_throw op_wp_bind op_wp_return step_tokens_def elim!: op_wp_mono)
  have prefill: "op_wp (op_bind (serve_prefill eng q) (\<lambda>st. op_return (Some st))) ?Q ?E w"
    if sl: "bt_get (sc_slots (w_sched w)) q = Some sl" "sl_phase sl = Queued \<or> sl_phase sl = Prefilling" for q sl
  proof -
    have "gist w q = Some (sl_request_id sl, [])"
      using sched_inv_slot [OF inv sl(1)] sl by (auto simp: gist_def slot_ok_def)
    then show ?thesis
      unfolding op_wp_bind op_wp_return
      by (intro op_wp_mono [OF wp_keeps_yields [OF keeps_prefill yields_prefill]]) (auto simp: step_tokens_def)
  qed
  have serve: "op_wp (op_bind (get_slot q) (\<lambda>sl.
      if sl_phase sl = Decoding then op_bind (serve_decode_batch eng) (\<lambda>st. op_return (Some st))
      else op_bind (serve_prefill eng q) (\<lambda>st. op_return (Some st)))) ?Q ?E w"
    if picked: "pick_runnable (w_sched w) = Some q" for q
  proof -
    obtain sl where sl: "bt_get (sc_slots (w_sched w)) q = Some sl" "is_runnable sl"
      using pick_runnable_Some [OF inv picked] by blast
    then have "sl_phase sl = Decoding \<or> sl_phase sl = Queued \<or> sl_phase sl = Prefilling"
      by (cases "sl_phase sl") (auto simp: is_runnable_def)
    then show ?thesis
      unfolding op_wp_bind [of "get_slot q"] wp_get_slot [OF sl(1)] using batch prefill [OF sl(1)] by auto
  qed
  have idle: "step_tokens w None w" by (simp add: step_tokens_def)
  show ?thesis
    unfolding step_once_def op_wp_bind [of "op_getr _"] op_wp_bind [of "op_gets _"] op_wp_getr op_wp_gets
    using cancel serve idle
    by (auto simp: op_wp_bind [of "op_gets _"] op_wp_gets op_wp_return split: option.split)
qed

lemma wp_sched_step_tokens:
  assumes inv: "sched_inv (w_sched w)"
  shows "op_wp (sched_step eng) (\<lambda>st w'. step_tokens w st w' \<and> sched_inv (w_sched w')) (\<lambda>_ _. True) w"
proof -
  have "op_wp (sched_step eng) (\<lambda>st w'. step_tokens w st w') (\<lambda>_ _. True) w"
    unfolding sched_step_def op_wp_bind op_wp_try
    by (rule op_wp_mono [OF wp_step_once_tokens [OF inv]])
      (auto simp: wp_elapsed op_wp_seq wp_on_counters op_wp_lift step_tokens_def split: option.splits)
  moreover have "op_wp (sched_step eng) (\<lambda>_ w'. sched_inv (w_sched w')) (\<lambda>_ _. True) w"
    using sched_inv_step [OF inv, of eng] by (auto simp: op_wp_def split: prod.split sum.split)
  ultimately show ?thesis by (rule op_wp_conj [THEN op_wp_mono]) auto
qed

end
