(* ===== verification/Worker_Conversation.thy ===== *)
theory Worker_Conversation
  imports Worker_Proofs
begin

text \<open>
  The protocol the supervisor expects of a worker, as an automaton over its messages, and that every
  session keeps it: whatever arrives, whatever model and store do, and up to the message at which the worker
  fails if it does.
\<close>

subsection \<open>The protocol\<close>

text \<open>For each admitted request the number of its next prefill chunk and the tokens reported so far.\<close>

type_synonym conversation = "string \<Rightarrow> (nat \<times> nat list) option"

fun conv_step :: "from_worker \<Rightarrow> conversation \<Rightarrow> conversation option" where
  "conv_step (Admitted rid) A = (if A rid = None then Some (A(rid \<mapsto> (0, []))) else None)"
| "conv_step (Prefill rid chunk n) A =
    (case A rid of
       Some (c, []) \<Rightarrow> if chunk = c then Some (A(rid \<mapsto> (saturating_add_u32 c 1, []))) else None
     | _ \<Rightarrow> None)"
| "conv_step (Delta rid index token) A =
    (case A rid of
       Some (c, ts) \<Rightarrow> if index = length ts then Some (A(rid \<mapsto> (c, ts @ [token]))) else None
     | None \<Rightarrow> None)"
| "conv_step (Result rid tokens reason ec) A =
    (case A rid of
       Some (c, ts) \<Rightarrow> if tokens = ts then Some (A(rid := None)) else None
     | None \<Rightarrow> None)"
| "conv_step m A = Some A"

fun conv_run :: "from_worker list \<Rightarrow> conversation \<Rightarrow> conversation option" where
  "conv_run [] A = Some A"
| "conv_run (m # ms) A = (case conv_step m A of None \<Rightarrow> None | Some B \<Rightarrow> conv_run ms B)"

definition conversation_ok :: "from_worker list \<Rightarrow> bool" where
  "conversation_ok ms \<longleftrightarrow> conv_run ms Map.empty \<noteq> None"

lemma conv_run_snoc: "conv_run (ms @ [m]) A = (case conv_run ms A of None \<Rightarrow> None | Some B \<Rightarrow> conv_step m B)"
  by (induction ms arbitrary: A) (auto split: option.split)

subsection \<open>The session and its conversation\<close>

definition matches ::
  "conversation \<Rightarrow> (string, nat) btree \<Rightarrow> (nat \<Rightarrow> (string \<times> nat list) option) \<Rightarrow> bool" where
  "matches A C G \<longleftrightarrow> bt_ok C \<and>
    (\<forall>q rid ts. G q = Some (rid, ts) \<longrightarrow> A rid = Some (case bt_get C rid of None \<Rightarrow> 0 | Some n \<Rightarrow> n, ts)) \<and>
    (\<forall>rid. A rid \<noteq> None \<longrightarrow> (\<exists>q ts. G q = Some (rid, ts))) \<and>
    (\<forall>rid. bt_get C rid \<noteq> None \<longrightarrow> A rid \<noteq> None) \<and>
    (\<forall>p q rid ts us. G p = Some (rid, ts) \<and> G q = Some (rid, us) \<longrightarrow> p = q)"

definition talk_ok :: "('m, 'k) session \<Rightarrow> bool" where
  "talk_ok s \<longleftrightarrow> conversation_ok (ss_sent s)"

definition talks :: "(nat \<Rightarrow> (string \<times> nat list) option) \<Rightarrow> ('m, 'k) session \<Rightarrow> bool" where
  "talks G s \<longleftrightarrow> (\<exists>A. conv_run (ss_sent s) Map.empty = Some A \<and> matches A (ss_prefill_chunks s) G)"

definition session_inv :: "('m, 'k) session \<Rightarrow> bool" where
  "session_inv s \<longleftrightarrow> sched_inv (w_sched (ss_world s)) \<and> talks (gist (ss_world s)) s"

lemma talks_ok: "talks G s \<Longrightarrow> talk_ok s"
  by (auto simp: talks_def talk_ok_def conversation_ok_def)

lemma session_inv_ok: "session_inv s \<Longrightarrow> talk_ok s"
  by (auto simp: session_inv_def intro: talks_ok)

lemma talks_world [simp]:
  "talks G (s\<lparr>ss_world := w\<rparr>) = talks G s" "talks G (s\<lparr>ss_wire := b\<rparr>) = talks G s"
  "talks G (s\<lparr>ss_paused := x\<rparr>) = talks G s"
  "talk_ok (s\<lparr>ss_world := w\<rparr>) = talk_ok s" "talk_ok (s\<lparr>ss_wire := b\<rparr>) = talk_ok s"
  "talk_ok (s\<lparr>ss_prefill_chunks := c\<rparr>) = talk_ok s" "talk_ok (s\<lparr>ss_paused := x\<rparr>) = talk_ok s"
  by (simp_all add: talks_def talk_ok_def)

lemma gist_inj:
  assumes "sched_inv (w_sched w)" and "gist w p = Some (rid, ts)" and "gist w q = Some (rid, us)"
  shows "p = q"
  using assms sched_inv_slot [OF assms(1), of p] sched_inv_slot [OF assms(1), of q]
  by (auto simp: gist_def)

lemma matchesD: "matches A C G \<Longrightarrow> A rid = Some x \<Longrightarrow> \<exists>q ts. G q = Some (rid, ts)"
  by (simp add: matches_def)

lemma op_wp_return_fun: "op_wp (op_return a) Q E = Q a"
  by (simp add: fun_eq_iff op_wp_return)

lemma wp_on_world:
  "op_wp (on_world m) Q E s \<longleftrightarrow>
    op_wp m (\<lambda>a w. Q a (s\<lparr>ss_world := w\<rparr>)) (\<lambda>e w. E e (s\<lparr>ss_world := w\<rparr>)) (ss_world s)"
  by (auto simp: op_wp_def on_world_def split: prod.split sum.split)

lemma wp_on_scheduler:
  "op_wp (on_scheduler m) Q E w \<longleftrightarrow>
    op_wp m (\<lambda>a t. Q a (w\<lparr>w_sched := t\<rparr>)) (\<lambda>e t. E e (w\<lparr>w_sched := t\<rparr>)) (w_sched w)"
  by (auto simp: op_wp_def on_scheduler_def split: prod.split sum.split)

lemma socket_write_frame: "socket_write env bytes s = (r, s') \<Longrightarrow> \<exists>b. s' = s\<lparr>ss_wire := b\<rparr>"
  by (auto simp: socket_write_def split: option.splits intro: exI [of _ "ss_wire s"])

lemma write_frame_wire: "write_frame (socket_write env) (op_return ()) v s = (r, s') \<Longrightarrow> \<exists>b. s' = s\<lparr>ss_wire := b\<rparr>"
  by (auto simp: write_frame_def op_seq_def op_bind_def op_throw_def op_return_def Let_def
      split: if_splits prod.splits sum.splits dest!: socket_write_frame intro: exI [of _ "ss_wire s"])

lemma wp_emit:
  assumes "\<And>b. Q () (s\<lparr>ss_wire := b, ss_sent := ss_sent s @ [m]\<rparr>)" and "talk_ok s"
  shows "op_wp (emit env m) Q (\<lambda>_. talk_ok) s"
proof (cases "encode_from_worker m")
  case (Inl e)
  then show ?thesis using assms(2) by (simp add: emit_def op_wp_bind op_wp_lift)
next
  case (Inr v)
  obtain r s' where w: "write_frame (socket_write env) (op_return ()) v s = (r, s')" by fastforce
  obtain b where "s' = s\<lparr>ss_wire := b\<rparr>" using write_frame_wire [OF w] by blast
  then show ?thesis
    using assms w Inr by (auto simp: emit_def op_wp_bind op_wp_lift op_wp_seq op_wp_modify op_wp_def [of "write_frame _ _ _"]
        split: sum.split)
qed

text \<open>A message that changes nothing of the conversation.\<close>

fun neutral :: "from_worker \<Rightarrow> bool" where
  "neutral (Ready _) = True" | "neutral (Reject _ _ _) = True" | "neutral (Ack _) = True" | "neutral (Stats _) = True"
| "neutral _ = False"

lemma conv_step_neutral: "neutral m \<Longrightarrow> conv_step m A = Some A"
  by (cases m) simp_all

lemma talks_neutral: "neutral m \<Longrightarrow> talks G (s\<lparr>ss_wire := b, ss_sent := ss_sent s @ [m]\<rparr>) = talks G s"
  by (simp add: talks_def conv_run_snoc conv_step_neutral split: option.split)

lemma wp_emit_neutral:
  "neutral m \<Longrightarrow> session_inv s \<Longrightarrow> op_wp (emit env m) (\<lambda>_. session_inv) (\<lambda>_. talk_ok) s"
  by (rule wp_emit) (auto simp: session_inv_def talks_neutral intro: talks_ok)

lemma wp_send_reject: "session_inv s \<Longrightarrow> op_wp (send_reject env rid err) (\<lambda>_. session_inv) (\<lambda>_. talk_ok) s"
  by (simp add: send_reject_def Let_def op_wp_throw wp_emit_neutral session_inv_ok)

subsection \<open>Messages in\<close>

lemma submit_accepted:
  assumes "submit rq t = (Inr q, t')" and inv: "sched_inv t"
  shows "bt_get (sc_ids t) (rq_request_id rq) = None" and "bt_get (sc_slots t) q = None"
    and "\<exists>sl. bt_get (sc_slots t') = (bt_get (sc_slots t))(q \<mapsto> sl) \<and> sl_request_id sl = rq_request_id rq \<and> sl_tokens sl = []"
proof -
  obtain pages reserved where a: "admit_check rq t = Inr (q, pages, reserved)"
      and t': "t' = t\<lparr>sc_next_sequence := q, sc_reserved_pages := reserved,
           sc_ids := bt_insert (rq_request_id rq) q (sc_ids t),
           sc_slots := bt_insert q (new_slot rq q (runnable_vtime t) pages) (sc_slots t)\<rparr>"
    using assms(1) by (auto simp: submit_def admit_def split: prod.splits sum.splits)
  show "bt_get (sc_ids t) (rq_request_id rq) = None" using admit_check_Inr [OF a] by simp
  show "bt_get (sc_slots t) q = None"
    using admit_check_Inr [OF a] sched_inv_slot [OF inv, of q] by (cases "bt_get (sc_slots t) q") auto
  show "\<exists>sl. bt_get (sc_slots t') = (bt_get (sc_slots t))(q \<mapsto> sl) \<and> sl_request_id sl = rq_request_id rq \<and> sl_tokens sl = []"
    using sched_inv_bt [OF inv] by (intro exI [of _ "new_slot rq q (runnable_vtime t) pages"]) (simp add: t' new_slot_def)
qed

lemma matches_admit:
  assumes "matches A C G" and "A rid = None" and "G q = None"
  shows "matches (A(rid \<mapsto> (0, []))) C (G(q \<mapsto> (rid, [])))"
proof -
  have "G p \<noteq> Some (rid, ts)" for p ts using assms(1,2) by (auto simp: matches_def)
  moreover have "bt_get C rid = None" using assms(1,2) by (force simp: matches_def)
  moreover have "\<exists>p ts. (G(q \<mapsto> (rid, []))) p = Some (r, ts)" if r: "(A(rid \<mapsto> (0, []))) r \<noteq> None" for r
  proof (cases "r = rid")
    case False
    then obtain p ts where "G p = Some (r, ts)" using r matchesD [OF assms(1), of r] by (cases "A r") auto
    then show ?thesis using assms(3) by (intro exI [of _ p]) auto
  qed auto
  ultimately show ?thesis using assms unfolding matches_def by auto
qed

lemma wp_submit:
  assumes inv: "session_inv s"
  shows "op_wp (handle_message env (Submit rid prompt sampler cl)) (\<lambda>_. session_inv) (\<lambda>_. talk_ok) s"
proof -
  let ?rq = "\<lparr>rq_request_id = rid, rq_runtime_root = ss_runtime_root s, rq_prompt = prompt,
          rq_sampler = sampler, rq_class = cl\<rparr>"
  let ?t = "w_sched (ss_world s)"
  have sinv: "sched_inv ?t" using inv by (simp add: session_inv_def)
  obtain r t' where sub: "submit ?rq ?t = (r, t')" by fastforce
  then have tinv: "sched_inv t'" using sched_inv_submit [OF sinv, of ?rq] by simp
  let ?s = "s\<lparr>ss_world := (ss_world s)\<lparr>w_sched := t'\<rparr>\<rparr>"
  have "op_wp (case r of Inl err \<Rightarrow> send_reject env rid err | Inr _ \<Rightarrow> emit env (Admitted rid))
      (\<lambda>_. session_inv) (\<lambda>_. talk_ok) ?s"
  proof (cases r)
    case (Inl e)
    then have "sc_slots t' = sc_slots ?t" using sub by (auto simp: submit_def admit_def split: prod.splits sum.splits)
    then have "gist (ss_world ?s) = gist (ss_world s)" by (simp add: gist_def fun_eq_iff)
    then have "session_inv ?s" using inv tinv by (simp add: session_inv_def)
    then show ?thesis using Inl by (simp add: wp_send_reject)
  next
    case (Inr q)
    note acc = submit_accepted [OF sub [unfolded Inr] sinv]
    obtain A where A: "conv_run (ss_sent s) Map.empty = Some A" "matches A (ss_prefill_chunks s) (gist (ss_world s))"
      using inv by (auto simp: session_inv_def talks_def)
    have "A rid = None"
    proof (rule ccontr)
      assume "A rid \<noteq> None"
      then obtain p ts where "gist (ss_world s) p = Some (rid, ts)" using matchesD [OF A(2)] by blast
      then have "bt_get (sc_ids ?t) rid = Some p" using sched_inv_slot [OF sinv, of p] by (auto simp: gist_def)
      then show False using acc(1) by simp
    qed
    moreover have "gist (ss_world s) q = None" using acc(2) by (simp add: gist_def)
    moreover have "gist (ss_world ?s) = (gist (ss_world s))(q \<mapsto> (rid, []))"
      using acc(3) by (auto simp: gist_def fun_eq_iff)
    ultimately show ?thesis
      using A tinv Inr session_inv_ok [OF inv] matches_admit [OF A(2)]
      by (auto simp: session_inv_def talks_def conv_run_snoc intro!: wp_emit)
  qed
  then show ?thesis
    by (cases r) (simp_all add: op_wp_bind op_wp_gets op_wp_try wp_on_world wp_on_scheduler op_wp_def [of "submit _"]
        sub Let_def op_wp_seq op_wp_return_fun)
qed

lemma wp_cancel:
  assumes inv: "session_inv s"
  shows "op_wp (handle_message env (Cancel rid)) (\<lambda>_. session_inv) (\<lambda>_. talk_ok) s"
proof -
  let ?t = "w_sched (ss_world s)"
  have sinv: "sched_inv ?t" using inv by (simp add: session_inv_def)
  obtain r t' where c: "cancel rid ?t = (r, t')" by fastforce
  then have tinv: "sched_inv t'" using sched_inv_cancel [OF sinv, of rid] by simp
  let ?s = "s\<lparr>ss_world := (ss_world s)\<lparr>w_sched := t'\<rparr>\<rparr>"
  have "gist (ss_world ?s) = gist (ss_world s)"
    using c by (auto simp: cancel_def gist_def fun_eq_iff option.map_comp comp_def split: option.splits sum.splits if_splits)
  then have "session_inv ?s" using inv tinv by (simp add: session_inv_def)
  then have "op_wp (case r of Inl err \<Rightarrow> send_reject env rid err | Inr _ \<Rightarrow> emit env (Ack rid))
      (\<lambda>_. session_inv) (\<lambda>_. talk_ok) ?s"
    by (simp add: wp_send_reject wp_emit_neutral split: sum.split)
  then show ?thesis
    by (cases r) (simp_all add: op_wp_bind op_wp_try wp_on_world wp_on_scheduler op_wp_def [of "cancel _"] c
        op_wp_seq op_wp_return_fun)
qed

lemma wp_handle_frame:
  assumes inv: "session_inv s"
  shows "op_wp (handle_frame env v) (\<lambda>_. session_inv) (\<lambda>_. talk_ok) s"
proof -
  have "gist (ss_world s\<lparr>w_kv := k\<rparr>) = gist (ss_world s)" for k by (simp add: gist_def fun_eq_iff)
  then have "session_inv (s\<lparr>ss_world := (ss_world s)\<lparr>w_kv := k\<rparr>\<rparr>)" "session_inv (s\<lparr>ss_paused := x\<rparr>)" for k x
    using inv by (simp_all add: session_inv_def)
  then have "op_wp (handle_message env m) (\<lambda>_. session_inv) (\<lambda>_. talk_ok) s" for m
    using session_inv_ok [OF inv] wp_submit [OF inv] wp_cancel [OF inv] wp_emit_neutral [OF _ inv]
    by (cases m) (simp_all add: op_wp_seq op_wp_modify op_wp_return op_wp_return_fun op_wp_throw op_wp_bind op_wp_gets)
  then show ?thesis
    using session_inv_ok [OF inv] by (simp add: handle_frame_def op_wp_bind op_wp_lift split: sum.split)
qed

subsection \<open>Reports\<close>

lemma ops_gist_rid: "ops_gist ops G = Some H \<Longrightarrow> map_option fst (H q) = map_option fst (G q)"
proof (induction ops arbitrary: G)
  case (Cons op1 ops)
  show ?case
  proof (cases op1)
    case (OpDecode p t)
    then obtain rid ts where g: "G p = Some (rid, ts)" "ops_gist ops (G(p \<mapsto> (rid, ts @ [t]))) = Some H"
      using Cons.prems by (auto split: option.splits)
    from Cons.IH [OF g(2)] show ?thesis by (cases "q = p") (simp_all add: g(1))
  qed (use Cons in \<open>auto split: option.splits list.splits\<close>)
qed simp

lemma ops_gist_other: "ops_gist ops G = Some H \<Longrightarrow> q \<notin> set (decode_ids ops) \<Longrightarrow> H q = G q"
proof (induction ops arbitrary: G)
  case (Cons op1 ops)
  show ?case
  proof (cases op1)
    case (OpDecode p t)
    then obtain rid ts where g: "ops_gist ops (G(p \<mapsto> (rid, ts @ [t]))) = Some H"
      using Cons.prems(1) by (auto split: option.splits)
    have q: "q \<noteq> p" "q \<notin> set (decode_ids ops)" using Cons.prems(2) by (simp_all add: OpDecode)
    from Cons.IH [OF g q(2)] show ?thesis by (simp add: q(1))
  qed (use Cons in \<open>auto split: option.splits list.splits\<close>)
qed simp

text \<open>The request of one slot gets another state, the other requests keep theirs.\<close>

lemma matches_change:
  assumes m: "matches A C G" and g: "G q = Some (rid, ts)" and ok: "bt_ok C'"
    and others: "\<And>r. r \<noteq> rid \<Longrightarrow> bt_get C' r = bt_get C r"
    and n: "n = (case bt_get C' rid of None \<Rightarrow> 0 | Some k \<Rightarrow> k)"
  shows "matches (A(rid \<mapsto> (n, us))) C' (G(q \<mapsto> (rid, us)))"
proof -
  let ?G = "G(q \<mapsto> (rid, us))"
  have split: "p = q \<and> r = rid \<and> vs = us \<or> p \<noteq> q \<and> G p = Some (r, vs)" if "?G p = Some (r, vs)" for p r vs
    using that by (auto split: if_splits)
  have same: "p = q" if "G p = Some (rid, vs)" for p vs using m g that unfolding matches_def by blast
  have state: "A r = Some (case bt_get C r of None \<Rightarrow> 0 | Some k \<Rightarrow> k, vs)" if "G p = Some (r, vs)" for p r vs
    using m that unfolding matches_def by blast
  have uniq: "p = p'" if "G p = Some (r, vs)" "G p' = Some (r, ws)" for p p' r vs ws
    using m that unfolding matches_def by blast
  have chunks: "A r \<noteq> None" if "bt_get C r \<noteq> None" for r using m that unfolding matches_def by blast
  show ?thesis unfolding matches_def
  proof (intro conjI allI impI)
    fix p r vs assume "?G p = Some (r, vs)"
    from split [OF this] show "(A(rid \<mapsto> (n, us))) r = Some (case bt_get C' r of None \<Rightarrow> 0 | Some k \<Rightarrow> k, vs)"
      using same state others by (cases "r = rid") (auto simp: n)
  next
    fix r assume r: "(A(rid \<mapsto> (n, us))) r \<noteq> None"
    show "\<exists>p ts. ?G p = Some (r, ts)"
    proof (cases "r = rid")
      case False
      then obtain p vs where p: "G p = Some (r, vs)" using r matchesD [OF m, of r] by (cases "A r") auto
      then have "p \<noteq> q" using g False by auto
      then have "?G p = Some (r, vs)" using p by simp
      then show ?thesis by blast
    next
      case True
      then have "?G q = Some (r, us)" by simp
      then show ?thesis by blast
    qed
  next
    fix r assume "bt_get C' r \<noteq> None"
    then show "(A(rid \<mapsto> (n, us))) r \<noteq> None" using chunks others by (cases "r = rid") auto
  next
    fix p p' r vs ws assume "?G p = Some (r, vs) \<and> ?G p' = Some (r, ws)"
    then have "?G p = Some (r, vs)" "?G p' = Some (r, ws)" by blast+
    from split [OF this(1)] split [OF this(2)] show "p = p'" using same uniq by blast
  qed (rule ok)
qed

lemma matches_token:
  assumes "matches A C G" and "G q = Some (rid, ts)"
  shows "matches (A(rid \<mapsto> (case bt_get C rid of None \<Rightarrow> 0 | Some n \<Rightarrow> n, us))) C (G(q \<mapsto> (rid, us)))"
  using assms by (intro matches_change) (simp_all add: matches_def)

lemma matches_chunk:
  assumes m: "matches A C G" and g: "G q = Some (rid, ts)"
  shows "matches (A(rid \<mapsto> (n, ts))) (bt_insert rid n C) G"
proof -
  have ok: "bt_ok C" using m by (simp add: matches_def)
  have "G(q \<mapsto> (rid, ts)) = G" using g by (rule map_upd_triv)
  moreover have "matches (A(rid \<mapsto> (n, ts))) (bt_insert rid n C) (G(q \<mapsto> (rid, ts)))"
    by (rule matches_change [OF m g]) (use ok in simp_all)
  ultimately show ?thesis by simp
qed

lemma talks_get: "talks G s \<Longrightarrow> G q = Some (rid, ts) \<Longrightarrow>
   \<exists>A. conv_run (ss_sent s) Map.empty = Some A \<and> matches A (ss_prefill_chunks s) G \<and> A rid = Some (chunk_of rid s, ts)"
  by (auto simp: talks_def matches_def chunk_of_def)

lemma talks_delta:
  assumes "talks G s" and g: "G q = Some (rid, ts)"
  shows "talks (G(q \<mapsto> (rid, ts @ [t]))) (s\<lparr>ss_wire := b, ss_sent := ss_sent s @ [Delta rid (length ts) t]\<rparr>)"
proof -
  obtain A where A: "conv_run (ss_sent s) Map.empty = Some A" "matches A (ss_prefill_chunks s) G"
      "A rid = Some (chunk_of rid s, ts)"
    using talks_get [OF assms] by blast
  show ?thesis using A(1,3) matches_token [OF A(2) g, of "ts @ [t]"]
    unfolding talks_def by (simp add: conv_run_snoc chunk_of_def del: fun_upd_apply)
qed

lemma talks_prefill:
  assumes "talks G s" and g: "G q = Some (rid, [])"
  shows "talks G (s\<lparr>ss_prefill_chunks := bt_insert rid (saturating_add_u32 (chunk_of rid s) 1) (ss_prefill_chunks s),
    ss_wire := b, ss_sent := ss_sent s @ [Prefill rid (chunk_of rid s) n]\<rparr>)"
proof -
  obtain A where A: "conv_run (ss_sent s) Map.empty = Some A" "matches A (ss_prefill_chunks s) G"
      "A rid = Some (chunk_of rid s, [])"
    using talks_get [OF assms] by blast
  show ?thesis using A(1,3) matches_chunk [OF A(2) g, of "saturating_add_u32 (chunk_of rid s) 1"]
    unfolding talks_def by (simp add: conv_run_snoc del: fun_upd_apply)
qed

definition reported :: "('m, 'k) session \<Rightarrow> ('m, 'k) session \<Rightarrow> bool" where
  "reported s s' \<longleftrightarrow> ss_world s' = ss_world s \<and> talks (gist (ss_world s)) s'"

lemma reported_world: "ss_world s1 = ss_world s \<Longrightarrow> reported s1 = reported s"
  by (simp add: reported_def fun_eq_iff)

lemma wp_report_ops:
  assumes "talks G s" and "ops_gist ops G = Some (gist (ss_world s))"
    and "distinct (decode_ids ops)" and "set seen \<inter> set (decode_ids ops) = {}"
  shows "op_wp (report_ops env seen ops) (\<lambda>_. reported s) (\<lambda>_. talk_ok) s"
  using assms
proof (induction ops arbitrary: s G seen)
  case Nil
  then show ?case by (simp add: op_wp_return reported_def)
next
  case (Cons op1 ops)
  show ?case
  proof (cases op1)
    case (OpPrefill q n)
    then obtain rid where g: "G q = Some (rid, [])" "ops_gist ops G = Some (gist (ss_world s))"
      using Cons.prems(2) by (auto split: option.splits list.splits)
    obtain us where "gist (ss_world s) q = Some (rid, us)"
      using ops_gist_rid [OF g(2), of q] g(1) by (cases "gist (ss_world s) q") auto
    then have req: "request_id_of q (w_sched (ss_world s)) = Inr rid"
      by (auto simp: request_id_of_def res gist_def slot_of_def)
    let ?s = "s\<lparr>ss_prefill_chunks := bt_insert rid (saturating_add_u32 (chunk_of rid s) 1) (ss_prefill_chunks s)\<rparr>"
    have rest: "distinct (decode_ids ops)" "set seen \<inter> set (decode_ids ops) = {}"
      using Cons.prems(3,4) by (simp_all add: OpPrefill)
    have "op_wp (report_ops env seen ops) (\<lambda>_. reported s) (\<lambda>_. talk_ok)
        (?s\<lparr>ss_wire := b, ss_sent := ss_sent ?s @ [Prefill rid (chunk_of rid s) n]\<rparr>)" for b
    proof -
      let ?s1 = "?s\<lparr>ss_wire := b, ss_sent := ss_sent ?s @ [Prefill rid (chunk_of rid s) n]\<rparr>"
      have w: "ss_world ?s1 = ss_world s" by simp
      have "talks G ?s1" using talks_prefill [OF Cons.prems(1) g(1), where b = b and n = n] by simp
      moreover have "ops_gist ops G = Some (gist (ss_world ?s1))" unfolding w by (rule g(2))
      ultimately show ?thesis using Cons.IH [of G ?s1 seen] rest unfolding reported_world [OF w] by blast
    qed
    then have "op_wp (emit env (Prefill rid (chunk_of rid s) n))
        (\<lambda>_. op_wp (report_ops env seen ops) (\<lambda>_. reported s) (\<lambda>_. talk_ok)) (\<lambda>_. talk_ok) ?s"
      by (rule wp_emit) (use talks_ok [OF Cons.prems(1)] in simp)
    then show ?thesis using req
      by (simp add: OpPrefill op_wp_bind op_wp_getr op_wp_gets op_wp_seq op_wp_modify)
  next
    case (OpDecode q t)
    then obtain rid ts where g: "G q = Some (rid, ts)"
        "ops_gist ops (G(q \<mapsto> (rid, ts @ [t]))) = Some (gist (ss_world s))"
      using Cons.prems(2) by (auto split: option.splits)
    have fresh: "q \<notin> set seen" "q \<notin> set (decode_ids ops)" using Cons.prems(3,4) by (auto simp: OpDecode)
    have rest: "distinct (decode_ids ops)" "set (q # seen) \<inter> set (decode_ids ops) = {}"
      using Cons.prems(3,4) by (auto simp: OpDecode)
    have out: "gist (ss_world s) q = Some (rid, ts @ [t])" using ops_gist_other [OF g(2) fresh(2)] by simp
    have last: "x = (rid, length ts, t)" if "last_output q (w_sched (ss_world s)) = Inr x" for x
      using that out by (auto simp: last_output_def res gist_def slot_of_def nth_append split: if_splits)
    have "op_wp (report_ops env (q # seen) ops) (\<lambda>_. reported s) (\<lambda>_. talk_ok)
        (s\<lparr>ss_wire := b, ss_sent := ss_sent s @ [Delta rid (length ts) t]\<rparr>)" for b
    proof -
      let ?s1 = "s\<lparr>ss_wire := b, ss_sent := ss_sent s @ [Delta rid (length ts) t]\<rparr>"
      have w: "ss_world ?s1 = ss_world s" by simp
      have "ops_gist ops (G(q \<mapsto> (rid, ts @ [t]))) = Some (gist (ss_world ?s1))" unfolding w by (rule g(2))
      from Cons.IH [OF talks_delta [OF Cons.prems(1) g(1)] this rest] show ?thesis
        unfolding reported_world [OF w] .
    qed
    then have "op_wp (emit env (Delta rid (length ts) t))
        (\<lambda>_. op_wp (report_ops env (q # seen) ops) (\<lambda>_. reported s) (\<lambda>_. talk_ok)) (\<lambda>_. talk_ok) s"
      by (rule wp_emit) (rule talks_ok [OF Cons.prems(1)])
    then show ?thesis using fresh(1) talks_ok [OF Cons.prems(1)]
      by (auto simp: OpDecode op_wp_bind op_wp_getr op_wp_seq dest!: last)
  qed (use Cons in auto)
qed

lemma wp_report_steps:
  assumes "talks (gist w) s" and "step_tokens w st (ss_world s)"
  shows "op_wp (report_steps env st) (\<lambda>_. reported s) (\<lambda>_. talk_ok) s"
proof (cases st)
  case None
  then have "reported s s" using assms by (simp add: reported_def step_tokens_def)
  then show ?thesis using None by (simp add: report_steps_def op_wp_return)
next
  case (Some t)
  then show ?thesis using assms wp_report_ops [of "gist w" s "step_ops t" "[]" env]
    by (simp add: report_steps_def step_tokens_def)
qed

text \<open>A result closes its request.\<close>

lemma matches_drop:
  assumes m: "matches A C G" and g: "G q = Some (rid, ts)"
  shows "matches (A(rid := None)) (bt_remove rid C) (G(q := None))"
proof -
  have same: "p = q" if "G p = Some (rid, vs)" for p vs using m g that unfolding matches_def by blast
  have state: "A r = Some (case bt_get C r of None \<Rightarrow> 0 | Some k \<Rightarrow> k, vs)" if "G p = Some (r, vs)" for p r vs
    using m that unfolding matches_def by blast
  have uniq: "p = p'" if "G p = Some (r, vs)" "G p' = Some (r, ws)" for p p' r vs ws
    using m that unfolding matches_def by blast
  have chunks: "A r \<noteq> None" if "bt_get C r \<noteq> None" for r using m that unfolding matches_def by blast
  have ok: "bt_ok C" using m unfolding matches_def by blast
  show ?thesis unfolding matches_def
  proof (intro conjI allI impI)
    show "bt_ok (bt_remove rid C)" using ok by simp
  next
    fix p r vs assume "(G(q := None)) p = Some (r, vs)"
    then have p: "p \<noteq> q" "G p = Some (r, vs)" by (simp_all split: if_splits)
    then have "r \<noteq> rid" using same by blast
    then show "(A(rid := None)) r = Some (case bt_get (bt_remove rid C) r of None \<Rightarrow> 0 | Some k \<Rightarrow> k, vs)"
      using state [OF p(2)] ok by simp
  next
    fix r assume "(A(rid := None)) r \<noteq> None"
    then have r: "r \<noteq> rid" "A r \<noteq> None" by (simp_all split: if_splits)
    then obtain p vs where p: "G p = Some (r, vs)" using matchesD [OF m, of r] by blast
    then have "p \<noteq> q" using g r(1) by auto
    then have "(G(q := None)) p = Some (r, vs)" using p by simp
    then show "\<exists>p vs. (G(q := None)) p = Some (r, vs)" by blast
  next
    fix r assume "bt_get (bt_remove rid C) r \<noteq> None"
    then show "(A(rid := None)) r \<noteq> None" using chunks ok by (cases "r = rid") simp_all
  next
    fix p p' r vs ws assume "(G(q := None)) p = Some (r, vs) \<and> (G(q := None)) p' = Some (r, ws)"
    then have "G p = Some (r, vs)" "G p' = Some (r, ws)" by (simp_all split: if_splits)
    then show "p = p'" by (rule uniq)
  qed
qed

lemma talks_result:
  assumes "talks G s" and g: "G q = Some (rid, ts)"
  shows "talks (G(q := None)) (s\<lparr>ss_prefill_chunks := bt_remove rid (ss_prefill_chunks s), ss_wire := b,
    ss_sent := ss_sent s @ [Result rid ts reason ec]\<rparr>)"
proof -
  obtain A where A: "conv_run (ss_sent s) Map.empty = Some A" "matches A (ss_prefill_chunks s) G"
      "A rid = Some (chunk_of rid s, ts)"
    using talks_get [OF assms] by blast
  show ?thesis using A(1,3) matches_drop [OF A(2) g]
    unfolding talks_def by (simp add: conv_run_snoc del: fun_upd_apply)
qed

lemma reap_gist:
  assumes inv: "sched_inv (w_sched w)" and "reap rid (w_sched w) = (Inr (), t)" and "gist w q = Some (rid, ts)"
  shows "gist (w\<lparr>w_sched := t\<rparr>) = (gist w)(q := None)"
proof -
  obtain sl where sl: "bt_get (sc_slots (w_sched w)) q = Some sl" "sl_request_id sl = rid"
    using assms(3) by (auto simp: gist_def)
  then have "bt_get (sc_ids (w_sched w)) rid = Some q" using sched_inv_slot [OF inv sl(1)] by simp
  then have "sc_slots t = bt_remove q (sc_slots (w_sched w))"
    using assms(2) by (auto simp: reap_def split: sum.splits if_splits)
  then show ?thesis using sched_inv_bt [OF inv] by (simp add: gist_def fun_eq_iff)
qed

definition listed :: "schedule_result list \<Rightarrow> (nat \<Rightarrow> (string \<times> nat list) option) \<Rightarrow> bool" where
  "listed rs G \<longleftrightarrow> distinct (map sr_request_id rs) \<and> (\<forall>r\<in>set rs. \<exists>q. G q = Some (sr_request_id r, sr_tokens r))"

lemma listed_drop:
  assumes "listed (r # rs) G" and "G q = Some (sr_request_id r, ts)"
  shows "listed rs (G(q := None))"
proof -
  have "\<exists>p. (G(q := None)) p = Some (sr_request_id x, sr_tokens x)" if x: "x \<in> set rs" for x
  proof -
    obtain p where p: "G p = Some (sr_request_id x, sr_tokens x)" using assms(1) x by (auto simp: listed_def)
    moreover have "sr_request_id x \<noteq> sr_request_id r" using assms(1) imageI [OF x, of sr_request_id] by (auto simp: listed_def)
    ultimately have "(G(q := None)) p = Some (sr_request_id x, sr_tokens x)" using assms(2) by auto
    then show ?thesis by blast
  qed
  then show ?thesis using assms(1) by (simp add: listed_def)
qed

lemma results_listed:
  assumes inv: "sched_inv (w_sched w)"
  shows "listed (results (w_sched w)) (gist w)"
proof -
  let ?t = "w_sched w"
  have id: "bt_get (sc_ids ?t) (sl_request_id sl) = Some q" "bt_get (sc_slots ?t) q = Some sl"
    if "(q, sl) \<in> set (sc_slots ?t)" for q sl
    using that sched_inv_bt [OF inv] sched_inv_slot [OF inv, of q sl] by (simp_all add: bt_get_iff)
  have "inj_on (\<lambda>p. sl_request_id (snd p)) (set (sc_slots ?t))"
  proof (rule inj_onI)
    fix x y assume xy: "x \<in> set (sc_slots ?t)" "y \<in> set (sc_slots ?t)" "sl_request_id (snd x) = sl_request_id (snd y)"
    then have m: "(fst x, snd x) \<in> set (sc_slots ?t)" "(fst y, snd y) \<in> set (sc_slots ?t)" by simp_all
    from id(1) [OF m(1)] id(1) [OF m(2)] have "fst x = fst y" using xy(3) by simp
    with id(2) [OF m(1)] id(2) [OF m(2)] show "x = y" by (simp add: prod_eq_iff)
  qed
  moreover have "distinct (sc_slots ?t)"
    using bt_ok_distinct [OF sched_inv_bt [OF inv]] by (simp add: distinct_map)
  ultimately have dist: "distinct (map (\<lambda>p. sl_request_id (snd p)) (filter (\<lambda>p. sl_phase (snd p) = Done) (sc_slots ?t)))"
    by (simp add: distinct_map inj_on_def)
  have "results ?t = map (\<lambda>p. case snd p of sl \<Rightarrow> \<lparr>sr_sequence_id = sl_sequence_id sl, sr_request_id = sl_request_id sl,
        sr_tokens = sl_tokens sl, sr_finish_reason = sl_finish_reason sl,
        sr_prefill_logits = sl_prefill_logits sl, sr_error_code = sl_error_code sl\<rparr>)
      (filter (\<lambda>p. sl_phase (snd p) = Done) (sc_slots ?t))"
    by (simp add: results_def bt_values_def filter_map comp_def)
  moreover have "\<exists>p. gist w p = Some (sl_request_id sl, sl_tokens sl)" if m: "(q, sl) \<in> set (sc_slots ?t)" for q sl
    using id(2) [OF m] by (intro exI [of _ q]) (simp add: gist_def)
  ultimately show ?thesis using dist by (auto simp: listed_def comp_def)
qed

lemma wp_report_results:
  assumes "session_inv s" and "listed rs (gist (ss_world s))"
  shows "op_wp (report_results env rs) (\<lambda>_. session_inv) (\<lambda>_. talk_ok) s"
  using assms
proof (induction rs arbitrary: s)
  case Nil
  then show ?case by (simp add: op_wp_return)
next
  case (Cons r rs)
  let ?w = "ss_world s" and ?rid = "sr_request_id r"
  have inv: "sched_inv (w_sched ?w)" and talk: "talks (gist ?w) s" using Cons.prems(1) by (simp_all add: session_inv_def)
  obtain q where q: "gist ?w q = Some (?rid, sr_tokens r)" using Cons.prems(2) by (auto simp: listed_def)
  let ?s = "s\<lparr>ss_prefill_chunks := bt_remove ?rid (ss_prefill_chunks s)\<rparr>"
  let ?m = "Result ?rid (sr_tokens r) (sr_finish_reason r) (map_option code_as_str (sr_error_code r))"
  have "op_wp (op_seq (on_world (on_scheduler (reap ?rid))) (report_results env rs)) (\<lambda>_. session_inv) (\<lambda>_. talk_ok)
      (?s\<lparr>ss_wire := b, ss_sent := ss_sent ?s @ [?m]\<rparr>)" for b
  proof -
    let ?s1 = "?s\<lparr>ss_wire := b, ss_sent := ss_sent ?s @ [?m]\<rparr>"
    have talk1: "talks ((gist ?w)(q := None)) ?s1" using talks_result [OF talk q, where b = b] by simp
    obtain x t where x: "reap ?rid (w_sched ?w) = (x, t)" by fastforce
    let ?w1 = "?w\<lparr>w_sched := t\<rparr>"
    have t: "sched_inv t" using sched_inv_reap [OF inv, of ?rid] x by simp
    have "op_wp (report_results env rs) (\<lambda>_. session_inv) (\<lambda>_. talk_ok) (?s1\<lparr>ss_world := ?w1\<rparr>)" if "x = Inr ()"
    proof (rule Cons.IH)
      have g: "gist ?w1 = (gist ?w)(q := None)" by (rule reap_gist [OF inv _ q]) (use x that in simp)
      then show "listed rs (gist (ss_world (?s1\<lparr>ss_world := ?w1\<rparr>)))"
        using listed_drop [OF Cons.prems(2) q] by simp
      have "talks (gist ?w1) (?s1\<lparr>ss_world := ?w1\<rparr>)" unfolding g talks_world by (rule talk1)
      then show "session_inv (?s1\<lparr>ss_world := ?w1\<rparr>)" unfolding session_inv_def using t by simp
    qed
    then show ?thesis using talks_ok [OF talk1] x
      by (cases x) (simp_all add: op_wp_seq wp_on_world wp_on_scheduler op_wp_def [of "reap _"])
  qed
  then have "op_wp (emit env ?m)
      (\<lambda>_. op_wp (op_seq (on_world (on_scheduler (reap ?rid))) (report_results env rs)) (\<lambda>_. session_inv) (\<lambda>_. talk_ok))
      (\<lambda>_. talk_ok) ?s"
    by (rule wp_emit) (use talks_ok [OF talk] in simp)
  then show ?case by (simp add: op_wp_seq op_wp_modify)
qed

lemma wp_report_new: "session_inv s \<Longrightarrow> op_wp (report_new env) (\<lambda>_. session_inv) (\<lambda>_. talk_ok) s"
  by (simp add: report_new_def op_wp_bind op_wp_gets wp_report_results results_listed session_inv_def)

subsection \<open>The connection\<close>

lemma wp_worker_turn:
  assumes inv: "session_inv s"
  shows "op_wp (worker_turn eng env) (\<lambda>_. session_inv) (\<lambda>_. talk_ok) s"
proof -
  let ?w = "ss_world s"
  have sinv: "sched_inv (w_sched ?w)" and talk: "talks (gist ?w) s" using inv by (simp_all add: session_inv_def)
  have "op_wp (report_steps env st) (\<lambda>_. op_wp (report_new env) (\<lambda>_. session_inv) (\<lambda>_. talk_ok)) (\<lambda>_. talk_ok)
      (s\<lparr>ss_world := w'\<rparr>)" if st: "step_tokens ?w st w' \<and> sched_inv (w_sched w')" for st w'
  proof (rule op_wp_mono [OF wp_report_steps [of ?w]])
    show "talks (gist ?w) (s\<lparr>ss_world := w'\<rparr>)" "step_tokens ?w st (ss_world (s\<lparr>ss_world := w'\<rparr>))"
      using talk st by simp_all
    fix a s' assume "reported (s\<lparr>ss_world := w'\<rparr>) s'"
    then have "session_inv s'" using st by (simp add: reported_def session_inv_def)
    then show "op_wp (report_new env) (\<lambda>_. session_inv) (\<lambda>_. talk_ok) s'" by (rule wp_report_new)
  qed
  then have "op_wp (on_world (sched_step eng))
      (\<lambda>st. op_wp (op_seq (report_steps env st) (report_new env)) (\<lambda>_. session_inv) (\<lambda>_. talk_ok)) (\<lambda>_. talk_ok) s"
    unfolding wp_on_world op_wp_seq
    by (intro op_wp_mono [OF wp_sched_step_tokens [OF sinv]]) (use talks_ok [OF talk] in simp_all)
  then show ?thesis using inv
    by (simp add: worker_turn_def op_wp_bind op_wp_gets op_wp_return)
qed

lemma wp_worker_loop: "session_inv s \<Longrightarrow> op_wp (worker_loop eng env is) (\<lambda>_. session_inv) (\<lambda>_. talk_ok) s"
proof (induction "is" arbitrary: s)
  case Nil
  then show ?case by (simp add: op_wp_return)
next
  case (Cons i "is")
  show ?case
  proof (cases i)
    case (InputFrame v)
    show ?thesis unfolding InputFrame worker_loop.simps op_wp_bind
      by (rule op_wp_mono [OF wp_handle_frame [OF Cons.prems]]) (simp_all add: op_wp_return Cons.IH)
  next
    case InputTurn
    show ?thesis unfolding InputTurn worker_loop.simps op_wp_seq
      by (rule op_wp_mono [OF wp_worker_turn [OF Cons.prems]]) (simp_all add: Cons.IH)
  qed
qed

lemma wp_serve_connection:
  "session_inv s \<Longrightarrow> op_wp (serve_connection eng env is) (\<lambda>_. session_inv) (\<lambda>_. talk_ok) s"
  unfolding serve_connection_def op_wp_bind op_wp_gets op_wp_seq
  by (rule op_wp_mono [OF wp_emit_neutral]) (simp_all add: wp_worker_loop)

lemma serve_connection_talk: "session_inv s \<Longrightarrow> talk_ok (snd (serve_connection eng env is s))"
  using wp_serve_connection [of s eng env "is"] session_inv_ok
  by (auto simp: op_wp_def split: prod.splits sum.splits)

lemma session_inv_new:
  assumes "sched_inv (w_sched (ss_world s))" and "sc_slots (w_sched (ss_world s)) = []"
    and "ss_prefill_chunks s = []" and "ss_sent s = []"
  shows "session_inv s"
  using assms by (simp add: session_inv_def talks_def matches_def gist_def)

end
