(* ===== verification/Demo_Worker.thy ===== *)
theory Demo_Worker
  imports Demo Worker_Conversation
begin

text \<open>A session of the worker on the model and the store of \<open>Demo\<close>.\<close>

definition demo_session :: "(unit, unit) session" where
  "demo_session = \<lparr>ss_world = \<lparr>w_sched = scheduler_new demo_config, w_model = (), w_kv = (), w_clock = 0\<rparr>,
     ss_runtime_root = ''rt'', ss_model_load_nanos = 0, ss_verified_bytes = 0, ss_prefill_chunks = [],
     ss_paused = False, ss_sent = [], ss_wire = []\<rparr>"

definition demo_worker_env :: "unit worker_env" where
  "demo_worker_env = \<lparr>we_invalidate = \<lambda>k. k, we_census = \<lambda>_. (4, 4, 0), we_gate = False, we_write = \<lambda>_. None\<rparr>"

end
