(* ===== verification/Nested_Documents.thy ===== *)
theory Nested_Documents
  imports Document
begin

text \<open>
  Documents inside documents: the readers of a field that holds a document, an optional one or an array of
  them, and what such a reader accepts, proved once in the locale \<open>document\<close>.
\<close>

lemma pred_true [simp]: "list_all (\<lambda>_. True) xs" "pred_option (\<lambda>_. True) x"
  by (simp_all add: list.pred_True option.pred_True)

lemma string_field_array_eq: "string_field_array ts = CArray (map cbor_text ts)"
  by (simp add: string_field_array_def cbor_text_def)

fun opt_res :: "('a \<Rightarrow> 'b res) \<Rightarrow> 'a option \<Rightarrow> 'b option res" where
  "opt_res f None = Inr None"
| "opt_res f (Some x) = rbind (f x) (\<lambda>y. Inr (Some y))"

text \<open>An array field, and the loop that reads each of its items.\<close>

definition fields_documents :: "string \<Rightarrow> (cbor_value \<Rightarrow> 'a res) \<Rightarrow> (fields, 'a list) op" where
  "fields_documents key from_cbor = op_bind (fields_array key) (\<lambda>items. op_lift (rmap from_cbor items))"

context document
begin

lemma read_all:
  "\<forall>v \<in> set vs. cbor_sorted v \<Longrightarrow> rmap from_cbor vs = Inr xs \<longleftrightarrow> list_all typed xs \<and> rmap to_cbor xs = Inr vs"
proof (induction vs arbitrary: xs)
  case Nil
  then show ?case by (cases xs) (auto simp: res)
next
  case (Cons v vs)
  then show ?case using reader [of v] by (cases xs) (auto simp: res)
qed

lemma read_field [res]:
  assumes "fields_sorted f"
  shows "fields_read key from_cbor f = (Inr x, g) \<longleftrightarrow>
    typed x \<and> (\<exists>v. to_cbor x = Inr v \<and> bt_get (f_map f) key = Some v) \<and> g = fields_use key f"
  using fields_sorted_get [OF assms, of key] reader by (auto simp: fields_read_ok)

lemma read_opt_field [res]:
  assumes "fields_sorted f"
  shows "fields_read_opt key from_cbor f = (Inr x, g) \<longleftrightarrow>
    pred_option typed x \<and> opt_res to_cbor x = Inr (bt_get (f_map f) key) \<and> g = fields_use key f"
  using fields_sorted_get [OF assms, of key] reader
  by (cases x; cases "bt_get (f_map f) key") (auto simp: fields_read_opt_ok res)

lemma read_documents [res]:
  assumes "fields_sorted f"
  shows "fields_documents key from_cbor f = (Inr xs, g) \<longleftrightarrow>
    list_all typed xs \<and> (\<exists>vs. rmap to_cbor xs = Inr vs \<and> bt_get (f_map f) key = Some (CArray vs)) \<and>
    g = fields_use key f"
proof -
  have "\<forall>v \<in> set vs. cbor_sorted v" if "bt_get (f_map f) key = Some (CArray vs)" for vs
    using fields_sorted_get [OF assms that] by simp
  then show ?thesis using read_all by (auto simp: fields_documents_def res) 
qed

lemma to_cbor_unique: "to_cbor x = Inr v \<Longrightarrow> to_cbor x = Inr w \<longleftrightarrow> w = v"
  by auto

end

end
