(* ===== verification/Prompt_Contracts.thy ===== *)
theory Prompt_Contracts
  imports Nested_Documents
begin

text \<open>
  The prompt contracts of \<open>crates/infer-contracts/src/contracts/prompt.rs\<close>: chat message, evidence
  binding, prompt input, truncation and prompt plan. The \<open>..._iff\<close> lemmas state that among canonical
  values reading and writing are inverse to each other.
\<close>

definition prompt_input_kind :: string where "prompt_input_kind = ''knolo.infer.prompt-input''"
definition prompt_plan_kind :: string where "prompt_plan_kind = ''knolo.infer.prompt-plan''"
definition evidence_kind :: string where "evidence_kind = ''knolo.infer.evidence-binding''"

definition prompt_token_root :: "(u8 list \<Rightarrow> u8 list) \<Rightarrow> nat list \<Rightarrow> digest_hex res" where
  "prompt_token_root sha256 token_ids =
    digest_value sha256 ''infer-prompt-tokens'' (CArray (map cbor_u32 token_ids))"

definition digest_list :: "digest_hex list \<Rightarrow> cbor_value" where
  "digest_list items = CArray (map cbor_digest items)"

lemmas field_array_eq = digest_list_def string_field_array_eq

subsection \<open>Chat message\<close>

record chat_message =
  cm_role :: string
  cm_content :: string

definition chat_message_validate :: "chat_message \<Rightarrow> unit res" where
  "chat_message_validate s =
    rbind (one_of ''role'' (cm_role s) [''assistant'', ''system'', ''tool'', ''user'']) (\<lambda>_.
    rbind (message_text ''content'' (cm_content s) 1048576) (\<lambda>_. Inr ()))"

definition chat_message_to_cbor :: "chat_message \<Rightarrow> cbor_value res" where
  "chat_message_to_cbor s =
    rbind (chat_message_validate s) (\<lambda>_.
    let b = builder_bare;
        b = put ''content'' (cbor_text (cm_content s)) b;
        b = put ''role'' (cbor_text (cm_role s)) b
    in Inr (builder_finish b))"

definition chat_message_fields :: "(fields, chat_message) op" where
  "chat_message_fields =
    op_bind (fields_text ''content'') (\<lambda>content.
    op_bind (fields_text ''role'') (\<lambda>role.
    op_return \<lparr>cm_role = role, cm_content = content\<rparr>))"

definition chat_message_from_cbor :: "cbor_value \<Rightarrow> chat_message res" where
  "chat_message_from_cbor = read_document chat_message_fields chat_message_validate"

lemma chat_message_iff:
  assumes "cbor_sorted v"
  shows "chat_message_from_cbor v = Inr x \<longleftrightarrow> chat_message_to_cbor x = Inr v"
proof (cases v)
  case (CMap es)
  let ?K = "{''content'', ''role''}"
  show ?thesis
    using assms unfolding CMap chat_message_from_cbor_def chat_message_to_cbor_def
    by (cases x) (simp add: read_document_ok res Let_def chat_message_fields_def
        builder_finish_eq [where K = ?K], auto simp: contract_ac)
qed (auto simp: chat_message_from_cbor_def read_document_not_map chat_message_to_cbor_def
   builder_finish_def res Let_def)

interpretation chat_message: document "\<lambda>_. True" chat_message_to_cbor chat_message_from_cbor
  by unfold_locales (simp add: chat_message_iff)

subsection \<open>Evidence binding\<close>

record evidence_binding =
  eb_knowledge_image_root :: "digest_hex option"
  eb_knowledge_commit_root :: "digest_hex option"
  eb_query_receipt_ids :: "digest_hex list"
  eb_reflex_receipt_ids :: "digest_hex list"
  eb_context_root :: digest_hex
  eb_ordered_evidence_ids :: "string list"
  eb_extensions :: "(string, cbor_value) btree"

definition evidence_binding_validate :: "evidence_binding \<Rightarrow> unit res" where
  "evidence_binding_validate s =
    (if length (eb_query_receipt_ids s) > 256 \<or> length (eb_reflex_receipt_ids s) > 256
        \<or> length (eb_ordered_evidence_ids s) > 4096
     then Inl (contract_fail ''evidence list is too large'')
     else rbind (rmap (\<lambda>n. bounded_text ''orderedEvidenceIds'' n 128) (eb_ordered_evidence_ids s)) (\<lambda>_. Inr ()))"

text \<open>The digest of the supplied roots, line by line, is the context root.\<close>

definition evidence_payload :: "digest_hex option \<Rightarrow> digest_hex list \<Rightarrow> digest_hex list \<Rightarrow> string" where
  "evidence_payload knowledge queries reflexes =
    ''knowledge:'' @ (case knowledge of None \<Rightarrow> [] | Some root \<Rightarrow> digest_as_str root) @ [CHR 0x0A] @
    concat (map (\<lambda>n. ''query:'' @ digest_as_str n @ [CHR 0x0A]) queries) @
    concat (map (\<lambda>n. ''reflex:'' @ digest_as_str n @ [CHR 0x0A]) reflexes)"

definition evidence_from_supplied :: "(u8 list \<Rightarrow> u8 list) \<Rightarrow> digest_hex option \<Rightarrow> digest_hex list \<Rightarrow>
    digest_hex list \<Rightarrow> evidence_binding res" where
  "evidence_from_supplied sha256 knowledge queries reflexes =
    rbind (digest_bytes sha256 ''infer-evidence'' (as_bytes (evidence_payload knowledge queries reflexes))) (\<lambda>root.
    let binding = \<lparr>eb_knowledge_image_root = knowledge, eb_knowledge_commit_root = None,
          eb_query_receipt_ids = queries, eb_reflex_receipt_ids = reflexes, eb_context_root = root,
          eb_ordered_evidence_ids = [], eb_extensions = []\<rparr>
    in rbind (evidence_binding_validate binding) (\<lambda>_. Inr binding))"

definition evidence_from_text :: "(u8 list \<Rightarrow> u8 list) \<Rightarrow> string option \<Rightarrow> string list \<Rightarrow> string list \<Rightarrow>
    evidence_binding option res" where
  "evidence_from_text sha256 knowledge queries reflexes =
    (if knowledge = None \<and> queries = [] \<and> reflexes = [] then Inr None
     else
      rbind (opt_res digest_parse knowledge) (\<lambda>knowledge.
      rbind (rmap digest_parse queries) (\<lambda>queries.
      rbind (rmap digest_parse reflexes) (\<lambda>reflexes.
      rbind (evidence_from_supplied sha256 knowledge queries reflexes) (\<lambda>b. Inr (Some b))))))"

definition evidence_binding_to_cbor :: "evidence_binding \<Rightarrow> cbor_value res" where
  "evidence_binding_to_cbor s =
    rbind (evidence_binding_validate s) (\<lambda>_.
    let b = builder_typed evidence_kind;
        b = put ''contextRoot'' (cbor_digest (eb_context_root s)) b
    in rbind (put_extensions (eb_extensions s) b) (\<lambda>b.
    let b = put_opt ''knowledgeCommitRoot'' (map_option cbor_digest (eb_knowledge_commit_root s)) b;
        b = put_opt ''knowledgeImageRoot'' (map_option cbor_digest (eb_knowledge_image_root s)) b;
        b = put ''orderedEvidenceIds'' (string_field_array (eb_ordered_evidence_ids s)) b;
        b = put ''queryReceiptIds'' (digest_list (eb_query_receipt_ids s)) b;
        b = put ''reflexReceiptIds'' (digest_list (eb_reflex_receipt_ids s)) b
    in Inr (builder_finish b)))"

definition evidence_binding_fields :: "(fields, evidence_binding) op" where
  "evidence_binding_fields =
    op_bind (expect_kind_version evidence_kind) (\<lambda>_.
    op_bind (fields_digest ''contextRoot'') (\<lambda>context_root.
    op_bind fields_extensions (\<lambda>extensions.
    op_bind (fields_opt_digest ''knowledgeCommitRoot'') (\<lambda>commit.
    op_bind (fields_opt_digest ''knowledgeImageRoot'') (\<lambda>image.
    op_bind (fields_array ''orderedEvidenceIds'') (\<lambda>ordered.
    op_bind (op_lift (text_array ordered ''orderedEvidenceIds'')) (\<lambda>ordered.
    op_bind (fields_array ''queryReceiptIds'') (\<lambda>queries.
    op_bind (op_lift (digest_array queries ''queryReceiptIds'')) (\<lambda>queries.
    op_bind (fields_array ''reflexReceiptIds'') (\<lambda>reflexes.
    op_bind (op_lift (digest_array reflexes ''reflexReceiptIds'')) (\<lambda>reflexes.
    op_return
      \<lparr>eb_knowledge_image_root = image, eb_knowledge_commit_root = commit,
       eb_query_receipt_ids = queries, eb_reflex_receipt_ids = reflexes,
       eb_context_root = context_root, eb_ordered_evidence_ids = ordered,
       eb_extensions = extensions\<rparr>)))))))))))"

definition evidence_binding_from_cbor :: "cbor_value \<Rightarrow> evidence_binding res" where
  "evidence_binding_from_cbor = read_document evidence_binding_fields evidence_binding_validate"

definition evidence_binding_root :: "(u8 list \<Rightarrow> u8 list) \<Rightarrow> evidence_binding \<Rightarrow> digest_hex res" where
  "evidence_binding_root sha256 s = rbind (evidence_binding_to_cbor s) (digest_value sha256 ''infer-evidence'')"

definition evidence_binding_to_bytes :: "evidence_binding \<Rightarrow> u8 list res" where
  "evidence_binding_to_bytes s = rbind (evidence_binding_to_cbor s) (\<lambda>v. Inr (to_bytes v))"

definition evidence_binding_typed :: "evidence_binding \<Rightarrow> bool" where
  "evidence_binding_typed s \<longleftrightarrow>
    pred_option digest_ok (eb_knowledge_image_root s) \<and> pred_option digest_ok (eb_knowledge_commit_root s) \<and>
    list_all digest_ok (eb_query_receipt_ids s) \<and> list_all digest_ok (eb_reflex_receipt_ids s) \<and>
    digest_ok (eb_context_root s)"

lemma evidence_binding_iff:
  assumes "cbor_sorted v"
  shows "evidence_binding_from_cbor v = Inr x \<longleftrightarrow> evidence_binding_typed x \<and> evidence_binding_to_cbor x = Inr v"
proof (cases v)
  case (CMap es)
  let ?K = "{''kind'', ''version'', ''contextRoot'', ''extensions'', ''knowledgeCommitRoot'',
    ''knowledgeImageRoot'', ''orderedEvidenceIds'', ''queryReceiptIds'', ''reflexReceiptIds''}"
  show ?thesis
    using assms unfolding CMap evidence_binding_from_cbor_def evidence_binding_to_cbor_def
    by (cases x) (simp add: read_document_ok res Let_def evidence_binding_fields_def field_array_eq
        evidence_binding_typed_def builder_finish_eq [where K = ?K], auto simp: contract_ac)
qed (auto simp: evidence_binding_from_cbor_def read_document_not_map evidence_binding_to_cbor_def
   builder_finish_def res Let_def)

interpretation evidence_binding: rooted_document evidence_binding_typed evidence_binding_to_cbor
  evidence_binding_from_cbor evidence_binding_root "''infer-evidence''"
  by unfold_locales (simp_all add: evidence_binding_iff evidence_binding_root_def infer_domains_def)

subsection \<open>Prompt input\<close>

record prompt_input =
  pi_messages :: "chat_message list"
  pi_tools_root :: "digest_hex option"
  pi_evidence :: "evidence_binding option"
  pi_system_policy :: "string option"
  pi_extensions :: "(string, cbor_value) btree"

definition prompt_input_validate :: "prompt_input \<Rightarrow> unit res" where
  "prompt_input_validate s =
    (if pi_messages s = [] \<or> length (pi_messages s) > 256
     then Inl (contract_fail ''messages are empty or too large'')
     else
      rbind (rmap chat_message_validate (pi_messages s)) (\<lambda>_.
      rbind (opt_res (\<lambda>policy. message_text ''systemPolicy'' policy (64 * 1024)) (pi_system_policy s)) (\<lambda>_.
      rbind (opt_res evidence_binding_validate (pi_evidence s)) (\<lambda>_. Inr ()))))"

definition messages_cbor :: "prompt_input \<Rightarrow> cbor_value res" where
  "messages_cbor s = rbind (rmap chat_message_to_cbor (pi_messages s)) (\<lambda>items. Inr (CArray items))"

definition messages_root :: "(u8 list \<Rightarrow> u8 list) \<Rightarrow> prompt_input \<Rightarrow> digest_hex res" where
  "messages_root sha256 s = rbind (messages_cbor s) (digest_value sha256 ''infer-prompt-input'')"

definition prompt_input_to_cbor :: "prompt_input \<Rightarrow> cbor_value res" where
  "prompt_input_to_cbor s =
    rbind (prompt_input_validate s) (\<lambda>_.
    rbind (opt_res evidence_binding_to_cbor (pi_evidence s)) (\<lambda>evidence.
    let b = builder_typed prompt_input_kind;
        b = put_opt ''evidence'' evidence b
    in rbind (put_extensions (pi_extensions s) b) (\<lambda>b.
    rbind (messages_cbor s) (\<lambda>messages.
    let b = put ''messages'' messages b;
        b = put_opt ''systemPolicy'' (map_option cbor_text (pi_system_policy s)) b;
        b = put_opt ''toolsRoot'' (map_option cbor_digest (pi_tools_root s)) b
    in Inr (builder_finish b)))))"

definition prompt_input_fields :: "(fields, prompt_input) op" where
  "prompt_input_fields =
    op_bind (expect_kind_version prompt_input_kind) (\<lambda>_.
    op_bind (fields_documents ''messages'' chat_message_from_cbor) (\<lambda>messages.
    op_bind (fields_read_opt ''evidence'' evidence_binding_from_cbor) (\<lambda>evidence.
    op_bind fields_extensions (\<lambda>extensions.
    op_bind (fields_opt_text ''systemPolicy'') (\<lambda>policy.
    op_bind (fields_opt_digest ''toolsRoot'') (\<lambda>tools.
    op_return
      \<lparr>pi_messages = messages, pi_tools_root = tools, pi_evidence = evidence,
       pi_system_policy = policy, pi_extensions = extensions\<rparr>))))))"

definition prompt_input_from_cbor :: "cbor_value \<Rightarrow> prompt_input res" where
  "prompt_input_from_cbor = read_document prompt_input_fields prompt_input_validate"

definition prompt_input_root :: "(u8 list \<Rightarrow> u8 list) \<Rightarrow> prompt_input \<Rightarrow> digest_hex res" where
  "prompt_input_root sha256 s = rbind (prompt_input_to_cbor s) (digest_value sha256 ''infer-prompt-input'')"

definition prompt_input_to_bytes :: "prompt_input \<Rightarrow> u8 list res" where
  "prompt_input_to_bytes s = rbind (prompt_input_to_cbor s) (\<lambda>v. Inr (to_bytes v))"

definition prompt_input_typed :: "prompt_input \<Rightarrow> bool" where
  "prompt_input_typed s \<longleftrightarrow>
    pred_option evidence_binding_typed (pi_evidence s) \<and> pred_option digest_ok (pi_tools_root s)"

lemma prompt_input_iff:
  assumes "cbor_sorted v"
  shows "prompt_input_from_cbor v = Inr x \<longleftrightarrow> prompt_input_typed x \<and> prompt_input_to_cbor x = Inr v"
proof (cases v)
  case (CMap es)
  let ?K = "{''kind'', ''version'', ''evidence'', ''extensions'', ''messages'', ''systemPolicy'', ''toolsRoot''}"
  show ?thesis
    using assms unfolding CMap prompt_input_from_cbor_def prompt_input_to_cbor_def messages_cbor_def
    by (cases "opt_res evidence_binding_to_cbor (pi_evidence x)";
        cases "rmap chat_message_to_cbor (pi_messages x)"; cases x)
      (simp_all add: read_document_ok res Let_def prompt_input_fields_def
        prompt_input_typed_def builder_finish_eq [where K = ?K], auto simp: contract_ac)
qed (auto simp: prompt_input_from_cbor_def read_document_not_map prompt_input_to_cbor_def
   builder_finish_def res Let_def)

interpretation prompt_input: rooted_document prompt_input_typed prompt_input_to_cbor
  prompt_input_from_cbor prompt_input_root "''infer-prompt-input''"
  by unfold_locales (simp_all add: prompt_input_iff prompt_input_root_def infer_domains_def)

subsection \<open>Truncation\<close>

record truncation =
  tr_strategy :: string
  tr_original_token_count :: nat
  tr_final_token_count :: nat
  tr_removed_ids :: "string list"
  tr_preserved_sections :: "string list"
  tr_max_context_tokens :: nat
  tr_reserved_generation_tokens :: nat

text \<open>The sum of two \<open>u32\<close> is taken in \<open>u64\<close>, so it does not wrap.\<close>

definition truncation_validate :: "truncation \<Rightarrow> unit res" where
  "truncation_validate s =
    rbind (one_of ''strategy'' (tr_strategy s) [''drop-oldest-user'', ''none'']) (\<lambda>_.
    if tr_max_context_tokens s = 0 \<or> tr_max_context_tokens s > 1048576
    then Inl (contract_fail ''max context is invalid'')
    else if tr_final_token_count s > tr_original_token_count s
        \<or> tr_final_token_count s > tr_max_context_tokens s
    then Inl (contract_fail ''truncation counts are inconsistent'')
    else if tr_final_token_count s + tr_reserved_generation_tokens s > tr_max_context_tokens s
    then Inl (fail ContextLimitExceeded ''reserved generation tokens exceed context'')
    else
    rbind (sorted_unique ''preservedSections'' (tr_preserved_sections s)) (\<lambda>_.
    rbind (rmap (\<lambda>section. one_of ''preservedSections'' section [''evidence'', ''system'', ''tool''])
      (tr_preserved_sections s)) (\<lambda>_.
    if length (tr_removed_ids s) > 4096 then Inl (contract_fail ''removed ids are too large'')
    else
    rbind (rmap (\<lambda>n. bounded_text ''removedIds'' n 128) (tr_removed_ids s)) (\<lambda>_.
    if tr_strategy s = ''none'' \<and>
        (tr_original_token_count s \<noteq> tr_final_token_count s \<or> tr_removed_ids s \<noteq> [])
    then Inl (contract_fail ''strategy none cannot drop tokens'')
    else if tr_strategy s = ''drop-oldest-user'' \<and>
        tr_original_token_count s = tr_final_token_count s \<and> tr_removed_ids s = []
    then Inl (contract_fail ''drop strategy did not record a removal'')
    else Inr ()))))"

definition truncation_to_cbor :: "truncation \<Rightarrow> cbor_value res" where
  "truncation_to_cbor s =
    rbind (truncation_validate s) (\<lambda>_.
    let b = builder_bare;
        b = put ''finalTokenCount'' (cbor_u32 (tr_final_token_count s)) b;
        b = put ''maxContextTokens'' (cbor_u32 (tr_max_context_tokens s)) b;
        b = put ''originalTokenCount'' (cbor_u32 (tr_original_token_count s)) b;
        b = put ''preservedSections'' (string_field_array (tr_preserved_sections s)) b;
        b = put ''removedIds'' (string_field_array (tr_removed_ids s)) b;
        b = put ''reservedGenerationTokens'' (cbor_u32 (tr_reserved_generation_tokens s)) b;
        b = put ''strategy'' (cbor_text (tr_strategy s)) b
    in Inr (builder_finish b))"

definition truncation_fields :: "(fields, truncation) op" where
  "truncation_fields =
    op_bind (fields_u32 ''finalTokenCount'') (\<lambda>final.
    op_bind (fields_u32 ''maxContextTokens'') (\<lambda>max_context.
    op_bind (fields_u32 ''originalTokenCount'') (\<lambda>original.
    op_bind (fields_array ''preservedSections'') (\<lambda>preserved.
    op_bind (op_lift (text_array preserved ''preservedSections'')) (\<lambda>preserved.
    op_bind (fields_array ''removedIds'') (\<lambda>removed.
    op_bind (op_lift (text_array removed ''removedIds'')) (\<lambda>removed.
    op_bind (fields_u32 ''reservedGenerationTokens'') (\<lambda>reserved.
    op_bind (fields_text ''strategy'') (\<lambda>strategy.
    op_return
      \<lparr>tr_strategy = strategy, tr_original_token_count = original, tr_final_token_count = final,
       tr_removed_ids = removed, tr_preserved_sections = preserved,
       tr_max_context_tokens = max_context, tr_reserved_generation_tokens = reserved\<rparr>)))))))))"

definition truncation_from_cbor :: "cbor_value \<Rightarrow> truncation res" where
  "truncation_from_cbor = read_document truncation_fields truncation_validate"

definition truncation_root :: "(u8 list \<Rightarrow> u8 list) \<Rightarrow> truncation \<Rightarrow> digest_hex res" where
  "truncation_root sha256 s = rbind (truncation_to_cbor s) (digest_value sha256 ''infer-truncation'')"

definition truncation_typed :: "truncation \<Rightarrow> bool" where
  "truncation_typed s \<longleftrightarrow> tr_original_token_count s \<le> u32_max \<and> tr_final_token_count s \<le> u32_max \<and>
    tr_max_context_tokens s \<le> u32_max \<and> tr_reserved_generation_tokens s \<le> u32_max"

lemma truncation_iff:
  assumes "cbor_sorted v"
  shows "truncation_from_cbor v = Inr x \<longleftrightarrow> truncation_typed x \<and> truncation_to_cbor x = Inr v"
proof (cases v)
  case (CMap es)
  let ?K = "{''finalTokenCount'', ''maxContextTokens'', ''originalTokenCount'', ''preservedSections'',
    ''removedIds'', ''reservedGenerationTokens'', ''strategy''}"
  show ?thesis
    using assms unfolding CMap truncation_from_cbor_def truncation_to_cbor_def
    by (cases x) (simp add: read_document_ok res Let_def truncation_fields_def field_array_eq
        truncation_typed_def builder_finish_eq [where K = ?K], auto simp: contract_ac)
qed (auto simp: truncation_from_cbor_def read_document_not_map truncation_to_cbor_def
   builder_finish_def res Let_def)

interpretation truncation: rooted_document truncation_typed truncation_to_cbor
  truncation_from_cbor truncation_root "''infer-truncation''"
  by unfold_locales (simp_all add: truncation_iff truncation_root_def infer_domains_def)

subsection \<open>Prompt plan\<close>

record prompt_plan =
  pp_messages_root :: digest_hex
  pp_tools_root :: "digest_hex option"
  pp_evidence_root :: "digest_hex option"
  pp_template_root :: digest_hex
  pp_tokenizer_root :: digest_hex
  pp_special_token_plan_root :: digest_hex
  pp_rendered_text :: string
  pp_token_ids :: "nat list"
  pp_truncation :: truncation
  pp_extensions :: "(string, cbor_value) btree"

definition rendered_text_root :: "(u8 list \<Rightarrow> u8 list) \<Rightarrow> prompt_plan \<Rightarrow> digest_hex res" where
  "rendered_text_root sha256 s =
    digest_value sha256 ''infer-rendered-text'' (CBytes (as_bytes (pp_rendered_text s)))"

definition token_id_root :: "(u8 list \<Rightarrow> u8 list) \<Rightarrow> prompt_plan \<Rightarrow> digest_hex res" where
  "token_id_root sha256 s = prompt_token_root sha256 (pp_token_ids s)"

definition prompt_plan_validate :: "prompt_plan \<Rightarrow> unit res" where
  "prompt_plan_validate s =
    rbind (message_text ''renderedText'' (pp_rendered_text s) 1048576) (\<lambda>_.
    rbind (truncation_validate (pp_truncation s)) (\<lambda>_.
    if length (pp_token_ids s) \<noteq> tr_final_token_count (pp_truncation s)
    then Inl (contract_fail ''token id count does not match truncation'')
    else if length (pp_token_ids s) > 1048576
    then Inl (contract_fail ''token id list is too large'')
    else Inr ()))"

definition prompt_plan_to_cbor :: "prompt_plan \<Rightarrow> cbor_value res" where
  "prompt_plan_to_cbor s =
    rbind (prompt_plan_validate s) (\<lambda>_.
    let b = builder_typed prompt_plan_kind;
        b = put_opt ''evidenceRoot'' (map_option cbor_digest (pp_evidence_root s)) b
    in rbind (put_extensions (pp_extensions s) b) (\<lambda>b.
    let b = put ''messagesRoot'' (cbor_digest (pp_messages_root s)) b;
        b = put ''renderedText'' (cbor_text (pp_rendered_text s)) b;
        b = put ''specialTokenPlanRoot'' (cbor_digest (pp_special_token_plan_root s)) b;
        b = put ''templateRoot'' (cbor_digest (pp_template_root s)) b;
        b = put ''tokenIds'' (CArray (map cbor_u32 (pp_token_ids s))) b;
        b = put ''tokenizerRoot'' (cbor_digest (pp_tokenizer_root s)) b;
        b = put_opt ''toolsRoot'' (map_option cbor_digest (pp_tools_root s)) b
    in rbind (truncation_to_cbor (pp_truncation s)) (\<lambda>tr.
    let b = put ''truncation'' tr b
    in Inr (builder_finish b))))"

definition prompt_plan_fields :: "(fields, prompt_plan) op" where
  "prompt_plan_fields =
    op_bind (expect_kind_version prompt_plan_kind) (\<lambda>_.
    op_bind (fields_opt_digest ''evidenceRoot'') (\<lambda>evidence.
    op_bind fields_extensions (\<lambda>extensions.
    op_bind (fields_digest ''messagesRoot'') (\<lambda>messages.
    op_bind (fields_text ''renderedText'') (\<lambda>rendered.
    op_bind (fields_digest ''specialTokenPlanRoot'') (\<lambda>special.
    op_bind (fields_digest ''templateRoot'') (\<lambda>template.
    op_bind (fields_array ''tokenIds'') (\<lambda>token_ids.
    op_bind (op_lift (u32_array token_ids ''tokenIds'')) (\<lambda>token_ids.
    op_bind (fields_digest ''tokenizerRoot'') (\<lambda>tokenizer.
    op_bind (fields_opt_digest ''toolsRoot'') (\<lambda>tools.
    op_bind (fields_read ''truncation'' truncation_from_cbor) (\<lambda>truncation.
    op_return
      \<lparr>pp_messages_root = messages, pp_tools_root = tools, pp_evidence_root = evidence,
       pp_template_root = template, pp_tokenizer_root = tokenizer, pp_special_token_plan_root = special,
       pp_rendered_text = rendered, pp_token_ids = token_ids, pp_truncation = truncation,
       pp_extensions = extensions\<rparr>))))))))))))"

definition prompt_plan_from_cbor :: "cbor_value \<Rightarrow> prompt_plan res" where
  "prompt_plan_from_cbor = read_document prompt_plan_fields prompt_plan_validate"

definition prompt_plan_root :: "(u8 list \<Rightarrow> u8 list) \<Rightarrow> prompt_plan \<Rightarrow> digest_hex res" where
  "prompt_plan_root sha256 s = rbind (prompt_plan_to_cbor s) (digest_value sha256 ''infer-prompt-plan'')"

definition prompt_plan_to_bytes :: "prompt_plan \<Rightarrow> u8 list res" where
  "prompt_plan_to_bytes s = rbind (prompt_plan_to_cbor s) (\<lambda>v. Inr (to_bytes v))"

definition prompt_plan_typed :: "prompt_plan \<Rightarrow> bool" where
  "prompt_plan_typed s \<longleftrightarrow>
    digest_ok (pp_messages_root s) \<and> pred_option digest_ok (pp_tools_root s) \<and>
    pred_option digest_ok (pp_evidence_root s) \<and> digest_ok (pp_template_root s) \<and>
    digest_ok (pp_tokenizer_root s) \<and> digest_ok (pp_special_token_plan_root s) \<and>
    list_all (\<lambda>n. n \<le> u32_max) (pp_token_ids s) \<and> truncation_typed (pp_truncation s)"

lemma prompt_plan_iff:
  assumes "cbor_sorted v"
  shows "prompt_plan_from_cbor v = Inr x \<longleftrightarrow> prompt_plan_typed x \<and> prompt_plan_to_cbor x = Inr v"
proof (cases v)
  case (CMap es)
  let ?K = "{''kind'', ''version'', ''evidenceRoot'', ''extensions'', ''messagesRoot'', ''renderedText'',
    ''specialTokenPlanRoot'', ''templateRoot'', ''tokenIds'', ''tokenizerRoot'', ''toolsRoot'', ''truncation''}"
  show ?thesis
    using assms unfolding CMap prompt_plan_from_cbor_def prompt_plan_to_cbor_def
    by (cases "truncation_to_cbor (pp_truncation x)"; cases x)
      (simp_all add: read_document_ok res Let_def prompt_plan_fields_def
        prompt_plan_typed_def builder_finish_eq [where K = ?K], auto simp: contract_ac)
qed (auto simp: prompt_plan_from_cbor_def read_document_not_map prompt_plan_to_cbor_def
   builder_finish_def res Let_def)

interpretation prompt_plan: rooted_document prompt_plan_typed prompt_plan_to_cbor
  prompt_plan_from_cbor prompt_plan_root "''infer-prompt-plan''"
  by unfold_locales (simp_all add: prompt_plan_iff prompt_plan_root_def infer_domains_def)

end
