(* ===== verification/Template.thy ===== *)
theory Template
  imports Prompt_Contracts
begin

text \<open>
  The chat template: \<open>crates/infer-prompt/src/template.rs\<close>. The renderer scans the loop body again for
  every message; the reference parses the template once, without the messages, into literal text and the
  two lookups. Both agree, so nothing in a role or a content is ever read as template text.
\<close>

definition max_rendered_bytes :: nat where "max_rendered_bytes = 1048576"
definition max_messages :: nat where "max_messages = 256"
definition for_open :: string where "for_open = ''{% for message in messages %}''"
definition for_close :: string where "for_close = ''{% endfor %}''"
definition role_tag :: string where "role_tag = ''{{ message.role }}''"
definition content_tag :: string where "content_tag = ''{{ message.content }}''"

definition template_fail :: "string \<Rightarrow> infer_failure" where
  "template_fail m = fail TemplateInvalid m"

subsection \<open>Searching\<close>

text \<open>\<open>str::find\<close>, \<open>split_once\<close> and the number of \<open>matches\<close>, which do not overlap.\<close>

fun find_str :: "string \<Rightarrow> string \<Rightarrow> nat option" where
  "find_str p s = (if take (length p) s = p then Some 0
     else case s of [] \<Rightarrow> None | _ # cs \<Rightarrow> map_option Suc (find_str p cs))"

declare find_str.simps [simp del]

definition split_once :: "string \<Rightarrow> string \<Rightarrow> (string \<times> string) option" where
  "split_once p s = map_option (\<lambda>i. (take i s, drop (i + length p) s)) (find_str p s)"

lemma find_str_Some: "find_str p s = Some i \<Longrightarrow> take (length p) (drop i s) = p \<and> i \<le> length s"
  by (induction s arbitrary: i) (auto simp: find_str.simps [of p] split: if_splits)

lemma find_str_split:
  assumes "find_str p s = Some i"
  shows "s = take i s @ p @ drop (i + length p) s"
proof -
  have "drop i s = p @ drop (length p) (drop i s)"
    using find_str_Some [OF assms] append_take_drop_id [of "length p" "drop i s"] by simp
  then show ?thesis using append_take_drop_id [of i s] by (simp add: add.commute)
qed

lemma find_str_None: "find_str p s = None \<longleftrightarrow> \<not> contains_str p s"
proof (induction s)
  case Nil
  then show ?case by (auto simp: find_str.simps)
next
  case (Cons c s)
  then show ?case by (simp add: find_str.simps [of p "c # s"])
qed

function match_count :: "string \<Rightarrow> string \<Rightarrow> nat" where
  "match_count p s = (case find_str p s of
     None \<Rightarrow> 0
   | Some i \<Rightarrow> if p = [] then 1 else Suc (match_count p (drop (i + length p) s)))"
  by pat_completeness auto
termination
proof (relation "measure (length \<circ> snd)")
  fix p s :: string and i
  assume a: "find_str p s = Some i" "p \<noteq> []"
  have "length s = length (take i s) + length p + length (drop (i + length p) s)"
    using arg_cong [where f = length, OF find_str_split [OF a(1)]] by (simp only: length_append add.assoc)
  moreover have "0 < length p" using a(2) by simp
  ultimately have "length (drop (i + length p) s) < length s" by linarith
  then show "((p, drop (i + length p) s), p, s) \<in> measure (length \<circ> snd)" by simp
qed simp

subsection \<open>Rendering\<close>

definition has_tag :: "string \<Rightarrow> bool" where
  "has_tag s \<longleftrightarrow> contains_str ''{%'' s \<or> contains_str ''{{'' s \<or> contains_str ''{#'' s"

definition push_capped :: "string \<Rightarrow> string \<Rightarrow> string res" where
  "push_capped out piece =
    (if length out + length piece > max_rendered_bytes
     then Inl (template_fail ''rendered prompt exceeds the output cap'')
     else Inr (out @ piece))"

lemma strip_shorter: "strip_prefix p (drop i s) = Some after \<Longrightarrow> p \<noteq> [] \<Longrightarrow> length after < length s"
proof -
  assume a: "strip_prefix p (drop i s) = Some after" "p \<noteq> []"
  then have "length s - i = length p + length after" by (metis length_append length_drop strip_prefix_Some)
  moreover have "0 < length p" using a(2) by simp
  ultimately show ?thesis by linarith
qed

text \<open>The loop over the body; \<open>out\<close> is the text so far and \<open>rest\<close> what is still to scan.\<close>

function expand_from :: "chat_message \<Rightarrow> string \<Rightarrow> string \<Rightarrow> string res" where
  "expand_from m out rest =
    (case find_str ''{{'' rest of
       None \<Rightarrow>
         if contains_str ''{%'' rest \<or> contains_str ''{{'' rest \<or> contains_str ''}}'' rest
         then Inl (template_fail ''template expression is not in the allowlist'')
         else Inr (out @ rest)
     | Some i \<Rightarrow>
         (case strip_prefix role_tag (drop i rest) of
            Some after \<Rightarrow> expand_from m ((out @ take i rest) @ cm_role m) after
          | None \<Rightarrow>
             (case strip_prefix content_tag (drop i rest) of
                Some after \<Rightarrow> expand_from m ((out @ take i rest) @ cm_content m) after
              | None \<Rightarrow> Inl (template_fail ''template expression is not in the allowlist''))))"
  by pat_completeness auto
termination
proof (relation "measure (\<lambda>(m, out, rest). length rest)")
  fix m :: chat_message and out rest after :: string and i
  show "((m, (out @ take i rest) @ cm_role m, after), m, out, rest) \<in> measure (\<lambda>(m, out, rest). length rest)"
    if "strip_prefix role_tag (drop i rest) = Some after" using strip_shorter [OF that] by (simp add: role_tag_def)
  show "((m, (out @ take i rest) @ cm_content m, after), m, out, rest) \<in> measure (\<lambda>(m, out, rest). length rest)"
    if "strip_prefix content_tag (drop i rest) = Some after" using strip_shorter [OF that] by (simp add: content_tag_def)
qed simp

declare match_count.simps [simp del] expand_from.simps [simp del]

definition expand_body :: "string \<Rightarrow> chat_message \<Rightarrow> string res" where
  "expand_body body m = expand_from m [] body"

fun render_messages :: "string \<Rightarrow> chat_message list \<Rightarrow> string \<Rightarrow> string res" where
  "render_messages body [] out = Inr out"
| "render_messages body (m # ms) out =
    rbind (expand_body body m) (\<lambda>piece. rbind (push_capped out piece) (render_messages body ms))"

definition render_chat_template :: "string \<Rightarrow> chat_message list \<Rightarrow> string res" where
  "render_chat_template template messages =
    (if length template > max_rendered_bytes then Inl (template_fail ''template exceeds the output cap'')
     else if length messages > max_messages then Inl (template_fail ''template loop exceeds 256 messages'')
     else if match_count for_open template \<noteq> 1 \<or> match_count for_close template \<noteq> 1
     then Inl (template_fail ''template must contain one message loop'')
     else case split_once for_open template of
       None \<Rightarrow> Inl (template_fail ''template must contain one message loop'')
     | Some (prefix, after_open) \<Rightarrow>
       (case split_once for_close after_open of
          None \<Rightarrow> Inl (template_fail ''template loop is not closed'')
        | Some (body, suffix) \<Rightarrow>
            if has_tag prefix \<or> has_tag suffix \<or> contains_str ''{%'' body
            then Inl (template_fail ''template tag is not in the allowlist'')
            else
              rbind (push_capped [] prefix) (\<lambda>out.
              rbind (render_messages body messages out) (\<lambda>out.
              push_capped out suffix))))"

subsection \<open>The reference: parse once, then substitute\<close>

datatype segment = Literal string | RoleOf | ContentOf

function parse_body :: "string \<Rightarrow> segment list option" where
  "parse_body rest =
    (case find_str ''{{'' rest of
       None \<Rightarrow>
         if contains_str ''{%'' rest \<or> contains_str ''}}'' rest then None else Some [Literal rest]
     | Some i \<Rightarrow>
         (case strip_prefix role_tag (drop i rest) of
            Some after \<Rightarrow> map_option (\<lambda>segs. Literal (take i rest) # RoleOf # segs) (parse_body after)
          | None \<Rightarrow>
             (case strip_prefix content_tag (drop i rest) of
                Some after \<Rightarrow> map_option (\<lambda>segs. Literal (take i rest) # ContentOf # segs) (parse_body after)
              | None \<Rightarrow> None)))"
  by pat_completeness auto
termination
proof (relation "measure length")
  fix rest after :: string and i
  show "(after, rest) \<in> measure length" if "strip_prefix role_tag (drop i rest) = Some after"
    using strip_shorter [OF that] by (simp add: role_tag_def)
  show "(after, rest) \<in> measure length" if "strip_prefix content_tag (drop i rest) = Some after"
    using strip_shorter [OF that] by (simp add: content_tag_def)
qed simp

declare parse_body.simps [simp del]

record chat_template =
  ct_prefix :: string
  ct_body :: "segment list"
  ct_suffix :: string

definition parse_template :: "string \<Rightarrow> chat_template option" where
  "parse_template template =
    (if match_count for_open template \<noteq> 1 \<or> match_count for_close template \<noteq> 1 then None
     else case split_once for_open template of
       None \<Rightarrow> None
     | Some (prefix, after_open) \<Rightarrow>
       (case split_once for_close after_open of
          None \<Rightarrow> None
        | Some (body, suffix) \<Rightarrow>
            if has_tag prefix \<or> has_tag suffix \<or> contains_str ''{%'' body then None
            else map_option (\<lambda>segs. \<lparr>ct_prefix = prefix, ct_body = segs, ct_suffix = suffix\<rparr>) (parse_body body)))"

fun fill :: "chat_message \<Rightarrow> segment \<Rightarrow> string" where
  "fill m (Literal s) = s"
| "fill m RoleOf = cm_role m"
| "fill m ContentOf = cm_content m"

definition instantiate_template :: "chat_template \<Rightarrow> chat_message list \<Rightarrow> string" where
  "instantiate_template t ms =
    ct_prefix t @ concat (map (\<lambda>m. concat (map (fill m) (ct_body t))) ms) @ ct_suffix t"

subsection \<open>Agreement\<close>

lemma expand_parse:
  "expand_from m out rest =
    (case parse_body rest of
       None \<Rightarrow> Inl (template_fail ''template expression is not in the allowlist'')
     | Some segs \<Rightarrow> Inr (out @ concat (map (fill m) segs)))"
proof (induction m out rest rule: expand_from.induct)
  case (1 m out rest)
  note expand = expand_from.simps [of m out rest] and parse = parse_body.simps [of rest]
  show ?case
  proof (cases "find_str ''{{'' rest")
    case None
    then have "\<not> contains_str ''{{'' rest" using find_str_None [of "''{{''" rest] by blast
    then show ?thesis unfolding expand parse using None by simp
  next
    case (Some i)
    show ?thesis
    proof (cases "strip_prefix role_tag (drop i rest)")
      case r: (Some after)
      show ?thesis unfolding expand parse using Some r 1(2) [OF Some r] by (simp split: option.split)
    next
      case r: None
      show ?thesis
      proof (cases "strip_prefix content_tag (drop i rest)")
        case c: (Some after)
        show ?thesis unfolding expand parse using Some r c 1(1) [OF Some r c] by (simp split: option.split)
      next
        case c: None
        show ?thesis unfolding expand parse using Some r c by simp
      qed
    qed
  qed
qed

lemma render_messages_all:
  assumes "parse_body body = Some segs"
  shows "render_messages body ms out = Inr r \<longleftrightarrow>
    r = out @ concat (map (\<lambda>m. concat (map (fill m) segs)) ms) \<and> (ms = [] \<or> length r \<le> max_rendered_bytes)"
proof (induction ms arbitrary: out)
  case Nil
  then show ?case by auto
next
  case (Cons m ms)
  let ?p = "concat (map (fill m) segs)"
  have e: "expand_body body m = Inr ?p" using assms by (simp add: expand_body_def expand_parse)
  show ?case
  proof (cases "length out + length ?p \<le> max_rendered_bytes")
    case True
    then have "render_messages body (m # ms) out = render_messages body ms (out @ ?p)"
      by (simp add: e rbind_def push_capped_def)
    also have "\<dots> = Inr r \<longleftrightarrow> r = out @ concat (map (\<lambda>m. concat (map (fill m) segs)) (m # ms)) \<and>
        (ms = [] \<or> length r \<le> max_rendered_bytes)"
      by (simp add: Cons.IH)
    finally show ?thesis using True by auto
  next
    case False
    then have "render_messages body (m # ms) out = Inl (template_fail ''rendered prompt exceeds the output cap'')"
      by (simp add: e rbind_def push_capped_def)
    then show ?thesis using False by auto
  qed
qed

lemma render_exact:
  assumes "ms \<noteq> []"
  shows "render_chat_template template ms = Inr out \<longleftrightarrow>
    length template \<le> max_rendered_bytes \<and> length ms \<le> max_messages \<and>
    (\<exists>t. parse_template template = Some t \<and> out = instantiate_template t ms \<and> length out \<le> max_rendered_bytes)"
proof -
  have none: "render_messages body ms p \<noteq> Inr r" if "parse_body body = None" for body p r
    using assms that by (cases ms) (auto simp: expand_body_def expand_parse res)
  have some: "(\<exists>a. push_capped [] p = Inr a \<and> (\<exists>b. render_messages body ms a = Inr b \<and> push_capped b s = Inr out)) \<longleftrightarrow>
      out = p @ concat (map (\<lambda>m. concat (map (fill m) segs)) ms) @ s \<and> length out \<le> max_rendered_bytes"
    if "parse_body body = Some segs" for body segs p s
    using render_messages_all [OF that] assms by (auto simp: push_capped_def split: if_splits)
  have "(\<exists>a. push_capped [] p = Inr a \<and> (\<exists>b. render_messages body ms a = Inr b \<and> push_capped b s = Inr out)) \<longleftrightarrow>
      (\<exists>segs. parse_body body = Some segs \<and>
        out = p @ concat (map (\<lambda>m. concat (map (fill m) segs)) ms) @ s \<and> length out \<le> max_rendered_bytes)"
    for body p s
    using none some by (cases "parse_body body") auto
  then show ?thesis
    unfolding render_chat_template_def parse_template_def
    by (auto simp: res instantiate_template_def not_less split: option.splits)
qed

end
