(* ===== verification/Json.thy ===== *)
theory Json
  imports Field_Reader
begin

text \<open>
  The strict JSON reader: \<open>crates/infer-artifact/src/json.rs\<close>. No floats, no duplicate keys, no null
  unless it is asked for, and limits on bytes, depth, values, keys and strings. The parser keeps the rest
  of the input instead of an index into it. The input is a \<open>&str\<close>, so copying a string byte by byte
  copies it character by character. A parser that runs out of fuel fails; \<open>parse_value_fuel\<close> states
  that twice the length of the input is enough.
\<close>

subsection \<open>Values (\<open>serde_json::Value\<close>, its objects ordered by key)\<close>

datatype json =
    JNull
  | JBool bool
  | JNumber nat
  | JString string
  | JArray "json list"
  | JObject "(string \<times> json) list"

definition max_json_bytes :: nat where "max_json_bytes = 32 * 1024 * 1024"
definition max_json_depth :: nat where "max_json_depth = 32"
definition max_json_values :: nat where "max_json_values = 1048576"
definition max_json_string :: nat where "max_json_string = 1024 * 1024"

record json_parser =
  jp_rest :: string
  jp_depth :: nat
  jp_values :: nat

definition j_bump :: "error_code \<Rightarrow> (json_parser, unit) op" where
  "j_bump c = op_seq (op_modify (\<lambda>p. p\<lparr>jp_values := jp_values p + 1\<rparr>))
     (op_getr (\<lambda>p. if jp_values p > max_json_values then Inl (fail c ''JSON document has too many values'') else Inr ()))"

definition j_enter :: "error_code \<Rightarrow> (json_parser, unit) op" where
  "j_enter c = op_seq (op_modify (\<lambda>p. p\<lparr>jp_depth := jp_depth p + 1\<rparr>))
     (op_getr (\<lambda>p. if jp_depth p > max_json_depth then Inl (fail c ''JSON nesting exceeds the depth limit'') else Inr ()))"

fun first_of :: "string \<Rightarrow> char option" where
  "first_of [] = None"
| "first_of (c # cs) = Some c"

definition j_peek :: "(json_parser, char option) op" where
  "j_peek = op_gets (\<lambda>p. first_of (jp_rest p))"

definition j_skip :: "nat \<Rightarrow> (json_parser, unit) op" where
  "j_skip n = op_modify (\<lambda>p. p\<lparr>jp_rest := drop n (jp_rest p)\<rparr>)"

definition j_leave :: "(json_parser, unit) op" where
  "j_leave = op_seq (j_skip 1) (op_modify (\<lambda>p. p\<lparr>jp_depth := jp_depth p - 1\<rparr>))"

definition is_ws :: "char \<Rightarrow> bool" where
  "is_ws c \<longleftrightarrow> c = CHR '' '' \<or> c = CHR 0x09 \<or> c = CHR 0x0A \<or> c = CHR 0x0D"

definition j_skip_ws :: "(json_parser, unit) op" where
  "j_skip_ws = op_modify (\<lambda>p. p\<lparr>jp_rest := dropWhile is_ws (jp_rest p)\<rparr>)"

definition j_consume :: "error_code \<Rightarrow> string \<Rightarrow> (json_parser, unit) op" where
  "j_consume c literal = op_bind (op_gets jp_rest) (\<lambda>rest.
     if take (length literal) rest = literal then j_skip (length literal)
     else op_throw (fail c ''invalid JSON literal''))"

definition j_reject_ident_tail :: "error_code \<Rightarrow> (json_parser, unit) op" where
  "j_reject_ident_tail c = op_bind j_peek (\<lambda>p. case p of
     Some ch \<Rightarrow> if is_ascii_alphanumeric ch \<or> ch = CHR ''_'' then op_throw (fail c ''invalid JSON literal'')
       else op_return ()
   | None \<Rightarrow> op_return ())"

subsection \<open>Strings and numbers\<close>

text \<open>\<open>String::push\<close>: the UTF-8 form of a scalar value.\<close>

definition push_scalar :: "nat \<Rightarrow> string" where
  "push_scalar n = map char_of
    (if n < 0x80 then [n]
     else if n < 0x800 then [0xC0 + n div 64, 0x80 + n mod 64]
     else if n < 0x10000 then [0xE0 + n div 4096, 0x80 + n div 64 mod 64, 0x80 + n mod 64]
     else [0xF0 + n div 262144, 0x80 + n div 4096 mod 64, 0x80 + n div 64 mod 64, 0x80 + n mod 64])"

definition hex_digit :: "char \<Rightarrow> nat option" where
  "hex_digit ch =
    (if is_ascii_digit ch then Some (of_char ch - 48)
     else if 97 \<le> (of_char ch :: nat) \<and> (of_char ch :: nat) \<le> 102 then Some (of_char ch - 97 + 10)
     else if 65 \<le> (of_char ch :: nat) \<and> (of_char ch :: nat) \<le> 70 then Some (of_char ch - 65 + 10)
     else None)"

fun parse_hex :: "error_code \<Rightarrow> nat \<Rightarrow> nat \<Rightarrow> string \<Rightarrow> (nat \<times> string) res" where
  "parse_hex c 0 v rest = Inr (v, rest)"
| "parse_hex c (Suc n) v rest =
    (case rest of
       [] \<Rightarrow> Inl (fail c ''unexpected end of JSON'')
     | ch # rest \<Rightarrow>
         (case hex_digit ch of
            None \<Rightarrow> Inl (fail c ''invalid JSON unicode escape'')
          | Some d \<Rightarrow> parse_hex c n (v * 16 + d) rest))"

definition parse_low_surrogate :: "error_code \<Rightarrow> nat \<Rightarrow> string \<Rightarrow> (nat \<times> string) res" where
  "parse_low_surrogate c unit rest =
    (if first_of rest \<noteq> Some (CHR 0x5C) then Inl (fail c ''lone UTF-16 surrogate in JSON string'')
     else if drop 1 rest = [] then Inl (fail c ''unexpected end of JSON'')
     else if first_of (drop 1 rest) \<noteq> Some (CHR ''u'')
     then Inl (fail c ''lone UTF-16 surrogate in JSON string'')
     else rbind (parse_hex c 4 0 (drop 2 rest)) (\<lambda>(low, rest).
       if 0xDC00 \<le> low \<and> low \<le> 0xDFFF
       then Inr (0x10000 + ((unit - 0xD800) * 1024 + (low - 0xDC00)), rest)
       else Inl (fail c ''invalid UTF-16 surrogate pair in JSON string'')))"

definition parse_unicode :: "error_code \<Rightarrow> string \<Rightarrow> (string \<times> string) res" where
  "parse_unicode c rest =
    rbind (parse_hex c 4 0 rest) (\<lambda>(unit, rest).
    rbind
     (if 0xD800 \<le> unit \<and> unit \<le> 0xDBFF then parse_low_surrogate c unit rest
      else if 0xDC00 \<le> unit \<and> unit \<le> 0xDFFF
      then Inl (fail c ''lone UTF-16 surrogate in JSON string'')
      else Inr (unit, rest)) (\<lambda>(scalar, rest).
    if scalar \<le> 0x10FFFF \<and> \<not> (0xD800 \<le> scalar \<and> scalar \<le> 0xDFFF) then Inr (push_scalar scalar, rest)
    else Inl (fail c ''invalid Unicode scalar in JSON string'')))"

definition parse_escape :: "error_code \<Rightarrow> string \<Rightarrow> (string \<times> string) res" where
  "parse_escape c rest =
    (case rest of
       [] \<Rightarrow> Inl (fail c ''unexpected end of JSON'')
     | ch # rest \<Rightarrow>
         if ch = CHR 0x22 \<or> ch = CHR 0x5C \<or> ch = CHR ''/'' then Inr ([ch], rest)
         else if ch = CHR ''b'' then Inr ([CHR 0x08], rest)
         else if ch = CHR ''f'' then Inr ([CHR 0x0C], rest)
         else if ch = CHR ''n'' then Inr ([CHR 0x0A], rest)
         else if ch = CHR ''r'' then Inr ([CHR 0x0D], rest)
         else if ch = CHR ''t'' then Inr ([CHR 0x09], rest)
         else if ch = CHR ''u'' then parse_unicode c rest
         else Inl (fail c ''invalid JSON string escape''))"

lemma parse_hex_shorter: "parse_hex c n v rest = Inr (w, rest') \<Longrightarrow> length rest' + n = length rest"
  by (induction c n v rest rule: parse_hex.induct) (auto split: option.splits list.splits)

lemma parse_low_surrogate_shorter: "parse_low_surrogate c unit rest = Inr (n, rest') \<Longrightarrow> length rest' \<le> length rest"
  unfolding parse_low_surrogate_def by (auto simp: res split: if_splits dest!: parse_hex_shorter)

lemma parse_unicode_shorter: "parse_unicode c rest = Inr (s, rest') \<Longrightarrow> length rest' \<le> length rest"
  unfolding parse_unicode_def
  by (auto simp: res split: if_splits dest!: parse_hex_shorter parse_low_surrogate_shorter)

lemma parse_escape_shorter: "parse_escape c rest = Inr (s, rest') \<Longrightarrow> length rest' < length rest"
  unfolding parse_escape_def
  by (auto split: list.splits if_splits dest: parse_unicode_shorter)

function string_from :: "error_code \<Rightarrow> string \<Rightarrow> string \<Rightarrow> (string \<times> string) res" where
  "string_from c out rest =
    (case rest of
       [] \<Rightarrow> Inl (fail c ''unterminated JSON string'')
     | ch # rest \<Rightarrow>
         if ch = CHR 0x22 then
           if length out > max_json_string then Inl (fail c ''JSON string is too long'') else Inr (out, rest)
         else if ch = CHR 0x5C then
           (case parse_escape c rest of Inl e \<Rightarrow> Inl e | Inr (s, rest) \<Rightarrow> string_from c (out @ s) rest)
         else if (of_char ch :: nat) < 0x20 then Inl (fail c ''JSON string contains a control character'')
         else string_from c (out @ [ch]) rest)"
  by pat_completeness auto
termination
  by (relation "measure (\<lambda>(c, out, rest). length rest)") (auto dest: parse_escape_shorter)

declare string_from.simps [simp del]

definition j_string :: "error_code \<Rightarrow> (json_parser, string) op" where
  "j_string c = op_bind (op_gets jp_rest) (\<lambda>rest.
     op_bind (op_lift (string_from c [] (drop 1 rest))) (\<lambda>(s, rest).
     op_seq (op_modify (\<lambda>p. p\<lparr>jp_rest := rest\<rparr>)) (op_return s)))"

definition dec_value :: "string \<Rightarrow> nat" where
  "dec_value s = foldl (\<lambda>n ch. n * 10 + (of_char ch - 48)) 0 s"

definition j_number :: "error_code \<Rightarrow> (json_parser, json) op" where
  "j_number c = op_bind (op_gets jp_rest) (\<lambda>rest.
     let text = (if first_of rest = Some (CHR ''0'') then ''0'' else takeWhile is_ascii_digit rest);
         after = drop (length text) rest
     in if first_of rest = Some (CHR ''0'') \<and> (case first_of after of Some d \<Rightarrow> is_ascii_digit d | None \<Rightarrow> False)
        then op_throw (fail c ''JSON integers must not have leading zeros'')
        else if first_of after \<in> {Some (CHR ''.''), Some (CHR ''e''), Some (CHR ''E''), Some (CHR ''+'')}
        then op_throw (fail c ''JSON numbers must be integers'')
        else if dec_value text > u64_max then op_throw (fail c ''JSON integer exceeds u64'')
        else op_seq (j_skip (length text)) (op_return (JNumber (dec_value text))))"

subsection \<open>The parser\<close>

text \<open>
  \<open>array_items\<close> and \<open>object_items\<close> are the loops of \<open>parse_array\<close> and \<open>parse_object\<close>.
\<close>

fun parse_value :: "error_code \<Rightarrow> bool \<Rightarrow> nat \<Rightarrow> (json_parser, json) op"
  and array_items :: "error_code \<Rightarrow> bool \<Rightarrow> nat \<Rightarrow> json list \<Rightarrow> (json_parser, json) op"
  and object_items :: "error_code \<Rightarrow> bool \<Rightarrow> nat \<Rightarrow> (string, json) btree \<Rightarrow> (json_parser, json) op" where
  "parse_value c nulls 0 = op_throw (fail c ''out of fuel'')"
| "parse_value c nulls (Suc n) =
    op_seq j_skip_ws (op_seq (j_bump c) (op_bind j_peek (\<lambda>p.
    case p of None \<Rightarrow> op_throw (fail c ''invalid JSON value'')
    | Some ch \<Rightarrow>
      if ch = CHR ''n'' then
        op_seq (j_consume c ''null'')
          (if nulls then op_seq (j_reject_ident_tail c) (op_return JNull)
           else op_throw (fail c ''JSON null is not allowed''))
      else if ch = CHR ''t'' then
        op_seq (j_consume c ''true'') (op_seq (j_reject_ident_tail c) (op_return (JBool True)))
      else if ch = CHR ''f'' then
        op_seq (j_consume c ''false'') (op_seq (j_reject_ident_tail c) (op_return (JBool False)))
      else if ch = CHR 0x22 then op_bind (j_string c) (\<lambda>s. op_return (JString s))
      else if ch = CHR ''['' then
        op_seq (j_skip 1) (op_seq (j_enter c) (op_seq j_skip_ws (op_bind j_peek (\<lambda>p.
        if p = Some (CHR '']'') then op_seq j_leave (op_return (JArray []))
        else array_items c nulls n []))))
      else if ch = CHR ''{'' then
        op_seq (j_skip 1) (op_seq (j_enter c) (op_seq j_skip_ws (op_bind j_peek (\<lambda>p.
        if p = Some (CHR ''}'') then op_seq j_leave (op_return (JObject []))
        else object_items c nulls n []))))
      else if is_ascii_digit ch then j_number c
      else if ch = CHR ''-'' then op_throw (fail c ''JSON numbers must be unsigned integers'')
      else op_throw (fail c ''invalid JSON value''))))"
| "array_items c nulls 0 items = op_throw (fail c ''out of fuel'')"
| "array_items c nulls (Suc n) items =
    op_bind (parse_value c nulls n) (\<lambda>v.
    op_seq j_skip_ws (op_bind j_peek (\<lambda>p.
    if p = Some (CHR '','') then
      op_seq (j_skip 1) (op_seq j_skip_ws (op_bind j_peek (\<lambda>p.
      if p = Some (CHR '']'') then op_throw (fail c ''trailing comma in JSON array'')
      else array_items c nulls n (items @ [v]))))
    else if p = Some (CHR '']'') then op_seq j_leave (op_return (JArray (items @ [v])))
    else op_throw (fail c ''JSON array is not closed''))))"
| "object_items c nulls 0 m = op_throw (fail c ''out of fuel'')"
| "object_items c nulls (Suc n) m =
    op_seq j_skip_ws (op_bind j_peek (\<lambda>p.
    if p \<noteq> Some (CHR 0x22) then op_throw (fail c ''JSON object key must be a string'')
    else op_bind (j_string c) (\<lambda>key.
    if length key > 1024 then op_throw (fail c ''JSON object key is too long'')
    else if bt_get m key \<noteq> None then op_throw (fail c (''duplicate JSON key '' @ key))
    else op_seq j_skip_ws (op_bind j_peek (\<lambda>p.
    if p \<noteq> Some (CHR '':'') then op_throw (fail c (''JSON object is missing '' @ [CHR 0x27] @ '':'' @ [CHR 0x27]))
    else op_seq (j_skip 1) (op_bind (parse_value c nulls n) (\<lambda>v.
    op_seq j_skip_ws (op_bind j_peek (\<lambda>p.
    if p = Some (CHR '','') then
      op_seq (j_skip 1) (op_seq j_skip_ws (op_bind j_peek (\<lambda>p.
      if p = Some (CHR ''}'') then op_throw (fail c ''trailing comma in JSON object'')
      else object_items c nulls n (bt_insert key v m))))
    else if p = Some (CHR ''}'') then op_seq j_leave (op_return (JObject (bt_insert key v m)))
    else op_throw (fail c ''JSON object is not closed''))))))))))"

definition byte_order_mark :: string where
  "byte_order_mark = [CHR 0xEF, CHR 0xBB, CHR 0xBF]"

definition parse_json :: "string \<Rightarrow> error_code \<Rightarrow> bool \<Rightarrow> json res" where
  "parse_json input c nulls =
    (if length input > max_json_bytes then Inl (fail c ''JSON document exceeds 32 MiB'')
     else if take 3 input = byte_order_mark then Inl (fail c ''JSON document must not start with a BOM'')
     else fst (op_seq j_skip_ws
       (op_bind (parse_value c nulls (2 * length input + 1)) (\<lambda>v.
        op_seq j_skip_ws (op_bind (op_gets jp_rest) (\<lambda>rest.
        if rest \<noteq> [] then op_throw (fail c ''JSON document has trailing data'') else op_return v))))
       \<lparr>jp_rest = input, jp_depth = 0, jp_values = 0\<rparr>))"

definition parse_strict_json :: "string \<Rightarrow> error_code \<Rightarrow> json res" where
  "parse_strict_json input c = parse_json input c False"

definition parse_strict_json_allowing_null :: "string \<Rightarrow> error_code \<Rightarrow> json res" where
  "parse_strict_json_allowing_null input c = parse_json input c True"

end
