(* ===== verification/Json_Proofs.thy ===== *)
theory Json_Proofs
  imports Json
begin

text \<open>
  What the strict reader returns is well-formed and within the limits, and the fuel of the model is enough:
  more fuel never changes the result.
\<close>

fun json_size :: "json \<Rightarrow> nat" where
  "json_size (JArray vs) = 1 + sum_list (map json_size vs)"
| "json_size (JObject m) = 1 + sum_list (map (\<lambda>(k, v). json_size v) m)"
| "json_size _ = 1"

text \<open>Well-formed with at most \<open>d\<close> nested arrays and objects.\<close>

fun json_ok :: "bool \<Rightarrow> nat \<Rightarrow> json \<Rightarrow> bool" where
  "json_ok nulls d JNull = nulls"
| "json_ok nulls d (JBool b) = True"
| "json_ok nulls d (JNumber n) = (n \<le> u64_max)"
| "json_ok nulls d (JString s) = (length s \<le> max_json_string)"
| "json_ok nulls d (JArray vs) = (0 < d \<and> (\<forall>v \<in> set vs. json_ok nulls (d - 1) v))"
| "json_ok nulls d (JObject m) =
    (0 < d \<and> bt_ok m \<and> (\<forall>(k, v) \<in> set m. length k \<le> 1024 \<and> json_ok nulls (d - 1) v))"

definition value_post :: "bool \<Rightarrow> json_parser \<Rightarrow> json \<Rightarrow> json_parser \<Rightarrow> bool" where
  "value_post nulls p v q \<longleftrightarrow> length (jp_rest q) < length (jp_rest p) \<and> jp_depth q = jp_depth p \<and>
    jp_values q = jp_values p + json_size v \<and> jp_values q \<le> max_json_values \<and>
    json_ok nulls (max_json_depth - jp_depth p) v"

definition array_post :: "bool \<Rightarrow> json_parser \<Rightarrow> json list \<Rightarrow> json \<Rightarrow> json_parser \<Rightarrow> bool" where
  "array_post nulls p items v q \<longleftrightarrow> length (jp_rest q) < length (jp_rest p) \<and> jp_depth q = jp_depth p - 1 \<and>
    (\<exists>vs. v = JArray (items @ vs) \<and> jp_values q = jp_values p + sum_list (map json_size vs) \<and>
      jp_values q \<le> max_json_values \<and> (\<forall>v \<in> set vs. json_ok nulls (max_json_depth - jp_depth p) v))"

definition entry_ok :: "bool \<Rightarrow> nat \<Rightarrow> string \<times> json \<Rightarrow> bool" where
  "entry_ok nulls d e \<longleftrightarrow> length (fst e) \<le> 1024 \<and> json_ok nulls d (snd e)"

definition entries_size :: "(string \<times> json) list \<Rightarrow> nat" where
  "entries_size m = sum_list (map (\<lambda>(k, v). json_size v) m)"

definition object_post :: "bool \<Rightarrow> json_parser \<Rightarrow> (string \<times> json) list \<Rightarrow> json \<Rightarrow> json_parser \<Rightarrow> bool" where
  "object_post nulls p m v q \<longleftrightarrow> length (jp_rest q) < length (jp_rest p) \<and> jp_depth q = jp_depth p - 1 \<and>
    (\<exists>m'. v = JObject m' \<and> bt_ok m' \<and> jp_values q + entries_size m = jp_values p + entries_size m' \<and>
      jp_values q \<le> max_json_values \<and> (\<forall>e \<in> set m'. e \<in> set m \<or> entry_ok nulls (max_json_depth - jp_depth p) e))"

abbreviation fails :: "infer_failure \<Rightarrow> json_parser \<Rightarrow> bool" where
  "fails \<equiv> \<lambda>_ _. True"

subsection \<open>The primitives\<close>

lemma wp_json [wp]:
  "op_wp j_peek Q E p \<longleftrightarrow> Q (first_of (jp_rest p)) p"
  "op_wp (j_skip n) Q' E p \<longleftrightarrow> Q' () (p\<lparr>jp_rest := drop n (jp_rest p)\<rparr>)"
  "op_wp j_skip_ws Q' E p \<longleftrightarrow> Q' () (p\<lparr>jp_rest := dropWhile is_ws (jp_rest p)\<rparr>)"
  "op_wp j_leave Q' E p \<longleftrightarrow> Q' () (p\<lparr>jp_rest := drop 1 (jp_rest p), jp_depth := jp_depth p - 1\<rparr>)"
  by (simp_all add: j_peek_def j_skip_def j_skip_ws_def j_leave_def wp)

lemma wp_j_bump [wp]: "op_wp (j_bump c) Q fails p \<longleftrightarrow>
    (jp_values p + 1 \<le> max_json_values \<longrightarrow> Q () (p\<lparr>jp_values := jp_values p + 1\<rparr>))"
  by (auto simp: j_bump_def wp)

lemma wp_j_enter [wp]: "op_wp (j_enter c) Q fails p \<longleftrightarrow>
    (jp_depth p + 1 \<le> max_json_depth \<longrightarrow> Q () (p\<lparr>jp_depth := jp_depth p + 1\<rparr>))"
  by (auto simp: j_enter_def wp)

lemma wp_j_consume: "(\<And>b. b = drop (length l) (jp_rest p) \<Longrightarrow> Q () (p\<lparr>jp_rest := b\<rparr>)) \<Longrightarrow> op_wp (j_consume c l) Q fails p"
  by (auto simp: j_consume_def wp)

lemma wp_j_reject: "Q () p \<Longrightarrow> op_wp (j_reject_ident_tail c) Q fails p"
  by (auto simp: j_reject_ident_tail_def wp split: option.split)

lemma string_from_Inr:
  "string_from c out rest = Inr (s, rest') \<Longrightarrow> length rest' < length rest \<and> length s \<le> max_json_string"
proof (induction c out rest rule: string_from.induct)
  case (1 c out rest)
  show ?case
  proof (cases rest)
    case (Cons ch cs)
    note step = 1(3) [unfolded Cons, unfolded string_from.simps [of c out "ch # cs"], simplified]
    show ?thesis
    proof (cases "ch = CHR 0x5C")
      case True
      then obtain t b where t: "parse_escape c cs = Inr (t, b)" "string_from c (out @ t) b = Inr (s, rest')"
        using step by (auto split: sum.splits prod.splits)
      then show ?thesis using 1(1) [OF Cons _ True t(1) refl] parse_escape_shorter [OF t(1)] True Cons by simp
    next
      case False
      then show ?thesis using step 1(2) [OF Cons _ False] Cons by (auto split: if_splits)
    qed
  qed (use 1(3) in \<open>simp add: string_from.simps [of c out]\<close>)
qed

lemma wp_j_string:
  assumes "\<And>s b. length b + 1 < length (jp_rest p) \<Longrightarrow> length s \<le> max_json_string \<Longrightarrow> Q s (p\<lparr>jp_rest := b\<rparr>)"
  shows "op_wp (j_string c) Q fails p"
proof (cases "string_from c [] (drop 1 (jp_rest p))")
  case (Inr r)
  obtain s b where r: "r = (s, b)" by (cases r)
  then have b: "length b < length (drop 1 (jp_rest p))" "length s \<le> max_json_string"
    using string_from_Inr [OF Inr [unfolded r]] by simp_all
  then have "length b + 1 < length (jp_rest p)" by simp
  then show ?thesis using assms [of b s] b(2) Inr r by (simp add: j_string_def wp)
qed (simp add: j_string_def wp)

lemma wp_j_number:
  assumes "\<And>n b. length b < length (jp_rest p) \<Longrightarrow> n \<le> u64_max \<Longrightarrow> Q (JNumber n) (p\<lparr>jp_rest := b\<rparr>)"
    and "first_of (jp_rest p) = Some d" "is_ascii_digit d"
  shows "op_wp (j_number c) Q fails p"
proof -
  obtain cs where cs: "jp_rest p = d # cs" using assms(2) by (cases "jp_rest p") auto
  have "0 < length (takeWhile is_ascii_digit (jp_rest p))" using assms(3) by (simp add: cs)
  then have "length (drop (length (takeWhile is_ascii_digit (jp_rest p))) (jp_rest p)) < length (jp_rest p)"
    by (simp add: cs)
  then show ?thesis using assms(1) by (auto simp: j_number_def wp Let_def not_less cs)
qed

lemma ws_shorter: "length (dropWhile is_ws s) \<le> length s"
  by (rule length_dropWhile_le)

lemma entries_size_insert:
  "bt_get m k = None \<Longrightarrow> entries_size (bt_insert k v m) = json_size v + entries_size m"
  by (induction m) (auto simp: entries_size_def split: if_splits)

lemma set_insert_fresh: "set (bt_insert k v m) \<subseteq> insert (k, v) (set m)"
  by (induction m) (auto split: if_splits)

subsection \<open>What the parser returns\<close>

lemma peeked: "first_of s = Some ch \<longleftrightarrow> (\<exists>cs. s = ch # cs)"
  by (cases s) auto

lemma array_post_start:
  assumes "array_post nulls p1 [] v q" and "length (jp_rest p1) < length (jp_rest p)"
    and "jp_depth p1 = jp_depth p + 1" and "jp_values p1 = jp_values p + 1" and "jp_depth p < max_json_depth"
  shows "value_post nulls p v q"
  using assms by (auto simp: array_post_def value_post_def)

lemma object_post_start:
  assumes "object_post nulls p1 [] v q" and "length (jp_rest p1) < length (jp_rest p)"
    and "jp_depth p1 = jp_depth p + 1" and "jp_values p1 = jp_values p + 1" and "jp_depth p < max_json_depth"
  shows "value_post nulls p v q"
  using assms by (fastforce simp: object_post_def value_post_def entries_size_def entry_ok_def)

lemma wp_ifI: "(b \<Longrightarrow> op_wp m Q E s) \<Longrightarrow> (\<not> b \<Longrightarrow> op_wp m' Q E s) \<Longrightarrow> op_wp (if b then m else m') Q E s"
  by simp

text \<open>The loops, from what one value does.\<close>

lemma wp_array_items_step:
  assumes val: "\<And>p. jp_depth p \<le> max_json_depth \<Longrightarrow> op_wp (parse_value c nulls n) (value_post nulls p) fails p"
    and rest: "\<And>p items. jp_depth p \<le> max_json_depth \<Longrightarrow> op_wp (array_items c nulls n items) (array_post nulls p items) fails p"
    and d: "jp_depth p \<le> max_json_depth"
  shows "op_wp (array_items c nulls (Suc n) items) (array_post nulls p items) fails p"
proof -
  have "op_wp (op_seq j_skip_ws (op_bind j_peek (\<lambda>p.
      if p = Some (CHR '','') then
        op_seq (j_skip 1) (op_seq j_skip_ws (op_bind j_peek (\<lambda>p.
        if p = Some (CHR '']'') then op_throw (fail c ''trailing comma in JSON array'')
        else array_items c nulls n (items @ [v]))))
      else if p = Some (CHR '']'') then op_seq j_leave (op_return (JArray (items @ [v])))
      else op_throw (fail c ''JSON array is not closed''))))
      (array_post nulls p items) fails q" if v: "value_post nulls p v q" for v q
  proof -
    let ?ws = "dropWhile is_ws (jp_rest q)"
    let ?q = "q\<lparr>jp_rest := dropWhile is_ws (drop 1 ?ws)\<rparr>"
    have le: "length ?ws \<le> length (jp_rest q)" "length (jp_rest ?q) \<le> length (jp_rest q)"
      using ws_shorter [of "jp_rest q"] ws_shorter [of "drop 1 ?ws"] by simp_all
    have more: "op_wp (array_items c nulls n (items @ [v])) (array_post nulls p items) fails ?q"
    proof (rule op_wp_mono [OF rest])
      show "jp_depth ?q \<le> max_json_depth" using v d by (simp add: value_post_def)
      fix w t assume w: "array_post nulls ?q (items @ [v]) w t"
      then obtain vs where vs: "w = JArray (items @ v # vs)"
          "jp_values t = jp_values q + sum_list (map json_size vs)" "jp_values t \<le> max_json_values"
          "\<forall>u \<in> set vs. json_ok nulls (max_json_depth - jp_depth p) u"
        using v by (auto simp: array_post_def value_post_def)
      moreover have "length (jp_rest t) < length (jp_rest p)" "jp_depth t = jp_depth p - 1"
        using w v le by (simp_all add: array_post_def value_post_def)
      ultimately show "array_post nulls p items w t" using v
        unfolding array_post_def by (intro conjI exI [of _ "v # vs"]) (auto simp: value_post_def)
    qed simp
    have last: "array_post nulls p items (JArray (items @ [v])) (q\<lparr>jp_rest := drop 1 ?ws, jp_depth := jp_depth q - 1\<rparr>)"
      using v le unfolding array_post_def by (intro conjI exI [of _ "[v]"]) (auto simp: value_post_def)
    show ?thesis using more last by (simp add: wp)
  qed
  then show ?thesis unfolding array_items.simps op_wp_bind
    by (intro op_wp_mono [OF val [OF d]]) auto
qed

lemma wp_object_items_step:
  assumes val: "\<And>p. jp_depth p \<le> max_json_depth \<Longrightarrow> op_wp (parse_value c nulls n) (value_post nulls p) fails p"
    and rest: "\<And>p m. jp_depth p \<le> max_json_depth \<Longrightarrow> bt_ok m \<Longrightarrow> op_wp (object_items c nulls n m) (object_post nulls p m) fails p"
    and d: "jp_depth p \<le> max_json_depth" and m: "bt_ok m"
  shows "op_wp (object_items c nulls (Suc n) m) (object_post nulls p m) fails p"
proof -
  have close: "op_wp (op_seq j_skip_ws (op_bind j_peek (\<lambda>p.
      if p = Some (CHR '','') then
        op_seq (j_skip 1) (op_seq j_skip_ws (op_bind j_peek (\<lambda>p.
        if p = Some (CHR ''}'') then op_throw (fail c ''trailing comma in JSON object'')
        else object_items c nulls n (bt_insert key v m))))
      else if p = Some (CHR ''}'') then op_seq j_leave (op_return (JObject (bt_insert key v m)))
      else op_throw (fail c ''JSON object is not closed''))))
      (object_post nulls p m) fails q"
    if v: "value_post nulls p1 v q" and p1: "length (jp_rest p1) \<le> length (jp_rest p)" "jp_depth p1 = jp_depth p"
      "jp_values p1 = jp_values p" and key: "length key \<le> 1024" "bt_get m key = None" for key v p1 q
  proof -
    let ?ws = "dropWhile is_ws (jp_rest q)" and ?m = "bt_insert key v m"
    let ?q = "q\<lparr>jp_rest := dropWhile is_ws (drop 1 ?ws)\<rparr>"
    have le: "length ?ws \<le> length (jp_rest q)" "length (jp_rest ?q) \<le> length (jp_rest q)"
      using ws_shorter [of "jp_rest q"] ws_shorter [of "drop 1 ?ws"] by simp_all
    have size: "entries_size ?m = json_size v + entries_size m" using key(2) by (rule entries_size_insert)
    have entry: "e \<in> set m \<or> entry_ok nulls (max_json_depth - jp_depth p) e" if "e \<in> set ?m" for e
      using subsetD [OF set_insert_fresh that] v p1(2) key(1) by (auto simp: entry_ok_def value_post_def)
    have more: "op_wp (object_items c nulls n ?m) (object_post nulls p m) fails ?q"
    proof (rule op_wp_mono [OF rest])
      show "jp_depth ?q \<le> max_json_depth" using v d p1 by (simp add: value_post_def)
      show "bt_ok ?m" using m by simp
      fix w t assume w: "object_post nulls ?q ?m w t"
      then obtain m' where m': "w = JObject m'" "bt_ok m'" "jp_values t + entries_size ?m = jp_values q + entries_size m'"
          "jp_values t \<le> max_json_values" "\<forall>e \<in> set m'. e \<in> set ?m \<or> entry_ok nulls (max_json_depth - jp_depth p) e"
        using v p1 by (auto simp: object_post_def value_post_def)
      have "jp_values t + entries_size m = jp_values p + entries_size m'"
        using m'(3) size v p1 by (simp add: value_post_def)
      moreover have "length (jp_rest t) < length (jp_rest p)" "jp_depth t = jp_depth p - 1"
        using w v le p1 by (simp_all add: object_post_def value_post_def)
      ultimately show "object_post nulls p m w t" using m' entry
        unfolding object_post_def by (intro conjI exI [of _ m']) auto
    qed simp
    have last: "object_post nulls p m (JObject ?m) (q\<lparr>jp_rest := drop 1 ?ws, jp_depth := jp_depth q - 1\<rparr>)"
      using v le p1 m size entry unfolding object_post_def
      by (intro conjI exI [of _ ?m]) (auto simp: value_post_def)
    show ?thesis using more last by (simp add: wp)
  qed
  have key: "op_wp (op_bind (j_string c) (\<lambda>key.
      if length key > 1024 then op_throw (fail c ''JSON object key is too long'')
      else if bt_get m key \<noteq> None then op_throw (fail c (''duplicate JSON key '' @ key))
      else op_seq j_skip_ws (op_bind j_peek (\<lambda>p.
      if p \<noteq> Some (CHR '':'') then op_throw (fail c (''JSON object is missing '' @ [CHR 0x27] @ '':'' @ [CHR 0x27]))
      else op_seq (j_skip 1) (op_bind (parse_value c nulls n) (\<lambda>v.
      op_seq j_skip_ws (op_bind j_peek (\<lambda>p.
      if p = Some (CHR '','') then
        op_seq (j_skip 1) (op_seq j_skip_ws (op_bind j_peek (\<lambda>p.
        if p = Some (CHR ''}'') then op_throw (fail c ''trailing comma in JSON object'')
        else object_items c nulls n (bt_insert key v m))))
      else if p = Some (CHR ''}'') then op_seq j_leave (op_return (JObject (bt_insert key v m)))
      else op_throw (fail c ''JSON object is not closed'')))))))))
      (object_post nulls p m) fails (p\<lparr>jp_rest := dropWhile is_ws (jp_rest p)\<rparr>)" (is "op_wp (op_bind _ ?k) _ _ ?p")
    unfolding op_wp_bind [of "j_string c"]
  proof (rule wp_j_string)
    fix key b :: string
    assume b: "length b + 1 < length (jp_rest ?p)"
    let ?p1 = "?p\<lparr>jp_rest := drop 1 (dropWhile is_ws b)\<rparr>"
    have p1: "length (jp_rest ?p1) \<le> length (jp_rest p)" "jp_depth ?p1 = jp_depth p" "jp_values ?p1 = jp_values p"
      using b ws_shorter [of b] ws_shorter [of "jp_rest p"] by simp_all
    have "op_wp (parse_value c nulls n) (\<lambda>v. op_wp (op_seq j_skip_ws (op_bind j_peek (\<lambda>p.
      if p = Some (CHR '','') then
        op_seq (j_skip 1) (op_seq j_skip_ws (op_bind j_peek (\<lambda>p.
        if p = Some (CHR ''}'') then op_throw (fail c ''trailing comma in JSON object'')
        else object_items c nulls n (bt_insert key v m))))
      else if p = Some (CHR ''}'') then op_seq j_leave (op_return (JObject (bt_insert key v m)))
      else op_throw (fail c ''JSON object is not closed'')))) (object_post nulls p m) fails) fails ?p1"
      if "length key \<le> 1024" "bt_get m key = None"
      by (rule op_wp_mono [OF val]) (use d close [OF _ p1 that] in auto)
    then show "op_wp (?k key) (object_post nulls p m) fails (?p\<lparr>jp_rest := b\<rparr>)"
      by (simp add: wp not_less)
  qed
  then show ?thesis unfolding object_items.simps by (simp add: wp)
qed

lemma wp_parse_value_step:
  assumes arr: "\<And>p items. jp_depth p \<le> max_json_depth \<Longrightarrow> op_wp (array_items c nulls n items) (array_post nulls p items) fails p"
    and obj: "\<And>p m. jp_depth p \<le> max_json_depth \<Longrightarrow> bt_ok m \<Longrightarrow> op_wp (object_items c nulls n m) (object_post nulls p m) fails p"
    and d: "jp_depth p \<le> max_json_depth"
  shows "op_wp (parse_value c nulls (Suc n)) (value_post nulls p) fails p"
proof -
  let ?p = "p\<lparr>jp_rest := dropWhile is_ws (jp_rest p), jp_values := jp_values p + 1\<rparr>"
  show ?thesis
  proof (cases "first_of (jp_rest ?p)")
    case None
    then show ?thesis unfolding parse_value.simps by (simp add: wp)
  next
    case (Some ch)
    then obtain cs where cs: "dropWhile is_ws (jp_rest p) = ch # cs" by (auto simp: peeked)
    have le: "length cs < length (jp_rest p)" using ws_shorter [of "jp_rest p"] by (simp add: cs)
    show ?thesis
    proof (cases "jp_values p + 1 \<le> max_json_values")
      case False
      then show ?thesis unfolding parse_value.simps by (simp add: wp)
    next
      case max: True
      have lit: "value_post nulls p v (?p\<lparr>jp_rest := drop (Suc k) (ch # cs)\<rparr>)"
        if "json_size v = 1" "json_ok nulls (max_json_depth - jp_depth p) v" for v k
        using that max le by (auto simp: value_post_def)
      have short: "value_post nulls p v (?p\<lparr>jp_rest := b\<rparr>)"
        if "json_size v = 1" "json_ok nulls (max_json_depth - jp_depth p) v" "length b < length (ch # cs)" for v b
        using that max le by (auto simp: value_post_def)
      let ?p1 = "?p\<lparr>jp_depth := jp_depth p + 1, jp_rest := dropWhile is_ws cs\<rparr>"
      have le1: "length (jp_rest ?p1) < length (jp_rest p)" using le ws_shorter [of cs] by simp
      have arr1: "op_wp (array_items c nulls n []) (value_post nulls p) fails ?p1" if "jp_depth p < max_json_depth"
        by (rule op_wp_mono [OF arr]) (use that le1 in \<open>auto intro: array_post_start\<close>)
      have obj1: "op_wp (object_items c nulls n []) (value_post nulls p) fails ?p1" if "jp_depth p < max_json_depth"
        by (rule op_wp_mono [OF obj]) (use that le1 in \<open>auto intro: object_post_start\<close>)
      have empty: "value_post nulls p v (?p1\<lparr>jp_rest := drop 1 (dropWhile is_ws cs), jp_depth := jp_depth p\<rparr>)"
        if "jp_depth p < max_json_depth" "v = JArray [] \<or> v = JObject []" for v
        using that max le1 by (auto simp: value_post_def)
      have str: "op_wp (op_bind (j_string c) (\<lambda>s. op_return (JString s))) (value_post nulls p) fails ?p"
        unfolding op_wp_bind op_wp_return
        by (rule wp_j_string) (use cs short in simp)
      have num: "op_wp (j_number c) (value_post nulls p) fails ?p" if "is_ascii_digit ch"
        by (rule wp_j_number [where d = ch]) (use cs short that in simp_all)
      have word: "op_wp (op_seq (j_consume c (x # xs)) (op_seq (j_reject_ident_tail c) (op_return v)))
          (value_post nulls p) fails ?p"
        if "json_size v = 1" "json_ok nulls (max_json_depth - jp_depth p) v" for x xs v
        unfolding op_wp_seq op_wp_return
        by (rule wp_j_consume, rule wp_j_reject, rule short) (use that cs in simp_all)
      have nul: "op_wp (op_seq (j_consume c (x # xs)) (op_throw e)) (value_post nulls p) fails ?p" for x xs e
        unfolding op_wp_seq by (rule wp_j_consume) (simp add: wp)
      have "op_wp (if ch = CHR ''n'' then
          op_seq (j_consume c ''null'')
            (if nulls then op_seq (j_reject_ident_tail c) (op_return JNull)
             else op_throw (fail c ''JSON null is not allowed''))
        else if ch = CHR ''t'' then
          op_seq (j_consume c ''true'') (op_seq (j_reject_ident_tail c) (op_return (JBool True)))
        else if ch = CHR ''f'' then
          op_seq (j_consume c ''false'') (op_seq (j_reject_ident_tail c) (op_return (JBool False)))
        else if ch = CHR 0x22 then op_bind (j_string c) (\<lambda>s. op_return (JString s))
        else if ch = CHR ''['' then
          op_seq (j_skip 1) (op_seq (j_enter c) (op_seq j_skip_ws (op_bind j_peek (\<lambda>p.
          if p = Some (CHR '']'') then op_seq j_leave (op_return (JArray []))
          else array_items c nulls n []))))
        else if ch = CHR ''{'' then
          op_seq (j_skip 1) (op_seq (j_enter c) (op_seq j_skip_ws (op_bind j_peek (\<lambda>p.
          if p = Some (CHR ''}'') then op_seq j_leave (op_return (JObject []))
          else object_items c nulls n []))))
        else if is_ascii_digit ch then j_number c
        else if ch = CHR ''-'' then op_throw (fail c ''JSON numbers must be unsigned integers'')
        else op_throw (fail c ''invalid JSON value'')) (value_post nulls p) fails ?p"
      proof -
        have a: "op_wp (op_seq (j_skip 1) (op_seq (j_enter c) (op_seq j_skip_ws (op_bind j_peek (\<lambda>p.
            if p = Some (CHR '']'') then op_seq j_leave (op_return (JArray []))
            else array_items c nulls n []))))) (value_post nulls p) fails ?p"
          using arr1 empty [of "JArray []"] by (simp add: wp cs)
        have o: "op_wp (op_seq (j_skip 1) (op_seq (j_enter c) (op_seq j_skip_ws (op_bind j_peek (\<lambda>p.
            if p = Some (CHR ''}'') then op_seq j_leave (op_return (JObject []))
            else object_items c nulls n []))))) (value_post nulls p) fails ?p"
          using obj1 empty [of "JObject []"] by (simp add: wp cs)
        have n: "op_wp (op_seq (j_consume c ''null'')
            (if nulls then op_seq (j_reject_ident_tail c) (op_return JNull)
             else op_throw (fail c ''JSON null is not allowed''))) (value_post nulls p) fails ?p"
          using word [of JNull] nul by (cases nulls) simp_all
        have bad: "op_wp (op_throw e) (value_post nulls p) fails ?p" for e by (simp add: wp)
        show ?thesis
          by (intro wp_ifI n str a o bad word) (assumption | rule num | simp)+
      qed
      then show ?thesis unfolding parse_value.simps op_wp_seq wp_json wp_j_bump op_wp_bind [of j_peek]
        by (simp add: cs split del: if_split)
    qed
  qed
qed

lemma wp_parse_value:
  "(\<forall>p. jp_depth p \<le> max_json_depth \<longrightarrow> op_wp (parse_value c nulls n) (value_post nulls p) fails p) \<and>
   (\<forall>p items. jp_depth p \<le> max_json_depth \<longrightarrow> op_wp (array_items c nulls n items) (array_post nulls p items) fails p) \<and>
   (\<forall>p m. jp_depth p \<le> max_json_depth \<longrightarrow> bt_ok m \<longrightarrow> op_wp (object_items c nulls n m) (object_post nulls p m) fails p)"
proof (induction n)
  case 0
  then show ?case by (simp add: wp)
next
  case (Suc n)
  note val = Suc [THEN conjunct1, rule_format] and arr = Suc [THEN conjunct2, THEN conjunct1, rule_format]
    and obj = Suc [THEN conjunct2, THEN conjunct2, rule_format]
  show ?case
    using wp_parse_value_step [OF arr obj] wp_array_items_step [OF val arr] wp_object_items_step [OF val obj]
    by blast
qed

theorem parse_json_ok:
  assumes "parse_json input c nulls = Inr v"
  shows "json_ok nulls max_json_depth v \<and> json_size v \<le> max_json_values \<and> length input \<le> max_json_bytes"
proof -
  let ?p = "\<lparr>jp_rest = dropWhile is_ws input, jp_depth = 0, jp_values = 0\<rparr>"
  obtain q where q: "parse_value c nulls (2 * length input + 1) ?p = (Inr v, q)" and len: "length input \<le> max_json_bytes"
    using assms unfolding parse_json_def op_seq_def op_bind_def j_skip_ws_def op_modify_def op_gets_def op_return_def
    by (auto simp: op_throw_def split: if_splits prod.splits sum.splits)
  have "op_wp (parse_value c nulls (2 * length input + 1)) (value_post nulls ?p) fails ?p"
    using wp_parse_value [of c nulls "2 * length input + 1"] by simp
  then have "value_post nulls ?p v q" using q by (rule op_wpD_Inr)
  then show ?thesis using len by (simp add: value_post_def)
qed

subsection \<open>Enough fuel\<close>

lemma parse_value_shorter:
  "jp_depth p \<le> max_json_depth \<Longrightarrow>
   op_wp (parse_value c nulls n) (\<lambda>v q. length (jp_rest q) < length (jp_rest p) \<and> jp_depth q = jp_depth p) fails p"
  by (rule op_wp_mono [OF wp_parse_value [THEN conjunct1, rule_format]]) (auto simp: value_post_def)

definition same :: "('s, 'a) op \<Rightarrow> ('s, 'a) op \<Rightarrow> 's \<Rightarrow> bool" where
  "same m n s \<longleftrightarrow> m s = n s"

lemma op_wp_true: "op_wp m (\<lambda>_ _. True) (\<lambda>_ _. True) s"
  by (simp add: op_wp_def split: prod.split sum.split)

lemma same_refl: "same m m s"
  by (simp add: same_def)

lemma same_bind: "same (op_bind m f) (op_bind m g) s \<longleftrightarrow> op_wp m (\<lambda>a. same (f a) (g a)) (\<lambda>_ _. True) s"
  by (auto simp: same_def op_bind_def op_wp_def split: prod.split sum.split)

lemma same_seq: "same (op_seq m f) (op_seq m g) s \<longleftrightarrow> op_wp m (\<lambda>_. same f g) (\<lambda>_ _. True) s"
  by (simp add: op_seq_def same_bind)

lemma same_if: "same (if b then m else n) (if b then m' else n') s \<longleftrightarrow> (if b then same m m' s else same n n' s)"
  by simp

lemmas same_rules = same_refl same_bind same_seq same_if op_wp_true

lemma same_value_step:
  assumes arr: "\<And>p items. jp_depth p \<le> max_json_depth \<Longrightarrow> 2 * length (jp_rest p) + 2 \<le> n \<Longrightarrow>
      same (array_items c nulls m items) (array_items c nulls n items) p"
    and obj: "\<And>p es. jp_depth p \<le> max_json_depth \<Longrightarrow> 2 * length (jp_rest p) + 2 \<le> n \<Longrightarrow>
      same (object_items c nulls m es) (object_items c nulls n es) p"
    and fuel: "2 * length (jp_rest p) + 1 \<le> Suc n"
  shows "same (parse_value c nulls (Suc m)) (parse_value c nulls (Suc n)) p"
proof (cases "dropWhile is_ws (jp_rest p)")
  case Nil
  then have "first_of (dropWhile is_ws (jp_rest p)) = None" by (simp del: dropWhile_eq_Nil_conv)
  then show ?thesis unfolding parse_value.simps by (simp add: same_rules wp)
next
  case (Cons ch cs)
  have "length (ch # cs) \<le> length (jp_rest p)" using ws_shorter [of "jp_rest p"] by (simp add: Cons)
  then have "2 * length (dropWhile is_ws cs) + 2 \<le> n" using ws_shorter [of cs] fuel by simp
  then show ?thesis unfolding parse_value.simps
    using arr obj by (simp add: same_rules wp Cons)
qed

lemma same_array_step:
  assumes val: "\<And>p. jp_depth p \<le> max_json_depth \<Longrightarrow> 2 * length (jp_rest p) + 1 \<le> n \<Longrightarrow>
      same (parse_value c nulls m) (parse_value c nulls n) p"
    and arr: "\<And>p items. jp_depth p \<le> max_json_depth \<Longrightarrow> 2 * length (jp_rest p) + 2 \<le> n \<Longrightarrow>
      same (array_items c nulls m items) (array_items c nulls n items) p"
    and d: "jp_depth p \<le> max_json_depth" and fuel: "2 * length (jp_rest p) + 2 \<le> Suc n"
  shows "same (array_items c nulls (Suc m) items) (array_items c nulls (Suc n) items) p"
proof -
  let ?k = "\<lambda>m v. op_seq j_skip_ws (op_bind j_peek (\<lambda>p.
    if p = Some (CHR '','') then
      op_seq (j_skip 1) (op_seq j_skip_ws (op_bind j_peek (\<lambda>p.
      if p = Some (CHR '']'') then op_throw (fail c ''trailing comma in JSON array'')
      else array_items c nulls m (items @ [v]))))
    else if p = Some (CHR '']'') then op_seq j_leave (op_return (JArray (items @ [v])))
    else op_throw (fail c ''JSON array is not closed'')))"
  have "same (?k m v) (?k n v) q" if q: "length (jp_rest q) < length (jp_rest p)" "jp_depth q = jp_depth p" for v q
  proof -
    have "2 * length (dropWhile is_ws (drop 1 (dropWhile is_ws (jp_rest q)))) + 2 \<le> n"
      using q(1) fuel ws_shorter [of "jp_rest q"] ws_shorter [of "drop 1 (dropWhile is_ws (jp_rest q))"] by simp
    then show ?thesis using arr d q(2) by (simp add: same_rules wp)
  qed
  then have "same (op_bind (parse_value c nulls n) (?k m)) (op_bind (parse_value c nulls n) (?k n)) p"
    unfolding same_bind by (intro op_wp_mono [OF parse_value_shorter [OF d]]) auto
  moreover have "parse_value c nulls m p = parse_value c nulls n p"
    using val [OF d] fuel by (simp add: same_def)
  ultimately show ?thesis unfolding array_items.simps by (simp add: same_def op_bind_def [of "parse_value _ _ _"])
qed

lemma same_object_step:
  assumes val: "\<And>p. jp_depth p \<le> max_json_depth \<Longrightarrow> 2 * length (jp_rest p) + 1 \<le> n \<Longrightarrow>
      same (parse_value c nulls m) (parse_value c nulls n) p"
    and obj: "\<And>p es. jp_depth p \<le> max_json_depth \<Longrightarrow> 2 * length (jp_rest p) + 2 \<le> n \<Longrightarrow>
      same (object_items c nulls m es) (object_items c nulls n es) p"
    and d: "jp_depth p \<le> max_json_depth" and fuel: "2 * length (jp_rest p) + 2 \<le> Suc n"
  shows "same (object_items c nulls (Suc m) es) (object_items c nulls (Suc n) es) p"
proof -
  let ?k = "\<lambda>m key v. op_seq j_skip_ws (op_bind j_peek (\<lambda>p.
    if p = Some (CHR '','') then
      op_seq (j_skip 1) (op_seq j_skip_ws (op_bind j_peek (\<lambda>p.
      if p = Some (CHR ''}'') then op_throw (fail c ''trailing comma in JSON object'')
      else object_items c nulls m (bt_insert key v es))))
    else if p = Some (CHR ''}'') then op_seq j_leave (op_return (JObject (bt_insert key v es)))
    else op_throw (fail c ''JSON object is not closed'')))"
  have k: "same (?k m key v) (?k n key v) q" if q: "length (jp_rest q) < length (jp_rest p)" "jp_depth q = jp_depth p"
    for key v q
  proof -
    have "2 * length (dropWhile is_ws (drop 1 (dropWhile is_ws (jp_rest q)))) + 2 \<le> n"
      using q(1) fuel ws_shorter [of "jp_rest q"] ws_shorter [of "drop 1 (dropWhile is_ws (jp_rest q))"] by simp
    then show ?thesis using obj d q(2) by (simp add: same_rules wp)
  qed
  have vk: "same (op_bind (parse_value c nulls m) (?k m key)) (op_bind (parse_value c nulls n) (?k n key)) q"
    if q: "length (jp_rest q) < length (jp_rest p)" "jp_depth q = jp_depth p" for key q
  proof -
    have dq: "jp_depth q \<le> max_json_depth" using d q(2) by simp
    have "same (op_bind (parse_value c nulls n) (?k m key)) (op_bind (parse_value c nulls n) (?k n key)) q"
      unfolding same_bind by (rule op_wp_mono [OF parse_value_shorter [OF dq]]) (use k q in auto)
    moreover have "parse_value c nulls m q = parse_value c nulls n q"
      using val [OF dq] q(1) fuel by (simp add: same_def)
    ultimately show ?thesis by (simp add: same_def op_bind_def [of "parse_value _ _ _"])
  qed
  have str: "op_wp (j_string c) (\<lambda>s q. length (jp_rest q) < length (jp_rest p) \<and> jp_depth q = jp_depth p) fails
      (p\<lparr>jp_rest := dropWhile is_ws (jp_rest p)\<rparr>)"
    by (rule wp_j_string) (use ws_shorter [of "jp_rest p"] in simp)
  show ?thesis unfolding object_items.simps same_seq wp_json
  proof (simp only: same_bind wp_json same_if same_refl if_True simp_thms split: if_split, intro impI)
    let ?t = "\<lambda>m key. (if length key > 1024 then op_throw (fail c ''JSON object key is too long'')
      else if bt_get es key \<noteq> None then op_throw (fail c (''duplicate JSON key '' @ key))
      else op_seq j_skip_ws (op_bind j_peek (\<lambda>p.
      if p \<noteq> Some (CHR '':'') then op_throw (fail c (''JSON object is missing '' @ [CHR 0x27] @ '':'' @ [CHR 0x27]))
      else op_seq (j_skip 1) (op_bind (parse_value c nulls m) (?k m key)))))"
    have "same (?t m key) (?t n key) q" if q: "length (jp_rest q) < length (jp_rest p)" "jp_depth q = jp_depth p" for key q
    proof -
      let ?q = "q\<lparr>jp_rest := drop 1 (dropWhile is_ws (jp_rest q))\<rparr>"
      have "length (jp_rest ?q) < length (jp_rest p)" "jp_depth ?q = jp_depth p"
        using q ws_shorter [of "jp_rest q"] by simp_all
      then show ?thesis using vk [of ?q key] by (simp add: same_refl same_seq same_bind [of j_peek] same_if wp_json)
    qed
    then show "op_wp (j_string c) (\<lambda>key. same (?t m key) (?t n key)) fails (p\<lparr>jp_rest := dropWhile is_ws (jp_rest p)\<rparr>)"
      by (intro op_wp_mono [OF str]) auto
  qed
qed

lemma parse_value_fuel:
  "n \<le> m \<Longrightarrow>
   (\<forall>p. jp_depth p \<le> max_json_depth \<longrightarrow> 2 * length (jp_rest p) + 1 \<le> n \<longrightarrow>
      same (parse_value c nulls m) (parse_value c nulls n) p) \<and>
   (\<forall>p items. jp_depth p \<le> max_json_depth \<longrightarrow> 2 * length (jp_rest p) + 2 \<le> n \<longrightarrow>
      same (array_items c nulls m items) (array_items c nulls n items) p) \<and>
   (\<forall>p es. jp_depth p \<le> max_json_depth \<longrightarrow> 2 * length (jp_rest p) + 2 \<le> n \<longrightarrow>
      same (object_items c nulls m es) (object_items c nulls n es) p)"
proof (induction n arbitrary: m)
  case (Suc n)
  then obtain k where m: "m = Suc k" "n \<le> k" by (cases m) auto
  note ih = Suc.IH [OF m(2)]
  note val = ih [THEN conjunct1, rule_format] and arr = ih [THEN conjunct2, THEN conjunct1, rule_format]
    and obj = ih [THEN conjunct2, THEN conjunct2, rule_format]
  show ?case unfolding m(1)
    using same_value_step [OF arr obj] same_array_step [OF val arr] same_object_step [OF val obj] by blast
qed simp

end
