(* ===== verification/Tokenizer.thy ===== *)
theory Tokenizer
  imports Json_Proofs Prompt_Contracts
begin

text \<open>
  The tokenizers: \<open>crates/infer-prompt/src/tokenizer.rs\<close>. A list tokenizer takes at each position the
  longest token that matches, the lowest id among equals. The Hugging Face tokenizer and the conversions of
  the JSON library are other crates: they are the operations of \<open>tokenizer_lib\<close>, of which nothing is assumed.
\<close>

record 'h tokenizer_lib =
  tl_from_value :: "json \<Rightarrow> (string \<times> nat \<times> string list) option"
  tl_to_string :: "json \<Rightarrow> string option"
  tl_from_str :: "string \<Rightarrow> string + 'h"
  tl_vocab_size :: "'h \<Rightarrow> nat"
  tl_id_to_token :: "'h \<Rightarrow> nat \<Rightarrow> string option"
  tl_encode :: "'h \<Rightarrow> string \<Rightarrow> nat list option"
  tl_decode :: "'h \<Rightarrow> nat list \<Rightarrow> string option"

record 'h micro_tokenizer =
  mt_tokens :: "string list"
  mt_hf :: "'h option"

definition tokenizer_fail :: "string \<Rightarrow> infer_failure" where
  "tokenizer_fail m = fail TokenizerInvalid m"

subsection \<open>Parsing\<close>

fun json_get :: "string \<Rightarrow> json \<Rightarrow> json option" where
  "json_get key (JObject m) = bt_get m key"
| "json_get key _ = None"

fun contains_null :: "json \<Rightarrow> bool" where
  "contains_null JNull = True"
| "contains_null (JArray vs) = (\<exists>v \<in> set vs. contains_null v)"
| "contains_null (JObject m) = (\<exists>(k, v) \<in> set m. contains_null v)"
| "contains_null _ = False"

fun reject_null_outside_tokenizer :: "json \<Rightarrow> unit res" where
  "reject_null_outside_tokenizer (JObject m) =
    (if list_ex (\<lambda>(key, v). key \<noteq> ''tokenizer'' \<and> contains_null v) m
     then Inl (tokenizer_fail ''JSON null is not allowed'') else Inr ())"
| "reject_null_outside_tokenizer _ = Inl (tokenizer_fail ''JSON null is not allowed'')"

definition hf_kind :: string where "hf_kind = ''huggingface.tokenizers.v1''"

definition tokenizer_json :: "string \<Rightarrow> json res" where
  "tokenizer_json text =
    (case parse_strict_json text TokenizerInvalid of
       Inr v \<Rightarrow> Inr v
     | Inl e \<Rightarrow>
         if message e = ''JSON null is not allowed'' then
           rbind (parse_strict_json_allowing_null text TokenizerInvalid) (\<lambda>relaxed.
           if json_get ''kind'' relaxed \<noteq> Some (JString hf_kind) then Inl e
           else rbind (reject_null_outside_tokenizer relaxed) (\<lambda>_. Inr relaxed))
         else Inl e)"

definition parse_huggingface :: "'h tokenizer_lib \<Rightarrow> json \<Rightarrow> nat \<Rightarrow> 'h micro_tokenizer res" where
  "parse_huggingface lib v vocab =
    (case v of
       JObject m \<Rightarrow>
         if \<not> list_all (\<lambda>key. key = ''kind'' \<or> key = ''version'' \<or> key = ''tokenizer'') (bt_keys m)
         then Inl (tokenizer_fail ''huggingface tokenizer wrapper has an unknown field'')
         else if bt_get m ''version'' \<noteq> Some (JNumber 1)
         then Inl (tokenizer_fail ''huggingface tokenizer version must be 1'')
         else
          (case bt_get m ''tokenizer'' of
             Some (JObject inner) \<Rightarrow>
               (case tl_to_string lib (JObject inner) of
                  None \<Rightarrow> Inl (tokenizer_fail ''huggingface tokenizer could not be encoded'')
                | Some text \<Rightarrow>
                   (case tl_from_str lib text of
                      Inl err \<Rightarrow> Inl (tokenizer_fail
                        (''huggingface tokenizer JSON is not an allowlisted token model: '' @ err))
                    | Inr hf \<Rightarrow>
                       if vocab = 0 \<or> tl_vocab_size lib hf \<noteq> vocab
                       then Inl (tokenizer_fail ''tokenizer length does not match the model vocabulary'')
                       else rbind (rmap (\<lambda>n.
                           rbind (ok_or (if n \<le> u32_max then Some n else None) TokenizerInvalid
                             ''huggingface tokenizer id does not fit u32'') (\<lambda>n.
                           ok_or (tl_id_to_token lib hf n) TokenizerInvalid
                             ''huggingface tokenizer id has no token'')) [0..<tl_vocab_size lib hf]) (\<lambda>tokens.
                         Inr \<lparr>mt_tokens = tokens, mt_hf = Some hf\<rparr>)))
           | _ \<Rightarrow> Inl (tokenizer_fail ''huggingface tokenizer is missing its model''))
     | _ \<Rightarrow> Inl (tokenizer_fail ''huggingface tokenizer wrapper must be an object''))"

fun check_entries :: "string list \<Rightarrow> string list \<Rightarrow> unit res" where
  "check_entries seen [] = Inr ()"
| "check_entries seen (token # tokens) =
    (if token = [] \<or> length (chars token) > 64
     then Inl (tokenizer_fail ''a tokenizer entry is empty or longer than 64 characters'')
     else if token \<in> set seen then Inl (tokenizer_fail ''tokenizer entries must be unique'')
     else check_entries (seen @ [token]) tokens)"

definition parse_tokenizer :: "'h tokenizer_lib \<Rightarrow> u8 list \<Rightarrow> nat \<Rightarrow> 'h micro_tokenizer res" where
  "parse_tokenizer lib bytes vocab =
    rbind (ok_or (from_utf8 bytes) TokenizerInvalid ''tokenizer bytes are not UTF-8'') (\<lambda>text.
    rbind (tokenizer_json text) (\<lambda>v.
    if json_get ''kind'' v = Some (JString hf_kind) then parse_huggingface lib v vocab
    else
    rbind (ok_or (tl_from_value lib v) TokenizerInvalid
      ''tokenizer JSON is not an allowlisted token list'') (\<lambda>(kind, version, tokens).
    if kind \<noteq> ''knolo.micro.tokens.v1'' \<and> kind \<noteq> ''knolo.llama.tokens.v1'' \<or> version \<noteq> 1
    then Inl (tokenizer_fail
      ''tokenizer kind and version must be knolo.micro.tokens.v1 or knolo.llama.tokens.v1'')
    else if vocab = 0 \<or> length tokens \<noteq> vocab
    then Inl (tokenizer_fail ''tokenizer length does not match the model vocabulary'')
    else rbind (check_entries [] tokens) (\<lambda>_. Inr \<lparr>mt_tokens = tokens, mt_hf = None\<rparr>))))"

subsection \<open>Encoding and decoding\<close>

text \<open>\<open>sort_by\<close>, on a comparator of which no two elements are equal.\<close>

fun insert_by :: "('a \<Rightarrow> 'a \<Rightarrow> bool) \<Rightarrow> 'a \<Rightarrow> 'a list \<Rightarrow> 'a list" where
  "insert_by before x [] = [x]"
| "insert_by before x (y # ys) = (if before x y then x # y # ys else y # insert_by before x ys)"

definition sort_by :: "('a \<Rightarrow> 'a \<Rightarrow> bool) \<Rightarrow> 'a list \<Rightarrow> 'a list" where
  "sort_by before xs = foldr (insert_by before) xs []"

definition longer_first :: "string list \<Rightarrow> nat \<Rightarrow> nat \<Rightarrow> bool" where
  "longer_first tokens left right \<longleftrightarrow>
    length (tokens ! right) < length (tokens ! left) \<or>
    length (tokens ! right) = length (tokens ! left) \<and> left < right"

definition starts_with :: "string \<Rightarrow> string \<Rightarrow> bool" where
  "starts_with p s \<longleftrightarrow> take (length p) s = p"

definition no_match :: "nat \<Rightarrow> infer_failure" where
  "no_match offset = tokenizer_fail (''tokenizer has no match at byte '' @ dec_str offset)"

text \<open>The loop; it does not return when the empty token is the only one that matches.\<close>

partial_function (option) encode_loop ::
  "string list \<Rightarrow> nat list \<Rightarrow> string \<Rightarrow> nat \<Rightarrow> nat list \<Rightarrow> nat list res option" where
  "encode_loop tokens order rest offset ids =
    (if rest = [] then Some (Inr ids)
     else case find (\<lambda>i. starts_with (tokens ! i) rest) order of
       None \<Rightarrow> Some (Inl (no_match offset))
     | Some i \<Rightarrow>
         if i > u32_max then Some (Inl (tokenizer_fail ''tokenizer id does not fit in u32''))
         else encode_loop tokens order (drop (length (tokens ! i)) rest) (offset + length (tokens ! i)) (ids @ [i]))"

declare encode_loop.simps [code]

definition encode_text :: "'h tokenizer_lib \<Rightarrow> 'h micro_tokenizer \<Rightarrow> string \<Rightarrow> nat list res option" where
  "encode_text lib t text =
    (case mt_hf t of
       Some hf \<Rightarrow> Some (ok_or (tl_encode lib hf text) TokenizerInvalid
         ''huggingface tokenizer could not encode the prompt'')
     | None \<Rightarrow> encode_loop (mt_tokens t)
         (sort_by (longer_first (mt_tokens t)) [0..<length (mt_tokens t)]) text 0 [])"

fun decode_list :: "string list \<Rightarrow> nat list \<Rightarrow> string \<Rightarrow> string res" where
  "decode_list tokens [] text = Inr text"
| "decode_list tokens (n # ns) text =
    (if n < length tokens then decode_list tokens ns (text @ tokens ! n)
     else Inl (tokenizer_fail ''output token id is outside the tokenizer''))"

definition decode_tokens :: "'h tokenizer_lib \<Rightarrow> 'h micro_tokenizer \<Rightarrow> nat list \<Rightarrow> string res" where
  "decode_tokens lib t ids =
    (case mt_hf t of
       Some hf \<Rightarrow> ok_or (tl_decode lib hf ids) TokenizerInvalid
         ''huggingface tokenizer could not decode the tokens''
     | None \<Rightarrow> decode_list (mt_tokens t) ids [])"

definition expect_special :: "'h micro_tokenizer \<Rightarrow> nat option \<Rightarrow> string \<Rightarrow> unit res" where
  "expect_special t n spelling =
    (case n of
       None \<Rightarrow> Inr ()
     | Some n \<Rightarrow>
         if n < length (mt_tokens t) \<and> mt_tokens t ! n = spelling then Inr ()
         else Inl (tokenizer_fail (''special token '' @ spelling @ '' is not at its declared id'')))"

subsection \<open>The order of the tokens\<close>

lemma set_insert_by [simp]: "set (insert_by before x ys) = insert x (set ys)"
  by (induction ys) auto

lemma set_sort_by [simp]: "set (sort_by before xs) = set xs"
  by (induction xs) (simp_all add: sort_by_def)

lemma sorted_insert_by:
  assumes "\<And>x y z. before x y \<Longrightarrow> before y z \<Longrightarrow> before x z" and "\<forall>y \<in> set ys. \<not> before x y \<longrightarrow> before y x"
    and "sorted_wrt before ys"
  shows "sorted_wrt before (insert_by before x ys)"
  using assms(2,3) by (induction ys) (auto intro: assms(1))

lemma sorted_sort_by:
  assumes "\<And>x y z. before x y \<Longrightarrow> before y z \<Longrightarrow> before x z"
    and "\<And>x y. x \<noteq> y \<Longrightarrow> \<not> before x y \<Longrightarrow> before y x" and "distinct xs"
  shows "sorted_wrt before (sort_by before xs)"
  using assms(3)
proof (induction xs)
  case (Cons x xs)
  have eq: "sort_by before (x # xs) = insert_by before x (sort_by before xs)" by (simp add: sort_by_def)
  show ?case unfolding eq using Cons assms(1)
    by (intro sorted_insert_by) (auto intro!: assms(2))
qed (simp add: sort_by_def)

lemma sorted_longer_first:
  "sorted_wrt (longer_first tokens) (sort_by (longer_first tokens) [0..<n])"
  by (rule sorted_sort_by) (auto simp: longer_first_def)

lemma find_sorted:
  "sorted_wrt before xs \<Longrightarrow> find P xs = Some x \<Longrightarrow> P x \<and> x \<in> set xs \<and> (\<forall>y \<in> set xs. P y \<longrightarrow> y = x \<or> before x y)"
  by (induction xs) (auto split: if_splits)

subsection \<open>The greedy tokenization\<close>

definition best_match :: "string list \<Rightarrow> string \<Rightarrow> nat \<Rightarrow> bool" where
  "best_match tokens s i \<longleftrightarrow> i < length tokens \<and> starts_with (tokens ! i) s \<and>
    (\<forall>j < length tokens. starts_with (tokens ! j) s \<longrightarrow>
      length (tokens ! j) < length (tokens ! i) \<or> length (tokens ! j) = length (tokens ! i) \<and> i \<le> j)"

fun greedy :: "string list \<Rightarrow> nat list \<Rightarrow> string \<Rightarrow> bool" where
  "greedy tokens [] s = (s = [])"
| "greedy tokens (i # is) s = (s \<noteq> [] \<and> best_match tokens s i \<and> greedy tokens is (drop (length (tokens ! i)) s))"

lemma best_match_unique: "best_match tokens s i \<Longrightarrow> best_match tokens s j \<Longrightarrow> i = j"
  unfolding best_match_def by (metis nat_less_le order.antisym)

lemma find_best:
  "find (\<lambda>i. starts_with (tokens ! i) s) (sort_by (longer_first tokens) [0..<length tokens]) = Some i \<longleftrightarrow>
   best_match tokens s i"
proof
  let ?o = "sort_by (longer_first tokens) [0..<length tokens]"
  let ?P = "\<lambda>i. starts_with (tokens ! i) s"
  have sound: "best_match tokens s j" if "find ?P ?o = Some j" for j
    using find_sorted [OF sorted_longer_first that] by (force simp: best_match_def longer_first_def)
  then show "find ?P ?o = Some i \<Longrightarrow> best_match tokens s i" .
  assume b: "best_match tokens s i"
  then have "find ?P ?o \<noteq> None" by (auto simp: find_None_iff best_match_def)
  then obtain j where "find ?P ?o = Some j" by blast
  then show "find ?P ?o = Some i" using sound best_match_unique [OF b] by blast
qed

lemma find_no_match:
  "find (\<lambda>i. starts_with (tokens ! i) s) (sort_by (longer_first tokens) [0..<length tokens]) = None \<longleftrightarrow>
   (\<forall>i < length tokens. \<not> starts_with (tokens ! i) s)"
  by (auto simp: find_None_iff)

text \<open>How far the greedy tokenization gets.\<close>

fun stuck_after :: "string list \<Rightarrow> nat list \<Rightarrow> string \<Rightarrow> string \<Rightarrow> bool" where
  "stuck_after tokens [] s rest = (s = rest \<and> s \<noteq> [] \<and> (\<forall>i < length tokens. \<not> starts_with (tokens ! i) s))"
| "stuck_after tokens (i # is) s rest =
    (s \<noteq> [] \<and> best_match tokens s i \<and> stuck_after tokens is (drop (length (tokens ! i)) s) rest)"

lemma starts_with_length: "starts_with p s \<Longrightarrow> length p \<le> length s"
  by (metis length_take min.absorb_iff2 min.commute starts_with_def)

definition text_of :: "string list \<Rightarrow> nat list \<Rightarrow> string" where
  "text_of tokens ids = concat (map ((!) tokens) ids)"

lemma best_match_split: "best_match tokens s i \<Longrightarrow> s = tokens ! i @ drop (length (tokens ! i)) s"
  by (metis append_take_drop_id best_match_def starts_with_def)

lemma greedy_text: "greedy tokens ids s \<Longrightarrow> s = text_of tokens ids \<and> (\<forall>i \<in> set ids. i < length tokens)"
proof (induction ids arbitrary: s)
  case (Cons i ids)
  then show ?case using best_match_split [of tokens s i] by (auto simp: text_of_def best_match_def)
qed (simp add: text_of_def)

lemma stuck_text: "stuck_after tokens ids s rest \<Longrightarrow> s = text_of tokens ids @ rest"
proof (induction ids arbitrary: s)
  case (Cons i ids)
  then show ?case using best_match_split [of tokens s i] by (auto simp: text_of_def)
qed (simp add: text_of_def)

lemma decode_list_all:
  "\<forall>i \<in> set ids. i < length tokens \<Longrightarrow> decode_list tokens ids out = Inr (out @ text_of tokens ids)"
  by (induction ids arbitrary: out) (simp_all add: text_of_def)

definition token_order :: "string list \<Rightarrow> nat list" where
  "token_order tokens = sort_by (longer_first tokens) [0..<length tokens]"

text \<open>With no empty token the loop ends, in the greedy tokenization or where it gets stuck.\<close>

lemma encode_loop_exact:
  assumes tokens: "[] \<notin> set tokens" "length tokens \<le> Suc u32_max"
  shows "\<exists>r. encode_loop tokens (token_order tokens) s off ids = Some r \<and>
    (case r of
       Inr out \<Rightarrow> \<exists>new. out = ids @ new \<and> greedy tokens new s
     | Inl e \<Rightarrow> \<exists>new rest. stuck_after tokens new s rest \<and>
         e = no_match (off + (length s - length rest)))"
proof (induction "length s" arbitrary: s off ids rule: less_induct)
  case less
  note loop = encode_loop.simps [of tokens "token_order tokens" s off ids]
  let ?f = "find (\<lambda>i. starts_with (tokens ! i) s) (token_order tokens)"
  show ?case
  proof (cases "s = []")
    case True
    then show ?thesis unfolding loop by (auto intro: exI [of _ "[]"])
  next
    case s: False
    show ?thesis
    proof (cases ?f)
      case None
      then have "stuck_after tokens [] s s" using s find_no_match [of tokens s] by (simp add: token_order_def)
      then show ?thesis unfolding loop using s None
        by (intro exI [of _ "Inl (no_match off)"])
          (auto intro!: exI [of _ "[]"] exI [of _ s])
    next
      case (Some i)
      then have b: "best_match tokens s i" by (simp add: token_order_def find_best)
      then have i: "i < length tokens" "i \<le> u32_max" using tokens(2) by (auto simp: best_match_def)
      let ?t = "tokens ! i"
      have "?t \<noteq> []" using i(1) tokens(1) nth_mem by metis
      then have t: "0 < length ?t" by simp
      have le: "length ?t \<le> length s" using b by (simp add: best_match_def starts_with_length)
      have "length (drop (length ?t) s) < length s" using t le unfolding length_drop by linarith
      from less [OF this, of "off + length ?t" "ids @ [i]"] obtain r where
        r: "encode_loop tokens (token_order tokens) (drop (length ?t) s) (off + length ?t) (ids @ [i]) = Some r"
          "case r of Inr out \<Rightarrow> \<exists>new. out = (ids @ [i]) @ new \<and> greedy tokens new (drop (length ?t) s)
           | Inl e \<Rightarrow> \<exists>new rest. stuck_after tokens new (drop (length ?t) s) rest \<and>
               e = no_match (off + length ?t + (length (drop (length ?t) s) - length rest))" by blast
      have "encode_loop tokens (token_order tokens) s off ids = Some r"
        unfolding loop using s Some i(2) r(1) by simp
      moreover have "case r of Inr out \<Rightarrow> \<exists>new. out = ids @ new \<and> greedy tokens new s
         | Inl e \<Rightarrow> \<exists>new rest. stuck_after tokens new s rest \<and>
             e = no_match (off + (length s - length rest))"
      proof (cases r)
        case (Inr out)
        then obtain new where "out = (ids @ [i]) @ new" "greedy tokens new (drop (length ?t) s)" using r(2) by auto
        then show ?thesis using Inr s b by (auto intro!: exI [of _ "i # new"])
      next
        case (Inl e)
        then obtain new rest where n: "stuck_after tokens new (drop (length ?t) s) rest"
            "e = no_match (off + length ?t + (length (drop (length ?t) s) - length rest))" using r(2) by auto
        have "length rest \<le> length (drop (length ?t) s)"
          using arg_cong [where f = length, OF stuck_text [OF n(1)]] by simp
        then have eq: "off + length ?t + (length (drop (length ?t) s) - length rest) = off + (length s - length rest)"
          using le by simp
        have "e = no_match (off + (length s - length rest))"
          using n(2) unfolding eq .
        moreover have "stuck_after tokens (i # new) s rest" using n(1) s b by simp
        ultimately have "stuck_after tokens (i # new) s rest \<and>
            e = no_match (off + (length s - length rest))" by blast
        then show ?thesis unfolding Inl sum.case by blast
      qed
      ultimately show ?thesis by blast
    qed
  qed
qed

lemma greedy_unique: "greedy tokens a s \<Longrightarrow> greedy tokens b s \<Longrightarrow> a = b"
proof (induction a arbitrary: b s)
  case Nil
  then show ?case by (cases b) auto
next
  case (Cons i a)
  then show ?case by (cases b) (auto dest: best_match_unique)
qed

lemma greedy_stuck: "greedy tokens a s \<Longrightarrow> \<not> stuck_after tokens b s rest"
proof (induction a arbitrary: b s)
  case Nil
  then show ?case by (cases b) auto
next
  case (Cons i a)
  show ?case
  proof (cases b)
    case Nil
    then show ?thesis using Cons.prems by (auto simp: best_match_def)
  next
    case b: (Cons j c)
    then show ?thesis using Cons best_match_unique [of tokens s i j] by auto
  qed
qed

definition list_tokenizer :: "'h micro_tokenizer \<Rightarrow> bool" where
  "list_tokenizer t \<longleftrightarrow> mt_hf t = None \<and> [] \<notin> set (mt_tokens t) \<and> length (mt_tokens t) \<le> Suc u32_max"

lemma encode_text_cases:
  assumes "list_tokenizer t"
  shows "\<exists>r. encode_text lib t s = Some r \<and>
    (case r of
       Inr ids \<Rightarrow> greedy (mt_tokens t) ids s
     | Inl e \<Rightarrow> \<exists>new rest. stuck_after (mt_tokens t) new s rest \<and>
         e = no_match (length s - length rest))"
proof -
  have t: "[] \<notin> set (mt_tokens t)" "length (mt_tokens t) \<le> Suc u32_max" "mt_hf t = None"
    using assms by (simp_all add: list_tokenizer_def)
  then have "encode_text lib t s = encode_loop (mt_tokens t) (token_order (mt_tokens t)) s 0 []"
    by (simp add: encode_text_def token_order_def)
  then show ?thesis using encode_loop_exact [OF t(1,2), of s 0 "[]"] by (auto split: sum.splits)
qed

lemma encode_text_exact:
  assumes "list_tokenizer t"
  shows "encode_text lib t s = Some (Inr ids) \<longleftrightarrow> greedy (mt_tokens t) ids s"
proof -
  obtain r where r: "encode_text lib t s = Some r"
      "case r of Inr ids \<Rightarrow> greedy (mt_tokens t) ids s
       | Inl e \<Rightarrow> \<exists>new rest. stuck_after (mt_tokens t) new s rest \<and>
         e = no_match (length s - length rest)"
    using encode_text_cases [OF assms, of lib s] by blast
  show ?thesis
  proof (cases r)
    case (Inl e)
    then show ?thesis using r greedy_stuck [of "mt_tokens t" ids s] by auto
  next
    case (Inr out)
    then show ?thesis using r greedy_unique [of "mt_tokens t" ids s out] by auto
  qed
qed

lemma decode_text_exact:
  assumes "list_tokenizer t" and "greedy (mt_tokens t) ids s"
  shows "decode_tokens lib t ids = Inr s"
  using greedy_text [OF assms(2)] assms(1) decode_list_all [of ids "mt_tokens t" "[]"]
  by (simp add: decode_tokens_def list_tokenizer_def)

lemma check_entries_ok: "check_entries seen ts = Inr () \<Longrightarrow> [] \<notin> set ts \<and> distinct ts \<and> set ts \<inter> set seen = {}"
  by (induction seen ts rule: check_entries.induct) (auto split: if_splits)

text \<open>What a parsed tokenizer is: a list tokenizer of the size of the vocabulary, or a wrapped one.\<close>

lemma parse_tokenizer_ok:
  assumes "parse_tokenizer lib bytes vocab = Inr t" and "vocab \<le> u32_max"
  shows "length (mt_tokens t) = vocab \<and> 0 < vocab \<and> (mt_hf t = None \<longrightarrow> list_tokenizer t \<and> distinct (mt_tokens t))"
proof -
  have hf: "length (mt_tokens t) = vocab \<and> 0 < vocab \<and> mt_hf t \<noteq> None" if "parse_huggingface lib v vocab = Inr t" for v
    using that unfolding parse_huggingface_def
    by (auto simp: res rmap_Inr split: json.splits if_splits option.splits sum.splits dest!: list_all2_lengthD)
  obtain input v where v: "from_utf8 bytes = Some input" "tokenizer_json input = Inr v"
    using assms(1) by (auto simp: parse_tokenizer_def res)
  show ?thesis
  proof (cases "json_get ''kind'' v = Some (JString hf_kind)")
    case True
    then show ?thesis using hf [of v] assms(1) v by (auto simp: parse_tokenizer_def res)
  next
    case False
    then show ?thesis using assms v
      by (auto simp: parse_tokenizer_def res list_tokenizer_def split: if_splits dest!: check_entries_ok)
  qed
qed

end
