(* ===== verification/Model_Contracts.thy ===== *)
theory Model_Contracts
  imports Nested_Documents
begin

text \<open>
  The model contracts of \<open>crates/infer-contracts/src/contracts/model.rs\<close>: architecture, tensors, license,
  sources, requirements, placement hints, the model image and the artifact set, and the roots a runtime is
  identified by. SHA-256 is an argument of the checks of embedded artifacts.
\<close>

definition model_image_kind :: string where "model_image_kind = ''knolo.infer.model-image''"
definition model_artifact_kind :: string where "model_artifact_kind = ''knolo.infer.model-artifact-set''"

subsection \<open>Architecture\<close>

record architecture_ref =
  ar_family :: string
  ar_adapter :: string

definition architecture_ref_validate :: "architecture_ref \<Rightarrow> unit res" where
  "architecture_ref_validate s =
    rbind (bounded_text ''family'' (ar_family s) 128) (\<lambda>_.
    rbind (bounded_text ''adapter'' (ar_adapter s) 128) (\<lambda>_.
    if strip_prefix ''knolo.'' (ar_adapter s) = None
        \<or> \<not> list_all (\<lambda>c. is_ascii_lowercase c \<or> is_ascii_digit c \<or> c = CHR ''.'') (ar_adapter s)
    then Inl (fail UnsupportedArchitecture ''adapter id must be a knolo.* identifier'')
    else Inr ()))"

definition architecture_ref_to_cbor :: "architecture_ref \<Rightarrow> cbor_value res" where
  "architecture_ref_to_cbor s =
    rbind (architecture_ref_validate s) (\<lambda>_.
    let b = builder_bare;
        b = put ''adapter'' (cbor_text (ar_adapter s)) b;
        b = put ''family'' (cbor_text (ar_family s)) b
    in Inr (builder_finish b))"

definition architecture_ref_fields :: "(fields, architecture_ref) op" where
  "architecture_ref_fields =
    op_bind (fields_text ''adapter'') (\<lambda>adapter.
    op_bind (fields_text ''family'') (\<lambda>family.
    op_return \<lparr>ar_family = family, ar_adapter = adapter\<rparr>))"

definition architecture_ref_from_cbor :: "cbor_value \<Rightarrow> architecture_ref res" where
  "architecture_ref_from_cbor = read_document architecture_ref_fields architecture_ref_validate"

lemma architecture_ref_iff:
  assumes "cbor_sorted v"
  shows "architecture_ref_from_cbor v = Inr x \<longleftrightarrow> architecture_ref_to_cbor x = Inr v"
proof (cases v)
  case (CMap es)
  let ?K = "{''adapter'', ''family''}"
  show ?thesis
    using assms unfolding CMap architecture_ref_from_cbor_def architecture_ref_to_cbor_def
    by (cases x) (simp add: read_document_ok res Let_def architecture_ref_fields_def
        builder_finish_eq [where K = ?K], auto simp: contract_ac)
qed (auto simp: architecture_ref_from_cbor_def read_document_not_map architecture_ref_to_cbor_def
   builder_finish_def res Let_def)

interpretation architecture_ref: document "\<lambda>_. True" architecture_ref_to_cbor architecture_ref_from_cbor
  by unfold_locales (simp add: architecture_ref_iff)

subsection \<open>Tensors\<close>

record tensor_spec =
  te_name :: string
  te_shape :: "nat list"
  te_dtype :: string

fun checked_product :: "nat \<Rightarrow> nat list \<Rightarrow> nat option" where
  "checked_product p [] = Some p"
| "checked_product p (d # ds) = (if p * d \<le> u64_max then checked_product (p * d) ds else None)"

definition tensor_spec_validate :: "tensor_spec \<Rightarrow> unit res" where
  "tensor_spec_validate s =
    (if te_name s = [] \<or> length (te_name s) > 256 \<or> contains_str ''..'' (te_name s)
        \<or> CHR ''/'' \<in> set (te_name s) \<or> CHR 0x5C \<in> set (te_name s)
        \<or> \<not> list_all (\<lambda>c. is_ascii_alphanumeric c \<or> c = CHR ''.'' \<or> c = CHR ''_'' \<or> c = CHR ''-'') (te_name s)
     then Inl (contract_fail ''tensor name is invalid'')
     else
     rbind (one_of ''dtype'' (te_dtype s) precisions) (\<lambda>_.
     if te_shape s = [] \<or> length (te_shape s) > 8 \<or> 0 \<in> set (te_shape s)
     then Inl (contract_fail ''tensor shape is invalid'')
     else rbind (ok_or (checked_product 1 (te_shape s)) ContractInvalid ''tensor shape overflows'') (\<lambda>_. Inr ())))"

definition tensor_spec_to_cbor :: "tensor_spec \<Rightarrow> cbor_value res" where
  "tensor_spec_to_cbor s =
    rbind (tensor_spec_validate s) (\<lambda>_.
    let b = builder_bare;
        b = put ''dtype'' (cbor_text (te_dtype s)) b;
        b = put ''name'' (cbor_text (te_name s)) b;
        b = put ''shape'' (CArray (map cbor_u32 (te_shape s))) b
    in Inr (builder_finish b))"

definition tensor_spec_fields :: "(fields, tensor_spec) op" where
  "tensor_spec_fields =
    op_bind (fields_array ''shape'') (\<lambda>shape.
    op_bind (op_lift (u32_array shape ''shape'')) (\<lambda>shape.
    op_bind (fields_text ''dtype'') (\<lambda>dtype.
    op_bind (fields_text ''name'') (\<lambda>name.
    op_return \<lparr>te_name = name, te_shape = shape, te_dtype = dtype\<rparr>))))"

definition tensor_spec_from_cbor :: "cbor_value \<Rightarrow> tensor_spec res" where
  "tensor_spec_from_cbor = read_document tensor_spec_fields tensor_spec_validate"

definition tensor_spec_typed :: "tensor_spec \<Rightarrow> bool" where
  "tensor_spec_typed s \<longleftrightarrow> list_all (\<lambda>n. n \<le> u32_max) (te_shape s)"

lemma tensor_spec_iff:
  assumes "cbor_sorted v"
  shows "tensor_spec_from_cbor v = Inr x \<longleftrightarrow> tensor_spec_typed x \<and> tensor_spec_to_cbor x = Inr v"
proof (cases v)
  case (CMap es)
  let ?K = "{''dtype'', ''name'', ''shape''}"
  show ?thesis
    using assms unfolding CMap tensor_spec_from_cbor_def tensor_spec_to_cbor_def
    by (cases x) (simp add: read_document_ok res Let_def tensor_spec_fields_def
        tensor_spec_typed_def builder_finish_eq [where K = ?K], auto simp: contract_ac)
qed (auto simp: tensor_spec_from_cbor_def read_document_not_map tensor_spec_to_cbor_def
   builder_finish_def res Let_def)

interpretation tensor_spec: document tensor_spec_typed tensor_spec_to_cbor tensor_spec_from_cbor
  by unfold_locales (simp add: tensor_spec_iff)

subsection \<open>License, sources, requirements, placement\<close>

record license =
  lic_id :: string
  lic_acceptance_required :: bool

definition license_to_cbor :: "license \<Rightarrow> cbor_value res" where
  "license_to_cbor s =
    rbind (bounded_text ''license'' (lic_id s) 128) (\<lambda>_.
    let b = builder_bare;
        b = put ''acceptanceRequired'' (CBool (lic_acceptance_required s)) b;
        b = put ''id'' (cbor_text (lic_id s)) b
    in Inr (builder_finish b))"

definition license_fields :: "(fields, license) op" where
  "license_fields =
    op_bind (fields_bool ''acceptanceRequired'') (\<lambda>required.
    op_bind (fields_text ''id'') (\<lambda>n.
    op_return \<lparr>lic_id = n, lic_acceptance_required = required\<rparr>))"

definition license_from_cbor :: "cbor_value \<Rightarrow> license res" where
  "license_from_cbor = read_document license_fields (\<lambda>s. bounded_text ''license'' (lic_id s) 128)"

lemma license_iff:
  assumes "cbor_sorted v"
  shows "license_from_cbor v = Inr x \<longleftrightarrow> license_to_cbor x = Inr v"
proof (cases v)
  case (CMap es)
  let ?K = "{''acceptanceRequired'', ''id''}"
  show ?thesis
    using assms unfolding CMap license_from_cbor_def license_to_cbor_def
    by (cases x) (simp add: read_document_ok res Let_def license_fields_def
        builder_finish_eq [where K = ?K], auto simp: contract_ac)
qed (auto simp: license_from_cbor_def read_document_not_map license_to_cbor_def
   builder_finish_def res Let_def)

interpretation license: document "\<lambda>_. True" license_to_cbor license_from_cbor
  by unfold_locales (simp add: license_iff)

record source_hint =
  so_provider :: string
  so_repository :: string
  so_revision :: string

definition source_hint_validate :: "source_hint \<Rightarrow> unit res" where
  "source_hint_validate s =
    rbind (bounded_text ''provider'' (so_provider s) 64) (\<lambda>_.
    rbind (bounded_text ''repository'' (so_repository s) 256) (\<lambda>_.
    rbind (bounded_text ''revision'' (so_revision s) 128) (\<lambda>_. Inr ())))"

definition source_hint_to_cbor :: "source_hint \<Rightarrow> cbor_value res" where
  "source_hint_to_cbor s =
    rbind (source_hint_validate s) (\<lambda>_.
    let b = builder_bare;
        b = put ''provider'' (cbor_text (so_provider s)) b;
        b = put ''repository'' (cbor_text (so_repository s)) b;
        b = put ''revision'' (cbor_text (so_revision s)) b
    in Inr (builder_finish b))"

definition source_hint_fields :: "(fields, source_hint) op" where
  "source_hint_fields =
    op_bind (fields_text ''provider'') (\<lambda>provider.
    op_bind (fields_text ''repository'') (\<lambda>repository.
    op_bind (fields_text ''revision'') (\<lambda>revision.
    op_return \<lparr>so_provider = provider, so_repository = repository, so_revision = revision\<rparr>)))"

definition source_hint_from_cbor :: "cbor_value \<Rightarrow> source_hint res" where
  "source_hint_from_cbor = read_document source_hint_fields source_hint_validate"

lemma source_hint_iff:
  assumes "cbor_sorted v"
  shows "source_hint_from_cbor v = Inr x \<longleftrightarrow> source_hint_to_cbor x = Inr v"
proof (cases v)
  case (CMap es)
  let ?K = "{''provider'', ''repository'', ''revision''}"
  show ?thesis
    using assms unfolding CMap source_hint_from_cbor_def source_hint_to_cbor_def
    by (cases x) (simp add: read_document_ok res Let_def source_hint_fields_def
        builder_finish_eq [where K = ?K], auto simp: contract_ac)
qed (auto simp: source_hint_from_cbor_def read_document_not_map source_hint_to_cbor_def
   builder_finish_def res Let_def)

interpretation source_hint: document "\<lambda>_. True" source_hint_to_cbor source_hint_from_cbor
  by unfold_locales (simp add: source_hint_iff)

record resource_requirements =
  rr_minimum_ram_bytes :: nat
  rr_minimum_vram_bytes :: nat

definition resource_requirements_to_cbor :: "resource_requirements \<Rightarrow> cbor_value" where
  "resource_requirements_to_cbor s =
    (let b = builder_bare;
         b = put ''minimumRamBytes'' (cbor_u64 (rr_minimum_ram_bytes s)) b;
         b = put ''minimumVramBytes'' (cbor_u64 (rr_minimum_vram_bytes s)) b
     in builder_finish b)"

definition resource_requirements_fields :: "(fields, resource_requirements) op" where
  "resource_requirements_fields =
    op_bind (fields_u64 ''minimumRamBytes'') (\<lambda>ram.
    op_bind (fields_u64 ''minimumVramBytes'') (\<lambda>vram.
    op_return \<lparr>rr_minimum_ram_bytes = ram, rr_minimum_vram_bytes = vram\<rparr>))"

definition resource_requirements_from_cbor :: "cbor_value \<Rightarrow> resource_requirements res" where
  "resource_requirements_from_cbor = read_document resource_requirements_fields (\<lambda>_. Inr ())"

definition resource_requirements_typed :: "resource_requirements \<Rightarrow> bool" where
  "resource_requirements_typed s \<longleftrightarrow> rr_minimum_ram_bytes s \<le> u64_max \<and> rr_minimum_vram_bytes s \<le> u64_max"

lemma resource_requirements_iff:
  assumes "cbor_sorted v"
  shows "resource_requirements_from_cbor v = Inr x \<longleftrightarrow>
    resource_requirements_typed x \<and> resource_requirements_to_cbor x = v"
proof (cases v)
  case (CMap es)
  let ?K = "{''minimumRamBytes'', ''minimumVramBytes''}"
  show ?thesis
    using assms unfolding CMap resource_requirements_from_cbor_def resource_requirements_to_cbor_def
    by (cases x) (simp add: read_document_ok res Let_def resource_requirements_fields_def
        resource_requirements_typed_def builder_finish_eq [where K = ?K], auto simp: contract_ac)
qed (auto simp: resource_requirements_from_cbor_def read_document_not_map resource_requirements_to_cbor_def
   builder_finish_def res Let_def)

interpretation resource_requirements: document resource_requirements_typed
  "\<lambda>x. Inr (resource_requirements_to_cbor x)" resource_requirements_from_cbor
  by unfold_locales (simp add: resource_requirements_iff)

record placement_hints =
  ph_profile :: "string option"
  ph_prefer_device :: "string option"

definition placement_hints_validate :: "placement_hints \<Rightarrow> unit res" where
  "placement_hints_validate s =
    (if ph_profile s = None \<and> ph_prefer_device s = None
     then Inl (contract_fail ''placement hints are empty'')
     else
     rbind (opt_res (\<lambda>profile. bounded_text ''profile'' profile 64) (ph_profile s)) (\<lambda>_.
     rbind (opt_res device_id (ph_prefer_device s)) (\<lambda>_. Inr ())))"

definition placement_hints_to_cbor :: "placement_hints \<Rightarrow> cbor_value res" where
  "placement_hints_to_cbor s =
    rbind (placement_hints_validate s) (\<lambda>_.
    let b = builder_bare;
        b = put_opt ''preferDevice'' (map_option cbor_text (ph_prefer_device s)) b;
        b = put_opt ''profile'' (map_option cbor_text (ph_profile s)) b
    in Inr (builder_finish b))"

definition placement_hints_fields :: "(fields, placement_hints) op" where
  "placement_hints_fields =
    op_bind (fields_opt_text ''preferDevice'') (\<lambda>device.
    op_bind (fields_opt_text ''profile'') (\<lambda>profile.
    op_return \<lparr>ph_profile = profile, ph_prefer_device = device\<rparr>))"

definition placement_hints_from_cbor :: "cbor_value \<Rightarrow> placement_hints res" where
  "placement_hints_from_cbor = read_document placement_hints_fields placement_hints_validate"

lemma placement_hints_iff:
  assumes "cbor_sorted v"
  shows "placement_hints_from_cbor v = Inr x \<longleftrightarrow> placement_hints_to_cbor x = Inr v"
proof (cases v)
  case (CMap es)
  let ?K = "{''preferDevice'', ''profile''}"
  show ?thesis
    using assms unfolding CMap placement_hints_from_cbor_def placement_hints_to_cbor_def
    by (cases x) (simp add: read_document_ok res Let_def placement_hints_fields_def
        builder_finish_eq [where K = ?K], auto simp: contract_ac)
qed (auto simp: placement_hints_from_cbor_def read_document_not_map placement_hints_to_cbor_def
   builder_finish_def res Let_def)

interpretation placement_hints: document "\<lambda>_. True" placement_hints_to_cbor placement_hints_from_cbor
  by unfold_locales (simp add: placement_hints_iff)

subsection \<open>Model image\<close>

record model_image =
  mi_name :: string
  mi_variant :: string
  mi_architecture :: architecture_ref
  mi_format :: string
  mi_files :: "artifact_file list"
  mi_tokenizer :: embedded_artifact
  mi_template :: embedded_artifact
  mi_special_tokens :: special_tokens
  mi_generation_defaults :: fixed_point_sampler
  mi_capabilities :: "string list"
  mi_license :: license
  mi_sources :: "source_hint list"
  mi_tensor_inventory :: "tensor_spec list"
  mi_precisions :: "string list"
  mi_requirements :: resource_requirements
  mi_placement_hints :: "placement_hints option"
  mi_extensions :: "(string, cbor_value) btree"
  mi_signatures :: "signature list"

definition model_image_validate :: "(u8 list \<Rightarrow> u8 list) \<Rightarrow> model_image \<Rightarrow> unit res" where
  "model_image_validate sha256 s =
    rbind (bounded_text ''name'' (mi_name s) 256) (\<lambda>_.
    rbind (bounded_text ''variant'' (mi_variant s) 128) (\<lambda>_.
    rbind (architecture_ref_validate (mi_architecture s)) (\<lambda>_.
    rbind (one_of ''format'' (mi_format s) [''gguf'', ''safetensors'']) (\<lambda>_.
    rbind (validate_files (mi_files s)) (\<lambda>_.
    rbind (embedded_artifact_validate sha256 ''infer-tokenizer'' TokenizerInvalid (mi_tokenizer s)) (\<lambda>_.
    rbind (embedded_artifact_validate sha256 ''infer-template'' TemplateInvalid (mi_template s)) (\<lambda>_.
    rbind (special_tokens_validate (mi_special_tokens s)) (\<lambda>_.
    rbind (fixed_point_sampler_validate (mi_generation_defaults s)) (\<lambda>_.
    if mi_capabilities s = [] \<or> length (mi_capabilities s) > 32
    then Inl (contract_fail ''capabilities are empty or too large'')
    else
    rbind (sorted_unique ''capabilities'' (mi_capabilities s)) (\<lambda>_.
    rbind (rmap (\<lambda>c. bounded_text ''capabilities'' c 64) (mi_capabilities s)) (\<lambda>_.
    if length (mi_sources s) > 16 then Inl (contract_fail ''too many sources'')
    else
    rbind (rmap source_hint_validate (mi_sources s)) (\<lambda>_.
    if mi_tensor_inventory s = [] \<or> length (mi_tensor_inventory s) > 100000
    then Inl (contract_fail ''tensor inventory is empty or too large'')
    else
    rbind (sorted_unique ''tensorInventory'' (map te_name (mi_tensor_inventory s))) (\<lambda>_.
    rbind (rmap tensor_spec_validate (mi_tensor_inventory s)) (\<lambda>_.
    if mi_precisions s = [] then Inl (contract_fail ''precisions are empty'')
    else
    rbind (require_sorted_precisions (mi_precisions s) precisions) (\<lambda>_.
    rbind (opt_res placement_hints_validate (mi_placement_hints s)) (\<lambda>_.
    if length (mi_signatures s) > 8 then Inl (contract_fail ''too many signatures'')
    else
    rbind (rmap signature_validate (mi_signatures s)) (\<lambda>_. Inr ())))))))))))))))))"

text \<open>The nested map of the weights: the format and the files.\<close>

definition weights_to_cbor :: "string \<Rightarrow> cbor_value \<Rightarrow> cbor_value" where
  "weights_to_cbor format files =
    (let b = builder_bare;
         b = put ''files'' files b;
         b = put ''format'' (cbor_text format) b
     in builder_finish b)"

definition model_image_to_cbor :: "(u8 list \<Rightarrow> u8 list) \<Rightarrow> model_image \<Rightarrow> cbor_value res" where
  "model_image_to_cbor sha256 s =
    rbind (model_image_validate sha256 s) (\<lambda>_.
    rbind (artifact_files_cbor (mi_files s)) (\<lambda>files.
    let weights = weights_to_cbor (mi_format s) files
    in
    rbind (rmap tensor_spec_to_cbor (mi_tensor_inventory s)) (\<lambda>tensors.
    rbind (rmap source_hint_to_cbor (mi_sources s)) (\<lambda>sources.
    let b = builder_typed model_image_kind
    in
    rbind (architecture_ref_to_cbor (mi_architecture s)) (\<lambda>architecture.
    let b = put ''architecture'' architecture b;
        b = put ''capabilities'' (string_field_array (mi_capabilities s)) b
    in
    rbind (put_extensions (mi_extensions s) b) (\<lambda>b.
    rbind (fixed_point_sampler_to_cbor (mi_generation_defaults s)) (\<lambda>defaults.
    let b = put ''generationDefaults'' defaults b
    in
    rbind (license_to_cbor (mi_license s)) (\<lambda>lic.
    let b = put ''license'' lic b;
        b = put ''name'' (cbor_text (mi_name s)) b
    in
    rbind (opt_res placement_hints_to_cbor (mi_placement_hints s)) (\<lambda>hints.
    let b = put_opt ''placementHints'' hints b;
        b = put ''precisions'' (string_field_array (mi_precisions s)) b;
        b = put ''requirements'' (resource_requirements_to_cbor (mi_requirements s)) b
    in
    rbind (signatures_to_cbor (mi_signatures s)) (\<lambda>signatures.
    let b = put ''signatures'' signatures b;
        b = put ''sources'' (CArray sources) b
    in
    rbind (special_tokens_to_cbor (mi_special_tokens s)) (\<lambda>special.
    let b = put ''specialTokens'' special b;
        b = put ''template'' (embedded_artifact_to_cbor (mi_template s)) b;
        b = put ''tensorInventory'' (CArray tensors) b;
        b = put ''tokenizer'' (embedded_artifact_to_cbor (mi_tokenizer s)) b;
        b = put ''variant'' (cbor_text (mi_variant s)) b;
        b = put ''weights'' weights b
    in Inr (builder_finish b))))))))))))"

definition weights_fields :: "(fields, string \<times> cbor_value list) op" where
  "weights_fields =
    op_bind (fields_text ''format'') (\<lambda>format.
    op_bind (fields_array ''files'') (\<lambda>files. op_return (format, files)))"

definition weights_from_cbor :: "cbor_value \<Rightarrow> (string \<times> artifact_file list) res" where
  "weights_from_cbor v =
    rbind (read_document weights_fields (\<lambda>_. Inr ()) v) (\<lambda>(format, files).
    rbind (rmap artifact_file_from_cbor files) (\<lambda>files. Inr (format, files)))"

definition signatures_field :: "(fields, signature list) op" where
  "signatures_field = op_bind (fields_array ''signatures'') (\<lambda>items. op_lift (signatures_from_cbor items))"

definition model_image_fields :: "(fields, model_image) op" where
  "model_image_fields =
    op_bind (expect_kind_version model_image_kind) (\<lambda>_.
    op_bind (fields_read ''weights'' weights_from_cbor) (\<lambda>(format, files).
    op_bind (fields_documents ''tensorInventory'' tensor_spec_from_cbor) (\<lambda>tensors.
    op_bind (fields_documents ''sources'' source_hint_from_cbor) (\<lambda>sources.
    op_bind (fields_array ''capabilities'') (\<lambda>capabilities.
    op_bind (op_lift (text_array capabilities ''capabilities'')) (\<lambda>capabilities.
    op_bind (fields_array ''precisions'') (\<lambda>precs.
    op_bind (op_lift (text_array precs ''precisions'')) (\<lambda>precs.
    op_bind (fields_read ''architecture'' architecture_ref_from_cbor) (\<lambda>architecture.
    op_bind fields_extensions (\<lambda>extensions.
    op_bind (fields_read ''generationDefaults'' fixed_point_sampler_from_cbor) (\<lambda>defaults.
    op_bind (fields_read ''license'' license_from_cbor) (\<lambda>lic.
    op_bind (fields_text ''name'') (\<lambda>name.
    op_bind (fields_read_opt ''placementHints'' placement_hints_from_cbor) (\<lambda>hints.
    op_bind (fields_read ''requirements'' resource_requirements_from_cbor) (\<lambda>requirements.
    op_bind signatures_field (\<lambda>signatures.
    op_bind (fields_read ''specialTokens'' special_tokens_from_cbor) (\<lambda>special.
    op_bind (fields_read ''template'' embedded_artifact_from_cbor) (\<lambda>template.
    op_bind (fields_read ''tokenizer'' embedded_artifact_from_cbor) (\<lambda>tokenizer.
    op_bind (fields_text ''variant'') (\<lambda>variant.
    op_return
      \<lparr>mi_name = name, mi_variant = variant, mi_architecture = architecture, mi_format = format,
       mi_files = files, mi_tokenizer = tokenizer, mi_template = template, mi_special_tokens = special,
       mi_generation_defaults = defaults, mi_capabilities = capabilities, mi_license = lic,
       mi_sources = sources, mi_tensor_inventory = tensors, mi_precisions = precs,
       mi_requirements = requirements, mi_placement_hints = hints, mi_extensions = extensions,
       mi_signatures = signatures\<rparr>))))))))))))))))))))"

definition model_image_from_cbor :: "(u8 list \<Rightarrow> u8 list) \<Rightarrow> cbor_value \<Rightarrow> model_image res" where
  "model_image_from_cbor sha256 = read_document model_image_fields (model_image_validate sha256)"

definition model_image_to_bytes :: "(u8 list \<Rightarrow> u8 list) \<Rightarrow> model_image \<Rightarrow> u8 list res" where
  "model_image_to_bytes sha256 s = rbind (model_image_to_cbor sha256 s) (\<lambda>v. Inr (to_bytes v))"

definition model_image_typed :: "model_image \<Rightarrow> bool" where
  "model_image_typed s \<longleftrightarrow>
    list_all artifact_file_typed (mi_files s) \<and> digest_ok (emb_root (mi_tokenizer s)) \<and>
    digest_ok (emb_root (mi_template s)) \<and> special_tokens_typed (mi_special_tokens s) \<and>
    list_all tensor_spec_typed (mi_tensor_inventory s) \<and> resource_requirements_typed (mi_requirements s)"

subsection \<open>Roots\<close>

definition content_cbor :: "(u8 list \<Rightarrow> u8 list) \<Rightarrow> model_image \<Rightarrow> cbor_value res" where
  "content_cbor sha256 s =
    rbind (model_image_to_cbor sha256 s) (\<lambda>v.
    case v of
      CMap es \<Rightarrow> Inr (CMap (filter (\<lambda>(key, _). key \<noteq> ''signatures'') es))
    | _ \<Rightarrow> Inl (contract_fail ''model image must be a map''))"

definition image_root :: "(u8 list \<Rightarrow> u8 list) \<Rightarrow> model_image \<Rightarrow> digest_hex res" where
  "image_root sha256 s = rbind (content_cbor sha256 s) (digest_value sha256 ''infer-model-image'')"

definition image_artifact_root :: "(u8 list \<Rightarrow> u8 list) \<Rightarrow> model_image \<Rightarrow> digest_hex res" where
  "image_artifact_root sha256 s = artifact_root sha256 (mi_files s)"

definition config_cbor :: "(u8 list \<Rightarrow> u8 list) \<Rightarrow> model_image \<Rightarrow> cbor_value res" where
  "config_cbor sha256 s =
    rbind (model_image_validate sha256 s) (\<lambda>_.
    rbind (architecture_ref_to_cbor (mi_architecture s)) (\<lambda>architecture.
    let b = put ''architecture'' architecture builder_bare;
        b = put ''capabilities'' (string_field_array (mi_capabilities s)) b
    in
    rbind (fixed_point_sampler_to_cbor (mi_generation_defaults s)) (\<lambda>defaults.
    let b = put ''generationDefaults'' defaults b;
        b = put ''precisions'' (string_field_array (mi_precisions s)) b;
        b = put ''requirements'' (resource_requirements_to_cbor (mi_requirements s)) b
    in
    rbind (special_tokens_to_cbor (mi_special_tokens s)) (\<lambda>special.
    Inr (builder_finish (put ''specialTokens'' special b))))))"

definition config_root :: "(u8 list \<Rightarrow> u8 list) \<Rightarrow> model_image \<Rightarrow> digest_hex res" where
  "config_root sha256 s = rbind (config_cbor sha256 s) (digest_value sha256 ''infer-config'')"

definition architecture_adapter_root :: "(u8 list \<Rightarrow> u8 list) \<Rightarrow> model_image \<Rightarrow> digest_hex res" where
  "architecture_adapter_root sha256 s =
    rbind (architecture_ref_validate (mi_architecture s)) (\<lambda>_.
    digest_value sha256 ''infer-config''
      (builder_finish (put ''adapter'' (cbor_text (ar_adapter (mi_architecture s))) builder_bare)))"

definition image_special_tokens_root :: "(u8 list \<Rightarrow> u8 list) \<Rightarrow> model_image \<Rightarrow> digest_hex res" where
  "image_special_tokens_root sha256 s =
    rbind (special_tokens_to_cbor (mi_special_tokens s)) (digest_value sha256 ''infer-special-tokens'')"

definition runtime_root :: "(u8 list \<Rightarrow> u8 list) \<Rightarrow> model_image \<Rightarrow> digest_hex res" where
  "runtime_root sha256 s =
    rbind (architecture_adapter_root sha256 s) (\<lambda>adapter.
    rbind (image_artifact_root sha256 s) (\<lambda>artifact.
    rbind (config_root sha256 s) (\<lambda>config.
    rbind (image_root sha256 s) (\<lambda>image.
    let b = builder_bare;
        b = put ''architectureAdapterRoot'' (cbor_text (digest_as_str adapter)) b;
        b = put ''artifactRoot'' (cbor_text (digest_as_str artifact)) b;
        b = put ''configRoot'' (cbor_text (digest_as_str config)) b;
        b = put ''modelImageRoot'' (cbor_text (digest_as_str image)) b;
        b = put ''templateRoot'' (cbor_text (digest_as_str (emb_root (mi_template s)))) b;
        b = put ''tokenizerRoot'' (cbor_text (digest_as_str (emb_root (mi_tokenizer s)))) b
    in digest_value sha256 ''infer-model-runtime'' (builder_finish b)))))"

subsection \<open>Artifact set\<close>

record model_artifact_set =
  ma_files :: "artifact_file list"
  ma_extensions :: "(string, cbor_value) btree"

definition model_artifact_set_to_cbor :: "model_artifact_set \<Rightarrow> cbor_value res" where
  "model_artifact_set_to_cbor s =
    rbind (validate_files (ma_files s)) (\<lambda>_.
    rbind (put_extensions (ma_extensions s) (builder_typed model_artifact_kind)) (\<lambda>b.
    rbind (artifact_files_cbor (ma_files s)) (\<lambda>files.
    Inr (builder_finish (put ''files'' files b)))))"

definition model_artifact_set_fields :: "(fields, model_artifact_set) op" where
  "model_artifact_set_fields =
    op_bind (expect_kind_version model_artifact_kind) (\<lambda>_.
    op_bind (fields_documents ''files'' artifact_file_from_cbor) (\<lambda>files.
    op_bind fields_extensions (\<lambda>extensions.
    op_return \<lparr>ma_files = files, ma_extensions = extensions\<rparr>)))"

definition model_artifact_set_from_cbor :: "cbor_value \<Rightarrow> model_artifact_set res" where
  "model_artifact_set_from_cbor = read_document model_artifact_set_fields (\<lambda>s. validate_files (ma_files s))"

definition model_artifact_set_to_bytes :: "model_artifact_set \<Rightarrow> u8 list res" where
  "model_artifact_set_to_bytes s = rbind (model_artifact_set_to_cbor s) (\<lambda>v. Inr (to_bytes v))"

definition model_artifact_set_typed :: "model_artifact_set \<Rightarrow> bool" where
  "model_artifact_set_typed s \<longleftrightarrow> list_all artifact_file_typed (ma_files s)"

subsection \<open>Reading and writing agree\<close>

lemma validated_parts:
  "architecture_ref_validate a = Inr () \<Longrightarrow> \<exists>v. architecture_ref_to_cbor a = Inr v"
  "artifact_file_validate f = Inr () \<Longrightarrow> \<exists>v. artifact_file_to_cbor f = Inr v"
  "tensor_spec_validate te = Inr () \<Longrightarrow> \<exists>v. tensor_spec_to_cbor te = Inr v"
  "source_hint_validate so = Inr () \<Longrightarrow> \<exists>v. source_hint_to_cbor so = Inr v"
  "placement_hints_validate ph = Inr () \<Longrightarrow> \<exists>v. placement_hints_to_cbor ph = Inr v"
  "signature_validate sg = Inr () \<Longrightarrow> \<exists>v. signature_to_cbor sg = Inr v"
  "fixed_point_sampler_validate fp = Inr () \<Longrightarrow> \<exists>v. fixed_point_sampler_to_cbor fp = Inr v"
  "special_tokens_validate st = Inr () \<Longrightarrow> \<exists>v. special_tokens_to_cbor st = Inr v"
  by (simp_all add: architecture_ref_to_cbor_def artifact_file_to_cbor_def tensor_spec_to_cbor_def
      source_hint_to_cbor_def placement_hints_to_cbor_def signature_to_cbor_def fixed_point_sampler_to_cbor_def
      special_tokens_to_cbor_def Let_def res)

lemma rmap_validated:
  assumes "rmap validate xs = Inr us" and "\<And>x. validate x = Inr () \<Longrightarrow> \<exists>v. write x = Inr v"
  shows "\<exists>vs. rmap write xs = Inr vs"
  using assms(1)
proof (induction xs arbitrary: us)
  case (Cons x xs)
  then have x: "validate x = Inr ()" and "\<exists>us. rmap validate xs = Inr us" by (auto simp: res)
  then obtain vs where "rmap write xs = Inr vs" using Cons.IH by blast
  moreover obtain v where "write x = Inr v" using assms(2) [OF x] by blast
  ultimately show ?case by (simp add: res)
qed simp

lemma opt_validated:
  "opt_res validate x = Inr us \<Longrightarrow> (\<And>x. validate x = Inr () \<Longrightarrow> \<exists>v. write x = Inr v) \<Longrightarrow> \<exists>v. opt_res write x = Inr v"
  by (cases x) (auto simp: res)

lemma read_weights:
  assumes "cbor_sorted v"
  shows "weights_from_cbor v = Inr x \<longleftrightarrow> (case x of (format, files) \<Rightarrow> list_all artifact_file_typed files) \<and>
    (case x of (format, files) \<Rightarrow> rbind (rmap artifact_file_to_cbor files) (\<lambda>vs. Inr (weights_to_cbor format (CArray vs)))) = Inr v"
proof -
  have raw: "read_document weights_fields (\<lambda>_. Inr ()) v = Inr (format, vs) \<longleftrightarrow> v = weights_to_cbor format (CArray vs)"
    for format vs
  proof (cases v)
    case (CMap es)
    let ?K = "{''files'', ''format''}"
    show ?thesis
      using assms unfolding CMap weights_to_cbor_def
      by (subst eq_commute [of "CMap es"])
        (simp add: read_document_ok res Let_def weights_fields_def builder_finish_eq [where K = ?K], auto simp: contract_ac)
  qed (auto simp: read_document_not_map weights_to_cbor_def builder_finish_def Let_def)
  have items: "\<forall>u \<in> set vs. cbor_sorted u" if "v = weights_to_cbor format (CArray vs)" for format vs
    using assms unfolding that weights_to_cbor_def
    by (simp add: builder_finish_def builder_bare_def put_def Let_def)
  obtain format files where x: "x = (format, files)" by (cases x)
  have "weights_from_cbor v = Inr x \<longleftrightarrow>
      (\<exists>vs. v = weights_to_cbor format (CArray vs) \<and> rmap artifact_file_from_cbor vs = Inr files)"
    unfolding weights_from_cbor_def x by (auto simp: res raw)
  also have "\<dots> \<longleftrightarrow> (\<exists>vs. v = weights_to_cbor format (CArray vs) \<and>
      list_all artifact_file_typed files \<and> rmap artifact_file_to_cbor files = Inr vs)"
    using items artifact_file.read_all by blast
  finally show ?thesis by (auto simp: x res)
qed

interpretation weights: document "\<lambda>(format, files). list_all artifact_file_typed files"
  "\<lambda>(format, files). rbind (rmap artifact_file_to_cbor files) (\<lambda>vs. Inr (weights_to_cbor format (CArray vs)))"
  weights_from_cbor
  by unfold_locales (rule read_weights)

lemma signatures_field_ok [res]:
  assumes "fields_sorted f"
  shows "signatures_field f = (Inr xs, g) \<longleftrightarrow> length xs \<le> 8 \<and>
    (\<exists>vs. rmap signature_to_cbor xs = Inr vs \<and> bt_get (f_map f) ''signatures'' = Some (CArray vs)) \<and>
    g = fields_use ''signatures'' f"
proof -
  let ?get = "bt_get (f_map f) ''signatures''"
  have items: "\<forall>v \<in> set vs. cbor_sorted v" if "?get = Some (CArray vs)" for vs
    using fields_sorted_get [OF assms that] by simp
  have len: "length vs = length xs" if "rmap signature_to_cbor xs = Inr vs" for vs
    using that by (auto simp: rmap_Inr dest: list_all2_lengthD)
  have "signatures_field f = (Inr xs, g) \<longleftrightarrow> (\<exists>vs. ?get = Some (CArray vs) \<and> length vs \<le> 8 \<and>
      rmap signature_from_cbor vs = Inr xs) \<and> g = fields_use ''signatures'' f"
    by (auto simp: signatures_field_def signatures_from_cbor_def res not_less split: if_splits)
  also have "(\<exists>vs. ?get = Some (CArray vs) \<and> length vs \<le> 8 \<and> rmap signature_from_cbor vs = Inr xs) \<longleftrightarrow>
      (\<exists>vs. ?get = Some (CArray vs) \<and> length vs \<le> 8 \<and> rmap signature_to_cbor xs = Inr vs)"
    using items signature.read_all [where xs = xs] by (metis pred_true(1))
  also have "\<dots> \<longleftrightarrow> length xs \<le> 8 \<and> (\<exists>vs. rmap signature_to_cbor xs = Inr vs \<and> ?get = Some (CArray vs))"
    using len by auto
  finally show ?thesis by simp
qed

lemma model_image_parts:
  assumes "model_image_validate sha256 x = Inr ()"
  shows "\<exists>v. architecture_ref_to_cbor (mi_architecture x) = Inr v" "\<exists>vs. rmap artifact_file_to_cbor (mi_files x) = Inr vs"
    and "\<exists>vs. rmap tensor_spec_to_cbor (mi_tensor_inventory x) = Inr vs"
    and "\<exists>vs. rmap source_hint_to_cbor (mi_sources x) = Inr vs"
    and "\<exists>v. opt_res placement_hints_to_cbor (mi_placement_hints x) = Inr v"
    and "\<exists>vs. rmap signature_to_cbor (mi_signatures x) = Inr vs"
    and "\<exists>v. fixed_point_sampler_to_cbor (mi_generation_defaults x) = Inr v"
    and "\<exists>v. special_tokens_to_cbor (mi_special_tokens x) = Inr v"
    and "validate_files (mi_files x) = Inr ()" "length (mi_signatures x) \<le> 8"
proof -
  have parts: "architecture_ref_validate (mi_architecture x) = Inr ()" "\<exists>u. rmap artifact_file_validate (mi_files x) = Inr u"
      "\<exists>u. rmap tensor_spec_validate (mi_tensor_inventory x) = Inr u" "\<exists>u. rmap source_hint_validate (mi_sources x) = Inr u"
      "\<exists>u. opt_res placement_hints_validate (mi_placement_hints x) = Inr u" "\<exists>u. rmap signature_validate (mi_signatures x) = Inr u"
      "fixed_point_sampler_validate (mi_generation_defaults x) = Inr ()" "special_tokens_validate (mi_special_tokens x) = Inr ()"
      and rest: "validate_files (mi_files x) = Inr ()" "length (mi_signatures x) \<le> 8"
    using assms by (auto simp: model_image_validate_def validate_files_def res split: if_splits)
  show "\<exists>v. architecture_ref_to_cbor (mi_architecture x) = Inr v" using validated_parts(1) parts(1) .
  show "\<exists>vs. rmap artifact_file_to_cbor (mi_files x) = Inr vs" using rmap_validated validated_parts(2) parts(2) by blast
  show "\<exists>vs. rmap tensor_spec_to_cbor (mi_tensor_inventory x) = Inr vs" using rmap_validated validated_parts(3) parts(3) by blast
  show "\<exists>vs. rmap source_hint_to_cbor (mi_sources x) = Inr vs" using rmap_validated validated_parts(4) parts(4) by blast
  show "\<exists>v. opt_res placement_hints_to_cbor (mi_placement_hints x) = Inr v" using opt_validated validated_parts(5) parts(5) by blast
  show "\<exists>vs. rmap signature_to_cbor (mi_signatures x) = Inr vs" using rmap_validated validated_parts(6) parts(6) by blast
  show "\<exists>v. fixed_point_sampler_to_cbor (mi_generation_defaults x) = Inr v" using validated_parts(7) parts(7) .
  show "\<exists>v. special_tokens_to_cbor (mi_special_tokens x) = Inr v" using validated_parts(8) parts(8) .
  show "validate_files (mi_files x) = Inr ()" "length (mi_signatures x) \<le> 8" using rest .
qed

lemma model_image_iff:
  assumes "cbor_sorted v"
  shows "model_image_from_cbor sha256 v = Inr x \<longleftrightarrow> model_image_typed x \<and> model_image_to_cbor sha256 x = Inr v"
proof (cases v)
  case (CMap es)
  let ?K = "{''kind'', ''version'', ''architecture'', ''capabilities'', ''extensions'', ''generationDefaults'',
    ''license'', ''name'', ''placementHints'', ''precisions'', ''requirements'', ''signatures'', ''sources'',
    ''specialTokens'', ''template'', ''tensorInventory'', ''tokenizer'', ''variant'', ''weights''}"
  show ?thesis
  proof (cases "model_image_validate sha256 x = Inr ()")
    case True
    note parts = model_image_parts [OF True]
    obtain architecture files tensors sources hints signatures defaults special where ok:
      "architecture_ref_to_cbor (mi_architecture x) = Inr architecture" "rmap artifact_file_to_cbor (mi_files x) = Inr files"
      "rmap tensor_spec_to_cbor (mi_tensor_inventory x) = Inr tensors" "rmap source_hint_to_cbor (mi_sources x) = Inr sources"
      "opt_res placement_hints_to_cbor (mi_placement_hints x) = Inr hints" "rmap signature_to_cbor (mi_signatures x) = Inr signatures"
      "fixed_point_sampler_to_cbor (mi_generation_defaults x) = Inr defaults" "special_tokens_to_cbor (mi_special_tokens x) = Inr special"
      using parts by blast
    have more: "artifact_files_cbor (mi_files x) = Inr (CArray files)" "signatures_to_cbor (mi_signatures x) = Inr (CArray signatures)"
      using ok parts by (simp_all add: artifact_files_cbor_def signatures_to_cbor_def rbind_def)
    show ?thesis
      using assms True ok more parts(10) unfolding CMap model_image_from_cbor_def model_image_to_cbor_def
      by (cases "license_to_cbor (mi_license x)"; cases x)
        (simp_all add: read_document_ok res Let_def model_image_fields_def split_def string_field_array_eq
          model_image_typed_def builder_finish_eq [where K = ?K], auto simp: contract_ac)
  next
    case False
    then show ?thesis
      using assms unfolding CMap model_image_from_cbor_def model_image_to_cbor_def
      by (auto simp: read_document_ok res)
  qed
qed (auto simp: model_image_from_cbor_def read_document_not_map model_image_to_cbor_def
   builder_finish_def res Let_def)

interpretation model_image: document model_image_typed "model_image_to_cbor sha256" "model_image_from_cbor sha256"
  for sha256
  by unfold_locales (simp add: model_image_iff)

lemma model_artifact_set_iff:
  assumes "cbor_sorted v"
  shows "model_artifact_set_from_cbor v = Inr x \<longleftrightarrow> model_artifact_set_typed x \<and> model_artifact_set_to_cbor x = Inr v"
proof (cases v)
  case (CMap es)
  let ?K = "{''kind'', ''version'', ''extensions'', ''files''}"
  show ?thesis
    using assms unfolding CMap model_artifact_set_from_cbor_def model_artifact_set_to_cbor_def artifact_files_cbor_def
    by (cases "rmap artifact_file_to_cbor (ma_files x)"; cases x)
      (simp_all add: read_document_ok res Let_def model_artifact_set_fields_def
        model_artifact_set_typed_def builder_finish_eq [where K = ?K], auto simp: contract_ac)
qed (auto simp: model_artifact_set_from_cbor_def read_document_not_map model_artifact_set_to_cbor_def
   builder_finish_def res Let_def)

interpretation model_artifact_set: document model_artifact_set_typed model_artifact_set_to_cbor
  model_artifact_set_from_cbor
  by unfold_locales (simp add: model_artifact_set_iff)

end
