(* ===== verification/Prompt_Compiler.thy ===== *)
theory Prompt_Compiler
  imports Template Tokenizer Model_Contracts
begin

text \<open>
  The prompt compiler: \<open>crates/infer-prompt/src/compile.rs\<close>. Messages, template and tokenizer become one
  prompt plan. The result is \<open>None\<close> when the tokenizer's loop does not return, which never happens.
\<close>

record compiled_prompt =
  cp_plan :: prompt_plan
  cp_input :: prompt_input

definition hash_embedded :: "(u8 list \<Rightarrow> u8 list) \<Rightarrow> string \<Rightarrow> u8 list \<Rightarrow> digest_hex res" where
  "hash_embedded sha256 domain bytes = digest_value sha256 domain (CBytes bytes)"

text \<open>Everything up to the text to encode: the checked roots, the rendered text and the tokenizer.\<close>

record 'h prompt_source =
  ps_tokenizer_root :: digest_hex
  ps_template_root :: digest_hex
  ps_rendered :: string
  ps_tokenizer :: "'h micro_tokenizer"

definition prepare_prompt :: "(u8 list \<Rightarrow> u8 list) \<Rightarrow> 'h tokenizer_lib \<Rightarrow> model_image \<Rightarrow> prompt_input \<Rightarrow> nat \<Rightarrow>
    'h prompt_source res" where
  "prepare_prompt sha256 lib img input vocab =
    rbind (prompt_input_validate input) (\<lambda>_.
    rbind (hash_embedded sha256 ''infer-tokenizer'' (emb_bytes (mi_tokenizer img))) (\<lambda>tokenizer_root.
    if tokenizer_root \<noteq> emb_root (mi_tokenizer img)
    then Inl (fail TokenizerInvalid ''tokenizer root does not match the model image'')
    else
    rbind (hash_embedded sha256 ''infer-template'' (emb_bytes (mi_template img))) (\<lambda>template_root.
    if template_root \<noteq> emb_root (mi_template img)
    then Inl (fail TemplateInvalid ''template root does not match the model image'')
    else
    rbind (ok_or (from_utf8 (emb_bytes (mi_template img))) TemplateInvalid ''template bytes are not UTF-8'') (\<lambda>template.
    rbind (render_chat_template template (pi_messages input)) (\<lambda>rendered.
    rbind (parse_tokenizer lib (emb_bytes (mi_tokenizer img)) vocab) (\<lambda>tokenizer.
    let special = mi_special_tokens img
    in
    rbind (expect_special tokenizer (st_bos special) ''<bos>'') (\<lambda>_.
    rbind (expect_special tokenizer (st_eos special) ''<eos>'') (\<lambda>_.
    rbind (expect_special tokenizer (st_pad special) ''<pad>'') (\<lambda>_.
    rbind (expect_special tokenizer (st_unk special) ''<unk>'') (\<lambda>_.
    if \<not> list_all (\<lambda>n. n < vocab) (bt_values (st_additional special))
    then Inl (fail TokenizerInvalid ''special token id is outside the vocabulary'')
    else Inr \<lparr>ps_tokenizer_root = tokenizer_root, ps_template_root = template_root,
      ps_rendered = rendered, ps_tokenizer = tokenizer\<rparr>))))))))))"

definition preserved_sections :: "prompt_input \<Rightarrow> string list" where
  "preserved_sections input =
    remdups_adj (sort
      ((if list_ex (\<lambda>m. cm_role m = ''system'') (pi_messages input) then [''system''] else []) @
       (if list_ex (\<lambda>m. cm_role m = ''tool'') (pi_messages input) then [''tool''] else []) @
       (if pi_evidence input \<noteq> None then [''evidence''] else [])))"

definition finish_prompt :: "(u8 list \<Rightarrow> u8 list) \<Rightarrow> model_image \<Rightarrow> prompt_input \<Rightarrow> nat \<Rightarrow> nat \<Rightarrow>
    'h prompt_source \<Rightarrow> nat list \<Rightarrow> compiled_prompt res" where
  "finish_prompt sha256 img input max_context_tokens reserved_generation_tokens source encoded =
    (let token_ids = (case st_bos (mi_special_tokens img) of None \<Rightarrow> [] | Some bos \<Rightarrow> [bos]) @ encoded
     in
     if token_ids = [] then Inl (fail PromptCompilationFailed ''compiled prompt has no tokens'')
     else
     rbind (ok_or (if length token_ids \<le> u32_max then Some (length token_ids) else None)
       PromptCompilationFailed ''compiled prompt is too large'') (\<lambda>original.
     if original > max_context_tokens \<or> original + reserved_generation_tokens > max_context_tokens
     then Inl (fail ContextLimitExceeded ''prompt plus reserved generation tokens exceed the context'')
     else
     let truncation = \<lparr>tr_strategy = ''none'', tr_original_token_count = original,
           tr_final_token_count = original, tr_removed_ids = [],
           tr_preserved_sections = preserved_sections input,
           tr_max_context_tokens = max_context_tokens,
           tr_reserved_generation_tokens = reserved_generation_tokens\<rparr>
     in
     rbind (opt_res (evidence_binding_root sha256) (pi_evidence input)) (\<lambda>evidence.
     rbind (messages_root sha256 input) (\<lambda>messages.
     rbind (image_special_tokens_root sha256 img) (\<lambda>special.
     let plan = \<lparr>pp_messages_root = messages, pp_tools_root = pi_tools_root input,
           pp_evidence_root = evidence, pp_template_root = ps_template_root source,
           pp_tokenizer_root = ps_tokenizer_root source, pp_special_token_plan_root = special,
           pp_rendered_text = ps_rendered source, pp_token_ids = token_ids,
           pp_truncation = truncation, pp_extensions = []\<rparr>
     in rbind (prompt_plan_validate plan) (\<lambda>_. Inr \<lparr>cp_plan = plan, cp_input = input\<rparr>))))))"

definition compile_with_evidence :: "(u8 list \<Rightarrow> u8 list) \<Rightarrow> 'h tokenizer_lib \<Rightarrow> model_image \<Rightarrow> prompt_input \<Rightarrow>
    nat \<Rightarrow> nat \<Rightarrow> nat \<Rightarrow> compiled_prompt res option" where
  "compile_with_evidence sha256 lib img input vocab max_context_tokens reserved_generation_tokens =
    (case prepare_prompt sha256 lib img input vocab of
       Inl e \<Rightarrow> Some (Inl e)
     | Inr source \<Rightarrow>
        (case encode_text lib (ps_tokenizer source) (ps_rendered source) of
           None \<Rightarrow> None
         | Some (Inl e) \<Rightarrow> Some (Inl e)
         | Some (Inr encoded) \<Rightarrow>
             Some (finish_prompt sha256 img input max_context_tokens reserved_generation_tokens source encoded)))"

definition compile_model_prompt :: "(u8 list \<Rightarrow> u8 list) \<Rightarrow> 'h tokenizer_lib \<Rightarrow> model_image \<Rightarrow> chat_message list \<Rightarrow>
    nat \<Rightarrow> nat \<Rightarrow> nat \<Rightarrow> compiled_prompt res option" where
  "compile_model_prompt sha256 lib img messages vocab max_context_tokens reserved_generation_tokens =
    compile_with_evidence sha256 lib img
      \<lparr>pi_messages = messages, pi_tools_root = None, pi_evidence = None, pi_system_policy = None, pi_extensions = []\<rparr>
      vocab max_context_tokens reserved_generation_tokens"

subsection \<open>The compiler returns\<close>

lemma prepare_prompt_ok:
  assumes "prepare_prompt sha256 lib img input vocab = Inr source"
  shows "parse_tokenizer lib (emb_bytes (mi_tokenizer img)) vocab = Inr (ps_tokenizer source)"
    and "ps_tokenizer_root source = emb_root (mi_tokenizer img)"
    and "ps_template_root source = emb_root (mi_template img)"
    and "\<exists>template. from_utf8 (emb_bytes (mi_template img)) = Some template \<and>
      render_chat_template template (pi_messages input) = Inr (ps_rendered source)"
    and "expect_special (ps_tokenizer source) (st_bos (mi_special_tokens img)) ''<bos>'' = Inr ()"
    and "pi_messages input \<noteq> []"
  using assms by (auto simp: prepare_prompt_def res Let_def prompt_input_validate_def split: if_splits)

lemma encode_returns:
  assumes "parse_tokenizer lib bytes vocab = Inr t" and "vocab \<le> u32_max"
  shows "encode_text lib t s \<noteq> None"
  using parse_tokenizer_ok [OF assms] encode_text_cases [of t lib s]
  by (cases "mt_hf t") (auto simp: encode_text_def)

lemma compile_returns:
  assumes "vocab \<le> u32_max"
  shows "compile_with_evidence sha256 lib img input vocab m r \<noteq> None"
proof (cases "prepare_prompt sha256 lib img input vocab")
  case (Inr source)
  then show ?thesis
    using encode_returns [OF prepare_prompt_ok(1) [OF Inr] assms]
    by (auto simp: compile_with_evidence_def split: option.split sum.split)
qed (simp add: compile_with_evidence_def)

subsection \<open>What a compiled prompt is\<close>

lemma finish_prompt_ok:
  assumes "finish_prompt sha256 img input m r source encoded = Inr cp"
  shows "pp_rendered_text (cp_plan cp) = ps_rendered source \<and>
    pp_token_ids (cp_plan cp) = (case st_bos (mi_special_tokens img) of None \<Rightarrow> [] | Some bos \<Rightarrow> [bos]) @ encoded \<and>
    pp_template_root (cp_plan cp) = ps_template_root source \<and> pp_tokenizer_root (cp_plan cp) = ps_tokenizer_root source \<and>
    length (pp_token_ids (cp_plan cp)) + r \<le> m \<and> pp_token_ids (cp_plan cp) \<noteq> [] \<and>
    tr_removed_ids (pp_truncation (cp_plan cp)) = [] \<and>
    tr_final_token_count (pp_truncation (cp_plan cp)) = length (pp_token_ids (cp_plan cp)) \<and>
    prompt_plan_validate (cp_plan cp) = Inr () \<and> cp_input cp = input"
  using assms by (auto simp: finish_prompt_def res Let_def not_less split: if_splits)

lemma compile_ok:
  assumes "compile_with_evidence sha256 lib img input vocab m r = Some (Inr cp)"
  obtains source encoded where "prepare_prompt sha256 lib img input vocab = Inr source"
    and "encode_text lib (ps_tokenizer source) (ps_rendered source) = Some (Inr encoded)"
    and "finish_prompt sha256 img input m r source encoded = Inr cp"
  using assms by (auto simp: compile_with_evidence_def split: sum.splits option.splits)

text \<open>Decoding the tokens of a list tokenizer gives the rendered text back, after the begin token.\<close>

lemma compile_decodes:
  assumes "prepare_prompt sha256 lib img input vocab = Inr source" and "vocab \<le> u32_max"
    and "encode_text lib (ps_tokenizer source) (ps_rendered source) = Some (Inr encoded)"
    and "mt_hf (ps_tokenizer source) = None"
  shows "decode_tokens lib (ps_tokenizer source)
      ((case st_bos (mi_special_tokens img) of None \<Rightarrow> [] | Some bos \<Rightarrow> [bos]) @ encoded) =
    Inr ((if st_bos (mi_special_tokens img) = None then [] else ''<bos>'') @ ps_rendered source)"
proof -
  let ?t = "ps_tokenizer source"
  have t: "list_tokenizer ?t" using parse_tokenizer_ok [OF prepare_prompt_ok(1) [OF assms(1)] assms(2)] assms(4) by blast
  then have g: "greedy (mt_tokens ?t) encoded (ps_rendered source)" using assms(3) by (simp add: encode_text_exact)
  have enc: "decode_list (mt_tokens ?t) encoded out = Inr (out @ ps_rendered source)" for out
    using greedy_text [OF g] decode_list_all [of encoded "mt_tokens ?t" out] by simp
  show ?thesis
    using enc prepare_prompt_ok(5) [OF assms(1)] assms(4)
    by (cases "st_bos (mi_special_tokens img)") (auto simp: decode_tokens_def expect_special_def split: if_splits)
qed

end
