(* ===== verification/Demo_Prompt.thy ===== *)
theory Demo_Prompt
  imports Prompt_Compiler "HOL-Library.Code_Target_Nat"
begin

text \<open>A list tokenizer of five tokens, a template, and a model image that holds both.\<close>

definition demo_hash :: "u8 list \<Rightarrow> u8 list" where
  "demo_hash bs = replicate 32 (of_nat (length bs))"

definition demo_tokens :: "string list" where
  "demo_tokens = [''<bos>'', ''a'', ''ab'', ''b'', ''{{ message.role }}'']"

text \<open>The JSON library's reader of a token list, on the three fields of the file.\<close>

definition demo_lib :: "unit tokenizer_lib" where
  "demo_lib =
    \<lparr>tl_from_value = \<lambda>v. (case (json_get ''kind'' v, json_get ''version'' v, json_get ''tokens'' v) of
        (Some (JString kind), Some (JNumber version), Some (JArray items)) \<Rightarrow>
          Some (kind, version, map (\<lambda>j. case j of JString s \<Rightarrow> s | _ \<Rightarrow> []) items)
      | _ \<Rightarrow> None),
     tl_to_string = \<lambda>_. None, tl_from_str = \<lambda>_. Inl [], tl_vocab_size = \<lambda>_. 0,
     tl_id_to_token = \<lambda>_ _. None, tl_encode = \<lambda>_ _. None, tl_decode = \<lambda>_ _. None\<rparr>"

definition demo_tokenizer :: "unit micro_tokenizer" where
  "demo_tokenizer = \<lparr>mt_tokens = demo_tokens, mt_hf = None\<rparr>"

definition quoted :: "string \<Rightarrow> string" where
  "quoted s = [CHR 0x22] @ s @ [CHR 0x22]"

definition demo_tokenizer_json :: string where
  "demo_tokenizer_json =
    ''{'' @ quoted ''kind'' @ '': '' @ quoted ''knolo.micro.tokens.v1'' @ '', '' @ quoted ''version'' @ '': 1, '' @
    quoted ''tokens'' @ '': ['' @ quoted ''<bos>'' @ '','' @ quoted ''a'' @ '','' @ quoted ''ab'' @ '','' @
    quoted ''b'' @ '','' @ quoted ''{{ message.role }}'' @ '']}''"

definition demo_template :: string where
  "demo_template = ''a{% for message in messages %}b{{ message.content }}{% endfor %}''"

definition embedded :: "string \<Rightarrow> string \<Rightarrow> embedded_artifact" where
  "embedded domain s = (case hash_embedded demo_hash domain (as_bytes s) of
     Inr root \<Rightarrow> \<lparr>emb_bytes = as_bytes s, emb_root = root\<rparr>
   | Inl _ \<Rightarrow> \<lparr>emb_bytes = [], emb_root = DigestHex []\<rparr>)"

definition demo_image :: model_image where
  "demo_image = \<lparr>mi_name = ''demo'', mi_variant = ''v1'',
     mi_architecture = \<lparr>ar_family = ''micro'', ar_adapter = ''knolo.micro''\<rparr>, mi_format = ''gguf'',
     mi_files = [], mi_tokenizer = embedded ''infer-tokenizer'' demo_tokenizer_json,
     mi_template = embedded ''infer-template'' demo_template,
     mi_special_tokens = \<lparr>st_bos = Some 0, st_eos = None, st_pad = None, st_unk = None, st_additional = []\<rparr>,
     mi_generation_defaults = \<lparr>temperature_micros = 0, top_p_millionths = 0, min_p_millionths = 0,
       repetition_penalty_micros = 0, presence_penalty_micros = 0, frequency_penalty_micros = 0,
       top_k = 0, max_output_tokens = 3\<rparr>,
     mi_capabilities = [], mi_license = \<lparr>lic_id = ''MIT'', lic_acceptance_required = False\<rparr>,
     mi_sources = [], mi_tensor_inventory = [], mi_precisions = [],
     mi_requirements = \<lparr>rr_minimum_ram_bytes = 0, rr_minimum_vram_bytes = 0\<rparr>,
     mi_placement_hints = None, mi_extensions = [], mi_signatures = []\<rparr>"

text \<open>A content that looks like template text.\<close>

definition demo_message :: chat_message where
  "demo_message = \<lparr>cm_role = ''user'', cm_content = ''{{ message.role }}''\<rparr>"

definition demo_input :: prompt_input where
  "demo_input = \<lparr>pi_messages = [demo_message], pi_tools_root = None, pi_evidence = None,
     pi_system_policy = None, pi_extensions = []\<rparr>"

lemma demo_json: "\<exists>v. parse_strict_json demo_tokenizer_json TokenizerInvalid = Inr v"
proof -
  have "case parse_strict_json demo_tokenizer_json TokenizerInvalid of Inr _ \<Rightarrow> True | Inl _ \<Rightarrow> False"
    by code_simp
  then show ?thesis by (auto split: sum.splits)
qed

lemma demo_compiles: "\<exists>cp. compile_with_evidence demo_hash demo_lib demo_image demo_input 5 16 4 = Some (Inr cp)"
proof -
  have "case compile_with_evidence demo_hash demo_lib demo_image demo_input 5 16 4 of
      Some (Inr _) \<Rightarrow> True | _ \<Rightarrow> False"
    by code_simp
  then show ?thesis by (auto split: option.splits sum.splits)
qed

end
