(* ===== verification/Spec2Isabelle.thy ===== *)
theory Spec2Isabelle
  imports Demo_Journal Common_Laws Generate Demo_Ipc Demo_Supervisor Demo_Worker Demo_Prompt
begin

text \<open>
  A verification library for the inference workspace under \<open>src/crates\<close>: the canonical documents
  every crate exchanges (\<open>infer-contracts\<close>) and the execution engine that serves requests
  (\<open>infer-engine\<close>).

  \<^bold>\<open>How the parts fit.\<close> A request is admitted by the scheduler against a KV page pool, prefilled in
  chunks and decoded token by token by a model that writes its keys and values into a KV store. The
  plans it runs under are contract documents: canonical CBOR maps, checked field by field, whose
  domain-separated SHA-256 digest identifies them.

  \<^bold>\<open>Theories.\<close>
  \<^item> \<open>Prelude\<close>: Rust strings as byte strings, checked, saturating and wrapping arithmetic.
  \<^item> \<open>Failure\<close> (\<open>infer-contracts/src/error.rs\<close>): error codes, the result type, operations on a state
    that may fail, and their weakest preconditions.
  \<^item> \<open>Utf8\<close>: UTF-8 and ASCII, as the standard library has them. \<open>Btree\<close>: \<open>BTreeMap\<close> and \<open>BTreeSet\<close> as
    sorted lists, with the interface \<open>ordered_map\<close>.
  \<^item> \<open>Cbor\<close>, \<open>Cbor_Proofs\<close> (\<open>cbor.rs\<close>): the canonical encoder and the strict decoder, and that the
    decoder accepts exactly the canonical encodings.
  \<^item> \<open>Digest\<close> (\<open>digest.rs\<close>): digest strings, the registered domains, hex. SHA-256 is an argument.
  \<^item> \<open>Field_Reader\<close>, \<open>Field_Laws\<close> (\<open>fields.rs\<close>): the reader of a document's fields as operations on the
    map and the set of fields used, and for each operation when it succeeds.
  \<^item> \<open>Contract_Common\<close> (\<open>contracts/common.rs\<close>), \<open>Document\<close>, \<open>Common_Laws\<close>: the document builder, the
    shared sub-documents, the locales \<open>document\<close> and \<open>rooted_document\<close> that every contract type
    interprets, and closed forms of the shared checks.
  \<^item> \<open>Execution_Contracts\<close> (\<open>contracts/execution.rs\<close>): sampler plan, grammar plan, limits, intent,
    execution plan, event.
  \<^item> \<open>Kv_Store\<close> (\<open>infer-engine/src/traits.rs\<close>, \<open>memory.rs\<close>): layouts, the planned pool, and the contract
    \<open>kv_store\<close> of the trait \<open>KvStore\<close>; \<open>Single_Kv\<close> (\<open>kv.rs\<close>), \<open>Paged_Kv\<close> and \<open>Paged_Proofs\<close> (\<open>paged.rs\<close>) are
    the two stores, both interpretations of the contract; the paged one also of \<open>kv_pool\<close>, the contract
    with \<open>deactivate\<close> and \<open>invalidate\<close>. \<open>Kv_Runs\<close> runs lists of calls on them, for the paged store all
    seven mutating ones.
  \<^item> \<open>Philox\<close> (\<open>philox.rs\<close>) and \<open>Sampler\<close> (\<open>sample.rs\<close>): the counter-based generator on words, penalties,
    filters, softmax and the choice of a token on IEEE bit patterns; \<open>Generate\<close>: one request from
    prefill to its last token.
  \<^item> \<open>Journal\<close>, \<open>Journal_Proofs\<close> (\<open>journal.rs\<close>): the event files of a request on a model of the
    directory, verification of the chain and recovery after a crash.
  \<^item> \<open>Scheduler\<close>, \<open>Scheduler_Step\<close> (\<open>schedule.rs\<close>): admission and one iteration; \<open>Scheduler_Proofs\<close> and
    \<open>Scheduler_Run\<close>: the invariant, progress, the choice of the next request, and the run to idle.
  \<^item> \<open>Frame\<close> (\<open>infer-serve/src/frame.rs\<close>), \<open>Protocol\<close>, \<open>Protocol_Proofs\<close> (\<open>protocol.rs\<close>), \<open>Ipc\<close>: the frames and
    messages between supervisor and worker, and a whole conversation over them.
  \<^item> \<open>Supervisor\<close> (\<open>infer-serve/src/supervisor.rs\<close>): the worker slot and every section of code under its
    mutex; \<open>Supervisor_Run\<close>: the supervisor's threads as a step relation; \<open>Supervisor_Proofs\<close>,
    \<open>Supervisor_Channels\<close>: the invariant of the slot, the channels of submitted requests, drain, and two
    ways to block or to keep a dead worker.
  \<^item> \<open>Worker\<close> (\<open>infer-serve/src/worker.rs\<close>): the session a worker serves, on the arriving frames and the
    turns of the scheduler between them; \<open>Worker_Proofs\<close>: what an iteration does to the tokens of the
    requests; \<open>Worker_Conversation\<close>: the protocol of a worker's messages as an automaton, kept by every session.
  \<^item> \<open>Nested_Documents\<close>, \<open>Prompt_Contracts\<close> (\<open>contracts/prompt.rs\<close>), \<open>Model_Contracts\<close> (\<open>contracts/model.rs\<close>):
    documents that hold documents, the prompt plan and the model image with their roots.
  \<^item> \<open>Json\<close>, \<open>Json_Proofs\<close> (\<open>infer-artifact/src/json.rs\<close>): the strict JSON reader, its limits and its fuel.
  \<^item> \<open>Template\<close>, \<open>Tokenizer\<close>, \<open>Prompt_Compiler\<close> (\<open>infer-prompt/src\<close>): the chat template, the list
    tokenizers and the compiler that makes a prompt plan of an image and messages.
  \<^item> \<open>Demo\<close>, \<open>Demo_Journal\<close>, \<open>Demo_Ipc\<close>, \<open>Demo_Supervisor\<close>, \<open>Demo_Worker\<close>, \<open>Demo_Prompt\<close>: concrete inputs for the properties below.

  \<^bold>\<open>Conventions.\<close> A Rust \<open>Result\<close> is a sum with the failure on the left; a method with \<open>&mut self\<close>
  returns the result and the new state, the state also when it fails, as the source leaves it.
  Lengths, ids and counters of type \<open>u32\<close>, \<open>u64\<close> and \<open>usize\<close> are naturals with the width written out
  where the source checks, saturates or truncates. Where it does not check, a bound of the source or of the
  property excludes overflow; the sizes of the single-block store have none, so its products wrap, as in a
  release build, and C9 asks for a layout that fits. CBOR integers are \<open>i128\<close>, bytes are words. Floats
  are their bit patterns: comparisons are computed on the bits, rounding operations are arguments. A reader runs the field
  operations in the source's order; its error is the first one met.

  \<^bold>\<open>Bounds.\<close> The decoder's recursion is bounded by the nesting limit and the bytes left; the
  page-reservation loop removes a sequence per turn; the scheduler's run has the source's own limit
  of iterations, and C2 states when it suffices. Generation has the output limit as fuel, and C24
  states that it returns. The JSON reader has twice the
  length of its input as fuel, and C37 states that more changes nothing; the tokenizer's loop is a partial
  function, and C38 states that it returns. C25 and C26 are about journals of at most, or fewer than,
  1,000,000 events; C27 says what happens beyond. C31 to C33 are about fewer than 2 ^ 64 generations of the
  worker. The automaton of C36 takes acknowledgements and rejections as neutral, so the last message there
  is the last of a request's report messages.

  \<^bold>\<open>Parameters.\<close> The hash function; the model, the KV store and the measured durations of the
  scheduler and the rounding operations of floats, as records of operations about which nothing is
  assumed (C23 needs that dividing a zero gives a zero); whether a write to a file succeeds;
  the Hugging Face tokenizer and the conversions of the JSON library.

  \<^bold>\<open>Not modelled.\<close> The numeric kernels and the model adapters (floating-point arithmetic); the
  remaining contracts, which are longer lists of the same fields and checks; the artifact file formats; file,
  socket and process handling, HTTP; the measurement and report modules, the command line and the C
  interface.
\<close>
section \<open>Properties of the scheduler\<close>

text \<open>
  C1 After any interleaving of submit, cancel, reap and step, accepted or refused or failing
  midway, with any model, store and sampler: request ids and slots correspond one to one (the slot's
  own id is registered for it and every registered id has its slot), every
  unfinished request holds exactly the pages of its prompt and reserved output, a finished one
  holds neither pages nor KV, and the reserved pages are the sum of the held ones and fit the pool.
\<close>

theorem scheduler_reservation_safe:
  assumes "scheduler_config_new root context block capacity chunk = Inr cfg"
    and "sched_reachable eng cfg w"
  shows "sc_reserved_pages (w_sched w) = bt_sum held_pages (sc_slots (w_sched w)) \<and>
    sc_reserved_pages (w_sched w) \<le> cfg_page_capacity (sc_config (w_sched w)) \<and>
    (bt_get (sc_slots (w_sched w)) q = Some sl \<longrightarrow>
      bt_get (sc_ids (w_sched w)) (sl_request_id sl) = Some q \<and>
      (sl_holding_pages sl \<longleftrightarrow> sl_phase sl \<noteq> Done) \<and> (sl_phase sl = Done \<longrightarrow> \<not> sl_kv_open sl) \<and>
      page_count (length (sl_prompt sl) + max_tokens sl) (cfg_block_size (sc_config (w_sched w))) = Inr (sl_pages sl)) \<and>
    (bt_get (sc_ids (w_sched w)) r = Some p \<longrightarrow>
      (\<exists>sl. bt_get (sc_slots (w_sched w)) p = Some sl \<and> sl_request_id sl = r))"
  using sched_reachable_inv [OF assms(2) config_new_ok [OF assms(1)]] sched_inv_slot [of "w_sched w" q sl]
    sched_inv_id [of "w_sched w" r p]
  by (auto simp: sched_inv_def slot_ok_def)

theorem scheduler_reservation_safe_witness:
  "sc_reserved_pages (w_sched demo_world) = 1 \<and> sc_reserved_pages (w_sched demo_world) \<le> 4"
  using scheduler_reservation_safe [OF demo_config_ok(1) demo_reachable]
  by (simp add: demo_world_def demo_scheduler_def demo_config_def scheduler_new_def held_pages_def
      new_slot_def)

text \<open>
  C2 The run to idle stops: when the work left (retirement, prompt tokens and output tokens of the
  unfinished requests) is below the iteration limit, the run returns with every request finished,
  no request over its output limit and the results of exactly these requests; or an iteration
  failed, and the invariant still holds. It never fails for want of iterations.
\<close>

theorem scheduler_runs_to_idle:
  assumes "sched_inv (w_sched w)" and "sched_bounded (w_sched w)" and "sched_work (w_sched w) < max_iters"
    and "run_until_idle eng w = (r, w')"
  shows "sched_inv (w_sched w') \<and>
    (case r of
       Inr rs \<Rightarrow> all_done (w_sched w') \<and> sched_bounded (w_sched w') \<and> rs = results (w_sched w')
     | Inl e \<Rightarrow> \<exists>v. sched_inv (w_sched v) \<and> sched_step eng v = (Inl e, w'))"
  using wp_run_iterations [OF assms(1-3), of eng] assms(4)
  by (auto simp: run_until_idle_def op_wp_def ran_def split: sum.splits)

theorem scheduler_runs_to_idle_witness:
  "sched_inv (w_sched (snd (run_until_idle demo_engine demo_world)))"
proof -
  have "run_until_idle demo_engine demo_world =
      (fst (run_until_idle demo_engine demo_world), snd (run_until_idle demo_engine demo_world))" by simp
  from scheduler_runs_to_idle [OF _ _ _ this] show ?thesis
    using demo_sched_ok demo_work by (simp add: demo_world_def)
qed

text \<open>
  C3 One iteration: a successful one either serves requests, leaves fewer iterations of work and
  keeps every request within its output limit, or finds every request finished and changes no
  slot; a failing one keeps the invariant.
\<close>

theorem scheduler_step_progress:
  assumes "sched_inv (w_sched w)" and "sched_step eng w = (r, w')"
  shows "sched_inv (w_sched w') \<and>
    (case r of
       Inl e \<Rightarrow> True
     | Inr None \<Rightarrow> all_done (w_sched w) \<and> sc_slots (w_sched w') = sc_slots (w_sched w)
     | Inr (Some st) \<Rightarrow> sched_bounded (w_sched w) \<longrightarrow>
         sched_bounded (w_sched w') \<and> sched_work (w_sched w') < sched_work (w_sched w))"
  using wp_sched_step [OF assms(1), of eng] assms(2)
  by (auto simp: op_wp_def stepped_def batch_served_def split: sum.splits option.splits)

theorem scheduler_step_progress_witness:
  "sched_inv (w_sched (snd (sched_step demo_engine demo_world)))"
proof -
  have "sched_step demo_engine demo_world =
      (fst (sched_step demo_engine demo_world), snd (sched_step demo_engine demo_world))" by simp
  from scheduler_step_progress [OF _ this] show ?thesis
    using demo_sched_ok(1) by (simp add: demo_world_def)
qed

text \<open>
  C4 The next request is a runnable one with the least virtual time, the smaller sequence id on a
  tie; the decode batch has no duplicates and consists of the decoding requests that are not
  cancelled and not behind a request still waiting for prefill.
\<close>

theorem scheduler_choice_fair:
  assumes "sched_inv s"
  shows "(pick_runnable s = Some q \<longrightarrow> (\<exists>sl. bt_get (sc_slots s) q = Some sl \<and> is_runnable sl \<and>
      (\<forall>r sl'. bt_get (sc_slots s) r = Some sl' \<and> is_runnable sl' \<longrightarrow> (sl_vtime sl, q) \<le> (sl_vtime sl', r)))) \<and>
    (pick_runnable s = None \<longleftrightarrow> (\<forall>q sl. bt_get (sc_slots s) q = Some sl \<longrightarrow> \<not> is_runnable sl)) \<and>
    distinct (decode_batch s) \<and>
    (q \<in> set (decode_batch s) \<longleftrightarrow> (\<exists>sl. bt_get (sc_slots s) q = Some sl \<and> in_decode_batch s sl))"
  using pick_runnable_Some [OF assms] pick_runnable_None [OF assms] decode_batch_props [OF assms]
  by blast+

theorem scheduler_choice_fair_witness:
  "pick_runnable demo_scheduler \<noteq> None \<and> decode_batch demo_scheduler = []"
proof -
  have "is_runnable (new_slot demo_request 1 0 1)" by (simp add: is_runnable_def new_slot_def)
  moreover have "\<not> in_decode_batch demo_scheduler (new_slot demo_request 1 0 1)"
    by (simp add: in_decode_batch_def new_slot_def)
  moreover have "bt_get (sc_slots demo_scheduler) q = Some sl \<longleftrightarrow> q = 1 \<and> sl = new_slot demo_request 1 0 1" for q sl
    by (auto simp: demo_scheduler_def)
  ultimately show ?thesis
    using scheduler_choice_fair [OF demo_sched_ok(1)]
    by (metis list.set_intros(1) neq_Nil_conv)
qed

text \<open>
  C5 Admission: a request is admitted exactly when its sampler plan and id are valid, the id is
  new, it is for this runtime, its prompt is not empty, prompt and reserved output fit the context,
  its pages fit what is left of the pool, and a sequence id is left.
\<close>

theorem scheduler_admission:
  assumes "config_ok (sc_config s)"
  shows "admit_check rq s = Inr (q, pages, reserved) \<longleftrightarrow>
    sampler_plan_validate (rq_sampler rq) = Inr () \<and> valid_request_id (rq_request_id rq) \<and>
    bt_get (sc_ids s) (rq_request_id rq) = None \<and> rq_runtime_root rq = cfg_runtime_root (sc_config s) \<and>
    rq_prompt rq \<noteq> [] \<and>
    length (rq_prompt rq) + max_output_tokens (sp_settings (rq_sampler rq)) \<le> cfg_max_context_tokens (sc_config s) \<and>
    page_count (length (rq_prompt rq) + max_output_tokens (sp_settings (rq_sampler rq)))
      (cfg_block_size (sc_config s)) = Inr pages \<and>
    reserved = sc_reserved_pages s + pages \<and> reserved \<le> cfg_page_capacity (sc_config s) \<and>
    q = sc_next_sequence s + 1 \<and> q \<le> u64_max" (is "?l \<longleftrightarrow> ?r")
proof
  assume ?l
  then show ?r by (rule admit_check_Inr)
qed (use assms in \<open>simp add: admit_check_def res checked_defs config_ok_def max_iters_def u32_max_def
      Let_def ok_or_def\<close>)

theorem scheduler_admission_witness:
  "admit_check demo_request (scheduler_new demo_config) = Inr (1, 1, 1) \<and>
   sampler_plan_validate (rq_sampler demo_request) = Inr ()"
  using scheduler_admission [of "scheduler_new demo_config" demo_request 1 1 1] demo_admit demo_config_ok(2)
  by (simp add: scheduler_new_def)

section \<open>Properties of the KV stores\<close>

text \<open>
  C6 In the paged store, a vector written to the open token of an active sequence and committed is
  read back unchanged after any further calls on any sequences, accepted or refused, that do not
  release or deactivate that sequence or invalidate the whole pool: no reservation, eviction, write,
  abort, release or deactivation elsewhere reaches its page.
\<close>

theorem paged_committed_stable:
  assumes "paged_inv s" and "paged_fill q tk cells s = (Inr u, s1)"
    and "distinct (map (\<lambda>(l, key, _). (l, key)) cells)" and "(l, key, vs) \<in> set cells"
    and "paged_commit_token q s1 = (Inr n, s2)" and "paged_active s2 q"
    and "set cs \<inter> {TraitCall (CallRelease q), CallDeactivate q, CallInvalidate} = {}"
  shows "paged_read q l tk (length vs) key (paged_run cs s2) = Inr vs"
  using assms by (rule paged_stable)

theorem paged_committed_stable_witness:
  "paged_read 1 0 0 1 False (paged_run [TraitCall (CallBegin 2), TraitCall (CallWrite 2 0 0 [3] True),
     TraitCall (CallCommit 2), CallDeactivate 2, TraitCall (CallBegin 3), TraitCall (CallWrite 3 0 0 [4] True)]
     (snd (paged_commit_token 1 paged_demo_full))) = Inr [7]"
  using paged_committed_stable [OF paged_demo_inv paged_demo_fill, of 0 False "[7]", OF _ _ paged_demo_commit,
      of "[TraitCall (CallBegin 2), TraitCall (CallWrite 2 0 0 [3] True), TraitCall (CallCommit 2),
        CallDeactivate 2, TraitCall (CallBegin 3), TraitCall (CallWrite 3 0 0 [4] True)]"]
  by simp

text \<open>
  C7 After any calls on a fresh pool, accepted or refused, deactivations with the evictions they
  allow and invalidations of the whole pool included, the free set, the committed tables and the
  pending pages together are exactly the pages of the pool, each once, and every free page is zero.
\<close>

theorem paged_pool_partition:
  assumes "paged_with_limit layout n max_bytes = Inr s"
  shows "mset (pk_free (paged_run cs s)) +
      bt_sum (\<lambda>st. mset (table_of st)) (pk_sequences (paged_run cs s)) =
      mset_set {..<length (pk_pages (paged_run cs s))} \<and>
    (\<forall>p \<in> set (pk_free (paged_run cs s)). paged_zero (pk_pages (paged_run cs s) ! p))"
  using paged_run_inv [OF paged_new_inv(1) [OF assms], of cs]
  by (simp_all add: paged_inv_with_def paged_owned_def)

theorem paged_pool_partition_witness:
  "\<exists>s. paged_with_limit demo_layout 1 1000 = Inr s \<and>
     mset (pk_free (paged_run demo_eviction s)) +
       bt_sum (\<lambda>st. mset (table_of st)) (pk_sequences (paged_run demo_eviction s)) =
     mset_set {..<length (pk_pages (paged_run demo_eviction s))} \<and>
     bt_get (pk_sequences (paged_run demo_eviction s)) 1 = None \<and>
     paged_block_table 2 (paged_run demo_eviction s) = Inr [0]"
  using paged_pool_partition [OF demo_eviction_pool, of demo_eviction] demo_eviction_pool demo_evicted
  by blast

text \<open>
  C8 Reserving a page is refused only for want of memory, and then every page of the pool is in
  the table of the asking sequence or of an active one.
\<close>

theorem paged_reserve_complete:
  assumes "paged_inv s" and "paged_reserve q s = (Inl e, t)" and "p < length (pk_pages s)"
  shows "code e = InsufficientMemory \<and>
    (\<exists>x st. (x = q \<or> paged_active s x) \<and> bt_get (pk_sequences s) x = Some st \<and> p \<in> set (table_of st))"
  using paged_reserve_ok [OF assms(1,2)] paged_reserve_refused [OF assms] by auto

theorem paged_reserve_complete_witness:
  "\<exists>x st. (x = 2 \<or> paged_active paged_full x) \<and> bt_get (pk_sequences paged_full) x = Some st \<and> 0 \<in> set (table_of st)"
  using paged_reserve_complete [OF paged_full_inv paged_full_refuses, of 0] by (simp add: paged_full_def)

text \<open>
  C9 In a single-block store made for a layout whose slots fit \<open>usize\<close>, whatever calls came before,
  a committed vector is read back unchanged after any further calls that do not release its
  sequence. The bound is needed: nothing in the source asks for it, and the products of sizes are
  unchecked, so a larger layout makes layers share their slots.
\<close>

theorem single_committed_stable:
  assumes "single_new layout = Inr s0" and "layout_slots layout \<le> u64_max" and "s = single_run before s0"
    and "single_fill q tk cells s = (Inr u, s1)"
    and "distinct (map (\<lambda>(l, key, _). (l, key)) cells)" and "(l, key, vs) \<in> set cells"
    and "single_commit_token q s1 = (Inr n, s2)" and "single_live s2 q" and "CallRelease q \<notin> set cs"
  shows "single_read q l tk (length vs) key (single_run cs s2) = Inr vs"
  using single_run_inv [OF single_new_inv [OF assms(1,2)], of before] assms(4-9)
  by (intro single_stable [of s]) (simp_all add: assms(3))

theorem single_committed_stable_witness:
  "single_read 1 0 0 1 True (single_run [CallBegin 2, CallWrite 1 0 1 [3] True]
     (snd (single_commit_token 1 single_demo_full))) = Inr [5]"
  using single_committed_stable [OF single_demo_reached(1) _ single_demo_reached(2) [symmetric]
      single_demo_fill(1), of 0 True "[5]", OF _ _ _ single_demo_fill(2,3),
      of "[CallBegin 2, CallWrite 1 0 1 [3] True]"]
  by (simp add: demo_layout_def layout_slots_def layout_width_def u64_max_def)

text \<open>
  C10 The planned pool: a plan is made exactly for a supported layout and a non-empty pool whose
  size in bytes is within the limit and within 64 bits, and it is that exact size, whatever the
  order of the overflow checks.
\<close>

theorem planned_pool_exact:
  "planned_kv_bytes_within l n max_bytes = Inr b \<longleftrightarrow>
    layout_ok l \<and> 16 \<le> lay_block_size l \<and> lay_block_size l \<le> 65536 \<and>
    is_power_of_two (lay_block_size l) \<and> 0 < n \<and> b = layout_slots l * 8 * n \<and>
    b \<le> max_bytes \<and> b \<le> u64_max"
  by (auto simp: planned_kv_bytes_within_def res planned_kv_pool_within_Inr)

section \<open>Properties of the contracts\<close>

text \<open>
  C11 The strict decoder accepts exactly the canonical encodings: a byte string decodes to a value
  iff it is the encoding of that value, the value is within the depth, item and integer limits with
  UTF-8 text and strictly ascending keys, and the string is within the document limit.
\<close>

theorem decode_exact:
  "decode_canonical bs = Inr v \<longleftrightarrow> bs = encode v \<and> cbor_wf 0 v \<and> length bs \<le> max_document_bytes"
  by (rule decode_canonical_iff)

text \<open>
  C12 Digests are separated by domain: two payloads with the same digest have the same domain and
  are the same payload, unless these two give two different preimages that SHA-256 maps to one hash.
\<close>

theorem digest_domain_separation:
  assumes "digest_bytes sha256 d p = Inr h" and "digest_bytes sha256 e q = Inr h"
  shows "d = e \<and> p = q \<or>
    digest_preimage d p \<noteq> digest_preimage e q \<and> sha256 (digest_preimage d p) = sha256 (digest_preimage e q)"
  using assms by (rule digest_bytes_collision)

theorem digest_domain_separation_witness:
  "digest_preimage ''infer-limits'' [] \<noteq> digest_preimage ''infer-limits'' [1] \<and>
   constant_hash (digest_preimage ''infer-limits'' []) = constant_hash (digest_preimage ''infer-limits'' [1])"
proof -
  have "digest_bytes constant_hash ''infer-limits'' [] =
      Inr (DigestHex (digest_prefix @ encode_hex (replicate 32 0)))"
    and "digest_bytes constant_hash ''infer-limits'' [1] =
      Inr (DigestHex (digest_prefix @ encode_hex (replicate 32 0)))"
    by (simp_all add: digest_bytes_Inr infer_domains_def constant_hash_def)
  from digest_domain_separation [OF this] show ?thesis by simp
qed

text \<open>C13 A string is a digest exactly when it is the prefix and the lowercase hex of 32 bytes.\<close>

theorem digest_exact:
  "digest_parse s = Inr h \<longleftrightarrow>
   h = DigestHex s \<and> (\<exists>bs. length bs = 32 \<and> s = digest_prefix @ encode_hex bs)"
  by (rule digest_parse_exact)

text \<open>
  C14 Each execution contract is read from exactly its own canonical bytes: reading yields a value
  iff the value is in the range of its type and the bytes are what the writer makes of it.
\<close>

theorem execution_contracts_read_exactly:
  "(read_bytes_as sampler_plan_from_cbor bs = Inr sp \<longleftrightarrow>
      sampler_plan_typed sp \<and> document_bytes sampler_plan_to_cbor bs sp) \<and>
   (read_bytes_as grammar_plan_from_cbor bs = Inr gp \<longleftrightarrow>
      digest_ok (gp_source_root gp) \<and> document_bytes grammar_plan_to_cbor bs gp) \<and>
   (read_bytes_as inference_intent_from_cbor bs = Inr it \<longleftrightarrow>
      inference_intent_typed it \<and> document_bytes inference_intent_to_cbor bs it) \<and>
   (read_bytes_as execution_plan_from_cbor bs = Inr xp \<longleftrightarrow>
      execution_plan_typed xp \<and> document_bytes execution_plan_to_cbor bs xp) \<and>
   (read_bytes_as inference_event_from_cbor bs = Inr ev \<longleftrightarrow>
      inference_event_typed ev \<and> document_bytes inference_event_to_cbor bs ev)"
  by (simp add: sampler_plan.read_bytes grammar_plan.read_bytes inference_intent.read_bytes
      execution_plan.read_bytes inference_event.read_bytes)

text \<open>
  C15 Two limits documents with the same root are the same limits, unless the domain-separated
  preimages of their two encodings are different and SHA-256 maps them to one hash.
\<close>

theorem limits_root_collision:
  assumes "document_bytes limits_to_cbor bs x" and "document_bytes limits_to_cbor bs' y"
    and "pred_option (\<lambda>n. n \<le> u64_max) (lim_deadline_unix_micros x)"
    and "pred_option (\<lambda>n. n \<le> u64_max) (lim_deadline_unix_micros y)"
    and "limits_root sha256 x = limits_root sha256 y"
  shows "x = y \<or> digest_preimage ''infer-limits'' bs \<noteq> digest_preimage ''infer-limits'' bs' \<and>
    sha256 (digest_preimage ''infer-limits'' bs) = sha256 (digest_preimage ''infer-limits'' bs')"
  using assms by (rule limits.root_collision)

theorem limits_root_collision_witness:
  "digest_preimage ''infer-limits'' (encode (demo_limits_cbor 1)) \<noteq>
     digest_preimage ''infer-limits'' (encode (demo_limits_cbor 2)) \<and>
   constant_hash (digest_preimage ''infer-limits'' (encode (demo_limits_cbor 1))) =
     constant_hash (digest_preimage ''infer-limits'' (encode (demo_limits_cbor 2)))"
proof -
  have doc: "document_bytes limits_to_cbor (encode (demo_limits_cbor 1)) (demo_limits 1)"
      "document_bytes limits_to_cbor (encode (demo_limits_cbor 2)) (demo_limits 2)"
    by (simp_all add: demo_limits_document)
  have "limits_root constant_hash (demo_limits 1) = limits_root constant_hash (demo_limits 2)"
    using doc [THEN limits.root_some] by (simp add: digest_bytes_def constant_hash_def)
  with limits_root_collision [OF doc] show ?thesis by (simp add: demo_limits_def)
qed

text \<open>C16 The documents nested in the contracts are read from exactly their own canonical form.\<close>

theorem shared_documents_read_exactly:
  "(read_bytes_as fixed_point_sampler_from_cbor bs = Inr fs \<longleftrightarrow> document_bytes fixed_point_sampler_to_cbor bs fs) \<and>
   (read_bytes_as signature_from_cbor bs = Inr sg \<longleftrightarrow> document_bytes signature_to_cbor bs sg) \<and>
   (read_bytes_as artifact_file_from_cbor bs = Inr af \<longleftrightarrow>
      artifact_file_typed af \<and> document_bytes artifact_file_to_cbor bs af) \<and>
   (read_bytes_as special_tokens_from_cbor bs = Inr st \<longleftrightarrow>
      special_tokens_typed st \<and> document_bytes special_tokens_to_cbor bs st) \<and>
   (read_bytes_as limits_from_cbor bs = Inr lim \<longleftrightarrow>
      pred_option (\<lambda>n. n \<le> u64_max) (lim_deadline_unix_micros lim) \<and> document_bytes limits_to_cbor bs lim)"
  by (simp add: sampler_settings.read_bytes signature.read_bytes artifact_file.read_bytes
      special_tokens.read_bytes limits.read_bytes)

text \<open>
  C17 An artifact path is accepted exactly when it has at most 512 bytes and is one or more names
  joined by single slashes, each a non-empty sequence of letters, digits, dots, underscores and
  hyphens other than the two dot names; so no path is absolute or climbs out of its directory, and
  the checks the code makes before it splits the path are implied.
\<close>

theorem relative_path_exact:
  "validate_relative_path path = Inr () \<longleftrightarrow> length path \<le> 512 \<and>
   (\<exists>segs. segs \<noteq> [] \<and> ''/'' @ path = concat (map (\<lambda>seg. ''/'' @ seg) segs) \<and>
     list_all (\<lambda>seg. seg \<notin> {[], ''.'', ''..''} \<and> set seg \<subseteq> {CHR ''0''..CHR ''9''} \<union> {CHR ''A''..CHR ''Z''} \<union>
       {CHR ''a''..CHR ''z''} \<union> {CHR ''.'', CHR ''_'', CHR ''-''}) segs)"
  by (rule relative_path_names)

text \<open>
  C18 A file list is valid exactly when it has 1 to 1024 files, every path comes before all the
  later ones, so that no two are equal, no file is empty, and every path is one that C17 describes.
\<close>

theorem file_list_exact:
  "validate_files files = Inr () \<longleftrightarrow> 1 \<le> length files \<and> length files \<le> 1024 \<and>
   sorted_wrt (\<lambda>a b. af_path a < af_path b) files \<and> distinct (map af_path files) \<and>
   list_all (\<lambda>a. 0 < af_size_bytes a \<and> length (af_path a) \<le> 512 \<and>
     (\<exists>segs. segs \<noteq> [] \<and> ''/'' @ af_path a = concat (map (\<lambda>seg. ''/'' @ seg) segs) \<and>
       list_all (\<lambda>seg. seg \<notin> {[], ''.'', ''..''} \<and> set seg \<subseteq> {CHR ''0''..CHR ''9''} \<union> {CHR ''A''..CHR ''Z''} \<union>
       {CHR ''a''..CHR ''z''} \<union> {CHR ''.'', CHR ''_'', CHR ''-''}) segs)) files"
proof -
  have "length files \<ge> 1 \<longleftrightarrow> files \<noteq> []" by (cases files) simp_all
  moreover have "sorted_wrt (<) (map af_path files) \<longleftrightarrow>
      sorted_wrt (\<lambda>a b. af_path a < af_path b) files \<and> distinct (map af_path files)"
    using strict_sorted_distinct [of "map af_path files"] by (auto simp: sorted_wrt_map)
  ultimately show ?thesis
    unfolding validate_files_exact artifact_file_exact relative_path_names list_all_iff by auto
qed

text \<open>C19 The byte total is the exact sum, or a failure exactly when the sum exceeds 64 bits.\<close>

theorem byte_total_exact:
  "(u64_array_sum vs = Inr n \<longleftrightarrow> n = sum_list vs \<and> n \<le> u64_max) \<and>
   ((\<exists>e. u64_array_sum vs = Inl e) \<longleftrightarrow> u64_max < sum_list vs)"
  using u64_array_sum_exact u64_array_sum_overflow by blast

text \<open>C20 Error codes and their names correspond one to one: parsing inverts naming.\<close>

theorem error_code_names:
  "code_parse s = Some c \<longleftrightarrow> s = code_as_str c"
  using code_parse_as_str code_parse_sound by blast

subsection \<open>Sampling\<close>

text \<open>
  C21 For every key the generator maps the counters one to one onto the counters, so different
  steps or streams under one seed never share a block; and the all-zero block is the published
  known answer.
\<close>

theorem philox_block_bijection:
  "bij (\<lambda>counter. philox4x32_10 counter key) \<and>
   philox4x32_10 (0, 0, 0, 0) (0, 0) = (0x6627E8D5, 0xE169C58D, 0xBC57AC4C, 0x9B00DBD8)"
  by (simp add: bij_philox philox_known_answer)

text \<open>
  C22 At temperature zero the sampled token is the lowest index of a greatest penalized logit,
  whatever top-k, top-p, min-p, seed, stream and step are, unless a penalized logit is a negative
  zero.
\<close>

theorem greedy_sample_exact:
  assumes "temperature_micros (sp_settings plan) = 0" and "sampler_plan_validate plan = Inr ()"
    and "list_all f32_is_finite ls" and "ls \<noteq> []" and "apply_penalties fo plan history ls = Inr adjusted"
    and "0x80000000 \<notin> set adjusted"
  shows "sample_token fo ls plan history step = Inr t \<longleftrightarrow> greedy_index adjusted t \<and> t \<le> u32_max"
  using sample_token_temperature_0 [OF assms] by (simp add: lowest_finite_argmax_ok)

theorem greedy_sample_exact_witness:
  "sample_token demo_float demo_logits demo_sampler [] 0 = Inr 1"
  using greedy_sample_exact [OF _ demo_sampler_ok demo_logits_ok(1,2) demo_adjusted demo_logits_ok(3), of 0 1]
    demo_logits_ok(4)
  by (simp add: demo_sampler_def u32_max_def)

text \<open>
  C23 A sampled token is an index of the logits and, if dividing a zero gives a zero, one of the
  top-k of the penalized logits: fewer than k of them are greater, or equal at a lower index. The one
  exception is token 0, when the temperature is not 0 and rounding left no positive probability in
  the distribution that the choice is made from.
\<close>

theorem sampled_token_in_top_k:
  assumes "divides_zero fo" and "sample_token fo ls plan history step = Inr t"
    and "apply_penalties fo plan history ls = Inr adjusted" and "length ls \<le> 4294967296"
  shows "t < length ls \<and>
    (top_k (sp_settings plan) = 0 \<or>
     card {j. j < length adjusted \<and> (f_total (adjusted ! t) < f_total (adjusted ! j) \<or>
       f_total (adjusted ! t) = f_total (adjusted ! j) \<and> j < t)} < top_k (sp_settings plan) \<or>
     t = 0 \<and> temperature_micros (sp_settings plan) \<noteq> 0 \<and>
       (\<exists>qs. sampling_probs fo (sp_settings plan) adjusted = Inr qs \<and> list_all (f64_ge 0) qs))"
  using sample_token_bound [OF assms(2,4)] sample_token_top_k [OF assms]
    top_k_kept_before [of t "top_k (sp_settings plan)" adjusted]
  unfolding top_k_before_def by blast

theorem sampled_token_in_top_k_witness:
  "card {j. j < length demo_logits \<and> (f_total (demo_logits ! 1) < f_total (demo_logits ! j) \<or>
     f_total (demo_logits ! 1) = f_total (demo_logits ! j) \<and> j < 1)} < 1"
proof -
  have "divides_zero hot_float" by (simp add: divides_zero_def hot_float_def demo_float_def)
  from sampled_token_in_top_k [OF this hot_sample hot_penalties] show ?thesis
    by (simp only: hot_top_k demo_logits_length) simp
qed

text \<open>
  C24 Generation of one request always returns: with the tokens reported in order, at least one and
  at most the limit, an end token only in the last place, and the finish reason that tells which
  of the two stopped it; or with a failure after some reported tokens.
\<close>

theorem generation_ends:
  "\<exists>r w'. generate_samples_with eng sq prompt plan w = Some (r, w') \<and>
    (case r of
       Inr out \<Rightarrow> generated plan out \<and> g_emitted w' = g_emitted w @ so_tokens out
     | Inl e \<Rightarrow> \<exists>ts. g_emitted w' = g_emitted w @ ts)"
  by (rule generate_samples_ends)

subsection \<open>Journals\<close>

text \<open>
  C25 A journal written by at most 1,000,000 successful appends verifies exactly when its first event
  is accepted and its last is terminal, and then yields the root the last append returned. (Past the
  million C27 says what happens instead.)
\<close>

theorem journal_verifies_exactly:
  assumes "\<And>x. length (sha256 x) = 32" and "bt_ok es"
    and "journal_create rid (RDir es) = (Inr j0, root0)"
    and "journal_appends sha256 can_write evs (j0, root0) = (Inr (), (j, root))"
    and "length evs \<le> 1000000" and "list_all (\<lambda>(name, payload). digest_ok payload) evs"
  shows "verify_journal sha256 rid root = Inr h \<longleftrightarrow>
    evs \<noteq> [] \<and> fst (hd evs) = ''accepted'' \<and> terminal_name (fst (last evs)) \<and> j_previous j = Some h"
proof -
  have "journal_log sha256 rid ([] @ map fst evs) (j, root)"
    using journal_log_create [OF assms(3,2)] assms(5,6)
    by (intro journal_log_appends [OF assms(1) _ _ _ assms(4)]) simp_all
  then show ?thesis using verify_journal_log [of sha256 rid "map fst evs" j root h] assms(5)
    by (simp add: hd_map last_map cong: conj_cong)
qed

theorem journal_verifies_exactly_witness:
  "\<exists>j root. journal_appends constant_hash can_always [(''accepted'', demo_digest), (''completed'', demo_digest)]
      (demo_journal 0, RDir [(''a'', EDir [])]) = (Inr (), (j, root)) \<and>
    verify_journal constant_hash ''a'' root = Inr demo_digest"
proof -
  obtain j root where a: "journal_appends constant_hash can_always [(''accepted'', demo_digest), (''completed'', demo_digest)]
      (demo_journal 0, RDir [(''a'', EDir [])]) = (Inr (), (j, root))" "j_previous j = Some demo_digest"
    using demo_appends by blast
  have "verify_journal constant_hash ''a'' root = Inr demo_digest"
    using journal_verifies_exactly [OF length_constant_hash _ demo_create a(1), of demo_digest] a(2) demo_digest_ok
    by (simp add: terminal_name_def)
  then show ?thesis using a(1) by blast
qed

text \<open>
  C26 Where every journal has fewer than 1,000,000 events: after a recovery that succeeds, every
  journal left in the directory verifies, and a second recovery seals nothing and changes nothing.
\<close>

theorem recovery_seals_all:
  assumes "\<And>x. length (sha256 x) = 32" and "bt_ok es"
    and "\<And>r fs. bt_get es r = Some (EDir fs) \<Longrightarrow> bt_ok fs \<and> length (event_names fs) < 1000000"
    and "recover_open_journals sha256 can_write (RDir es) = (Inr c, root')"
  shows "\<exists>es'. root' = RDir es' \<and>
    list_all (\<lambda>r. \<exists>h. verify_journal sha256 r root' = Inr h) (bt_keys es') \<and>
    recover_open_journals sha256 can_write root' = (Inr 0, root')"
proof -
  have "journals_ok es" using assms(2,3) by (simp add: journals_ok_def)
  from recover_open_journals_ok [OF assms(1) this assms(4)] obtain es' where es': "root' = RDir es'"
      "\<And>r. bt_get es' r \<noteq> None \<Longrightarrow> \<exists>h. verify_journal sha256 r root' = Inr h"
      "recover_open_journals sha256 can_write root' = (Inr 0, root')"
    by blast
  have "bt_get es' r \<noteq> None" if "r \<in> set (bt_keys es')" for r
    using that by (simp add: bt_keys_def bt_get_None)
  then show ?thesis using es' by (auto simp: list_all_iff)
qed

theorem recovery_seals_all_witness:
  "\<exists>es es'. recover_open_journals constant_hash can_always (RDir es) = (Inr 1, RDir es') \<and>
    list_all (\<lambda>r. \<exists>h. verify_journal constant_hash r (RDir es') = Inr h) (bt_keys es')"
proof -
  obtain es root' where r: "journals_ok es"
      "recover_open_journals constant_hash can_always (RDir es) = (Inr 1, root')"
    using demo_recovery by blast
  have "\<exists>es'. root' = RDir es' \<and>
      list_all (\<lambda>r. \<exists>h. verify_journal constant_hash r root' = Inr h) (bt_keys es') \<and>
      recover_open_journals constant_hash can_always root' = (Inr 0, root')"
    using r(1) by (intro recovery_seals_all [OF length_constant_hash _ _ r(2)]) (auto simp: journals_ok_def)
  with r(2) show ?thesis by auto
qed

text \<open>
  C27 From event 1,000,000 on, an append succeeds and is not seen: the index no longer has six
  digits, so the directory verifies to what it verified to before the event.
\<close>

theorem late_events_unseen:
  assumes "1000000 \<le> j_next_index j" and "bt_ok es" and "bt_get es (j_request_id j) = Some (EDir fs)" and "bt_ok fs"
    and "journal_append sha256 can_write name payload (j, RDir es) = (Inr h, (j', root'))"
  shows "verify_journal sha256 (j_request_id j) root' = verify_journal sha256 (j_request_id j) (RDir es)"
  using assms by (rule append_unseen)

theorem late_events_unseen_witness:
  "\<exists>j root'. journal_append constant_hash can_always ''accepted'' demo_digest
      (demo_journal 1000000, RDir [(''a'', EDir [])]) = (Inr demo_digest, (j, root')) \<and>
    verify_journal constant_hash ''a'' root' = verify_journal constant_hash ''a'' (RDir [(''a'', EDir [])])"
proof -
  obtain j root' where a: "journal_append constant_hash can_always ''accepted'' demo_digest
      (demo_journal 1000000, RDir [(''a'', EDir [])]) = (Inr demo_digest, (j, root'))"
    using demo_first [of 1000000] by blast
  have "verify_journal constant_hash ''a'' root' = verify_journal constant_hash ''a'' (RDir [(''a'', EDir [])])"
    using late_events_unseen [OF _ _ _ _ a, of "[]"] by (simp add: demo_journal_def bt_ok_def)
  then show ?thesis using a by blast
qed

text \<open>
  C28 The frame decoder of the socket, a buffer with a read position that is compacted now and then, is
  a queue of unread bytes: pushing and popping give the results the queue gives, failures included, and
  leave the queue's bytes unread.
\<close>

theorem frame_decoder_refines_queue:
  assumes "frame_ok d"
  shows "map_prod id unread (frame_push bytes d) = queue_push bytes (unread d) \<and>
    frame_ok (snd (frame_push bytes d)) \<and>
    map_prod id unread (frame_pop d) = queue_pop (unread d) \<and> frame_ok (snd (frame_pop d)) \<and>
    (frame_has_unread d \<longleftrightarrow> unread d \<noteq> [])"
  using frame_push_refines [OF assms] frame_pop_refines [OF assms] by (simp add: has_unread)

theorem frame_decoder_refines_queue_witness:
  "map_prod id unread (frame_push [0, 0, 0] frame_new) = (Inr (), [0, 0, 0]) \<and>
   map_prod id unread (frame_pop \<lparr>fd_buf = [7, 0, 0, 0, 0], fd_pos = 1\<rparr>) =
     (Inl (fail ContractInvalid ''ipc frame length is outside 1..=1048576''), [0, 0, 0, 0])"
proof -
  have ok: "frame_ok \<lparr>fd_buf = [7, 0, 0, 0, 0 :: u8], fd_pos = 1\<rparr>" by (simp add: frame_ok_def)
  show ?thesis
    using frame_decoder_refines_queue [OF frame_new_ok(1), of "[0, 0, 0]"] frame_decoder_refines_queue [OF ok]
    by (simp add: frame_new_def queue_push_def queue_pop_def unread_def max_frame_def be_value_def)
qed

text \<open>
  C29 A document read from the socket is taken for the message \<open>m\<close> exactly when it is the document the
  other side writes for \<open>m\<close>, in both directions, so no message has two spellings and a message
  outside its bounds is neither written nor read.
\<close>

theorem protocol_exact:
  assumes "cbor_sorted v"
  shows "(decode_to_worker v = Inr r \<longleftrightarrow> to_worker_typed r \<and> encode_to_worker r = Inr v) \<and>
    (decode_from_worker v = Inr m \<longleftrightarrow> from_worker_typed m \<and> encode_from_worker m = Inr v)"
  using assms by (simp add: to_worker_iff from_worker_iff)

theorem protocol_exact_witness:
  "decode_to_worker demo_cancel = Inr (Cancel ''a'') \<and> decode_from_worker demo_ack = Inr (Ack ''a'')"
  using protocol_exact [OF demo_messages_sorted(1), of "Cancel ''a''"]
    protocol_exact [OF demo_messages_sorted(2), of _ "Ack ''a''"] demo_encoded demo_ack_ok
  by simp

text \<open>
  C30 What the worker sends is what the supervisor receives: the messages of one connection, encoded,
  framed and written one after the other, come out as the same list, each once and in order, however
  the stream is cut into reads of at most 8 KiB.
\<close>

theorem ipc_delivers:
  assumes "ipc_send ms [] = (Inr u, bytes)" and "list_all from_worker_typed ms"
    and "list_all from_worker_text ms" and "concat chunks = bytes" and "list_all (\<lambda>c. length c \<le> 8192) chunks"
  shows "ipc_receive chunks = Inr ms"
  using assms by (rule ipc_conversation)

theorem ipc_delivers_witness:
  "ipc_receive (map (\<lambda>b. [b]) (frame_bytes demo_ack @ frame_bytes demo_ack)) = Inr [Ack ''a'', Ack ''a'']"
proof (rule ipc_delivers [OF demo_ack_sent demo_ack_ok])
  show "concat (map (\<lambda>b. [b]) (frame_bytes demo_ack @ frame_bytes demo_ack)) =
    frame_bytes demo_ack @ frame_bytes demo_ack"
    by (simp only: concat_map_singleton list.map_ident)
qed (simp add: list_all_iff)

text \<open>
  C31 In every reachable state of the supervisor's threads, as long as fewer than 2 ^ 64 worker
  generations have begun: while the worker is not ready nobody waits on
  it and no process, socket or directory of it is kept; the reserved count is the number of holds; at
  most 64 requests are in flight.
\<close>

theorem supervisor_slot_invariant:
  assumes "sup_reachable s" and "sy_gens s < 2 ^ 64"
  shows "(if wk_state (sy_slot s) = WorkerReady
     then \<exists>n. wk_child (sy_slot s) = Some n \<and> wk_writer (sy_slot s) = Some n \<and> wk_reader (sy_slot s) = Some n
     else wk_completion (sy_slot s) = [] \<and> wk_cancel (sy_slot s) = [] \<and> wk_stats (sy_slot s) = None \<and>
       wk_child (sy_slot s) = None \<and> wk_writer (sy_slot s) = None \<and> wk_dir (sy_slot s) = None) \<and>
    wk_reserved (sy_slot s) = sy_holds s \<and> length (wk_completion (sy_slot s)) \<le> max_inflight"
  using sup_reachable_inv [OF assms] by (auto simp: sup_inv_def slot_inv_def holds_inv_def)

theorem supervisor_slot_invariant_witness:
  "wk_reserved (sy_slot demo_held) = sy_holds demo_held \<and> length (wk_completion (sy_slot demo_held)) \<le> max_inflight"
proof -
  have "sy_gens demo_held < 2 ^ 64" by (simp add: demo_held_def demo_sys)
  then show ?thesis using supervisor_slot_invariant [OF demo_held_reachable] by simp
qed

text \<open>
  C32 The channel of a submitted request, in every reachable state with fewer than 2 ^ 64 worker
  generations: while it is registered no final
  outcome was sent on it; once it is not, exactly one was, as the last event, unless the handler took the
  request back. Loss of the worker, a stop, a result, a rejection and a new worker all included.
\<close>

theorem completion_channel_protocol:
  assumes "sup_reachable s" and "sy_gens s < 2 ^ 64" and "c \<in> sy_submitted s"
  shows "if c \<in> Map.ran (bt_get (wk_completion (sy_slot s)))
    then channel_open (channel_events c (sv_events (sy_sup s)))
    else channel_closed (channel_events c (sv_events (sy_sup s))) \<or>
      c \<in> sy_withdrawn s \<and> channel_open (channel_events c (sv_events (sy_sup s)))"
proof -
  have inv: "channels_inv s" using sup_reachable_inv [OF assms(1,2)] by simp
  then show ?thesis using assms(3) unfolding channels_inv_def chan_inv_def by metis
qed

theorem completion_channel_protocol_witness:
  "\<exists>s. sup_reachable s \<and> (channel_closed (channel_events 0 (sv_events (sy_sup s))) \<or>
      0 \<in> sy_withdrawn s \<and> channel_open (channel_events 0 (sv_events (sy_sup s))))"
proof -
  obtain s where s: "sup_reachable s" "sy_gens s = 1" "sy_submitted s = {0}" "wk_completion (sy_slot s) = []"
    using demo_request_reachable by blast
  then show ?thesis using completion_channel_protocol [OF s(1), of 0] by (intro exI [of _ s]) simp
qed

text \<open>
  C33 A drain is final: from a reachable state that drains, whatever the threads do in fewer than 2 ^ 64
  worker generations, the supervisor keeps
  draining and the number of requests reserved or in flight never grows.
\<close>

theorem drain_is_final:
  assumes "sup_reachable s" and "wk_draining (sy_slot s)" and "sup_step\<^sup>*\<^sup>* s s'" and "sy_gens s' < 2 ^ 64"
  shows "wk_draining (sy_slot s') \<and> occupancy (sy_slot s') \<le> occupancy (sy_slot s)"
  using assms by (intro drained_steps)

theorem drain_is_final_witness:
  "\<exists>s. sup_step\<^sup>*\<^sup>* demo_held s \<and> wk_draining (sy_slot s) \<and> occupancy (sy_slot s) \<le> 1"
proof -
  let ?s = "demo_held\<lparr>sy_sup := snd (begin_drain (sy_sup demo_held))\<rparr>"
  have step: "sup_step demo_held ?s"
    by (rule sup_step.drain) (simp add: lock_free_def demo_held_def demo_sys)
  then have r: "sup_reachable ?s" using demo_held_reachable by (rule sup_reachable.step [rotated])
  have "wk_draining (sy_slot ?s)" by simp
  moreover have "occupancy (sy_slot ?s) = 1"
    by (simp add: demo_held_def demo_sys occupancy_def saturating_defs u64_max_def)
  moreover have "sy_gens ?s < 2 ^ 64" by (simp add: demo_held_def demo_sys)
  ultimately have "wk_draining (sy_slot ?s) \<and> occupancy (sy_slot ?s) \<le> 1"
    using drain_is_final [OF r _ rtranclp.rtrancl_refl] by simp
  then show ?thesis using step by blast
qed

text \<open>
  C34 The supervisor can block for ever: a model that is unloaded while its worker starts leaves a
  reachable state in which a thread joins a reader thread with the mutex held, the reader needs the mutex to
  end, and no thread ever gets the mutex again.
\<close>

theorem unload_during_start_blocks:
  "\<exists>s. sup_reachable s \<and> wk_unloading (sy_slot s) \<and> sy_submitted s = {} \<and> stuck s"
  using demo_joining_reachable demo_joining_stuck
  by (intro exI [of _ demo_joining]) (simp add: demo_joining_def demo_stopped_def demo_unloading_def demo_sys)

text \<open>
  C35 A worker that dies between its ready message and its installation is installed: a reachable state
  is ready although the reader of its worker has ended, and without a stop or a new start it stays ready.
\<close>

theorem dead_worker_stays_ready:
  "\<exists>s n g. sup_reachable s \<and> is_ready (sy_sup s) \<and> wk_reader (sy_slot s) = Some n \<and>
    sy_readers s n = Some (g, ReaderDone) \<and> lost_unnoticed s"
  using demo_ready_reachable readers_done_lost [OF demo_ready_lost]
  by (intro exI [of _ demo_ready] exI [of _ 0] exI [of _ 1])
    (simp add: demo_ready_def demo_dead_def demo_sys is_ready_def)


text \<open>
  C36 A worker keeps the protocol the supervisor expects, whatever arrives, whatever model and store do,
  and also when the session ends in a failure: a request is admitted before anything is reported of it,
  its prefill chunks and its tokens are numbered without a gap, its result carries exactly the tokens
  reported and is the last of the messages that report on it; acknowledgements and rejections are
  replies to the supervisor's own messages and stand outside this order.
\<close>

theorem worker_conversation:
  assumes "config_ok cfg" and "w_sched (ss_world s) = scheduler_new cfg"
    and "ss_prefill_chunks s = []" and "ss_sent s = []"
  shows "conversation_ok (ss_sent (snd (serve_connection eng env is s)))"
  using serve_connection_talk [of s eng env "is"] session_inv_new [of s] sched_inv_new [OF assms(1)] assms
  by (simp add: scheduler_new_def talk_ok_def)

theorem worker_conversation_witness:
  "conversation_ok (ss_sent (snd (serve_connection demo_engine demo_worker_env
      [InputFrame (CMap []), InputTurn, InputTurn] demo_session))) \<and>
   conversation_ok [Ready ''rt'', Admitted ''a'', Prefill ''a'' 0 3, Delta ''a'' 0 7, Result ''a'' [7] ''stop'' None] \<and>
   \<not> conversation_ok [Admitted ''a'', Delta ''a'' 0 7, Result ''a'' [] ''stop'' None]"
proof (intro conjI)
  show "conversation_ok (ss_sent (snd (serve_connection demo_engine demo_worker_env
      [InputFrame (CMap []), InputTurn, InputTurn] demo_session)))"
    by (rule worker_conversation [OF demo_config_ok(2)]) (simp_all add: demo_session_def)
qed (simp_all add: conversation_ok_def)


text \<open>
  C37 The strict JSON reader returns well-typed values only, for every input: no null, no key twice, keys
  and strings within their limits, integers of 64 bits, at most 32 nested arrays and objects and at most
  1,048,576 values. And the model's fuel is enough on every input, accepted or refused: any more of it
  gives the same answer and the same rest, so no answer is for want of fuel.
\<close>

theorem strict_json_well_typed:
  "(parse_strict_json input c = Inr v \<longrightarrow>
      json_ok False max_json_depth v \<and> json_size v \<le> max_json_values \<and> length input \<le> max_json_bytes) \<and>
   (\<forall>n. parse_value c False (2 * length input + 1 + n) \<lparr>jp_rest = dropWhile is_ws input, jp_depth = 0, jp_values = 0\<rparr> =
      parse_value c False (2 * length input + 1) \<lparr>jp_rest = dropWhile is_ws input, jp_depth = 0, jp_values = 0\<rparr>)"
proof (intro conjI impI allI)
  assume "parse_strict_json input c = Inr v"
  then show "json_ok False max_json_depth v" "json_size v \<le> max_json_values" "length input \<le> max_json_bytes"
    using parse_json_ok [of input c False v] by (simp_all add: parse_strict_json_def)
next
  fix n
  let ?p = "\<lparr>jp_rest = dropWhile is_ws input, jp_depth = 0, jp_values = 0\<rparr>"
  show "parse_value c False (2 * length input + 1 + n) ?p = parse_value c False (2 * length input + 1) ?p"
    using parse_value_fuel [of "2 * length input + 1" "2 * length input + 1 + n" c False] ws_shorter [of input]
    by (simp add: same_def)
qed

theorem strict_json_well_typed_witness:
  "\<exists>v. parse_strict_json demo_tokenizer_json TokenizerInvalid = Inr v \<and> json_ok False max_json_depth v"
  using demo_json strict_json_well_typed by blast

text \<open>
  C38 A list tokenizer tokenizes greedily, and losslessly: on every text the encoder returns; it succeeds
  with exactly the tokenization that takes the longest matching token at each position, the lowest id among
  equals; and decoding that tokenization gives the text back.
\<close>

theorem tokenizer_greedy_roundtrip:
  assumes "list_tokenizer t"
  shows "encode_text lib t s \<noteq> None \<and> (encode_text lib t s = Some (Inr ids) \<longleftrightarrow> greedy (mt_tokens t) ids s) \<and>
    (encode_text lib t s = Some (Inr ids) \<longrightarrow> decode_tokens lib t ids = Inr s)"
  using encode_text_cases [OF assms, of lib s] encode_text_exact [OF assms, of lib s ids]
    decode_text_exact [OF assms, of ids s lib] by auto

theorem tokenizer_greedy_roundtrip_witness:
  "encode_text demo_lib demo_tokenizer ''abaab'' = Some (Inr [2, 1, 2]) \<and>
   decode_tokens demo_lib demo_tokenizer [2, 1, 2] = Inr ''abaab''"
proof -
  have t: "list_tokenizer demo_tokenizer"
    by (simp add: list_tokenizer_def demo_tokenizer_def demo_tokens_def u32_max_def)
  have "encode_text demo_lib demo_tokenizer ''abaab'' = Some (Inr [2, 1, 2])" by code_simp
  then show ?thesis using tokenizer_greedy_roundtrip [OF t, of demo_lib "''abaab''" "[2, 1, 2]"] by simp
qed

text \<open>
  C39 The text of a role or a content is never read as template text: rendering messages, a non-empty
  list as \<open>PromptInput::validate\<close> demands, gives exactly what
  parsing the template once, without the messages, and filling in its two lookups gives, and fails exactly
  when the template is not in the grammar or a limit is passed.
\<close>

theorem render_injection_free:
  assumes "ms \<noteq> []"
  shows "render_chat_template template ms = Inr out \<longleftrightarrow>
    length template \<le> max_rendered_bytes \<and> length ms \<le> max_messages \<and>
    (\<exists>t. parse_template template = Some t \<and> out = instantiate_template t ms \<and> length out \<le> max_rendered_bytes)"
  using assms by (rule render_exact)

theorem render_injection_free_witness:
  "render_chat_template demo_template [demo_message] = Inr ''ab{{ message.role }}'' \<and>
   (\<exists>t. parse_template demo_template = Some t \<and> instantiate_template t [demo_message] = ''ab{{ message.role }}'')"
proof -
  have "render_chat_template demo_template [demo_message] = Inr ''ab{{ message.role }}''" by code_simp
  then show ?thesis
    using render_injection_free [of "[demo_message]" demo_template "''ab{{ message.role }}''"] by auto
qed

text \<open>
  C40 A compiled prompt is what its parts make of it: the rendered text fills the image's template with the
  messages, the tokens are the image's begin token, if it has one, and then exactly what the image's
  tokenizer makes of that text; decoding those of a list tokenizer gives the begin token and the text
  back, nothing is dropped, the tokens and the reserved ones fit the context, the roots are those of the image, and the plan
  is valid. And on every input of that image the compiler returns.
\<close>

theorem prompt_compiler_exact:
  assumes "compile_with_evidence sha256 lib img input vocab max_context reserved = Some (Inr cp)"
    and "vocab \<le> u32_max"
  shows "(\<exists>template t tokenizer.
      from_utf8 (emb_bytes (mi_template img)) = Some template \<and> parse_template template = Some t \<and>
      pp_rendered_text (cp_plan cp) = instantiate_template t (pi_messages input) \<and>
      parse_tokenizer lib (emb_bytes (mi_tokenizer img)) vocab = Inr tokenizer \<and>
      (\<exists>ids. encode_text lib tokenizer (pp_rendered_text (cp_plan cp)) = Some (Inr ids) \<and>
        pp_token_ids (cp_plan cp) = (case st_bos (mi_special_tokens img) of None \<Rightarrow> [] | Some bos \<Rightarrow> [bos]) @ ids) \<and>
      (mt_hf tokenizer = None \<longrightarrow> decode_tokens lib tokenizer (pp_token_ids (cp_plan cp)) =
        Inr ((if st_bos (mi_special_tokens img) = None then [] else ''<bos>'') @ pp_rendered_text (cp_plan cp)))) \<and>
    length (pp_token_ids (cp_plan cp)) + reserved \<le> max_context \<and> pp_token_ids (cp_plan cp) \<noteq> [] \<and>
    tr_removed_ids (pp_truncation (cp_plan cp)) = [] \<and>
    pp_template_root (cp_plan cp) = emb_root (mi_template img) \<and>
    pp_tokenizer_root (cp_plan cp) = emb_root (mi_tokenizer img) \<and> prompt_plan_validate (cp_plan cp) = Inr () \<and>
    (\<forall>more. compile_with_evidence sha256 lib img more vocab max_context reserved \<noteq> None)"
proof -
  obtain source encoded where src: "prepare_prompt sha256 lib img input vocab = Inr source"
      and enc: "encode_text lib (ps_tokenizer source) (ps_rendered source) = Some (Inr encoded)"
      and fin: "finish_prompt sha256 img input max_context reserved source encoded = Inr cp"
    using compile_ok [OF assms(1)] by blast
  note parts = prepare_prompt_ok [OF src] and plan = finish_prompt_ok [OF fin]
  obtain template where t: "from_utf8 (emb_bytes (mi_template img)) = Some template"
      "render_chat_template template (pi_messages input) = Inr (ps_rendered source)" using parts(4) by blast
  then obtain u where u: "parse_template template = Some u" "ps_rendered source = instantiate_template u (pi_messages input)"
    using render_exact [OF parts(6)] by blast
  then have "\<exists>template t tokenizer.
      from_utf8 (emb_bytes (mi_template img)) = Some template \<and> parse_template template = Some t \<and>
      pp_rendered_text (cp_plan cp) = instantiate_template t (pi_messages input) \<and>
      parse_tokenizer lib (emb_bytes (mi_tokenizer img)) vocab = Inr tokenizer \<and>
      (\<exists>ids. encode_text lib tokenizer (pp_rendered_text (cp_plan cp)) = Some (Inr ids) \<and>
        pp_token_ids (cp_plan cp) = (case st_bos (mi_special_tokens img) of None \<Rightarrow> [] | Some bos \<Rightarrow> [bos]) @ ids) \<and>
      (mt_hf tokenizer = None \<longrightarrow> decode_tokens lib tokenizer (pp_token_ids (cp_plan cp)) =
        Inr ((if st_bos (mi_special_tokens img) = None then [] else ''<bos>'') @ pp_rendered_text (cp_plan cp)))"
    using t(1) parts(1) plan enc compile_decodes [OF src assms(2) enc]
    by (intro exI [of _ template] exI [of _ u] exI [of _ "ps_tokenizer source"]) simp
  moreover have "compile_with_evidence sha256 lib img more vocab max_context reserved \<noteq> None" for more
    by (rule compile_returns [OF assms(2)])
  ultimately show ?thesis using plan unfolding parts(2,3) by blast
qed

theorem prompt_compiler_exact_witness:
  "\<exists>cp. compile_with_evidence demo_hash demo_lib demo_image demo_input 5 16 4 = Some (Inr cp) \<and>
    length (pp_token_ids (cp_plan cp)) + 4 \<le> 16 \<and> pp_template_root (cp_plan cp) = emb_root (mi_template demo_image)"
proof -
  obtain cp where cp: "compile_with_evidence demo_hash demo_lib demo_image demo_input 5 16 4 = Some (Inr cp)"
    using demo_compiles by blast
  have "(5::nat) \<le> u32_max" by (simp add: u32_max_def)
  from prompt_compiler_exact [OF cp this] show ?thesis using cp by blast
qed

end
